(* ===== verification/Prelude.thy ===== *)
theory Prelude
  imports
    "HOL-Library.AList"
    "HOL-Library.List_Lexorder"
    "HOL-Library.Char_ord"
    "HOL-Library.Product_Lexorder"
    "HOL-Library.Code_Target_Nat"
    "HOL-Library.Word"
begin

section \<open>Prelude: the parts of the Rust standard library the brain uses\<close>

text \<open>
  Shared vocabulary of the development: fixed-width integer arithmetic, UTF-8 strings with
  \<open>trim\<close> and the ASCII case operations, iterator combinators (\<open>min_by\<close>, a \<open>retain\<close> that
  keeps first occurrences), hash maps as association lists with distinct keys, and the generic
  lemmas on them that the component theories use.

  Integers are \<^typ>\<open>nat\<close>; every Rust operation that can leave the range of its type is a
  function of this theory with the width written out (\<open>add64\<close> wraps, as \<open>+\<close> does in the
  release profile the crate is deployed with; \<open>sat_add64\<close> saturates; \<open>checked_add64\<close> fails).
  Strings are \<^typ>\<open>string\<close>, one \<^typ>\<open>char\<close> per UTF-8 byte, so that the library's
  lexicographic order on lists is the byte order of Rust's \<open>Ord for str\<close>.
\<close>

named_theorems frames \<open>which fields of a state record an operation leaves alone\<close>
named_theorems hashmap \<open>lookups after hash map updates\<close>

subsection \<open>Fixed-width unsigned arithmetic\<close>

definition u64_max :: nat where
  "u64_max = 2 ^ 64 - 1"

definition u32_max :: nat where
  "u32_max = 2 ^ 32 - 1"

definition add64 :: "nat \<Rightarrow> nat \<Rightarrow> nat" where
  "add64 a b = (a + b) mod 2 ^ 64"

definition add32 :: "nat \<Rightarrow> nat \<Rightarrow> nat" where
  "add32 a b = (a + b) mod 2 ^ 32"

definition sat_add64 :: "nat \<Rightarrow> nat \<Rightarrow> nat" where
  "sat_add64 a b = min (a + b) u64_max"

text \<open>\<open>saturating_sub\<close> on an unsigned type is exactly the truncating subtraction of \<^typ>\<open>nat\<close>.\<close>

definition sat_sub :: "nat \<Rightarrow> nat \<Rightarrow> nat" where
  "sat_sub a b = a - b"

definition checked_add64 :: "nat \<Rightarrow> nat \<Rightarrow> nat option" where
  "checked_add64 a b = (if a + b \<le> u64_max then Some (a + b) else None)"

type_synonym u8 = "8 word"

type_synonym bytes = "u8 list"

text \<open>The casts \<open>as u32\<close> and \<open>as i32\<close> of a \<open>usize\<close>.\<close>

definition as_u32 :: "nat \<Rightarrow> nat" where
  "as_u32 n = n mod 2 ^ 32"

definition as_i32 :: "nat \<Rightarrow> int" where
  "as_i32 n = (int n + 2 ^ 31) mod 2 ^ 32 - 2 ^ 31"

lemma as_u32_small: "n < 2 ^ 32 \<Longrightarrow> as_u32 n = n"
  by (simp add: as_u32_def)

lemma as_i32_small: "n < 2 ^ 31 \<Longrightarrow> as_i32 n = int n"
  by (simp add: as_i32_def)

lemma add64_small: "a + b \<le> u64_max \<Longrightarrow> add64 a b = a + b"
  by (simp add: add64_def u64_max_def)

lemma add64_bound: "add64 a b \<le> u64_max"
proof -
  have "add64 a b < 2 ^ 64"
    unfolding add64_def by (rule mod_less_divisor) simp
  then show ?thesis by (simp add: u64_max_def)
qed

lemma add32_small: "a + b \<le> u32_max \<Longrightarrow> add32 a b = a + b"
  by (simp add: add32_def u32_max_def)

lemma sat_add64_bound: "sat_add64 a b \<le> u64_max"
  by (simp add: sat_add64_def)

lemma sat_add64_ge: "a \<le> u64_max \<Longrightarrow> a \<le> sat_add64 a b"
  by (simp add: sat_add64_def)

lemma checked_add64_Some [simp]:
  "checked_add64 a b = Some c \<longleftrightarrow> c = a + b \<and> a + b \<le> u64_max"
  by (auto simp: checked_add64_def)

lemma checked_add64_None [simp]: "checked_add64 a b = None \<longleftrightarrow> u64_max < a + b"
  by (auto simp: checked_add64_def)

subsection \<open>Strings\<close>

definition byte :: "char \<Rightarrow> nat" where
  "byte c = of_char c"

definition ascii_ws :: "char \<Rightarrow> bool" where
  "ascii_ws c \<longleftrightarrow> byte c \<in> {9, 10, 11, 12, 13, 32}"

text \<open>
  The two- and three-byte UTF-8 encodings of the Unicode white space characters that
  \<open>char::is_whitespace\<close> accepts beyond ASCII: U+0085, U+00A0, U+1680, U+2000 to U+200A,
  U+2028, U+2029, U+202F, U+205F and U+3000.
\<close>

definition utf8_ws2 :: "char \<Rightarrow> char \<Rightarrow> bool" where
  "utf8_ws2 a b \<longleftrightarrow> byte a = 194 \<and> byte b \<in> {133, 160}"

definition utf8_ws3 :: "char \<Rightarrow> char \<Rightarrow> char \<Rightarrow> bool" where
  "utf8_ws3 a b c \<longleftrightarrow>
     (byte a = 225 \<and> byte b = 154 \<and> byte c = 128) \<or>
     (byte a = 226 \<and> byte b = 128 \<and>
        (128 \<le> byte c \<and> byte c \<le> 138 \<or> byte c \<in> {168, 169, 175})) \<or>
     (byte a = 226 \<and> byte b = 129 \<and> byte c = 159) \<or>
     (byte a = 227 \<and> byte b = 128 \<and> byte c = 128)"

fun trim_with :: "(char \<Rightarrow> char \<Rightarrow> bool) \<Rightarrow> (char \<Rightarrow> char \<Rightarrow> char \<Rightarrow> bool) \<Rightarrow> string \<Rightarrow> string" where
  "trim_with p2 p3 [] = []"
| "trim_with p2 p3 [a] = (if ascii_ws a then [] else [a])"
| "trim_with p2 p3 [a, b] =
     (if ascii_ws a then trim_with p2 p3 [b] else if p2 a b then [] else [a, b])"
| "trim_with p2 p3 (a # b # c # s) =
     (if ascii_ws a then trim_with p2 p3 (b # c # s)
      else if p2 a b then trim_with p2 p3 (c # s)
      else if p3 a b c then trim_with p2 p3 s
      else a # b # c # s)"

definition trim_start :: "string \<Rightarrow> string" where
  "trim_start s = trim_with utf8_ws2 utf8_ws3 s"

definition trim_end :: "string \<Rightarrow> string" where
  "trim_end s = rev (trim_with (\<lambda>a b. utf8_ws2 b a) (\<lambda>a b c. utf8_ws3 c b a) (rev s))"

definition trim :: "string \<Rightarrow> string" where
  "trim s = trim_end (trim_start s)"

definition ascii_lower :: "char \<Rightarrow> char" where
  "ascii_lower c = (if 65 \<le> byte c \<and> byte c \<le> 90 then char_of (byte c + 32) else c)"

definition to_ascii_lowercase :: "string \<Rightarrow> string" where
  "to_ascii_lowercase s = map ascii_lower s"

definition eq_ignore_ascii_case :: "string \<Rightarrow> string \<Rightarrow> bool" where
  "eq_ignore_ascii_case a b \<longleftrightarrow> to_ascii_lowercase a = to_ascii_lowercase b"

text \<open>\<open>trim_end_matches(c)\<close> and \<open>split(c)\<close> for a one-byte pattern.\<close>

definition trim_end_matches :: "char \<Rightarrow> string \<Rightarrow> string" where
  "trim_end_matches c s = rev (dropWhile (\<lambda>x. x = c) (rev s))"

fun split_on :: "'a \<Rightarrow> 'a list \<Rightarrow> 'a list list" where
  "split_on c [] = [[]]"
| "split_on c (x # xs) =
     (if x = c then [] # split_on c xs
      else (case split_on c xs of [] \<Rightarrow> [[x]] | l # ls \<Rightarrow> (x # l) # ls))"

definition starts_with :: "string \<Rightarrow> string \<Rightarrow> bool" where
  "starts_with p s \<longleftrightarrow> take (length p) s = p"

text \<open>
  \<open>str::parse\<close> at an unsigned type of the given width: an optional plus sign, then at least
  one decimal digit and nothing else, failing on overflow.
\<close>

definition is_digit :: "char \<Rightarrow> bool" where
  "is_digit c \<longleftrightarrow> 48 \<le> byte c \<and> byte c \<le> 57"

definition digits_value :: "string \<Rightarrow> nat" where
  "digits_value s = foldl (\<lambda>n c. 10 * n + (byte c - 48)) 0 s"

definition parse_unsigned :: "nat \<Rightarrow> string \<Rightarrow> nat option" where
  "parse_unsigned bits s =
     (let ds = (case s of [] \<Rightarrow> [] | c # cs \<Rightarrow> if c = CHR ''+'' then cs else s)
      in if ds \<noteq> [] \<and> list_all is_digit ds \<and> digits_value ds < 2 ^ bits
         then Some (digits_value ds) else None)"

text \<open>The decimal digits of a number, as \<open>Display\<close> prints them.\<close>

fun show_nat :: "nat \<Rightarrow> string" where
  "show_nat n =
     (if n < 10 then [char_of (48 + n)] else show_nat (n div 10) @ [char_of (48 + n mod 10)])"

declare show_nat.simps [simp del]

lemma show_nat_digits:
  "show_nat n \<noteq> [] \<and> list_all is_digit (show_nat n) \<and> digits_value (show_nat n) = n"
proof (induction n rule: show_nat.induct)
  case (1 n)
  have digit: "is_digit (char_of (48 + d))" "byte (char_of (48 + d)) = 48 + d" if "d < 10" for d :: nat
    using that by (simp_all add: is_digit_def byte_def)
  show ?case
  proof (cases "n < 10")
    case True
    with digit [OF True] show ?thesis by (simp add: show_nat.simps [of n] digits_value_def)
  next
    case False
    with 1 digit [of "n mod 10"] show ?thesis by (simp add: show_nat.simps [of n] digits_value_def)
  qed
qed

lemma parse_show_nat: "n < 2 ^ bits \<Longrightarrow> parse_unsigned bits (show_nat n) = Some n"
proof -
  assume n: "n < 2 ^ bits"
  obtain c cs where s: "show_nat n = c # cs" using show_nat_digits [of n] by (cases "show_nat n") auto
  moreover have "c \<noteq> CHR ''+''" using show_nat_digits [of n] s by (auto simp: is_digit_def byte_def)
  ultimately show ?thesis using n show_nat_digits [of n] by (simp add: parse_unsigned_def)
qed

lemma trim_with_cases:
  "trim_with p2 p3 s = [] \<or> (\<exists>a t. trim_with p2 p3 s = a # t \<and> \<not> ascii_ws a)"
  by (induction p2 p3 s rule: trim_with.induct) auto

lemma trim_with_set: "set (trim_with p2 p3 s) \<subseteq> set s"
  by (induction p2 p3 s rule: trim_with.induct) auto

lemma trim_with_fix: "trim_with p2 p3 (trim_with p2 p3 s) = trim_with p2 p3 s"
  by (induction p2 p3 s rule: trim_with.induct) auto

lemma set_trim: "set (trim s) \<subseteq> set s"
  using trim_with_set unfolding trim_def trim_end_def trim_start_def
  by (metis (no_types) set_rev subset_trans)

lemma trim_Nil [simp]: "trim [] = []"
  by (simp add: trim_def trim_start_def trim_end_def)

lemma parse_unsigned_bound: "parse_unsigned bits s = Some n \<Longrightarrow> n < 2 ^ bits"
  by (auto simp: parse_unsigned_def Let_def split: if_splits)

lemma split_on_not_Nil [simp]: "split_on c xs \<noteq> []"
  by (induction xs) (auto split: list.splits)

lemma split_on_no_sep: "l \<in> set (split_on c xs) \<Longrightarrow> c \<notin> set l"
  by (induction xs arbitrary: l) (auto split: list.splits if_splits)

lemma split_on_line: "c \<notin> set l \<Longrightarrow> split_on c (l @ c # xs) = l # split_on c xs"
  by (induction l) auto

subsection \<open>Iterator combinators\<close>

text \<open>
  \<open>Iterator::min_by\<close> with a comparison that orders by a key: the first of the least elements.
  The comparisons of the source chain \<open>cmp\<close> with \<open>then\<close>, which is the lexicographic order
  on the tuple of the compared values.
\<close>

fun min_by_key :: "('a \<Rightarrow> 'k::linorder) \<Rightarrow> 'a list \<Rightarrow> 'a option" where
  "min_by_key k [] = None"
| "min_by_key k (x # xs) = Some (foldl (\<lambda>m y. if k y < k m then y else m) x xs)"

lemma foldl_min_by_key:
  defines "step \<equiv> \<lambda>k m y. if k y < (k m :: 'k::linorder) then y else m"
  shows "foldl (step k) x xs \<in> insert x (set xs) \<and>
    (\<forall>y \<in> insert x (set xs). k (foldl (step k) x xs) \<le> k y)"
proof (induction xs arbitrary: x)
  case Nil
  then show ?case by simp
next
  case (Cons y xs)
  let ?m = "step k x y"
  have m: "?m \<in> {x, y}" "k ?m \<le> k x" "k ?m \<le> k y"
    by (auto simp: step_def)
  from Cons [of ?m] m show ?case by (auto intro: order.trans)
qed

lemma min_by_key_None [simp]: "min_by_key k xs = None \<longleftrightarrow> xs = []"
  by (cases xs) auto

lemma min_by_key_SomeD:
  assumes "min_by_key k xs = Some m"
  shows "m \<in> set xs" and "\<And>y. y \<in> set xs \<Longrightarrow> k m \<le> k y"
  using assms foldl_min_by_key [of k] by (cases xs; force)+

text \<open>
  \<open>Vec::retain(|x| p(x) && seen.insert(x))\<close>: the elements that satisfy \<open>p\<close>, each kept at
  its first occurrence only.
\<close>

fun retain_first :: "('a \<Rightarrow> bool) \<Rightarrow> 'a set \<Rightarrow> 'a list \<Rightarrow> 'a list" where
  "retain_first p seen [] = []"
| "retain_first p seen (x # xs) =
     (if p x \<and> x \<notin> seen then x # retain_first p (insert x seen) xs
      else retain_first p seen xs)"

lemma set_retain_first: "set (retain_first p seen xs) = {x \<in> set xs. p x} - seen"
  by (induction p seen xs rule: retain_first.induct) auto

lemma distinct_retain_first: "distinct (retain_first p seen xs)"
  by (induction p seen xs rule: retain_first.induct) (auto simp: set_retain_first)

lemma retain_first_id:
  "distinct xs \<Longrightarrow> set xs \<inter> seen = {} \<Longrightarrow> list_all p xs \<Longrightarrow> retain_first p seen xs = xs"
  by (induction p seen xs rule: retain_first.induct) auto

lemma foldl_invariant:
  assumes "P a" and "\<And>a x. P a \<Longrightarrow> x \<in> set xs \<Longrightarrow> P (f a x)"
  shows "P (foldl f a xs)"
  using assms by (induction xs arbitrary: a) auto

lemma find_append:
  "find P (xs @ ys) = (case find P xs of Some x \<Rightarrow> Some x | None \<Rightarrow> find P ys)"
  by (induction xs) auto

lemma find_distinct_key:
  assumes "distinct (map f xs)" and "x \<in> set xs"
  shows "find (\<lambda>y. f y = f x) xs = Some x"
  using assms by (induction xs) (auto simp: image_iff)

lemma distinct_map_sort_key: "distinct (map f (sort_key g xs)) \<longleftrightarrow> distinct (map f xs)"
  by (simp add: distinct_map)

subsection \<open>Hash maps\<close>

text \<open>
  A \<open>HashMap\<close> that the code iterates over is an association list with distinct keys; the order
  of the list stands for the map's unspecified iteration order. \<open>hm_wf\<close> is the representation
  invariant, \<^const>\<open>map_of\<close> the lookup.
\<close>

type_synonym ('k, 'v) hashmap = "('k \<times> 'v) list"

definition hm_wf :: "('k, 'v) hashmap \<Rightarrow> bool" where
  "hm_wf m \<longleftrightarrow> distinct (map fst m)"

abbreviation hm_insert :: "'k \<Rightarrow> 'v \<Rightarrow> ('k, 'v) hashmap \<Rightarrow> ('k, 'v) hashmap" where
  "hm_insert \<equiv> AList.update"

abbreviation hm_remove :: "'k \<Rightarrow> ('k, 'v) hashmap \<Rightarrow> ('k, 'v) hashmap" where
  "hm_remove \<equiv> AList.delete"

lemma hm_wf_Nil [simp]: "hm_wf []"
  by (simp add: hm_wf_def)

lemma hm_wf_insert [simp]: "hm_wf m \<Longrightarrow> hm_wf (hm_insert k v m)"
  by (simp add: hm_wf_def distinct_update)

lemma hm_wf_remove [simp]: "hm_wf m \<Longrightarrow> hm_wf (hm_remove k m)"
  by (simp add: hm_wf_def distinct_delete)

lemma hm_insert_lookup [hashmap]: "map_of (hm_insert k v m) k' = (if k' = k then Some v else map_of m k')"
  by (simp add: update_conv')

lemma hm_remove_lookup [hashmap]: "map_of (hm_remove k m) k' = (if k' = k then None else map_of m k')"
  by (simp add: delete_conv')

lemma hm_map_values_lookup [hashmap]:
  "map_of (map (\<lambda>(k, v). (k, f v)) m) k' = map_option f (map_of m k')"
  by (induction m) auto

lemma hm_values_iff:
  assumes "hm_wf m"
  shows "v \<in> snd ` set m \<longleftrightarrow> (\<exists>k. map_of m k = Some v)"
  using assms by (force simp: hm_wf_def)

end
