(* ===== verification/Model.thy ===== *)
theory Model
  imports Prelude
begin

section \<open>Shared control-plane types (\<open>src/model.rs\<close>)\<close>

text \<open>
  The records every component exchanges: what the brain knows of a data-plane node, the
  heartbeat a node posts, the placement of a shard, the operator's policies and scale plan.
  A record's fields carry a prefix (\<open>ni_\<close>, \<open>hb_\<close>, \<open>sa_\<close>, \<open>pp_\<close>, \<open>ppu_\<close>, \<open>sp_\<close>) because
  the structs of the source share field names.
\<close>

type_synonym node_id = string

text \<open>A shard id is a \<open>u32\<close>.\<close>

type_synonym shard_id = nat

datatype node_health = Healthy | Suspect | Dead | Draining

record node_info =
  ni_node_id :: node_id
  ni_address :: string
  ni_health :: node_health
  ni_cloud_provider :: string
  ni_region :: string
  ni_cluster_id :: string
  ni_failure_domain :: string
  ni_last_seen_ms :: nat
  ni_hosted_shards :: "shard_id list"
  ni_leading_shards :: "shard_id list"
  ni_last_seq :: nat

record heartbeat_report =
  hb_address :: string
  hb_cloud_provider :: string
  hb_region :: string
  hb_cluster_id :: string
  hb_failure_domain :: string
  hb_hosted_shards :: "shard_id list"
  hb_leading_shards :: "shard_id list"
  hb_seq :: nat

text \<open>\<open>HeartbeatReport::default()\<close>: every string and list empty, \<open>seq\<close> zero.\<close>

definition default_report :: heartbeat_report where
  "default_report = \<lparr>hb_address = [], hb_cloud_provider = [], hb_region = [], hb_cluster_id = [],
     hb_failure_domain = [], hb_hosted_shards = [], hb_leading_shards = [], hb_seq = 0\<rparr>"

record shard_assignment =
  sa_shard_id :: shard_id
  sa_replicas :: "node_id list"
  sa_preferred_leader :: "node_id option"
  sa_preferred_region :: "string option"
  sa_preferred_cloud_provider :: "string option"

record placement_policy =
  pp_namespace :: string
  pp_shard_id :: shard_id
  pp_home_region :: "string option"
  pp_preferred_cloud_provider :: "string option"

record placement_policy_update =
  ppu_namespace :: string
  ppu_home_region :: "string option"
  ppu_preferred_cloud_provider :: "string option"

record scale_plan =
  sp_target_nodes :: nat
  sp_replication_factor :: nat

end
