(* ===== verification/Config.thy ===== *)
theory Config
  imports Model
begin

section \<open>Cluster configuration and member addressing (\<open>src/config.rs\<close>, \<open>src/main.rs\<close>)\<close>

text \<open>
  The immutable configuration read from the environment at start-up, the key-to-shard mapping,
  and the normalisation of the configured peer list that fixes the Raft membership. The process
  environment is a parameter (\<open>env name = None\<close> when the variable is unset or not Unicode), as is
  the hash of the \<open>fiducia-routing\<close> crate, which is not part of the repository.
\<close>

type_synonym environment = "string \<Rightarrow> string option"

definition SUPPORTED_REPLICATION_FACTOR :: nat where
  "SUPPORTED_REPLICATION_FACTOR = 3"

record cluster_config =
  cc_cluster_id :: string
  cc_shard_count :: nat
  cc_replication_factor :: nat
  cc_local_cluster :: "string option"
  cc_cloud_provider :: "string option"
  cc_region :: "string option"
  cc_brain_peers :: "string list"

text \<open>\<open>.ok().and_then(parse).filter(|n| *n > 0).unwrap_or(default)\<close> at the given width.\<close>

definition positive_env :: "nat \<Rightarrow> environment \<Rightarrow> string \<Rightarrow> nat \<Rightarrow> nat" where
  "positive_env bits env name dflt =
     (case Option.bind (env name) (parse_unsigned bits) of
        Some n \<Rightarrow> if n > 0 then n else dflt
      | None \<Rightarrow> dflt)"

definition positive_u32_env :: "environment \<Rightarrow> string \<Rightarrow> nat \<Rightarrow> nat" where
  "positive_u32_env = positive_env 32"

definition non_empty_env :: "environment \<Rightarrow> string \<Rightarrow> string option" where
  "non_empty_env env name =
     Option.bind (env name) (\<lambda>s. let value = trim s in if value = [] then None else Some value)"

definition parse_csv :: "string \<Rightarrow> string list" where
  "parse_csv value = filter (\<lambda>part. part \<noteq> []) (map trim (split_on CHR '','' value))"

definition csv_env :: "environment \<Rightarrow> string \<Rightarrow> string list" where
  "csv_env env name = (case env name of Some s \<Rightarrow> parse_csv s | None \<Rightarrow> [])"

definition or_else :: "'a option \<Rightarrow> 'a option \<Rightarrow> 'a option" where
  "or_else a b = (case a of Some x \<Rightarrow> Some x | None \<Rightarrow> b)"

definition from_env :: "environment \<Rightarrow> cluster_config" where
  "from_env env =
     (let local_cluster = non_empty_env env ''FIDUCIA_CLUSTER'' in
      \<lparr>cc_cluster_id = (case env ''FIDUCIA_CLUSTER_ID'' of Some s \<Rightarrow> s | None \<Rightarrow> ''fiducia-local''),
       cc_shard_count = positive_u32_env env ''FIDUCIA_SHARD_COUNT'' 16,
       cc_replication_factor = SUPPORTED_REPLICATION_FACTOR,
       cc_local_cluster = local_cluster,
       cc_cloud_provider =
         or_else (non_empty_env env ''FIDUCIA_CLOUD_PROVIDER'')
           (or_else (non_empty_env env ''FIDUCIA_PLATFORM'') local_cluster),
       cc_region = non_empty_env env ''FIDUCIA_REGION'',
       cc_brain_peers = csv_env env ''FIDUCIA_BRAIN_PEERS''\<rparr>)"

text \<open>
  \<open>ClusterConfig::shard_for\<close> calls \<open>fiducia_routing::shard_for\<close>, here the parameter
  \<open>routing\<close>. The documented behaviour is \<open>hash(key) % shard_count\<close>; the one fact the brain relies
  on is that the result is a shard of the cluster.
\<close>

definition routing_in_range :: "(string \<Rightarrow> nat \<Rightarrow> shard_id) \<Rightarrow> bool" where
  "routing_in_range routing \<longleftrightarrow> (\<forall>key n. 0 < n \<longrightarrow> routing key n < n)"

definition shard_for :: "(string \<Rightarrow> nat \<Rightarrow> shard_id) \<Rightarrow> cluster_config \<Rightarrow> string \<Rightarrow> shard_id" where
  "shard_for routing cfg key = routing key (max (cc_shard_count cfg) 1)"

subsection \<open>Start-up: scale plan seed and peer list (\<open>main.rs\<close>)\<close>

definition initial_plan :: "environment \<Rightarrow> cluster_config \<Rightarrow> scale_plan" where
  "initial_plan env cfg =
     \<lparr>sp_target_nodes = max (positive_u32_env env ''FIDUCIA_TARGET_NODES'' 3)
        (cc_replication_factor cfg),
      sp_replication_factor = cc_replication_factor cfg\<rparr>"

definition normalize_member_url :: "string \<Rightarrow> string" where
  "normalize_member_url addr =
     (let addr = trim_end_matches CHR ''/'' (trim addr) in
      if starts_with ''http://'' addr \<or> starts_with ''https://'' addr then addr
      else ''http://'' @ addr)"

definition resolve_peers :: "string list \<Rightarrow> string \<Rightarrow> string list" where
  "resolve_peers raw self_id =
     retain_first (\<lambda>_. True) {} (filter (\<lambda>p. p \<noteq> self_id) (map normalize_member_url raw))"

subsection \<open>Lemmas\<close>

lemma positive_env_pos: "0 < dflt \<Longrightarrow> 0 < positive_env bits env name dflt"
  by (auto simp: positive_env_def split: option.splits)

lemma positive_env_bound:
  "dflt < 2 ^ bits \<Longrightarrow> positive_env bits env name dflt < 2 ^ bits"
  by (auto simp: positive_env_def dest: parse_unsigned_bound split: option.splits bind_splits)

lemma parse_csv_parts:
  "p \<in> set (parse_csv v) \<Longrightarrow> p \<noteq> [] \<and> CHR '','' \<notin> set p"
  using set_trim split_on_no_sep by (fastforce simp: parse_csv_def)

text \<open>
  The environment can never produce a configuration without shards, and the replication factor
  does not depend on it.
\<close>

lemma from_env_shard_count: "0 < cc_shard_count (from_env env) \<and> cc_shard_count (from_env env) < 2 ^ 32"
  using positive_env_bound [of 16 32 env "''FIDUCIA_SHARD_COUNT''"]
  by (simp add: from_env_def Let_def positive_u32_env_def positive_env_pos)

lemma initial_plan_floor:
  "SUPPORTED_REPLICATION_FACTOR \<le> sp_target_nodes (initial_plan env (from_env env))"
  by (simp add: initial_plan_def from_env_def Let_def)

lemma shard_for_in_range:
  assumes "routing_in_range routing"
  shows "shard_for routing (from_env env) key < cc_shard_count (from_env env)"
proof -
  have "max (cc_shard_count (from_env env)) 1 = cc_shard_count (from_env env)"
    using from_env_shard_count [of env] by simp
  then show ?thesis
    using assms from_env_shard_count [of env] by (simp add: shard_for_def routing_in_range_def)
qed

lemma resolve_peers_distinct: "distinct (resolve_peers raw self_id)"
  by (simp add: resolve_peers_def distinct_retain_first)

lemma set_resolve_peers:
  "set (resolve_peers raw self_id) = normalize_member_url ` set raw - {self_id}"
  by (auto simp: resolve_peers_def set_retain_first)

lemma normalize_member_url_scheme:
  "starts_with ''http://'' (normalize_member_url a) \<or> starts_with ''https://'' (normalize_member_url a)"
  by (auto simp: normalize_member_url_def Let_def starts_with_def)

text \<open>
  White space before a trailing slash survives: such a spelling of a member's own address is not
  recognised as the member itself.
\<close>

lemma resolve_peers_misses_spelling:
  "resolve_peers [''a:1 /''] (normalize_member_url ''a:1'') = [''http://a:1 '']"
  by code_simp

subsection \<open>Properties\<close>

text \<open>
  Every key routes to a shard of the configured cluster, whatever the environment holds: the shard
  count is positive and fits its 32 bits.
\<close>

theorem shard_for_valid:
  assumes "routing_in_range routing"
  shows "shard_for routing (from_env env) key < cc_shard_count (from_env env)
    \<and> cc_shard_count (from_env env) < 2 ^ 32"
  using shard_for_in_range [OF assms] from_env_shard_count by simp

theorem shard_for_valid_witness:
  "shard_for (\<lambda>key n. length key mod n) (from_env (\<lambda>_. None)) ''orders''
     < cc_shard_count (from_env (\<lambda>_. None))
   \<and> cc_shard_count (from_env (\<lambda>_. None)) < 2 ^ 32"
  by (rule shard_for_valid) (simp add: routing_in_range_def)

text \<open>
  The peer list of a member holds each other member once under its normalized URL and never the
  member itself, so that the size of the Raft group is right.
\<close>

theorem resolve_peers_correct:
  "distinct (resolve_peers raw self_id)
   \<and> set (resolve_peers raw self_id) = normalize_member_url ` set raw - {self_id}
   \<and> self_id \<notin> set (resolve_peers raw self_id)"
  using resolve_peers_distinct set_resolve_peers by auto

end
