(* ===== verification/Internal_Auth.thy ===== *)
theory Internal_Auth
  imports Prelude
begin

section \<open>Trusted-hop authentication of the control plane (\<open>src/internal_auth.rs\<close>)\<close>

text \<open>
  The secret read once from the environment, the constant-time comparison on bytes, and the
  middleware in front of \<open>/v1\<close>. A request that is not authorised never reaches its handler.
\<close>

unbundle bit_operations_syntax

definition bytes_of :: "string \<Rightarrow> u8 list" where
  "bytes_of s = map of_char s"

text \<open>\<open>configured()\<close>: trimmed, and absent when blank. The argument is \<open>env::var(..).ok()\<close>.\<close>

definition configured :: "string option \<Rightarrow> string option" where
  "configured v =
     (case map_option trim v of Some s \<Rightarrow> if s = [] then None else Some s | None \<Rightarrow> None)"

datatype startup_error = InternalSecretMissing

definition init_and_log :: "string option \<Rightarrow> startup_error + unit" where
  "init_and_log v = (if configured v \<noteq> None then Inr () else Inl InternalSecretMissing)"

definition constant_time_eq :: "u8 list \<Rightarrow> u8 list \<Rightarrow> bool" where
  "constant_time_eq a b =
     (if length a \<noteq> length b then False
      else foldl (\<lambda>diff (x, y). diff OR (x XOR y)) 0 (zip a b) = 0)"

definition authorized :: "string option \<Rightarrow> string option \<Rightarrow> bool" where
  "authorized expected provided =
     (case expected of
        None \<Rightarrow> False
      | Some secret \<Rightarrow>
          (case provided of
             Some p \<Rightarrow> constant_time_eq (bytes_of p) (bytes_of secret)
           | None \<Rightarrow> False))"

text \<open>
  \<open>attach\<close> adds the header to an outbound forwarded request when a secret is configured;
  \<open>guard\<close> answers 401 or runs the wrapped handler \<open>run\<close>. The header lookup and its
  \<open>to_str().ok()\<close> are the argument \<open>provided\<close>.
\<close>

definition attach :: "string option \<Rightarrow> (string \<times> string) list \<Rightarrow> (string \<times> string) list" where
  "attach v headers =
     (case configured v of
        Some secret \<Rightarrow> headers @ [(''x-fiducia-internal-auth'', secret)]
      | None \<Rightarrow> headers)"

datatype 'r guarded = Unauthorized | Ran 'r

definition guard :: "string option \<Rightarrow> string option \<Rightarrow> (unit \<Rightarrow> 'r) \<Rightarrow> 'r guarded" where
  "guard v provided run =
     (if \<not> authorized (configured v) provided then Unauthorized else Ran (run ()))"

subsection \<open>Lemmas\<close>

lemma foldl_or_xor_zero:
  assumes "length a = length b"
  shows "foldl (\<lambda>diff (x, y). diff OR (x XOR y)) d (zip a b) = 0 \<longleftrightarrow> d = (0 :: u8) \<and> a = b"
  using assms
proof (induction a b arbitrary: d rule: list_induct2)
  case Nil
  then show ?case by simp
next
  case (Cons x xs y ys)
  have "(d OR (x XOR y) = 0) \<longleftrightarrow> d = 0 \<and> x = y"
    by (auto simp: bit_eq_iff bit_or_iff bit_xor_iff)
  with Cons show ?case by auto
qed

lemma constant_time_eq_iff: "constant_time_eq a b \<longleftrightarrow> a = b"
  using foldl_or_xor_zero [of a b 0] by (auto simp: constant_time_eq_def)

lemma of_char_u8_inj: "(of_char c :: u8) = of_char d \<Longrightarrow> c = d"
proof -
  assume "(of_char c :: u8) = of_char d"
  then have "unat (of_nat (of_char c) :: u8) = unat (of_nat (of_char d) :: u8)"
    by (simp only: of_nat_of_char)
  moreover have "of_char x < (2 ^ 8 :: nat)" for x
    by simp
  ultimately have "(of_char c :: nat) = of_char d"
    by (simp add: unat_of_nat take_bit_eq_mod)
  then show "c = d" by simp
qed

lemma bytes_of_inj: "bytes_of a = bytes_of b \<longleftrightarrow> a = b"
  by (auto simp: bytes_of_def intro: of_char_u8_inj injI dest: map_injective)

lemma authorized_iff: "authorized e p \<longleftrightarrow> (\<exists>s. e = Some s \<and> p = Some s)"
  by (auto simp: authorized_def constant_time_eq_iff bytes_of_inj split: option.splits)

lemma configured_not_blank: "configured v = Some s \<Longrightarrow> s \<noteq> []"
  by (auto simp: configured_def split: option.splits if_splits)

subsection \<open>Properties\<close>

text \<open>
  The guard runs the wrapped handler exactly when a secret is configured and the request carries
  that secret; without a configured secret it refuses every request.
\<close>

theorem guard_exact:
  "guard v provided run = Ran r \<longleftrightarrow>
   (\<exists>secret. configured v = Some secret \<and> provided = Some secret \<and> secret \<noteq> [] \<and> r = run ())"
  by (auto simp: guard_def authorized_iff dest: configured_not_blank)


text \<open>
  C39. The guard, with its comparison that runs over all bytes whatever they are, is equivalent to the plain comparison
  of the two strings: it runs the handler when a secret is configured and the request carries the same one, and
  refuses otherwise.
\<close>

theorem guard_equals_plain_comparison:
  "guard v provided run =
     (if configured v \<noteq> None \<and> provided = configured v then Ran (run ()) else Unauthorized)"
  by (cases "configured v") (auto simp: guard_def authorized_iff)

end
