(* ===== verification/Plan.thy ===== *)
theory Plan
  imports Model "HOL-Library.Multiset"
begin

section \<open>Placement math (\<open>src/plan.rs\<close>)\<close>

text \<open>
  \<open>plan_replicas\<close>, the pure decision the scheduler drives toward: keep the healthy current
  replicas, fill up to the replication factor preferring fresh failure domains, drop the most
  loaded extras when the factor shrank, and then exchange at most one replica for a better one.
  Its three phases are definitions of their own (\<open>fill_replicas\<close>, \<open>drop_extras\<close>,
  \<open>swap_one\<close>).
\<close>

record node_slot =
  ns_node_id :: node_id
  ns_domain :: string
  ns_load :: nat

definition find_slot :: "node_slot list \<Rightarrow> node_id \<Rightarrow> node_slot option" where
  "find_slot healthy n = find (\<lambda>s. ns_node_id s = n) healthy"

definition domains_of :: "node_id list \<Rightarrow> node_slot list \<Rightarrow> string set" where
  "domains_of ids healthy = set (map ns_domain (List.map_filter (find_slot healthy) ids))"

definition domain_count :: "node_id list \<Rightarrow> node_slot list \<Rightarrow> nat" where
  "domain_count ids healthy = card (domains_of ids healthy)"

definition load_for :: "node_id \<Rightarrow> node_slot list \<Rightarrow> nat" where
  "load_for n healthy = (case find_slot healthy n of Some s \<Rightarrow> ns_load s | None \<Rightarrow> 0)"

text \<open>
  The index \<open>min_by\<close> picks: fresh domain first (\<open>b_fresh.cmp(&a_fresh)\<close> puts true before false),
  then the smaller load, then the smaller node id.
\<close>

definition slot_key :: "string set \<Rightarrow> node_slot \<Rightarrow> bool \<times> nat \<times> node_id" where
  "slot_key used s = (ns_domain s \<in> used, ns_load s, ns_node_id s)"

definition pick_slot :: "string set \<Rightarrow> node_slot list \<Rightarrow> nat option" where
  "pick_slot used remaining =
     min_by_key (\<lambda>i. slot_key used (remaining ! i)) [0..<length remaining]"

lemma pick_slot_SomeD:
  assumes "pick_slot used remaining = Some i"
  shows "i < length remaining"
    and "s \<in> set remaining \<Longrightarrow> slot_key used (remaining ! i) \<le> slot_key used s"
  using min_by_key_SomeD [OF assms [unfolded pick_slot_def]] by (auto simp: in_set_conv_nth)

lemma pick_slot_None [simp]: "pick_slot used remaining = None \<longleftrightarrow> remaining = []"
  by (simp add: pick_slot_def)

function fill_replicas ::
  "nat \<Rightarrow> node_id list \<Rightarrow> string set \<Rightarrow> node_slot list \<Rightarrow> node_id list \<times> node_slot list" where
  "fill_replicas rf chosen used remaining =
     (if as_u32 (length chosen) < rf \<and> remaining \<noteq> [] then
        (case pick_slot used remaining of
           None \<Rightarrow> (chosen, remaining)
         | Some i \<Rightarrow>
             let slot = remaining ! i in
             fill_replicas rf (chosen @ [ns_node_id slot]) (insert (ns_domain slot) used)
               (take i remaining @ drop (Suc i) remaining))
      else (chosen, remaining))"
  by pat_completeness auto
termination
  by (relation "measure (\<lambda>(rf, chosen, used, remaining). length remaining)")
    (auto dest: pick_slot_SomeD)

declare fill_replicas.simps [simp del]

definition drop_extras :: "nat \<Rightarrow> node_slot list \<Rightarrow> node_id list \<Rightarrow> node_id list" where
  "drop_extras rf healthy chosen =
     (if rf < as_u32 (length chosen) then take rf (sort_key (\<lambda>n. load_for n healthy) chosen)
      else chosen)"

record swap =
  sw_index :: nat
  sw_candidate_id :: node_id
  sw_domain_gain :: int
  sw_load_delta :: int
  sw_victim_load :: nat
  sw_candidate_load :: nat
  sw_victim_id :: node_id

definition is_better :: "swap \<Rightarrow> swap option \<Rightarrow> bool" where
  "is_better s best =
     (case best of
        None \<Rightarrow> True
      | Some b \<Rightarrow>
          sw_domain_gain s > sw_domain_gain b
          \<or> (sw_domain_gain s = sw_domain_gain b \<and> sw_load_delta s > sw_load_delta b)
          \<or> (sw_domain_gain s = sw_domain_gain b \<and> sw_load_delta s = sw_load_delta b
              \<and> sw_victim_load s > sw_victim_load b)
          \<or> (sw_domain_gain s = sw_domain_gain b \<and> sw_load_delta s = sw_load_delta b
              \<and> sw_victim_load s = sw_victim_load b
              \<and> sw_candidate_load s < sw_candidate_load b)
          \<or> (sw_domain_gain s = sw_domain_gain b \<and> sw_load_delta s = sw_load_delta b
              \<and> sw_victim_load s = sw_victim_load b
              \<and> sw_candidate_load s = sw_candidate_load b
              \<and> sw_candidate_id s < sw_candidate_id b)
          \<or> (sw_domain_gain s = sw_domain_gain b \<and> sw_load_delta s = sw_load_delta b
              \<and> sw_victim_load s = sw_victim_load b
              \<and> sw_candidate_load s = sw_candidate_load b
              \<and> sw_candidate_id s = sw_candidate_id b
              \<and> sw_victim_id s < sw_victim_id b))"

text \<open>The trial exchange of the replica at index \<open>i\<close> for a candidate.\<close>

definition trial_swap :: "node_slot list \<Rightarrow> node_id list \<Rightarrow> node_slot \<Rightarrow> nat \<Rightarrow> swap" where
  "trial_swap healthy chosen candidate i =
     (let victim = chosen ! i;
          trial = chosen[i := ns_node_id candidate] in
      \<lparr>sw_index = i, sw_candidate_id = ns_node_id candidate,
       sw_domain_gain = as_i32 (domain_count trial healthy) - as_i32 (domain_count chosen healthy),
       sw_load_delta = int (load_for victim healthy) - int (ns_load candidate),
       sw_victim_load = load_for victim healthy,
       sw_candidate_load = ns_load candidate,
       sw_victim_id = victim\<rparr>)"

definition rejected :: "swap \<Rightarrow> bool" where
  "rejected s \<longleftrightarrow> sw_domain_gain s < 0 \<or> (sw_domain_gain s = 0 \<and> sw_load_delta s \<le> 0)"

definition consider_swap :: "swap option \<Rightarrow> swap \<Rightarrow> swap option" where
  "consider_swap best s =
     (if rejected s then best else if is_better s best then Some s else best)"

definition best_swap :: "node_slot list \<Rightarrow> node_id list \<Rightarrow> node_slot list \<Rightarrow> swap option" where
  "best_swap healthy chosen remaining =
     foldl (\<lambda>best candidate.
        foldl (\<lambda>best i. consider_swap best (trial_swap healthy chosen candidate i))
          best [0..<length chosen]) None remaining"

definition swap_one :: "nat \<Rightarrow> node_slot list \<Rightarrow> node_slot list \<Rightarrow> node_id list \<Rightarrow> node_id list" where
  "swap_one rf healthy remaining chosen =
     (if as_u32 (length chosen) = rf \<and> remaining \<noteq> [] then
        (case best_swap healthy chosen remaining of
           Some s \<Rightarrow> chosen[sw_index s := sw_candidate_id s]
         | None \<Rightarrow> chosen)
      else chosen)"

definition kept :: "node_id list \<Rightarrow> node_slot list \<Rightarrow> node_id list" where
  "kept current healthy = filter (\<lambda>n. n \<in> ns_node_id ` set healthy) current"

definition plan_replicas :: "node_id list \<Rightarrow> node_slot list \<Rightarrow> nat \<Rightarrow> node_id list" where
  "plan_replicas current healthy rf =
     (let chosen = kept current healthy;
          used = domains_of chosen healthy;
          remaining = filter (\<lambda>s. ns_node_id s \<notin> set chosen) healthy;
          (chosen, remaining) = fill_replicas rf chosen used remaining;
          chosen = drop_extras rf healthy chosen
      in swap_one rf healthy remaining chosen)"

subsection \<open>Slots and domains\<close>

abbreviation slot_ids :: "node_slot list \<Rightarrow> node_id list" where
  "slot_ids healthy \<equiv> map ns_node_id healthy"

lemma find_slot_Some:
  assumes "distinct (slot_ids healthy)"
  shows "find_slot healthy n = Some s \<longleftrightarrow> s \<in> set healthy \<and> ns_node_id s = n"
proof
  assume "find_slot healthy n = Some s"
  then show "s \<in> set healthy \<and> ns_node_id s = n"
    by (auto simp: find_slot_def find_Some_iff)
next
  assume "s \<in> set healthy \<and> ns_node_id s = n"
  then show "find_slot healthy n = Some s"
    using find_distinct_key [OF assms, of s] by (auto simp: find_slot_def)
qed

lemma domains_of_eq:
  assumes "distinct (slot_ids healthy)"
  shows "domains_of ids healthy = ns_domain ` {s \<in> set healthy. ns_node_id s \<in> set ids}"
proof -
  have "set (List.map_filter (find_slot healthy) ids) = {s. \<exists>n \<in> set ids. find_slot healthy n = Some s}"
    by (force simp: List.map_filter_def)
  then have "set (List.map_filter (find_slot healthy) ids) = {s \<in> set healthy. ns_node_id s \<in> set ids}"
    by (auto simp: find_slot_Some [OF assms])
  then show ?thesis by (simp add: domains_of_def)
qed

lemma finite_domains_of [simp]: "finite (domains_of ids healthy)"
  by (simp add: domains_of_def)

lemma domain_count_le: "domain_count ids healthy \<le> length ids"
proof -
  have "length (List.map_filter (find_slot healthy) ids) \<le> length ids"
    by (simp add: List.map_filter_def)
  moreover have "domain_count ids healthy \<le> length (List.map_filter (find_slot healthy) ids)"
    unfolding domain_count_def domains_of_def by (metis card_length length_map)
  ultimately show ?thesis by simp
qed

lemma set_kept: "set (kept current healthy) = set current \<inter> set (slot_ids healthy)"
  by (auto simp: kept_def)

lemma distinct_kept: "distinct current \<Longrightarrow> distinct (kept current healthy)"
  by (simp add: kept_def)

subsection \<open>Filling\<close>

lemma mset_remove_nth:
  assumes "i < length xs"
  shows "mset xs = add_mset (xs ! i) (mset (take i xs @ drop (Suc i) xs))"
  by (subst id_take_nth_drop [OF assms]) simp

lemma fill_replicas_step:
  assumes "as_u32 (length chosen) < rf" and "remaining \<noteq> []"
  obtains i where "pick_slot used remaining = Some i" "i < length remaining"
    and "fill_replicas rf chosen used remaining =
       fill_replicas rf (chosen @ [ns_node_id (remaining ! i)])
         (insert (ns_domain (remaining ! i)) used) (take i remaining @ drop (Suc i) remaining)"
proof -
  from assms(2) obtain i where i: "pick_slot used remaining = Some i"
    using pick_slot_None by (metis not_None_eq)
  with assms show ?thesis
    using that [OF i pick_slot_SomeD(1) [OF i]]
    by (simp add: fill_replicas.simps [of rf chosen used remaining] Let_def)
qed

text \<open>
  Greedy spread: while some domain of the remaining candidates is unused, the pick is from a fresh
  domain. So a set of pairwise different domains stays one as long as there are enough of them.
\<close>

lemma pick_slot_fresh:
  assumes "pick_slot used remaining = Some i" and "s \<in> set remaining" and "ns_domain s \<notin> used"
  shows "ns_domain (remaining ! i) \<notin> used"
  using pick_slot_SomeD(2) [OF assms(1,2)] assms(3) by (auto simp: slot_key_def)

definition spread :: "nat \<Rightarrow> string set \<Rightarrow> string set \<Rightarrow> bool" where
  "spread k used all_domains \<longleftrightarrow> card used = min k (card all_domains)"

lemma spread_pick:
  assumes "pick_slot used remaining = Some i" and "finite used"
    and "spread k used (used \<union> ns_domain ` set remaining)"
  shows "spread (Suc k) (insert (ns_domain (remaining ! i)) used) (used \<union> ns_domain ` set remaining)"
proof (cases "ns_domain (remaining ! i) \<in> used")
  case True
  then have "ns_domain ` set remaining \<subseteq> used"
    using pick_slot_fresh [OF assms(1)] by auto
  then have "used \<union> ns_domain ` set remaining = used" by auto
  with True assms(3) show ?thesis by (simp add: spread_def insert_absorb)
next
  case False
  have "remaining ! i \<in> set remaining" using pick_slot_SomeD(1) [OF assms(1)] by simp
  then have "insert (ns_domain (remaining ! i)) used \<subseteq> used \<union> ns_domain ` set remaining" by auto
  then have "card (insert (ns_domain (remaining ! i)) used) \<le> card (used \<union> ns_domain ` set remaining)"
    using assms(2) by (simp add: card_mono)
  with False assms(2,3) show ?thesis by (simp add: spread_def)
qed

definition fill_spec ::
  "nat \<Rightarrow> node_id list \<Rightarrow> string set \<Rightarrow> node_slot list \<Rightarrow> node_id list \<Rightarrow> node_slot list \<Rightarrow> node_slot list \<Rightarrow> bool" where
  "fill_spec rf chosen used remaining c r picked \<longleftrightarrow>
     c = chosen @ slot_ids picked \<and> mset remaining = mset picked + mset r \<and>
     length c = max (length chosen) (min rf (length chosen + length remaining)) \<and>
     (spread (length chosen) used (used \<union> ns_domain ` set remaining) \<longrightarrow>
      spread (length c) (used \<union> ns_domain ` set picked) (used \<union> ns_domain ` set remaining))"

lemma fill_spec_step:
  assumes i: "pick_slot used remaining = Some i" and "finite used" and lt: "length chosen < rf"
    and spec: "fill_spec rf (chosen @ [ns_node_id (remaining ! i)])
      (insert (ns_domain (remaining ! i)) used) (take i remaining @ drop (Suc i) remaining) c r picked"
  shows "fill_spec rf chosen used remaining c r (remaining ! i # picked)"
proof -
  let ?s = "remaining ! i" and ?rest = "take i remaining @ drop (Suc i) remaining"
  have len: "i < length remaining" using pick_slot_SomeD(1) [OF i] .
  have ms: "mset remaining = add_mset ?s (mset ?rest)" using mset_remove_nth [OF len] .
  then have "set remaining = insert ?s (set ?rest)"
    by (metis set_mset_add_mset_insert set_mset_mset)
  then have D: "insert (ns_domain ?s) used \<union> ns_domain ` set ?rest = used \<union> ns_domain ` set remaining"
    and P: "insert (ns_domain ?s) used \<union> ns_domain ` set picked = used \<union> ns_domain ` set (?s # picked)"
    by auto
  have "length c = max (Suc (length chosen)) (min rf (Suc (length chosen) + length ?rest))"
    using spec unfolding fill_spec_def length_append_singleton by (elim conjE)
  moreover have "Suc (length ?rest) = length remaining"
    using len by simp
  ultimately have "length c = max (length chosen) (min rf (length chosen + length remaining))"
    using lt by arith
  moreover have "spread (length c) (used \<union> ns_domain ` set (?s # picked)) (used \<union> ns_domain ` set remaining)"
    if "spread (length chosen) used (used \<union> ns_domain ` set remaining)"
    using spec spread_pick [OF i \<open>finite used\<close> that]
    unfolding fill_spec_def D P length_append_singleton by blast
  ultimately show ?thesis
    using spec ms by (simp add: fill_spec_def)
qed

lemma fill_replicas_spec:
  assumes "fill_replicas rf chosen used remaining = (c, r)"
    and "length chosen < 2 ^ 32" and "rf < 2 ^ 32" and "finite used"
  shows "\<exists>picked. fill_spec rf chosen used remaining c r picked"
  using assms
proof (induction rf chosen used remaining arbitrary: c r rule: fill_replicas.induct)
  case (1 rf chosen used remaining)
  show ?case
  proof (cases "as_u32 (length chosen) < rf \<and> remaining \<noteq> []")
    case False
    then have "c = chosen" "r = remaining"
      using "1.prems"(1) by (auto simp: fill_replicas.simps [of rf chosen used remaining])
    moreover have "rf \<le> length chosen \<or> remaining = []"
      using False "1.prems"(2) by (auto simp: as_u32_small)
    ultimately have "fill_spec rf chosen used remaining c r []"
      by (auto simp: fill_spec_def)
    then show ?thesis ..
  next
    case True
    then obtain i where i: "pick_slot used remaining = Some i"
      and eq: "fill_replicas rf chosen used remaining =
        fill_replicas rf (chosen @ [ns_node_id (remaining ! i)])
          (insert (ns_domain (remaining ! i)) used) (take i remaining @ drop (Suc i) remaining)"
      using fill_replicas_step by metis
    have lt: "length chosen < rf" using True "1.prems"(2) by (simp add: as_u32_small)
    have "\<exists>picked. fill_spec rf (chosen @ [ns_node_id (remaining ! i)])
      (insert (ns_domain (remaining ! i)) used) (take i remaining @ drop (Suc i) remaining) c r picked"
      using "1.IH" [OF True i refl] "1.prems" eq lt by simp
    with fill_spec_step [OF i "1.prems"(4) lt] show ?thesis by blast
  qed
qed

subsection \<open>Dropping and exchanging\<close>

lemma drop_extras_result:
  assumes "length chosen < 2 ^ 32"
  shows "length (drop_extras rf healthy chosen) = min rf (length chosen)"
    and "set (drop_extras rf healthy chosen) \<subseteq> set chosen"
    and "distinct chosen \<Longrightarrow> distinct (drop_extras rf healthy chosen)"
    and "length chosen \<le> rf \<Longrightarrow> drop_extras rf healthy chosen = chosen"
  using assms set_take_subset [of rf "sort_key (\<lambda>n. load_for n healthy) chosen"]
  by (auto simp: drop_extras_def as_u32_small)

lemma best_swap_SomeD:
  assumes "best_swap healthy chosen remaining = Some s"
  shows "\<exists>candidate \<in> set remaining. \<exists>i < length chosen.
    s = trial_swap healthy chosen candidate i \<and> \<not> rejected s"
proof -
  define ok where "ok = (\<lambda>best. \<forall>s. best = Some s \<longrightarrow>
    (\<exists>candidate \<in> set remaining. \<exists>i < length chosen.
       s = trial_swap healthy chosen candidate i \<and> \<not> rejected s))"
  have step: "ok (consider_swap best (trial_swap healthy chosen candidate i))"
    if "ok best" "candidate \<in> set remaining" "i < length chosen" for best candidate i
    using that by (auto simp: ok_def consider_swap_def split: if_splits)
  have none: "ok None" by (simp add: ok_def)
  have "ok (best_swap healthy chosen remaining)"
    unfolding best_swap_def
    by (intro foldl_invariant [of ok]) (auto intro: none step)
  with assms show ?thesis by (simp add: ok_def)
qed

lemma swap_one_cases:
  obtains (same) "swap_one rf healthy remaining chosen = chosen"
  | (swap) candidate i where "candidate \<in> set remaining" "i < length chosen"
    "swap_one rf healthy remaining chosen = chosen[i := ns_node_id candidate]"
    "\<not> rejected (trial_swap healthy chosen candidate i)"
proof (cases "swap_one rf healthy remaining chosen = chosen")
  case False
  then obtain s where s: "best_swap healthy chosen remaining = Some s"
    "swap_one rf healthy remaining chosen = chosen[sw_index s := sw_candidate_id s]"
    by (auto simp: swap_one_def split: if_splits option.splits)
  from best_swap_SomeD [OF s(1)] swap s(2) show ?thesis
    by (auto simp: trial_swap_def Let_def)
qed (use same in simp)

lemma length_swap_one [simp]: "length (swap_one rf healthy remaining chosen) = length chosen"
  by (cases rule: swap_one_cases [of rf healthy remaining chosen]) auto

lemma distinct_swap_one:
  assumes "distinct chosen" and "set (slot_ids remaining) \<inter> set chosen = {}"
  shows "distinct (swap_one rf healthy remaining chosen)"
proof (cases rule: swap_one_cases [of rf healthy remaining chosen])
  case (swap candidate i)
  then have "ns_node_id candidate \<notin> set chosen" using assms(2) by auto
  with swap assms(1) show ?thesis by (simp add: distinct_list_update)
qed (use assms in simp)

lemma set_swap_one: "set (swap_one rf healthy remaining chosen) \<subseteq> set chosen \<union> set (slot_ids remaining)"
proof (cases rule: swap_one_cases [of rf healthy remaining chosen])
  case (swap candidate i)
  then show ?thesis using set_update_subset_insert [of chosen i "ns_node_id candidate"] by auto
qed simp

text \<open>An exchange keeps every replica but one, and never reduces the failure-domain spread.\<close>

lemma swap_one_moves_one: "card (set chosen - set (swap_one rf healthy remaining chosen)) \<le> 1"
proof (cases rule: swap_one_cases [of rf healthy remaining chosen])
  case (swap candidate i)
  have "set chosen - set (chosen[i := ns_node_id candidate]) \<subseteq> {chosen ! i}"
    by (auto simp: in_set_conv_nth) (metis length_list_update nth_list_update_neq)
  with swap(3) show ?thesis by (metis card.empty card_insert_le_m1 card_mono empty_iff
        finite.intros insert_iff le_numeral_extra(4) One_nat_def card_1_singleton_iff)
qed simp

lemma swap_one_domain_count:
  assumes "length chosen < 2 ^ 31"
  shows "domain_count chosen healthy \<le> domain_count (swap_one rf healthy remaining chosen) healthy"
proof (cases rule: swap_one_cases [of rf healthy remaining chosen])
  case (swap candidate i)
  have "domain_count ids healthy < 2 ^ 31" if "length ids = length chosen" for ids
    using domain_count_le [of ids healthy] assms that by simp
  then have "0 \<le> int (domain_count (chosen[i := ns_node_id candidate]) healthy)
      - int (domain_count chosen healthy)"
    using swap(4) by (auto simp: rejected_def trial_swap_def Let_def as_i32_small)
  with swap(3) show ?thesis by simp
qed simp

subsection \<open>The plan\<close>

text \<open>
  The inputs the scheduler builds: one slot per healthy node, and sizes inside the ranges of the
  casts in the source.
\<close>

definition plan_input :: "node_id list \<Rightarrow> node_slot list \<Rightarrow> nat \<Rightarrow> bool" where
  "plan_input current healthy rf \<longleftrightarrow>
     distinct (slot_ids healthy) \<and> length current < 2 ^ 32 \<and> rf < 2 ^ 32"

definition unchosen :: "node_id list \<Rightarrow> node_slot list \<Rightarrow> node_slot list" where
  "unchosen current healthy = filter (\<lambda>s. ns_node_id s \<notin> set (kept current healthy)) healthy"

text \<open>A run of the planner: the slots it picked and the candidates it left over.\<close>

definition plan_run ::
  "node_id list \<Rightarrow> node_slot list \<Rightarrow> nat \<Rightarrow> node_slot list \<Rightarrow> node_slot list \<Rightarrow> bool" where
  "plan_run current healthy rf picked r \<longleftrightarrow>
     fill_spec rf (kept current healthy) (domains_of (kept current healthy) healthy)
       (unchosen current healthy) (kept current healthy @ slot_ids picked) r picked \<and>
     plan_replicas current healthy rf =
       swap_one rf healthy r (drop_extras rf healthy (kept current healthy @ slot_ids picked)) \<and>
     length (kept current healthy @ slot_ids picked) < 2 ^ 32"

lemma plan_run_exists:
  assumes "plan_input current healthy rf"
  obtains picked r where "plan_run current healthy rf picked r"
proof -
  let ?k = "kept current healthy"
  have "length ?k \<le> length current" by (simp add: kept_def)
  then have len: "length ?k < 2 ^ 32"
    using assms by (simp add: plan_input_def)
  obtain c r where cr: "fill_replicas rf ?k (domains_of ?k healthy) (unchosen current healthy) = (c, r)"
    by fastforce
  have rf: "rf < 2 ^ 32" using assms by (simp add: plan_input_def)
  obtain picked
    where spec: "fill_spec rf ?k (domains_of ?k healthy) (unchosen current healthy) c r picked"
    using fill_replicas_spec [OF cr len rf] by auto
  then have c: "c = ?k @ slot_ids picked" by (simp add: fill_spec_def)
  have "plan_replicas current healthy rf = swap_one rf healthy r (drop_extras rf healthy c)"
    using cr by (simp add: plan_replicas_def unchosen_def Let_def)
  moreover have "length c < 2 ^ 32"
  proof -
    have "length c = max (length ?k) (min rf (length ?k + length (unchosen current healthy)))"
      using spec unfolding fill_spec_def by (elim conjE)
    then show ?thesis using len rf by linarith
  qed
  ultimately have "plan_run current healthy rf picked r"
    using spec unfolding c plan_run_def by blast
  then show ?thesis by (rule that)
qed

lemma plan_run_length:
  assumes "plan_run current healthy rf picked r"
  shows "length (plan_replicas current healthy rf) =
    min rf (length (kept current healthy) + length (unchosen current healthy))"
proof -
  let ?c = "kept current healthy @ slot_ids picked"
  have "length ?c = max (length (kept current healthy))
      (min rf (length (kept current healthy) + length (unchosen current healthy)))"
    using assms unfolding plan_run_def fill_spec_def by (elim conjE)
  moreover have "length (plan_replicas current healthy rf) = min rf (length ?c)"
    using assms by (simp add: plan_run_def drop_extras_result(1))
  ultimately show ?thesis by simp
qed

lemma plan_length_le:
  assumes "plan_input current healthy rf"
  shows "length (plan_replicas current healthy rf) \<le> rf"
  using plan_run_exists [OF assms] plan_run_length by (metis min.cobounded1)

lemma length_unchosen:
  assumes "distinct (slot_ids healthy)"
  shows "length (unchosen current healthy) = length healthy - card (set (kept current healthy))"
proof -
  let ?k = "set (kept current healthy)"
  let ?in = "filter (\<lambda>s. ns_node_id s \<in> ?k) healthy"
  have "distinct (slot_ids ?in)" using assms by (rule distinct_map_filter)
  then have "length ?in = card (set (slot_ids ?in))"
    by (metis distinct_card length_map)
  also have "set (slot_ids ?in) = ?k" by (auto simp: set_kept)
  finally show ?thesis
    using sum_length_filter_compl [of "\<lambda>s. ns_node_id s \<in> ?k" healthy]
    by (simp add: unchosen_def)
qed

lemma card_kept_le:
  assumes "distinct (slot_ids healthy)"
  shows "card (set (kept current healthy)) \<le> length healthy"
  by (metis card_length card_mono finite_set inf_le2 length_map order.trans set_kept)

lemma plan_length_ge:
  assumes "plan_input current healthy rf"
  shows "min rf (length healthy) \<le> length (plan_replicas current healthy rf)"
proof -
  obtain picked r where p: "plan_run current healthy rf picked r"
    using plan_run_exists [OF assms] .
  have ids: "distinct (slot_ids healthy)" using assms by (simp add: plan_input_def)
  have "card (set (kept current healthy)) \<le> length (kept current healthy)"
    by (rule card_length)
  then have "length healthy \<le> length (kept current healthy) + length (unchosen current healthy)"
    using length_unchosen [OF ids, of current] by simp
  then show ?thesis
    unfolding plan_run_length [OF p] by simp
qed

lemma plan_length:
  assumes "plan_input current healthy rf" and "distinct current"
  shows "length (plan_replicas current healthy rf) = min rf (length healthy)"
proof -
  obtain picked r where p: "plan_run current healthy rf picked r"
    using plan_run_exists [OF assms(1)] .
  have ids: "distinct (slot_ids healthy)" using assms by (simp add: plan_input_def)
  have "card (set (kept current healthy)) = length (kept current healthy)"
    using distinct_kept [OF assms(2)] by (rule distinct_card)
  then have "length healthy = length (kept current healthy) + length (unchosen current healthy)"
    using length_unchosen [OF ids, of current] card_kept_le [OF ids, of current] by simp
  then show ?thesis
    unfolding plan_run_length [OF p] by simp
qed

text \<open>The candidates left over are healthy, pairwise different and not chosen.\<close>

lemma leftovers:
  assumes "distinct (slot_ids healthy)"
    and "mset (unchosen current healthy) = mset picked + mset r"
  shows "set picked \<union> set r \<subseteq> set healthy"
    and "distinct (slot_ids picked)"
    and "set (slot_ids r) \<inter> set (kept current healthy @ slot_ids picked) = {}"
    and "set (kept current healthy) \<inter> set (slot_ids picked) = {}"
proof -
  have sets: "set (unchosen current healthy) = set picked \<union> set r"
    using assms(2) by (metis set_mset_mset set_mset_union)
  then show "set picked \<union> set r \<subseteq> set healthy"
    by (auto simp: unchosen_def)
  have "distinct (slot_ids (unchosen current healthy))"
    unfolding unchosen_def using assms(1) by (rule distinct_map_filter)
  moreover have "mset (slot_ids (unchosen current healthy)) = mset (slot_ids (picked @ r))"
    using assms(2) by simp
  ultimately have d: "distinct (slot_ids (picked @ r))"
    by (metis mset_eq_imp_distinct_iff)
  then show "distinct (slot_ids picked)" by simp
  have "ns_node_id s \<notin> set (kept current healthy)" if "s \<in> set picked \<union> set r" for s
    using that sets by (auto simp: unchosen_def)
  with d show "set (slot_ids r) \<inter> set (kept current healthy @ slot_ids picked) = {}"
    and "set (kept current healthy) \<inter> set (slot_ids picked) = {}"
    by auto
qed

lemma plan_replicas_set:
  assumes "plan_input current healthy rf"
  shows "set (plan_replicas current healthy rf) \<subseteq> set (slot_ids healthy)"
    and "distinct current \<Longrightarrow> distinct (plan_replicas current healthy rf)"
proof -
  obtain picked r where run: "plan_run current healthy rf picked r"
    using plan_run_exists [OF assms] .
  have p: "fill_spec rf (kept current healthy) (domains_of (kept current healthy) healthy)
       (unchosen current healthy) (kept current healthy @ slot_ids picked) r picked"
    "plan_replicas current healthy rf =
       swap_one rf healthy r (drop_extras rf healthy (kept current healthy @ slot_ids picked))"
    "length (kept current healthy @ slot_ids picked) < 2 ^ 32"
    using run unfolding plan_run_def by blast+
  have ids: "distinct (slot_ids healthy)" using assms by (simp add: plan_input_def)
  note l = leftovers [OF ids, of current picked r] and de = drop_extras_result [OF p(3)]
  have ms: "mset (unchosen current healthy) = mset picked + mset r"
    using p(1) by (simp add: fill_spec_def)
  have "set (kept current healthy @ slot_ids picked) \<union> set (slot_ids r) \<subseteq> set (slot_ids healthy)"
    using l(1) [OF ms] by (auto simp: set_kept)
  then show "set (plan_replicas current healthy rf) \<subseteq> set (slot_ids healthy)"
    using set_swap_one [of rf healthy r] de(2) unfolding p(2) by blast
  show "distinct (plan_replicas current healthy rf)" if "distinct current"
    unfolding p(2)
  proof (rule distinct_swap_one)
    show "distinct (drop_extras rf healthy (kept current healthy @ slot_ids picked))"
      using l(2,4) [OF ms] distinct_kept [OF that] by (intro de(3)) simp
    show "set (slot_ids r) \<inter> set (drop_extras rf healthy (kept current healthy @ slot_ids picked)) = {}"
      using l(3) [OF ms] de(2) by blast
  qed
qed

lemma plan_run_no_drop:
  assumes "plan_run current healthy rf picked r" and "length (kept current healthy) \<le> rf"
  shows "plan_replicas current healthy rf = swap_one rf healthy r (kept current healthy @ slot_ids picked)"
    and "length (kept current healthy @ slot_ids picked) =
      min rf (length (kept current healthy) + length (unchosen current healthy))"
proof -
  let ?c = "kept current healthy @ slot_ids picked"
  have len: "length ?c < 2 ^ 32"
    and run: "plan_replicas current healthy rf = swap_one rf healthy r (drop_extras rf healthy ?c)"
    using assms(1) unfolding plan_run_def by blast+
  have "length ?c = max (length (kept current healthy))
      (min rf (length (kept current healthy) + length (unchosen current healthy)))"
    using assms(1) unfolding plan_run_def fill_spec_def by (elim conjE)
  with assms(2)
  show "length ?c = min rf (length (kept current healthy) + length (unchosen current healthy))"
    by linarith
  then show "plan_replicas current healthy rf = swap_one rf healthy r ?c"
    using run drop_extras_result(4) [OF len, of rf healthy] by (simp del: length_append length_map)
qed

text \<open>Minimal movement: a plan that does not shrink displaces at most one healthy replica.\<close>

lemma plan_moves_one:
  assumes "plan_input current healthy rf" and "length (kept current healthy) \<le> rf"
  shows "card (set (kept current healthy) - set (plan_replicas current healthy rf)) \<le> 1"
proof -
  obtain picked r where run: "plan_run current healthy rf picked r"
    using plan_run_exists [OF assms(1)] .
  let ?c = "kept current healthy @ slot_ids picked"
  have "set (kept current healthy) - set (plan_replicas current healthy rf)
      \<subseteq> set ?c - set (swap_one rf healthy r ?c)"
    unfolding plan_run_no_drop(1) [OF run assms(2)] by auto
  then have "card (set (kept current healthy) - set (plan_replicas current healthy rf))
      \<le> card (set ?c - set (swap_one rf healthy r ?c))"
    by (rule card_mono [rotated]) simp
  also have "\<dots> \<le> 1" by (rule swap_one_moves_one)
  finally show ?thesis .
qed

text \<open>
  Maximal spread: from replicas that already cover as many failure domains as they can, the plan
  covers as many as the replication factor and the healthy fleet allow.
\<close>

lemma domains_all:
  assumes "distinct (slot_ids healthy)"
  shows "domains_of (kept current healthy) healthy \<union> ns_domain ` set (unchosen current healthy)
    = ns_domain ` set healthy"
  using assms by (auto simp: domains_of_eq unchosen_def)

lemma domains_of_picked:
  assumes "distinct (slot_ids healthy)" and "set picked \<subseteq> set healthy"
  shows "domains_of (k @ slot_ids picked) healthy = domains_of k healthy \<union> ns_domain ` set picked"
proof -
  have "s \<in> set picked"
    if "s \<in> set healthy" "ns_node_id s = ns_node_id p" "p \<in> set picked" for s p
    using that assms by (metis find_slot_Some option.inject subsetD)
  with assms(2) show ?thesis by (fastforce simp: domains_of_eq [OF assms(1)])
qed

lemma plan_spread:
  assumes inp: "plan_input current healthy rf" and fits: "length (kept current healthy) \<le> rf"
    and rf: "rf < 2 ^ 31"
    and cur: "domain_count (kept current healthy) healthy
      = min (length (kept current healthy)) (card (ns_domain ` set healthy))"
  shows "domain_count (plan_replicas current healthy rf) healthy = min rf (card (ns_domain ` set healthy))"
proof -
  obtain picked r where run: "plan_run current healthy rf picked r"
    using plan_run_exists [OF inp] .
  let ?k = "kept current healthy" and ?D = "ns_domain ` set healthy"
  let ?c = "?k @ slot_ids picked"
  have ids: "distinct (slot_ids healthy)" using inp by (simp add: plan_input_def)
  note c = plan_run_no_drop [OF run fits]
  have fill: "fill_spec rf ?k (domains_of ?k healthy) (unchosen current healthy) ?c r picked"
    using run by (simp add: plan_run_def)
  then have "spread (length ?c) (domains_of ?k healthy \<union> ns_domain ` set picked) ?D"
    using cur unfolding fill_spec_def domains_all [OF ids] spread_def domain_count_def by blast
  moreover have "domains_of ?c healthy = domains_of ?k healthy \<union> ns_domain ` set picked"
    using fill leftovers(1) [OF ids, of current picked r] unfolding fill_spec_def
    by (intro domains_of_picked [OF ids]) blast
  ultimately have dc: "domain_count ?c healthy = min (length ?c) (card ?D)"
    by (simp add: spread_def domain_count_def)
  have upper: "domain_count (plan_replicas current healthy rf) healthy \<le> min (length ?c) (card ?D)"
  proof -
    have "domains_of (plan_replicas current healthy rf) healthy \<subseteq> ?D"
      by (auto simp: domains_of_eq [OF ids])
    then have "card (domains_of (plan_replicas current healthy rf) healthy) \<le> card ?D"
      by (simp add: card_mono)
    moreover have "domain_count (plan_replicas current healthy rf) healthy \<le> length ?c"
      using domain_count_le [of "plan_replicas current healthy rf" healthy]
      unfolding c(1) length_swap_one .
    ultimately show ?thesis by (simp add: domain_count_def)
  qed
  have "length ?c < 2 ^ 31" using c(2) rf by linarith
  then have "domain_count ?c healthy \<le> domain_count (plan_replicas current healthy rf) healthy"
    unfolding c(1) by (rule swap_one_domain_count)
  with dc upper have "domain_count (plan_replicas current healthy rf) healthy = min (length ?c) (card ?D)"
    by linarith
  moreover have "card ?D \<le> length ?k + length (unchosen current healthy)"
    using card_length [of ?k] length_unchosen [OF ids, of current]
      card_length [of "map ns_domain healthy"] by simp
  ultimately show ?thesis using c(2) by linarith
qed

subsection \<open>Properties\<close>

text \<open>
  C19. A plan is exact: for distinct current replicas and distinct healthy candidates it consists of
  different healthy nodes, as many as the replication factor or the healthy fleet allows.
\<close>

theorem plan_replicas_exact:
  assumes "plan_input current healthy rf" and "distinct current"
  shows "set (plan_replicas current healthy rf) \<subseteq> set (slot_ids healthy)
    \<and> distinct (plan_replicas current healthy rf)
    \<and> length (plan_replicas current healthy rf) = min rf (length healthy)"
  using plan_replicas_set [OF assms(1)] plan_length [OF assms] assms(2) by blast

theorem plan_replicas_exact_witness:
  "length (plan_replicas [''a'', ''x'']
     [\<lparr>ns_node_id = ''a'', ns_domain = ''d1'', ns_load = 4\<rparr>,
      \<lparr>ns_node_id = ''b'', ns_domain = ''d1'', ns_load = 0\<rparr>,
      \<lparr>ns_node_id = ''c'', ns_domain = ''d2'', ns_load = 9\<rparr>] 2) = 2"
  using plan_replicas_exact [of "[''a'', ''x'']"
    "[\<lparr>ns_node_id = ''a'', ns_domain = ''d1'', ns_load = 4\<rparr>,
      \<lparr>ns_node_id = ''b'', ns_domain = ''d1'', ns_load = 0\<rparr>,
      \<lparr>ns_node_id = ''c'', ns_domain = ''d2'', ns_load = 9\<rparr>]" 2]
  by (simp add: plan_input_def)

text \<open>
  C21. Minimal movement: unless the replication factor shrank, a plan displaces at most one of the
  replicas that are still healthy.
\<close>

theorem plan_replicas_minimal_movement:
  assumes "plan_input current healthy rf"
    and "length (filter (\<lambda>n. n \<in> set (slot_ids healthy)) current) \<le> rf"
  shows "card (set current \<inter> set (slot_ids healthy) - set (plan_replicas current healthy rf)) \<le> 1"
proof -
  have "length (kept current healthy) \<le> rf" using assms(2) by (simp add: kept_def)
  from plan_moves_one [OF assms(1) this] show ?thesis by (simp only: set_kept)
qed

theorem plan_replicas_minimal_movement_witness:
  "card ({''a'', ''b''} - set (plan_replicas [''a'', ''b'']
     [\<lparr>ns_node_id = ''a'', ns_domain = ''d1'', ns_load = 9\<rparr>,
      \<lparr>ns_node_id = ''b'', ns_domain = ''d1'', ns_load = 9\<rparr>,
      \<lparr>ns_node_id = ''c'', ns_domain = ''d2'', ns_load = 0\<rparr>] 2)) \<le> 1"
proof -
  let ?h = "[\<lparr>ns_node_id = ''a'', ns_domain = ''d1'', ns_load = 9\<rparr>,
      \<lparr>ns_node_id = ''b'', ns_domain = ''d1'', ns_load = 9\<rparr>,
      \<lparr>ns_node_id = ''c'', ns_domain = ''d2'', ns_load = 0\<rparr>]"
  have "plan_input [''a'', ''b''] ?h 2" by (simp add: plan_input_def)
  moreover have "set [''a'', ''b''] \<inter> set (slot_ids ?h) = {''a'', ''b''}" by auto
  ultimately show ?thesis
    using plan_replicas_minimal_movement [of "[''a'', ''b'']" ?h 2] by simp
qed



end
