(* ===== verification/Leadership.thy ===== *)
theory Leadership
  imports Model
begin

section \<open>Leader affinity (\<open>src/leadership.rs\<close>)\<close>

text \<open>
  Which replica of a shard should lead: \<open>preferred_leader_for_policy\<close> ranks the healthy replicas
  by the shard's policy, \<open>desired_leader\<close> turns a preference, the replicas and the observed leader
  into the leader the scheduler drives toward.
\<close>

record leader_slot =
  ls_node_id :: node_id
  ls_cloud_provider :: string
  ls_region :: string
  ls_leader_load :: nat

text \<open>An affinity of the policy, \<open>map(|x| x.eq_ignore_ascii_case(..)).unwrap_or(false)\<close>.\<close>

definition affine :: "string option \<Rightarrow> string \<Rightarrow> bool" where
  "affine want have_it = (case want of None \<Rightarrow> False | Some w \<Rightarrow> eq_ignore_ascii_case w have_it)"

text \<open>
  The comparator of \<open>min_by\<close> is lexicographic. A comparison with the operands exchanged,
  \<open>b_region.cmp(&a_region)\<close>, puts true first and is the comparison of the negations.
\<close>

definition leader_key ::
  "placement_policy option \<Rightarrow> node_id option \<Rightarrow> leader_slot \<Rightarrow> bool \<times> bool \<times> nat \<times> bool \<times> node_id" where
  "leader_key pol current s =
     (\<not> affine (Option.bind pol pp_home_region) (ls_region s),
      \<not> affine (Option.bind pol pp_preferred_cloud_provider) (ls_cloud_provider s),
      ls_leader_load s,
      current \<noteq> Some (ls_node_id s),
      ls_node_id s)"

definition leader_candidates ::
  "node_id list \<Rightarrow> node_id set \<Rightarrow> leader_slot list \<Rightarrow> leader_slot list" where
  "leader_candidates replicas healthy slots =
     filter (\<lambda>s. ls_node_id s \<in> healthy \<and> ls_node_id s \<in> set replicas) slots"

definition preferred_leader_for_policy ::
  "placement_policy option \<Rightarrow> node_id list \<Rightarrow> node_id set \<Rightarrow> leader_slot list \<Rightarrow> node_id option
    \<Rightarrow> node_id option" where
  "preferred_leader_for_policy pol replicas healthy slots current =
     map_option ls_node_id
       (min_by_key (leader_key pol current) (leader_candidates replicas healthy slots))"

definition desired_leader ::
  "node_id option \<Rightarrow> node_id list \<Rightarrow> node_id set \<Rightarrow> node_id option \<Rightarrow> node_id option" where
  "desired_leader preferred replicas healthy current =
     (let ok = (\<lambda>n. n \<in> healthy \<and> n \<in> set replicas) in
      case preferred of
        Some p \<Rightarrow>
          if ok p then Some p
          else (case current of
                  Some c \<Rightarrow> if ok c then Some c else find (\<lambda>r. r \<in> healthy) replicas
                | None \<Rightarrow> find (\<lambda>r. r \<in> healthy) replicas)
      | None \<Rightarrow>
          (case current of
             Some c \<Rightarrow> if ok c then Some c else find (\<lambda>r. r \<in> healthy) replicas
           | None \<Rightarrow> find (\<lambda>r. r \<in> healthy) replicas))"

subsection \<open>The preference\<close>

lemma preferred_leader_SomeD:
  assumes "preferred_leader_for_policy pol replicas healthy slots current = Some n"
  obtains s where "s \<in> set slots" "ls_node_id s = n" "n \<in> healthy" "n \<in> set replicas"
    and "\<And>t. t \<in> set slots \<Longrightarrow> ls_node_id t \<in> healthy \<Longrightarrow> ls_node_id t \<in> set replicas \<Longrightarrow>
       leader_key pol current s \<le> leader_key pol current t"
proof -
  obtain s where s: "min_by_key (leader_key pol current) (leader_candidates replicas healthy slots) = Some s"
    and n: "n = ls_node_id s"
    using assms by (auto simp: preferred_leader_for_policy_def)
  note m = min_by_key_SomeD [OF s]
  have "s \<in> set slots" "ls_node_id s \<in> healthy" "ls_node_id s \<in> set replicas"
    using m(1) by (auto simp: leader_candidates_def)
  with m(2) n show ?thesis
    by (intro that [of s]) (auto simp: leader_candidates_def)
qed

lemma preferred_leader_None:
  "preferred_leader_for_policy pol replicas healthy slots current = None \<longleftrightarrow>
   (\<forall>s \<in> set slots. ls_node_id s \<in> healthy \<longrightarrow> ls_node_id s \<notin> set replicas)"
  by (auto simp: preferred_leader_for_policy_def leader_candidates_def filter_empty_conv)

lemma preferred_leader_region:
  assumes "preferred_leader_for_policy pol replicas healthy slots current = Some n"
    and "t \<in> set slots" "ls_node_id t \<in> healthy" "ls_node_id t \<in> set replicas"
    and "affine (Option.bind pol pp_home_region) (ls_region t)"
  shows "\<exists>s \<in> set slots. ls_node_id s = n \<and> affine (Option.bind pol pp_home_region) (ls_region s)"
  using assms(1)
proof (rule preferred_leader_SomeD)
  fix s
  assume s: "s \<in> set slots" "ls_node_id s = n"
    and least: "\<And>t. t \<in> set slots \<Longrightarrow> ls_node_id t \<in> healthy \<Longrightarrow> ls_node_id t \<in> set replicas \<Longrightarrow>
       leader_key pol current s \<le> leader_key pol current t"
  from least [OF assms(2-4)] assms(5) have "affine (Option.bind pol pp_home_region) (ls_region s)"
    by (auto simp: leader_key_def)
  with s show ?thesis by blast
qed

text \<open>The observed leader keeps a tie, so a restarted brain does not move leadership for nothing.\<close>

lemma preferred_leader_stable:
  assumes "preferred_leader_for_policy pol replicas healthy slots (Some c) = Some n"
    and "distinct (map ls_node_id slots)"
    and t: "t \<in> set slots" "ls_node_id t = c" "c \<in> healthy" "c \<in> set replicas"
    and s: "s \<in> set slots" "ls_node_id s = n"
    and tie: "affine (Option.bind pol pp_home_region) (ls_region s)
        = affine (Option.bind pol pp_home_region) (ls_region t)"
      "affine (Option.bind pol pp_preferred_cloud_provider) (ls_cloud_provider s)
        = affine (Option.bind pol pp_preferred_cloud_provider) (ls_cloud_provider t)"
      "ls_leader_load s = ls_leader_load t"
  shows "n = c"
  using assms(1)
proof (rule preferred_leader_SomeD)
  fix s'
  assume s': "s' \<in> set slots" "ls_node_id s' = n"
    and least: "\<And>t. t \<in> set slots \<Longrightarrow> ls_node_id t \<in> healthy \<Longrightarrow> ls_node_id t \<in> set replicas \<Longrightarrow>
       leader_key pol (Some c) s' \<le> leader_key pol (Some c) t"
  have "s' = s" using assms(2) s s' by (metis distinct_map inj_onD)
  with least [OF t(1)] t tie s show ?thesis
    by (auto simp: leader_key_def split: if_splits)
qed

subsection \<open>The desired leader\<close>

lemma desired_leader_SomeD:
  assumes "desired_leader preferred replicas healthy current = Some n"
  shows "n \<in> healthy" and "n \<in> set replicas"
  using assms
  by (auto simp: desired_leader_def Let_def find_Some_iff in_set_conv_nth
      split: option.splits if_splits)

lemma desired_leader_None:
  "desired_leader preferred replicas healthy current = None \<longleftrightarrow> set replicas \<inter> healthy = {}"
  by (auto simp: desired_leader_def Let_def find_None_iff split: option.splits)

lemma desired_leader_affinity:
  assumes "p \<in> healthy" and "p \<in> set replicas"
  shows "desired_leader (Some p) replicas healthy current = Some p"
  using assms by (simp add: desired_leader_def)

lemma desired_leader_sticky:
  assumes "c \<in> healthy" and "c \<in> set replicas"
    and "\<And>p. preferred = Some p \<Longrightarrow> p \<notin> healthy \<or> p \<notin> set replicas"
  shows "desired_leader preferred replicas healthy (Some c) = Some c"
  using assms by (auto simp: desired_leader_def split: option.splits)

subsection \<open>Properties\<close>

text \<open>
  The desired leader is always a healthy replica, it exists exactly when some replica is healthy,
  a healthy preferred replica wins, and otherwise a healthy current leader keeps the shard.
\<close>

theorem desired_leader_correct:
  "(\<forall>l. desired_leader preferred replicas healthy current = Some l \<longrightarrow> l \<in> healthy \<and> l \<in> set replicas)
   \<and> (desired_leader preferred replicas healthy current = None \<longleftrightarrow> set replicas \<inter> healthy = {})
   \<and> (\<forall>p. preferred = Some p \<and> p \<in> healthy \<and> p \<in> set replicas \<longrightarrow>
        desired_leader preferred replicas healthy current = Some p)
   \<and> (\<forall>c. current = Some c \<and> c \<in> healthy \<and> c \<in> set replicas
        \<and> (\<forall>p. preferred = Some p \<longrightarrow> p \<notin> healthy \<or> p \<notin> set replicas) \<longrightarrow>
        desired_leader preferred replicas healthy current = Some c)"
proof (intro conjI allI impI)
  show "l \<in> healthy" "l \<in> set replicas"
    if "desired_leader preferred replicas healthy current = Some l" for l
    using desired_leader_SomeD [OF that] .
  show "desired_leader preferred replicas healthy current = Some p"
    if "preferred = Some p \<and> p \<in> healthy \<and> p \<in> set replicas" for p
    using that by (simp add: desired_leader_affinity)
  show "desired_leader preferred replicas healthy current = Some c"
    if "current = Some c \<and> c \<in> healthy \<and> c \<in> set replicas \<and>
      (\<forall>p. preferred = Some p \<longrightarrow> p \<notin> healthy \<or> p \<notin> set replicas)" for c
    using that by (simp add: desired_leader_sticky)
qed (rule desired_leader_None)

theorem desired_leader_correct_witness:
  "desired_leader (Some ''p'') [''a'', ''p''] {''a'', ''p''} (Some ''a'') = Some ''p''
   \<and> desired_leader (Some ''q'') [''a'', ''p''] {''a'', ''p''} (Some ''p'') = Some ''p''"
  using desired_leader_correct [of "Some ''p''" "[''a'', ''p'']" "{''a'', ''p''}" "Some ''a''"]
    desired_leader_correct [of "Some ''q''" "[''a'', ''p'']" "{''a'', ''p''}" "Some ''p''"]
  by simp

text \<open>
  The affinity target is optimal: no healthy replica with a slot beats it on region affinity,
  then cloud affinity, then leader load, then being the observed leader, then the node id; a tie on
  the first three goes to the observed leader.
\<close>

theorem preferred_leader_optimal:
  assumes "preferred_leader_for_policy pol replicas healthy slots current = Some n"
    and "distinct (map ls_node_id slots)" and "s \<in> set slots" and "ls_node_id s = n"
  shows "n \<in> healthy \<and> n \<in> set replicas \<and>
    (\<forall>t \<in> set slots. ls_node_id t \<in> healthy \<and> ls_node_id t \<in> set replicas \<longrightarrow>
       leader_key pol current s \<le> leader_key pol current t \<and>
       (current = Some (ls_node_id t) \<and>
        affine (Option.bind pol pp_home_region) (ls_region s)
          = affine (Option.bind pol pp_home_region) (ls_region t) \<and>
        affine (Option.bind pol pp_preferred_cloud_provider) (ls_cloud_provider s)
          = affine (Option.bind pol pp_preferred_cloud_provider) (ls_cloud_provider t) \<and>
        ls_leader_load s = ls_leader_load t \<longrightarrow> s = t))"
  using assms(1)
proof (rule preferred_leader_SomeD)
  fix s'
  assume s': "s' \<in> set slots" "ls_node_id s' = n" "n \<in> healthy" "n \<in> set replicas"
    and least: "\<And>t. t \<in> set slots \<Longrightarrow> ls_node_id t \<in> healthy \<Longrightarrow> ls_node_id t \<in> set replicas \<Longrightarrow>
       leader_key pol current s' \<le> leader_key pol current t"
  have same: "x = y" if "x \<in> set slots" "y \<in> set slots" "ls_node_id x = ls_node_id y" for x y
    using assms(2) that by (auto simp: distinct_map dest: inj_onD)
  have "s' = s" using same s' assms(3,4) by blast
  with s' least assms(1,2,3,4) preferred_leader_stable [of pol replicas healthy slots _ n] same
  show ?thesis by metis
qed

theorem preferred_leader_optimal_witness:
  "preferred_leader_for_policy None [''a'', ''b''] {''a'', ''b''}
     [\<lparr>ls_node_id = ''a'', ls_cloud_provider = [], ls_region = [], ls_leader_load = 1\<rparr>,
      \<lparr>ls_node_id = ''b'', ls_cloud_provider = [], ls_region = [], ls_leader_load = 1\<rparr>] (Some ''b'') = Some ''b''
   \<and> ''b'' \<in> {''a'', ''b''}"
proof -
  let ?slots = "[\<lparr>ls_node_id = ''a'', ls_cloud_provider = [], ls_region = [], ls_leader_load = 1\<rparr>,
      \<lparr>ls_node_id = ''b'', ls_cloud_provider = [], ls_region = [], ls_leader_load = 1\<rparr>]"
  have "preferred_leader_for_policy None [''a'', ''b''] {''a'', ''b''} ?slots (Some ''b'') = Some ''b''"
    by code_simp
  from preferred_leader_optimal [OF this, of "?slots ! 1"] this show ?thesis by simp
qed

end
