(* ===== verification/Oracle.thy ===== *)
theory Oracle
  imports Model
begin

section \<open>Liveness oracle (\<open>src/oracle.rs\<close>)\<close>

text \<open>
  The read-only Kubernetes signal the failure detector consults: the verdict on one pod object,
  the parsed pod list, the cached view with its staleness limit, and one iteration of the poller.
  JSON values are a datatype of their own; indexing a value that has no such key gives \<open>null\<close>, as
  \<open>serde_json::Value\<close> does. Instants are milliseconds.
\<close>

datatype pod_liveness = Running | Gone | Unknown

datatype json =
    JNull
  | JBool bool
  | JNumber int
  | JString string
  | JArray "json list"
  | JObject "(string \<times> json) list"

fun json_index :: "json \<Rightarrow> string \<Rightarrow> json" where
  "json_index (JObject members) key = (case map_of members key of Some v \<Rightarrow> v | None \<Rightarrow> JNull)"
| "json_index _ key = JNull"

fun as_str :: "json \<Rightarrow> string option" where
  "as_str (JString s) = Some s"
| "as_str _ = None"

fun as_array :: "json \<Rightarrow> json list option" where
  "as_array (JArray xs) = Some xs"
| "as_array _ = None"

text \<open>\<open>NullOracle::liveness\<close>.\<close>

definition null_oracle :: "node_id \<Rightarrow> pod_liveness" where
  "null_oracle node = Unknown"

definition crash_looping :: "json list \<Rightarrow> bool" where
  "crash_looping statuses =
     list_ex (\<lambda>c. as_str (json_index (json_index (json_index c ''state'') ''waiting'') ''reason'')
                    = Some ''CrashLoopBackOff'') statuses"

definition pod_liveness :: "json \<Rightarrow> pod_liveness" where
  "pod_liveness pod =
     (if as_str (json_index (json_index pod ''metadata'') ''deletionTimestamp'') \<noteq> None then Gone
      else
        let phase = (case as_str (json_index (json_index pod ''status'') ''phase'') of
                       Some p \<Rightarrow> p | None \<Rightarrow> []) in
        if phase = ''Failed'' then Gone
        else if (case as_array (json_index (json_index pod ''status'') ''containerStatuses'') of
                   Some statuses \<Rightarrow> crash_looping statuses | None \<Rightarrow> False) then Gone
        else if phase = ''Running'' then Running
        else Unknown)"

text \<open>Later entries of the list overwrite earlier ones of the same name, as \<open>HashMap::insert\<close> does.\<close>

definition parse_pod_list :: "json \<Rightarrow> (string, pod_liveness) hashmap" where
  "parse_pod_list list =
     (case as_array (json_index list ''items'') of
        Some items \<Rightarrow>
          foldl (\<lambda>m pod.
             case as_str (json_index (json_index pod ''metadata'') ''name'') of
               Some name \<Rightarrow> hm_insert name (pod_liveness pod) m
             | None \<Rightarrow> m) [] items
      | None \<Rightarrow> [])"

definition STALE_AFTER :: nat where
  "STALE_AFTER = 15000"

record kube_cache =
  kc_pods :: "(string, pod_liveness) hashmap"
  kc_updated_at :: "nat option"

definition empty_cache :: kube_cache where
  "empty_cache = \<lparr>kc_pods = [], kc_updated_at = None\<rparr>"

text \<open>\<open>KubeOracle::liveness\<close> at the instant \<open>now\<close>.\<close>

definition kube_liveness :: "kube_cache \<Rightarrow> nat \<Rightarrow> node_id \<Rightarrow> pod_liveness" where
  "kube_liveness cache now node =
     (case kc_updated_at cache of
        Some at \<Rightarrow>
          if sat_sub now at \<le> STALE_AFTER
          then (case map_of (kc_pods cache) node of Some l \<Rightarrow> l | None \<Rightarrow> Unknown)
          else Unknown
      | None \<Rightarrow> Unknown)"

text \<open>
  One iteration of the poller of \<open>KubeOracle::spawn\<close>: a successful list replaces the cache, a
  failed one only counts (and logs on the first and every twentieth failure).
\<close>

record poller =
  po_cache :: kube_cache
  po_failures :: nat

definition poll_step :: "nat \<Rightarrow> json option \<Rightarrow> poller \<Rightarrow> poller" where
  "poll_step now response p =
     (case response of
        Some body \<Rightarrow>
          p\<lparr>po_cache := \<lparr>kc_pods = parse_pod_list body, kc_updated_at = Some now\<rparr>,
            po_failures := 0\<rparr>
      | None \<Rightarrow> p\<lparr>po_failures := sat_add64 (po_failures p) 1\<rparr>)"

subsection \<open>Lemmas\<close>

text \<open>
  Death needs positive evidence: a pod is \<open>Gone\<close> exactly when it is terminating, failed or in a
  crash loop, and \<open>Running\<close> only when none of these holds.
\<close>

definition terminating :: "json \<Rightarrow> bool" where
  "terminating pod \<longleftrightarrow> as_str (json_index (json_index pod ''metadata'') ''deletionTimestamp'') \<noteq> None"

definition phase_is :: "json \<Rightarrow> string \<Rightarrow> bool" where
  "phase_is pod p \<longleftrightarrow> as_str (json_index (json_index pod ''status'') ''phase'') = Some p"

definition has_crash_loop :: "json \<Rightarrow> bool" where
  "has_crash_loop pod \<longleftrightarrow>
     (\<exists>ss. as_array (json_index (json_index pod ''status'') ''containerStatuses'') = Some ss \<and>
        (\<exists>c \<in> set ss. as_str (json_index (json_index (json_index c ''state'') ''waiting'') ''reason'')
                        = Some ''CrashLoopBackOff''))"

lemma pod_liveness_Gone:
  "pod_liveness pod = Gone \<longleftrightarrow> terminating pod \<or> phase_is pod ''Failed'' \<or> has_crash_loop pod"
  by (auto simp: pod_liveness_def terminating_def phase_is_def has_crash_loop_def Let_def
      crash_looping_def list_ex_iff split: option.splits)

lemma pod_liveness_Running:
  "pod_liveness pod = Running \<longleftrightarrow>
     phase_is pod ''Running'' \<and> \<not> terminating pod \<and> \<not> has_crash_loop pod"
  by (auto simp: pod_liveness_def terminating_def phase_is_def has_crash_loop_def Let_def
      crash_looping_def list_ex_iff split: option.splits)

lemma map_of_pod_fold:
  "map_of (foldl (\<lambda>m pod.
      case as_str (json_index (json_index pod ''metadata'') ''name'') of
        Some name \<Rightarrow> hm_insert name (pod_liveness pod) m | None \<Rightarrow> m) m items) node = Some l \<Longrightarrow>
   map_of m node = Some l \<or>
   (\<exists>pod \<in> set items. as_str (json_index (json_index pod ''metadata'') ''name'') = Some node
      \<and> pod_liveness pod = l)"
proof (induction items arbitrary: m)
  case Nil
  then show ?case by simp
next
  case (Cons pod items)
  from Cons.prems Cons.IH show ?case
    by (fastforce simp: hashmap split: option.splits if_splits)
qed

lemma parse_pod_list_evidence:
  "map_of (parse_pod_list body) node = Some l \<Longrightarrow>
   \<exists>items. as_array (json_index body ''items'') = Some items \<and>
     (\<exists>pod \<in> set items. as_str (json_index (json_index pod ''metadata'') ''name'') = Some node
        \<and> pod_liveness pod = l)"
  using map_of_pod_fold [of "[]"] by (fastforce simp: parse_pod_list_def split: option.splits)

subsection \<open>Properties\<close>

lemma kube_liveness_known:
  assumes "kube_liveness cache now node = l" and "l \<noteq> Unknown"
  obtains at where "kc_updated_at cache = Some at" "now - at \<le> STALE_AFTER"
    "map_of (kc_pods cache) node = Some l"
  using assms by (auto simp: kube_liveness_def sat_sub_def split: option.splits if_splits)

text \<open>
  The Kubernetes oracle reports a node gone only on positive and fresh evidence: the last pod
  list is at most fifteen seconds old and holds a pod of that name that is terminating, failed or in
  a crash loop. Absent pods and a silent API server are never evidence of death.
\<close>

theorem kube_gone_needs_evidence:
  assumes "kube_liveness (po_cache (poll_step at (Some body) p)) now node = Gone"
  shows "now - at \<le> STALE_AFTER \<and>
    (\<exists>items. as_array (json_index body ''items'') = Some items \<and>
      (\<exists>pod \<in> set items. as_str (json_index (json_index pod ''metadata'') ''name'') = Some node \<and>
         (terminating pod \<or> phase_is pod ''Failed'' \<or> has_crash_loop pod)))"
proof -
  obtain t where "kc_updated_at (po_cache (poll_step at (Some body) p)) = Some t" "now - t \<le> STALE_AFTER"
    "map_of (kc_pods (po_cache (poll_step at (Some body) p))) node = Some Gone"
    using kube_liveness_known [OF assms] by auto
  then have "now - at \<le> STALE_AFTER" and "map_of (parse_pod_list body) node = Some Gone"
    by (simp_all add: poll_step_def)
  with parse_pod_list_evidence show ?thesis by (fastforce simp: pod_liveness_Gone)
qed

theorem kube_gone_needs_evidence_witness:
  "\<exists>body. kube_liveness (po_cache (poll_step 1000 (Some body) \<lparr>po_cache = empty_cache, po_failures = 3\<rparr>))
       4000 ''n1'' = Gone \<and> (4000 :: nat) - 1000 \<le> STALE_AFTER"
proof -
  let ?pod = "JObject [(''metadata'', JObject [(''name'', JString ''n1'')]),
    (''status'', JObject [(''phase'', JString ''Failed'')])]"
  let ?body = "JObject [(''items'', JArray [?pod])]"
  let ?p = "\<lparr>po_cache = empty_cache, po_failures = 3\<rparr>"
  have "kube_liveness (po_cache (poll_step 1000 (Some ?body) ?p)) 4000 ''n1'' = Gone"
    by code_simp
  moreover from kube_gone_needs_evidence [OF this] have "(4000 :: nat) - 1000 \<le> STALE_AFTER"
    by (rule conjunct1)
  ultimately show ?thesis by blast
qed

end
