(* ===== verification/Membership.thy ===== *)
theory Membership
  imports Oracle Config
begin

section \<open>Cluster membership and failure detection (\<open>src/membership.rs\<close>)\<close>

text \<open>
  The registry of data-plane nodes: heartbeats register and refresh a node, \<open>drain\<close> marks it for
  removal, \<open>forget\<close> drops it, and \<open>sweep\<close> demotes silent nodes. The external oracle is an
  argument of \<open>sweep\<close>, since its answers change over time. \<open>membership_op\<close> and \<open>run_ops\<close>
  describe arbitrary sequences of these calls, over which the sticky and monotone facts are proved.
\<close>

record membership_config =
  suspect_after_ms :: nat
  dead_after_ms :: nat

definition dead_after_ms_after :: "nat \<Rightarrow> nat \<Rightarrow> nat" where
  "dead_after_ms_after suspect configured_dead = max configured_dead (sat_add64 suspect 1)"

definition positive_u64_env :: "environment \<Rightarrow> string \<Rightarrow> nat \<Rightarrow> nat" where
  "positive_u64_env = positive_env 64"

definition default_membership_config :: "environment \<Rightarrow> membership_config" where
  "default_membership_config env =
     (let suspect = positive_u64_env env ''FIDUCIA_SUSPECT_AFTER_MS'' 6000 in
      \<lparr>suspect_after_ms = suspect,
       dead_after_ms = dead_after_ms_after suspect
         (positive_u64_env env ''FIDUCIA_DEAD_AFTER_MS'' 30000)\<rparr>)"

record membership =
  mb_nodes :: "(node_id, node_info) hashmap"
  mb_config :: membership_config

definition new_membership :: "membership_config \<Rightarrow> membership" where
  "new_membership cfg = \<lparr>mb_nodes = [], mb_config = cfg\<rparr>"

definition normalized_failure_domain_from_parts ::
  "string \<Rightarrow> string \<Rightarrow> string \<Rightarrow> string \<Rightarrow> string" where
  "normalized_failure_domain_from_parts cloud_provider region cluster_id fallback =
     (let cloud_provider = to_ascii_lowercase (trim cloud_provider);
          region = to_ascii_lowercase (trim region);
          cluster_id = to_ascii_lowercase (trim cluster_id) in
      if cloud_provider \<noteq> [] then
        (if region \<noteq> [] then
           (if cluster_id \<noteq> [] then cloud_provider @ ''/'' @ region @ ''/'' @ cluster_id
            else cloud_provider @ ''/'' @ region)
         else (if cluster_id \<noteq> [] then cloud_provider @ ''/'' @ cluster_id else cloud_provider))
      else
        (if region \<noteq> [] then
           (if cluster_id \<noteq> [] then region @ ''/'' @ cluster_id else region)
         else (if cluster_id \<noteq> [] then cluster_id else fallback)))"

definition normalized_failure_domain :: "heartbeat_report \<Rightarrow> string" where
  "normalized_failure_domain report =
     (if trim (hb_failure_domain report) \<noteq> [] then to_ascii_lowercase (trim (hb_failure_domain report))
      else normalized_failure_domain_from_parts (hb_cloud_provider report) (hb_region report)
             (hb_cluster_id report) [])"

text \<open>The entry \<open>or_insert_with\<close> creates for a node that heartbeats for the first time.\<close>

definition new_node_info :: "node_id \<Rightarrow> nat \<Rightarrow> heartbeat_report \<Rightarrow> node_info" where
  "new_node_info node now report =
     \<lparr>ni_node_id = node, ni_address = hb_address report, ni_health = Healthy,
      ni_cloud_provider = hb_cloud_provider report, ni_region = hb_region report,
      ni_cluster_id = hb_cluster_id report,
      ni_failure_domain = normalized_failure_domain report, ni_last_seen_ms = now,
      ni_hosted_shards = [], ni_leading_shards = [], ni_last_seq = 0\<rparr>"

text \<open>The field updates an accepted heartbeat makes, in the order of the source.\<close>

definition refresh_entry :: "node_id \<Rightarrow> nat \<Rightarrow> heartbeat_report \<Rightarrow> node_info \<Rightarrow> node_info" where
  "refresh_entry node now report entry =
     (let e = entry\<lparr>ni_last_seen_ms := now\<rparr>;
          e = (if hb_address report \<noteq> [] then e\<lparr>ni_address := hb_address report\<rparr> else e);
          e = (if hb_cloud_provider report \<noteq> []
               then e\<lparr>ni_cloud_provider := hb_cloud_provider report\<rparr> else e);
          e = (if hb_region report \<noteq> [] then e\<lparr>ni_region := hb_region report\<rparr> else e);
          e = (if hb_cluster_id report \<noteq> [] then e\<lparr>ni_cluster_id := hb_cluster_id report\<rparr> else e);
          e = (if hb_failure_domain report \<noteq> []
               then e\<lparr>ni_failure_domain := normalized_failure_domain report\<rparr>
               else if ni_failure_domain e = []
               then e\<lparr>ni_failure_domain := normalized_failure_domain_from_parts
                       (ni_cloud_provider e) (ni_region e) (ni_cluster_id e) node\<rparr>
               else e);
          e = e\<lparr>ni_hosted_shards := hb_hosted_shards report,
                ni_leading_shards := hb_leading_shards report,
                ni_last_seq := max (ni_last_seq e) (hb_seq report)\<rparr>
      in if ni_health e \<noteq> Draining then e\<lparr>ni_health := Healthy\<rparr> else e)"

definition heartbeat :: "node_id \<Rightarrow> nat \<Rightarrow> heartbeat_report \<Rightarrow> membership \<Rightarrow> node_health \<times> membership" where
  "heartbeat node now report m =
     (let accept = (\<lambda>entry.
            let e = refresh_entry node now report entry
            in (ni_health e, m\<lparr>mb_nodes := hm_insert node e (mb_nodes m)\<rparr>)) in
      case map_of (mb_nodes m) node of
        Some existing \<Rightarrow>
          if hb_seq report \<noteq> 0 \<and> hb_seq report \<le> ni_last_seq existing
          then (ni_health existing, m)
          else accept existing
      | None \<Rightarrow> accept (new_node_info node now report))"

definition drain :: "node_id \<Rightarrow> membership \<Rightarrow> bool \<times> membership" where
  "drain node m =
     (case map_of (mb_nodes m) node of
        Some info \<Rightarrow> (True, m\<lparr>mb_nodes := hm_insert node (info\<lparr>ni_health := Draining\<rparr>) (mb_nodes m)\<rparr>)
      | None \<Rightarrow> (False, m))"

definition forget :: "node_id \<Rightarrow> membership \<Rightarrow> bool \<times> membership" where
  "forget node m =
     (map_of (mb_nodes m) node \<noteq> None, m\<lparr>mb_nodes := hm_remove node (mb_nodes m)\<rparr>)"

definition membership_snapshot :: "membership \<Rightarrow> node_info list" where
  "membership_snapshot m = sort_key ni_node_id (map snd (mb_nodes m))"

definition by_timeout :: "membership_config \<Rightarrow> nat \<Rightarrow> node_info \<Rightarrow> node_health" where
  "by_timeout cfg now info =
     (let silent_for = sat_sub now (ni_last_seen_ms info) in
      if dead_after_ms cfg \<le> silent_for then Dead
      else if suspect_after_ms cfg \<le> silent_for then Suspect
      else Healthy)"

definition swept_health ::
  "membership_config \<Rightarrow> (node_id \<Rightarrow> pod_liveness) \<Rightarrow> nat \<Rightarrow> node_info \<Rightarrow> node_health" where
  "swept_health cfg oracle now info =
     (if ni_health info = Draining then Draining
      else
        let timeout = by_timeout cfg now info in
        case oracle (ni_node_id info) of
          Gone \<Rightarrow> Dead
        | Running \<Rightarrow> if timeout = Dead then Suspect else timeout
        | Unknown \<Rightarrow> timeout)"

definition sweep ::
  "(node_id \<Rightarrow> pod_liveness) \<Rightarrow> nat \<Rightarrow> membership \<Rightarrow> node_id list \<times> membership" where
  "sweep oracle now m =
     (let new_health = swept_health (mb_config m) oracle now in
      (map ni_node_id (filter (\<lambda>info. new_health info = Dead \<and> ni_health info \<noteq> Dead)
         (map snd (mb_nodes m))),
       m\<lparr>mb_nodes := map (\<lambda>(k, info). (k, info\<lparr>ni_health := new_health info\<rparr>)) (mb_nodes m)\<rparr>))"

subsection \<open>Sequences of membership operations\<close>

datatype membership_op =
    Heartbeat node_id nat heartbeat_report
  | Drain node_id
  | Forget node_id
  | Sweep "node_id \<Rightarrow> pod_liveness" nat

fun apply_op :: "membership_op \<Rightarrow> membership \<Rightarrow> membership" where
  "apply_op (Heartbeat node now report) m = snd (heartbeat node now report m)"
| "apply_op (Drain node) m = snd (drain node m)"
| "apply_op (Forget node) m = snd (forget node m)"
| "apply_op (Sweep oracle now) m = snd (sweep oracle now m)"

definition run_ops :: "membership_op list \<Rightarrow> membership \<Rightarrow> membership" where
  "run_ops ops m = foldl (\<lambda>m op. apply_op op m) m ops"

abbreviation node_at :: "membership \<Rightarrow> node_id \<Rightarrow> node_info option" where
  "node_at m n \<equiv> map_of (mb_nodes m) n"

definition membership_inv :: "membership \<Rightarrow> bool" where
  "membership_inv m \<longleftrightarrow> hm_wf (mb_nodes m) \<and> (\<forall>n info. node_at m n = Some info \<longrightarrow> ni_node_id info = n)"

subsection \<open>Every operation, field by field\<close>

lemma refresh_entry_simps [simp]:
  "ni_node_id (refresh_entry n now r e) = ni_node_id e"
  "ni_last_seen_ms (refresh_entry n now r e) = now"
  "ni_hosted_shards (refresh_entry n now r e) = hb_hosted_shards r"
  "ni_leading_shards (refresh_entry n now r e) = hb_leading_shards r"
  "ni_last_seq (refresh_entry n now r e) = max (ni_last_seq e) (hb_seq r)"
  "ni_health (refresh_entry n now r e) = (if ni_health e = Draining then Draining else Healthy)"
  by (simp_all add: refresh_entry_def Let_def)

lemma heartbeat_stale:
  assumes "node_at m n = Some e" and "hb_seq r \<noteq> 0" and "hb_seq r \<le> ni_last_seq e"
  shows "heartbeat n now r m = (ni_health e, m)"
  using assms by (simp add: heartbeat_def)

lemma heartbeat_node [hashmap]:
  "node_at (snd (heartbeat n now r m)) k =
     (if k \<noteq> n then node_at m k
      else case node_at m n of
        Some e \<Rightarrow> Some (if hb_seq r \<noteq> 0 \<and> hb_seq r \<le> ni_last_seq e then e
                        else refresh_entry n now r e)
      | None \<Rightarrow> Some (refresh_entry n now r (new_node_info n now r)))"
  by (simp add: heartbeat_def Let_def hashmap split: option.splits)

lemma drain_node [hashmap]:
  "node_at (snd (drain n m)) k =
     (if k = n then map_option (\<lambda>e. e\<lparr>ni_health := Draining\<rparr>) (node_at m n) else node_at m k)"
  by (simp add: drain_def hashmap split: option.splits)

lemma forget_node [hashmap]: "node_at (snd (forget n m)) k = (if k = n then None else node_at m k)"
  by (simp add: forget_def hashmap)

lemma sweep_node [hashmap]:
  "node_at (snd (sweep oracle now m)) k =
     map_option (\<lambda>e. e\<lparr>ni_health := swept_health (mb_config m) oracle now e\<rparr>) (node_at m k)"
  by (simp add: sweep_def Let_def hashmap)

lemma mb_config_frame [frames, simp]:
  "mb_config (snd (heartbeat n now r m)) = mb_config m"
  "mb_config (snd (drain n m)) = mb_config m"
  "mb_config (snd (forget n m)) = mb_config m"
  "mb_config (snd (sweep oracle now m)) = mb_config m"
  by (simp_all add: heartbeat_def drain_def forget_def sweep_def Let_def split: option.splits)

lemma hm_wf_ops:
  assumes "hm_wf (mb_nodes m)"
  shows "hm_wf (mb_nodes (apply_op op m))"
proof (cases op)
  case (Sweep orc now)
  have "map fst (mb_nodes (snd (sweep orc now m))) = map fst (mb_nodes m)"
    by (auto simp: sweep_def Let_def)
  with assms Sweep show ?thesis by (simp add: hm_wf_def)
qed (use assms in \<open>auto simp: heartbeat_def drain_def forget_def Let_def split: option.splits\<close>)

lemma membership_inv_op:
  assumes "membership_inv m"
  shows "membership_inv (apply_op op m)"
  unfolding membership_inv_def
proof (intro conjI allI impI)
  show "hm_wf (mb_nodes (apply_op op m))"
    using assms hm_wf_ops by (simp add: membership_inv_def)
next
  fix n info assume "node_at (apply_op op m) n = Some info"
  with assms show "ni_node_id info = n"
    by (cases op) (auto simp: membership_inv_def hashmap new_node_info_def
        split: if_splits option.splits)
qed

lemma run_ops_simps [simp]:
  "run_ops [] m = m"
  "run_ops (op # ops) m = run_ops ops (apply_op op m)"
  by (simp_all add: run_ops_def)

lemma membership_ids:
  assumes "membership_inv m"
  shows "map ni_node_id (map snd (mb_nodes m)) = map fst (mb_nodes m)"
    and "distinct (map ni_node_id (map snd (mb_nodes m)))"
proof -
  have "ni_node_id (snd p) = fst p" if "p \<in> set (mb_nodes m)" for p
    using assms that by (cases p) (auto simp: membership_inv_def hm_wf_def)
  then show ids: "map ni_node_id (map snd (mb_nodes m)) = map fst (mb_nodes m)"
    by simp
  show "distinct (map ni_node_id (map snd (mb_nodes m)))"
    using assms unfolding ids by (simp add: membership_inv_def hm_wf_def)
qed

lemma membership_inv_run: "membership_inv m \<Longrightarrow> membership_inv (run_ops ops m)"
  by (induction ops arbitrary: m) (auto intro: membership_inv_op)

lemma membership_inv_new: "membership_inv (new_membership cfg)"
  by (simp add: membership_inv_def new_membership_def)

subsection \<open>Draining is sticky, sequence numbers are monotone\<close>

lemma op_keeps_draining:
  assumes "node_at m n = Some e" and "ni_health e = Draining" and "op \<noteq> Forget n"
  shows "\<exists>e'. node_at (apply_op op m) n = Some e' \<and> ni_health e' = Draining"
  using assms by (cases op) (auto simp: hashmap swept_health_def)

lemma op_last_seq_mono:
  assumes "node_at m n = Some e" and "op \<noteq> Forget n"
  shows "\<exists>e'. node_at (apply_op op m) n = Some e' \<and> ni_last_seq e \<le> ni_last_seq e'"
  using assms by (cases op) (auto simp: hashmap)

lemma run_keeps_draining:
  assumes "node_at m n = Some e" and "ni_health e = Draining" and "Forget n \<notin> set ops"
  shows "\<exists>e'. node_at (run_ops ops m) n = Some e' \<and> ni_health e' = Draining"
  using assms
proof (induction ops arbitrary: m e)
  case Nil
  then show ?case by simp
next
  case (Cons op ops)
  from Cons.prems have "op \<noteq> Forget n" by auto
  with Cons.prems obtain e' where e': "node_at (apply_op op m) n = Some e'" "ni_health e' = Draining"
    using op_keeps_draining by blast
  from Cons.prems have "Forget n \<notin> set ops" by simp
  from Cons.IH [OF e' this] show ?case by simp
qed

lemma run_last_seq_mono:
  assumes "node_at m n = Some e" and "Forget n \<notin> set ops"
  shows "\<exists>e'. node_at (run_ops ops m) n = Some e' \<and> ni_last_seq e \<le> ni_last_seq e'"
  using assms
proof (induction ops arbitrary: m e)
  case Nil
  then show ?case by simp
next
  case (Cons op ops)
  from Cons.prems have "op \<noteq> Forget n" by auto
  with Cons.prems obtain e' where e': "node_at (apply_op op m) n = Some e'" "ni_last_seq e \<le> ni_last_seq e'"
    using op_last_seq_mono by blast
  from Cons.prems have "Forget n \<notin> set ops" by simp
  from Cons.IH [OF e'(1) this] e'(2) show ?case by (auto intro: order.trans)
qed

subsection \<open>The failure detector\<close>

lemma swept_Dead_iff:
  assumes "ni_health info \<noteq> Draining"
  shows "swept_health cfg oracle now info = Dead \<longleftrightarrow>
    oracle (ni_node_id info) = Gone \<or>
    (oracle (ni_node_id info) = Unknown \<and> dead_after_ms cfg \<le> now - ni_last_seen_ms info)"
  using assms
  by (auto simp: swept_health_def by_timeout_def sat_sub_def Let_def split: pod_liveness.splits)

lemma swept_Healthy_iff:
  assumes "ni_health info \<noteq> Draining" and "suspect_after_ms cfg \<le> dead_after_ms cfg"
  shows "swept_health cfg oracle now info = Healthy \<longleftrightarrow>
    oracle (ni_node_id info) \<noteq> Gone \<and> now - ni_last_seen_ms info < suspect_after_ms cfg"
  using assms
  by (auto simp: swept_health_def by_timeout_def sat_sub_def Let_def split: pod_liveness.splits)

lemma swept_Draining_iff: "swept_health cfg oracle now info = Draining \<longleftrightarrow> ni_health info = Draining"
  by (auto simp: swept_health_def by_timeout_def Let_def split: pod_liveness.splits)

lemma sweep_newly_dead:
  assumes "membership_inv m"
  shows "set (fst (sweep oracle now m)) =
    {n. \<exists>e e'. node_at m n = Some e \<and> ni_health e \<noteq> Dead \<and>
        node_at (snd (sweep oracle now m)) n = Some e' \<and> ni_health e' = Dead}"
  using assms hm_values_iff [of "mb_nodes m"]
  by (fastforce simp: membership_inv_def sweep_def Let_def hashmap)

lemma distinct_newly_dead:
  assumes "membership_inv m"
  shows "distinct (fst (sweep oracle now m))"
  unfolding sweep_def Let_def fst_conv
  using membership_ids(2) [OF assms] by (rule distinct_map_filter)

lemma default_config_order:
  "suspect_after_ms (default_membership_config env) < dead_after_ms (default_membership_config env)
   \<or> suspect_after_ms (default_membership_config env) = u64_max"
proof -
  have "positive_u64_env env ''FIDUCIA_SUSPECT_AFTER_MS'' 6000 \<le> u64_max"
    using positive_env_bound [of 6000 64 env "''FIDUCIA_SUSPECT_AFTER_MS''"]
    by (simp add: positive_u64_env_def u64_max_def)
  then show ?thesis
    unfolding default_membership_config_def dead_after_ms_after_def sat_add64_def Let_def
    by simp arith
qed

subsection \<open>The snapshot\<close>

lemma set_membership_snapshot: "membership_inv m \<Longrightarrow> e \<in> set (membership_snapshot m) \<longleftrightarrow> node_at m (ni_node_id e) = Some e"
  using hm_values_iff [of "mb_nodes m" e] by (auto simp: membership_snapshot_def membership_inv_def)

lemma membership_snapshot_ids:
  assumes "membership_inv m"
  shows "distinct (map ni_node_id (membership_snapshot m))" and "sorted (map ni_node_id (membership_snapshot m))"
    and "set (map ni_node_id (membership_snapshot m)) = dom (map_of (mb_nodes m))"
proof -
  note ids = membership_ids [OF assms]
  show "distinct (map ni_node_id (membership_snapshot m))"
    using ids(2) unfolding membership_snapshot_def distinct_map_sort_key .
  show "sorted (map ni_node_id (membership_snapshot m))"
    by (simp add: membership_snapshot_def)
  show "set (map ni_node_id (membership_snapshot m)) = dom (map_of (mb_nodes m))"
    using ids(1) by (metis dom_map_of_conv_image_fst set_map set_sort membership_snapshot_def)
qed

subsection \<open>Properties\<close>

text \<open>
  A drain is final: whatever heartbeats, drains, sweeps and removals of other nodes follow, a
  draining node stays registered as draining until it is itself forgotten.
\<close>

theorem draining_is_sticky:
  assumes "node_at m n = Some e" and "Forget n \<notin> set ops"
  shows "\<exists>e'. node_at (run_ops ops (snd (drain n m))) n = Some e' \<and> ni_health e' = Draining"
proof -
  have "node_at (snd (drain n m)) n = Some (e\<lparr>ni_health := Draining\<rparr>)"
    using assms(1) by (simp add: hashmap)
  from run_keeps_draining [OF this _ assms(2)] show ?thesis by simp
qed

theorem draining_is_sticky_witness:
  "\<exists>m e'. node_at (run_ops [Heartbeat ''a'' 50 default_report, Sweep null_oracle 99, Forget ''b'']
     (snd (drain ''a'' m))) ''a'' = Some e' \<and> ni_health e' = Draining"
proof -
  let ?m = "snd (heartbeat ''a'' 0 default_report (new_membership \<lparr>suspect_after_ms = 6, dead_after_ms = 30\<rparr>))"
  have "\<exists>e. node_at ?m ''a'' = Some e"
    by (auto simp: hashmap new_membership_def)
  then obtain e where "node_at ?m ''a'' = Some e" ..
  from draining_is_sticky [OF this, of "[Heartbeat ''a'' 50 default_report, Sweep null_oracle 99, Forget ''b'']"]
  show ?thesis by auto
qed

text \<open>
  A stale or duplicated heartbeat changes nothing, however late it arrives: once a node was seen
  at a sequence number, a sequenced report at or below it leaves the registry as it is and answers
  the node's present health, across any operations that do not forget the node.
\<close>

theorem stale_heartbeat_is_ignored:
  assumes "node_at m n = Some e" and "Forget n \<notin> set ops"
    and "hb_seq r \<noteq> 0" and "hb_seq r \<le> ni_last_seq e"
  shows "snd (heartbeat n now r (run_ops ops m)) = run_ops ops m \<and>
    map_option ni_health (node_at (run_ops ops m) n) = Some (fst (heartbeat n now r (run_ops ops m)))"
proof -
  obtain e' where e': "node_at (run_ops ops m) n = Some e'" "ni_last_seq e \<le> ni_last_seq e'"
    using run_last_seq_mono [OF assms(1,2)] by blast
  with assms(4) have "hb_seq r \<le> ni_last_seq e'" by simp
  from heartbeat_stale [OF e'(1) assms(3) this] e'(1) show ?thesis by simp
qed

theorem stale_heartbeat_is_ignored_witness:
  "\<exists>m. snd (heartbeat ''a'' 70 (default_report\<lparr>hb_seq := 3\<rparr>) (run_ops [Sweep null_oracle 60] m))
     = run_ops [Sweep null_oracle 60] m \<and> node_at m ''a'' \<noteq> None"
proof -
  let ?m = "snd (heartbeat ''a'' 0 (default_report\<lparr>hb_seq := 5\<rparr>)
    (new_membership \<lparr>suspect_after_ms = 6, dead_after_ms = 30\<rparr>))"
  have "\<exists>e. node_at ?m ''a'' = Some e \<and> ni_last_seq e = 5"
    by (auto simp: hashmap new_membership_def new_node_info_def)
  then obtain e where e: "node_at ?m ''a'' = Some e" "ni_last_seq e = 5" by blast
  from stale_heartbeat_is_ignored [OF e(1), of "[Sweep null_oracle 60]" "default_report\<lparr>hb_seq := 3\<rparr>" 70] e
  show ?thesis by auto
qed

text \<open>
  The failure detector over every reachable registry: after a sweep a registered node that was
  not draining is dead exactly when the oracle saw its pod gone, or the oracle knows nothing and the
  node was silent for the full dead timeout; the sweep reports each node that it newly declared dead
  once, and nothing else.
\<close>

theorem sweep_detects_failures:
  assumes "m = run_ops ops (new_membership cfg)"
  shows "distinct (fst (sweep orc now m)) \<and>
    (\<forall>n. n \<in> set (fst (sweep orc now m)) \<longleftrightarrow>
       (\<exists>e e'. node_at m n = Some e \<and> ni_health e \<noteq> Dead \<and>
          node_at (snd (sweep orc now m)) n = Some e' \<and> ni_health e' = Dead)) \<and>
    (\<forall>n e. node_at m n = Some e \<and> ni_health e \<noteq> Draining \<longrightarrow>
       (\<exists>e'. node_at (snd (sweep orc now m)) n = Some e' \<and>
          (ni_health e' = Dead \<longleftrightarrow>
             orc n = Gone \<or> (orc n = Unknown \<and> dead_after_ms (mb_config m) \<le> now - ni_last_seen_ms e))))"
proof (intro conjI allI impI)
  have inv: "membership_inv m" using assms membership_inv_run membership_inv_new by simp
  show "distinct (fst (sweep orc now m))" using inv by (rule distinct_newly_dead)
  show "n \<in> set (fst (sweep orc now m)) \<longleftrightarrow>
       (\<exists>e e'. node_at m n = Some e \<and> ni_health e \<noteq> Dead \<and>
          node_at (snd (sweep orc now m)) n = Some e' \<and> ni_health e' = Dead)" for n
    using sweep_newly_dead [OF inv] by simp
  show "\<exists>e'. node_at (snd (sweep orc now m)) n = Some e' \<and>
          (ni_health e' = Dead \<longleftrightarrow>
             orc n = Gone \<or> (orc n = Unknown \<and> dead_after_ms (mb_config m) \<le> now - ni_last_seen_ms e))"
    if "node_at m n = Some e \<and> ni_health e \<noteq> Draining" for n e
    using that inv by (auto simp: hashmap swept_Dead_iff membership_inv_def)
qed

theorem sweep_detects_failures_witness:
  "\<exists>m. set (fst (sweep null_oracle 40 m)) = {''a''} \<and> distinct (fst (sweep null_oracle 40 m))"
proof -
  let ?ops = "[Heartbeat ''a'' 0 default_report, Heartbeat ''b'' 30 default_report]"
  let ?m = "run_ops ?ops (new_membership \<lparr>suspect_after_ms = 6, dead_after_ms = 30\<rparr>)"
  have "set (fst (sweep null_oracle 40 ?m)) = {''a''}" by code_simp
  with sweep_detects_failures [OF refl, of null_oracle 40 ?ops "\<lparr>suspect_after_ms = 6, dead_after_ms = 30\<rparr>"]
  show ?thesis by blast
qed

end
