(* ===== verification/Placement.thy ===== *)
theory Placement
  imports Model
begin

section \<open>The shard placement map (\<open>src/placement.rs\<close>)\<close>

text \<open>
  The shard-to-replicas map with its change counter and the namespace policies. Lookup laws after
  each update, and that restoring a snapshot gives back the same map.
\<close>

record placement =
  pl_shard_count :: nat
  pl_generation :: nat
  pl_assignments :: "(shard_id, shard_assignment) hashmap"
  pl_policies :: "(shard_id, placement_policy) hashmap"

definition new_placement :: "nat \<Rightarrow> placement" where
  "new_placement shard_count =
     \<lparr>pl_shard_count = shard_count, pl_generation = 0, pl_assignments = [], pl_policies = []\<rparr>"

definition get :: "placement \<Rightarrow> shard_id \<Rightarrow> shard_assignment option" where
  "get p shard = map_of (pl_assignments p) shard"

definition placement_snapshot :: "placement \<Rightarrow> shard_assignment list" where
  "placement_snapshot p = sort_key sa_shard_id (map snd (pl_assignments p))"

definition policy :: "placement \<Rightarrow> shard_id \<Rightarrow> placement_policy option" where
  "policy p shard = map_of (pl_policies p) shard"

definition policies_snapshot :: "placement \<Rightarrow> placement_policy list" where
  "policies_snapshot p = sort_key (\<lambda>q. (pp_shard_id q, pp_namespace q)) (map snd (pl_policies p))"

definition set_policy :: "placement_policy \<Rightarrow> placement \<Rightarrow> placement" where
  "set_policy q p = p\<lparr>pl_policies := hm_insert (pp_shard_id q) q (pl_policies p)\<rparr>"

definition assign :: "shard_assignment \<Rightarrow> placement \<Rightarrow> placement" where
  "assign a p =
     p\<lparr>pl_assignments := hm_insert (sa_shard_id a) a (pl_assignments p),
       pl_generation := add64 (pl_generation p) 1\<rparr>"

definition restore_from :: "shard_assignment list \<Rightarrow> placement \<Rightarrow> placement" where
  "restore_from as p =
     p\<lparr>pl_assignments := foldl (\<lambda>m a. hm_insert (sa_shard_id a) a m) [] as,
       pl_generation := add64 (pl_generation p) 1\<rparr>"

definition placement_inv :: "placement \<Rightarrow> bool" where
  "placement_inv p \<longleftrightarrow>
     hm_wf (pl_assignments p) \<and> hm_wf (pl_policies p) \<and>
     (\<forall>s a. get p s = Some a \<longrightarrow> sa_shard_id a = s) \<and>
     (\<forall>s q. policy p s = Some q \<longrightarrow> pp_shard_id q = s)"

subsection \<open>Lookups after updates\<close>

lemma get_assign [hashmap]: "get (assign a p) s = (if s = sa_shard_id a then Some a else get p s)"
  by (simp add: get_def assign_def hashmap)

lemma policy_assign [frames, simp]: "policy (assign a p) s = policy p s"
  by (simp add: policy_def assign_def)

lemma get_set_policy [frames, simp]: "get (set_policy q p) s = get p s"
  by (simp add: get_def set_policy_def)

lemma policy_set_policy [hashmap]:
  "policy (set_policy q p) s = (if s = pp_shard_id q then Some q else policy p s)"
  by (simp add: policy_def set_policy_def hashmap)

lemma policy_restore_from [frames, simp]: "policy (restore_from as p) s = policy p s"
  by (simp add: policy_def restore_from_def)

lemma shard_count_frame [frames, simp]:
  "pl_shard_count (assign a p) = pl_shard_count p"
  "pl_shard_count (set_policy q p) = pl_shard_count p"
  "pl_shard_count (restore_from as p) = pl_shard_count p"
  by (simp_all add: assign_def set_policy_def restore_from_def)

lemma generation_assign [simp]: "pl_generation (assign a p) = add64 (pl_generation p) 1"
  by (simp add: assign_def)

lemma map_of_fold_insert:
  "map_of (foldl (\<lambda>m a. hm_insert (f a) a m) m as) s =
     (case find (\<lambda>a. f a = s) (rev as) of Some a \<Rightarrow> Some a | None \<Rightarrow> map_of m s)"
  by (induction as arbitrary: m) (auto simp: hashmap find_append split: option.splits)

lemma hm_wf_fold_insert: "hm_wf m \<Longrightarrow> hm_wf (foldl (\<lambda>m a. hm_insert (f a) a m) m as)"
  by (induction as arbitrary: m) auto

lemma get_restore_from: "get (restore_from as p) s = find (\<lambda>a. sa_shard_id a = s) (rev as)"
  by (simp add: get_def restore_from_def map_of_fold_insert split: option.splits)

lemma placement_inv_new: "placement_inv (new_placement n)"
  by (simp add: placement_inv_def new_placement_def get_def policy_def)

lemma placement_inv_assign: "placement_inv p \<Longrightarrow> placement_inv (assign a p)"
  by (auto simp: placement_inv_def hashmap) (simp_all add: assign_def)

lemma placement_inv_set_policy: "placement_inv p \<Longrightarrow> placement_inv (set_policy q p)"
  by (auto simp: placement_inv_def hashmap) (simp_all add: set_policy_def)

lemma placement_inv_restore_from:
  assumes "placement_inv p"
  shows "placement_inv (restore_from as p)"
proof -
  have "sa_shard_id a = s" if "get (restore_from as p) s = Some a" for s a
    using that by (auto simp: get_restore_from find_Some_iff)
  moreover have "hm_wf (pl_assignments (restore_from as p))"
    by (simp add: restore_from_def hm_wf_fold_insert)
  moreover have "hm_wf (pl_policies (restore_from as p))"
    using assms by (simp add: restore_from_def placement_inv_def)
  ultimately show ?thesis
    using assms by (auto simp: placement_inv_def)
qed

subsection \<open>The snapshot determines the map\<close>

lemma placement_snapshot_ids:
  assumes "placement_inv p"
  shows "distinct (map sa_shard_id (placement_snapshot p))"
proof -
  have "sa_shard_id (snd x) = fst x" if "x \<in> set (pl_assignments p)" for x
    using assms that by (cases x) (auto simp: placement_inv_def hm_wf_def get_def)
  then have "map sa_shard_id (map snd (pl_assignments p)) = map fst (pl_assignments p)"
    by simp
  then have "distinct (map sa_shard_id (map snd (pl_assignments p)))"
    using assms by (simp only: placement_inv_def hm_wf_def)
  then show ?thesis
    unfolding placement_snapshot_def distinct_map_sort_key .
qed

lemma set_placement_snapshot:
  assumes "placement_inv p"
  shows "a \<in> set (placement_snapshot p) \<longleftrightarrow> get p (sa_shard_id a) = Some a"
  using assms hm_values_iff [of "pl_assignments p" a]
  by (auto simp: placement_snapshot_def placement_inv_def get_def)

lemma get_restore_snapshot:
  assumes "placement_inv p"
  shows "get (restore_from (placement_snapshot p) q) s = get p s"
proof (cases "get p s")
  case None
  then have "a \<in> set (placement_snapshot p) \<Longrightarrow> sa_shard_id a \<noteq> s" for a
    using set_placement_snapshot [OF assms, of a] by auto
  with None show ?thesis
    by (auto simp: get_restore_from find_None_iff)
next
  case (Some a)
  with assms have id: "sa_shard_id a = s"
    by (simp add: placement_inv_def)
  with Some have "a \<in> set (rev (placement_snapshot p))"
    using set_placement_snapshot [OF assms, of a] by simp
  moreover have "distinct (map sa_shard_id (rev (placement_snapshot p)))"
    using placement_snapshot_ids [OF assms] by (simp flip: rev_map)
  ultimately have "find (\<lambda>b. sa_shard_id b = sa_shard_id a) (rev (placement_snapshot p)) = Some a"
    by (rule find_distinct_key [rotated])
  with id Some show ?thesis by (simp add: get_restore_from)
qed

text \<open>
  The nodes an assignment map still requires, as \<open>apply_command\<close> and the scheduler's scale-down
  step compute them.
\<close>

definition assigned_nodes :: "placement \<Rightarrow> node_id set" where
  "assigned_nodes p = set (concat (map sa_replicas (placement_snapshot p)))"

lemma assigned_nodes_iff:
  assumes "placement_inv p"
  shows "n \<in> assigned_nodes p \<longleftrightarrow> (\<exists>s a. get p s = Some a \<and> n \<in> set (sa_replicas a))"
  using set_placement_snapshot [OF assms] assms
  by (auto simp: assigned_nodes_def placement_inv_def)

subsection \<open>Properties\<close>

text \<open>
  Restoring the snapshot of a placement reproduces its shard map on any other member, keeps that
  member's policies, and counts as one change of the map.
\<close>

theorem placement_snapshot_roundtrip:
  assumes "placement_inv p"
  shows "get (restore_from (placement_snapshot p) q) = get p
    \<and> policy (restore_from (placement_snapshot p) q) = policy q
    \<and> pl_generation (restore_from (placement_snapshot p) q) = add64 (pl_generation q) 1"
  using get_restore_snapshot [OF assms] by (auto simp: restore_from_def policy_def)

theorem placement_snapshot_roundtrip_witness:
  "\<exists>p a. get p 3 = Some a \<and> get (restore_from (placement_snapshot p) (new_placement 8)) 3 = Some a"
proof -
  let ?a = "\<lparr>sa_shard_id = 3, sa_replicas = [''x''], sa_preferred_leader = None,
    sa_preferred_region = None, sa_preferred_cloud_provider = None\<rparr>"
  let ?p = "assign ?a (new_placement 8)"
  have inv: "placement_inv ?p" by (intro placement_inv_assign placement_inv_new)
  have "get ?p 3 = Some ?a" by (simp add: get_assign)
  with placement_snapshot_roundtrip [OF inv, of "new_placement 8"] show ?thesis by metis
qed

end
