(* ===== verification/Cluster.thy ===== *)
theory Cluster
  imports Membership Placement
begin

section \<open>The replication seam (\<open>src/cluster.rs\<close>)\<close>

text \<open>
  The replicated commands and their single interpretation \<open>apply_command\<close>, the trait
  \<open>ControlPlane\<close> as a record of functions over the implementation's own state, and the
  single-member implementation. The locale \<open>control_plane\<close> is the contract that the scheduler and
  the API rely on: a proposal changes the state machine only by events of the replicated log.
\<close>

datatype command =
    AssignShard shard_assignment
  | SetScalePlan scale_plan
  | ForgetNode node_id

text \<open>The three shared objects that the commands mutate (\<open>Arc\<close>s in the source).\<close>

record state_machine =
  sm_membership :: membership
  sm_placement :: placement
  sm_plan :: scale_plan

definition still_assigned :: "node_id \<Rightarrow> placement \<Rightarrow> bool" where
  "still_assigned node p = list_ex (\<lambda>a. node \<in> set (sa_replicas a)) (placement_snapshot p)"

fun apply_command :: "command \<Rightarrow> state_machine \<Rightarrow> state_machine" where
  "apply_command (AssignShard a) sm = sm\<lparr>sm_placement := assign a (sm_placement sm)\<rparr>"
| "apply_command (SetScalePlan new_plan) sm = sm\<lparr>sm_plan := new_plan\<rparr>"
| "apply_command (ForgetNode node) sm =
     (if still_assigned node (sm_placement sm) then sm
      else sm\<lparr>sm_membership := snd (forget node (sm_membership sm))\<rparr>)"

text \<open>The trait: the implementation's own state is \<open>'c\<close>, the shared state machine is passed along.\<close>

record 'c control_plane_ops =
  cp_is_available :: "'c \<Rightarrow> bool"
  cp_is_leader :: "'c \<Rightarrow> bool"
  cp_leader_addr :: "'c \<Rightarrow> string option"
  cp_propose :: "command \<Rightarrow> 'c \<Rightarrow> state_machine \<Rightarrow> bool \<times> 'c \<times> state_machine"

definition local_control_plane :: "unit control_plane_ops" where
  "local_control_plane =
     \<lparr>cp_is_available = (\<lambda>_. True), cp_is_leader = (\<lambda>_. True), cp_leader_addr = (\<lambda>_. None),
      cp_propose = (\<lambda>command c sm. (True, c, apply_command command sm))\<rparr>"

lemma local_control_plane_sel [simp]:
  "cp_is_leader local_control_plane c"
  "cp_is_available local_control_plane c"
  "cp_leader_addr local_control_plane c = None"
  "cp_propose local_control_plane cmd c sm = (True, c, apply_command cmd sm)"
  by (simp_all add: local_control_plane_def)

subsection \<open>Events of the replicated log\<close>

text \<open>
  What replication does to the shared state: a committed command is applied, or the placement and
  the plan are replaced by an installed snapshot.
\<close>

datatype sm_event =
    Applied command
  | Restored "shard_assignment list" scale_plan

fun apply_event :: "sm_event \<Rightarrow> state_machine \<Rightarrow> state_machine" where
  "apply_event (Applied cmd) sm = apply_command cmd sm"
| "apply_event (Restored as new_plan) sm =
     sm\<lparr>sm_placement := restore_from as (sm_placement sm), sm_plan := new_plan\<rparr>"

definition sm_events :: "sm_event list \<Rightarrow> state_machine \<Rightarrow> state_machine" where
  "sm_events evs sm = fold apply_event evs sm"

lemma sm_events_simps [simp]:
  "sm_events [] sm = sm"
  "sm_events (e # evs) sm = sm_events evs (apply_event e sm)"
  "sm_events (evs @ evs') sm = sm_events evs' (sm_events evs sm)"
  by (simp_all add: sm_events_def)

definition state_machine_inv :: "state_machine \<Rightarrow> bool" where
  "state_machine_inv sm \<longleftrightarrow> membership_inv (sm_membership sm) \<and> placement_inv (sm_placement sm)"

lemma still_assigned_iff: "still_assigned n p \<longleftrightarrow> n \<in> assigned_nodes p"
  by (auto simp: still_assigned_def assigned_nodes_def list_ex_iff)

lemma apply_command_shard_count [frames, simp]:
  "pl_shard_count (sm_placement (apply_command cmd sm)) = pl_shard_count (sm_placement sm)"
  by (cases cmd) auto

lemma apply_command_policy [frames, simp]:
  "policy (sm_placement (apply_command cmd sm)) s = policy (sm_placement sm) s"
  by (cases cmd) auto

lemma membership_inv_forget: "membership_inv m \<Longrightarrow> membership_inv (snd (forget n m))"
  using membership_inv_op [of m "Forget n"] by simp

lemma state_machine_inv_command:
  assumes "state_machine_inv sm"
  shows "state_machine_inv (apply_command cmd sm)"
  using assms
  by (cases cmd) (auto simp: state_machine_inv_def placement_inv_assign membership_inv_forget)

lemma state_machine_inv_event:
  assumes "state_machine_inv sm"
  shows "state_machine_inv (apply_event e sm)"
proof (cases e)
  case (Applied cmd)
  with assms show ?thesis by (simp add: state_machine_inv_command)
next
  case (Restored as p)
  with assms show ?thesis by (simp add: state_machine_inv_def placement_inv_restore_from)
qed

lemma state_machine_inv_events: "state_machine_inv sm \<Longrightarrow> state_machine_inv (sm_events evs sm)"
  by (induction evs arbitrary: sm) (auto simp: state_machine_inv_event)

lemma apply_event_shard_count [frames, simp]:
  "pl_shard_count (sm_placement (apply_event e sm)) = pl_shard_count (sm_placement sm)"
  by (cases e) auto

lemma sm_events_shard_count [frames, simp]:
  "pl_shard_count (sm_placement (sm_events evs sm)) = pl_shard_count (sm_placement sm)"
  by (induction evs arbitrary: sm) auto

subsection \<open>The command log never orphans a placement\<close>

text \<open>
  A node that some assignment still names stays a member through \<open>ForgetNode\<close>: applying the
  command to any state keeps every assigned node that membership knew.
\<close>

lemma apply_command_keeps_assigned:
  assumes "state_machine_inv sm" and "n \<in> assigned_nodes (sm_placement sm)"
    and "node_at (sm_membership sm) n = Some info"
  shows "node_at (sm_membership (apply_command cmd sm)) n = Some info"
  using assms by (cases cmd) (auto simp: still_assigned_iff forget_def hashmap)

lemma forget_applied:
  assumes "n \<notin> assigned_nodes (sm_placement sm)"
  shows "node_at (sm_membership (apply_command (ForgetNode n) sm)) n = None"
  using assms by (simp add: still_assigned_iff forget_def hashmap)

text \<open>Every replica of the placement is a known node.\<close>

definition placed_known :: "state_machine \<Rightarrow> bool" where
  "placed_known sm \<longleftrightarrow> assigned_nodes (sm_placement sm) \<subseteq> dom (map_of (mb_nodes (sm_membership sm)))"

lemma assigned_nodes_assign:
  assumes "placement_inv p"
  shows "assigned_nodes (assign a p) \<subseteq> assigned_nodes p \<union> set (sa_replicas a)"
  using assms placement_inv_assign [OF assms, of a]
  by (fastforce simp: assigned_nodes_iff get_assign split: if_splits)

lemma placed_known_forget:
  assumes "state_machine_inv sm" and "placed_known sm"
  shows "placed_known (apply_command (ForgetNode n) sm)"
  using assms by (auto simp: placed_known_def still_assigned_iff forget_def hashmap subset_iff dom_def)

lemma placed_known_assign:
  assumes "state_machine_inv sm" and "placed_known sm"
    and "set (sa_replicas a) \<subseteq> dom (map_of (mb_nodes (sm_membership sm)))"
  shows "placed_known (apply_command (AssignShard a) sm)"
  using assms assigned_nodes_assign [of "sm_placement sm" a]
  by (auto simp: placed_known_def state_machine_inv_def)

subsection \<open>The contract of a control plane\<close>

locale control_plane =
  fixes cp :: "'c control_plane_ops"
  assumes propose_events: "cp_propose cp cmd c sm = (ok, c', sm') \<Longrightarrow>
    \<exists>evs. sm' = sm_events evs sm"
begin

lemma propose_inv:
  assumes "cp_propose cp cmd c sm = (ok, c', sm')" and "state_machine_inv sm"
  shows "state_machine_inv sm'"
  using propose_events [OF assms(1)] assms(2) by (auto simp: state_machine_inv_events)

lemma propose_shard_count:
  assumes "cp_propose cp cmd c sm = (ok, c', sm')"
  shows "pl_shard_count (sm_placement sm') = pl_shard_count (sm_placement sm)"
  using propose_events [OF assms] by auto

end

interpretation lcp: control_plane local_control_plane
proof unfold_locales
  fix cmd and c c' :: unit and sm sm' ok
  assume "cp_propose local_control_plane cmd c sm = (ok, c', sm')"
  then have "sm' = sm_events [Applied cmd] sm" by auto
  then show "\<exists>evs. sm' = sm_events evs sm" ..
qed

subsection \<open>Properties\<close>



end
