(* ===== verification/Scheduler.thy ===== *)
theory Scheduler
  imports Plan Leadership Cluster
begin

section \<open>The reconciliation loop (\<open>src/scheduler.rs\<close>)\<close>

text \<open>
  One tick of the scheduler: observe membership and placement, recompute every shard's replicas and
  leader, propose what changed, and finally propose the removal of drained nodes. \<open>observe\<close> is the
  part of \<open>reconcile\<close> before the loop over the shards, \<open>reconcile_shard\<close> the body of that loop up
  to the proposal, \<open>reconcile_shards\<close> the loop, \<open>forget_drained\<close> the scale-down step. The control
  plane is a parameter (\<open>'c control_plane_ops\<close>), as the trait object is in the source. The result
  carries the list of proposals, each with the state machine it was made in: the \<open>changes\<close> counter
  of the source is the number of the assignments in it.
\<close>

type_synonym load_map = "node_id \<rightharpoonup> nat"

text \<open>\<open>if let Some(l) = load.get_mut(r) { *l += 1 }\<close> and its saturating counterpart.\<close>

definition bump :: "load_map \<Rightarrow> node_id \<Rightarrow> load_map" where
  "bump l r = (case l r of Some n \<Rightarrow> l(r \<mapsto> add32 n 1) | None \<Rightarrow> l)"

definition unbump :: "load_map \<Rightarrow> node_id \<Rightarrow> load_map" where
  "unbump l r = (case l r of Some n \<Rightarrow> l(r \<mapsto> sat_sub n 1) | None \<Rightarrow> l)"

definition zero_loads :: "node_id list \<Rightarrow> load_map" where
  "zero_loads ids = map_of (map (\<lambda>n. (n, 0)) ids)"

definition load_of :: "load_map \<Rightarrow> node_id \<Rightarrow> nat" where
  "load_of l n = (case l n of Some k \<Rightarrow> k | None \<Rightarrow> 0)"

text \<open>
  \<open>active_nodes_for_target\<close>: most loaded first, then by id; the comparator \<open>b.cmp(a)\<close> on loads is the
  comparison of the negated loads.
\<close>

definition active_nodes_for_target :: "node_id list \<Rightarrow> load_map \<Rightarrow> nat \<Rightarrow> node_id list" where
  "active_nodes_for_target healthy_ids l target_nodes =
     (if length healthy_ids \<le> target_nodes then healthy_ids
      else sort (take target_nodes (sort_key (\<lambda>n. (- int (load_of l n), n)) healthy_ids)))"

definition healthy_nodes :: "node_info list \<Rightarrow> node_info list" where
  "healthy_nodes nodes = filter (\<lambda>n. ni_health n = Healthy) nodes"

definition observed_leader :: "node_info list \<Rightarrow> shard_id \<Rightarrow> node_id option" where
  "observed_leader nodes =
     foldl (\<lambda>m n. foldl (\<lambda>m s. m(s \<mapsto> ni_node_id n)) m (ni_leading_shards n))
       (\<lambda>_. None) (healthy_nodes nodes)"

definition observed_replicas :: "node_info list \<Rightarrow> shard_id \<Rightarrow> node_id list" where
  "observed_replicas nodes shard =
     concat (map (\<lambda>n. map (\<lambda>_. ni_node_id n) (filter (\<lambda>s. s = shard) (ni_hosted_shards n)))
       (healthy_nodes nodes))"

text \<open>What one tick observes before it goes over the shards.\<close>

record tick =
  tk_rf :: nat
  tk_nodes :: "node_info list"
  tk_healthy_ids :: "node_id list"

record loads =
  lo_load :: load_map
  lo_leader_load :: load_map

definition observe :: "state_machine \<Rightarrow> tick \<times> loads" where
  "observe sm =
     (let plan = sm_plan sm;
          rf = max (sp_replication_factor plan) 1;
          target_nodes = max (sp_target_nodes plan) rf;
          nodes = membership_snapshot (sm_membership sm);
          all_healthy_ids = map ni_node_id (healthy_nodes nodes);
          assignments = placement_snapshot (sm_placement sm);
          l = foldl (\<lambda>l a. foldl bump l (sa_replicas a)) (zero_loads all_healthy_ids) assignments;
          healthy_ids = active_nodes_for_target all_healthy_ids l target_nodes;
          l = l |` set healthy_ids;
          ll = foldl (\<lambda>ll a. case sa_preferred_leader a of Some leader \<Rightarrow> bump ll leader | None \<Rightarrow> ll)
                 (zero_loads healthy_ids) assignments
      in (\<lparr>tk_rf = rf, tk_nodes = nodes, tk_healthy_ids = healthy_ids\<rparr>,
          \<lparr>lo_load = l, lo_leader_load = ll\<rparr>))"

text \<open>
  The hash maps \<open>domain_of\<close>, \<open>cloud_of\<close> and \<open>region_of\<close>: \<open>collect\<close> lets a later pair win, and a
  missing node reads as the empty string.
\<close>

definition attribute :: "(node_info \<Rightarrow> string) \<Rightarrow> node_info list \<Rightarrow> node_id \<Rightarrow> string" where
  "attribute f nodes n =
     (case map_of (rev (map (\<lambda>i. (ni_node_id i, f i)) nodes)) n of Some v \<Rightarrow> v | None \<Rightarrow> [])"

definition current_replicas :: "tick \<Rightarrow> placement \<Rightarrow> shard_id \<Rightarrow> node_id list" where
  "current_replicas tk p shard =
     (case get p shard of Some a \<Rightarrow> sa_replicas a | None \<Rightarrow> observed_replicas (tk_nodes tk) shard)"

definition node_slots :: "tick \<Rightarrow> load_map \<Rightarrow> node_slot list" where
  "node_slots tk l =
     map (\<lambda>n. \<lparr>ns_node_id = n, ns_domain = attribute ni_failure_domain (tk_nodes tk) n,
               ns_load = load_of l n\<rparr>) (tk_healthy_ids tk)"

definition leader_slots :: "tick \<Rightarrow> load_map \<Rightarrow> node_id list \<Rightarrow> leader_slot list" where
  "leader_slots tk ll desired =
     map (\<lambda>n. \<lparr>ls_node_id = n, ls_cloud_provider = attribute ni_cloud_provider (tk_nodes tk) n,
               ls_region = attribute ni_region (tk_nodes tk) n,
               ls_leader_load = load_of ll n\<rparr>) desired"

definition assignment_changed :: "shard_assignment option \<Rightarrow> shard_assignment \<Rightarrow> bool" where
  "assignment_changed current new =
     (case current of
        None \<Rightarrow> sa_replicas new \<noteq> []
      | Some a \<Rightarrow>
          sa_replicas a \<noteq> sa_replicas new
          \<or> sa_preferred_leader a \<noteq> sa_preferred_leader new
          \<or> sa_preferred_region a \<noteq> sa_preferred_region new
          \<or> sa_preferred_cloud_provider a \<noteq> sa_preferred_cloud_provider new)"

text \<open>
  The body of the loop over the shards: the two holds (\<open>continue\<close>) are \<open>None\<close>; otherwise the
  assignment to propose, if it changed, and the loads for the next shard.
\<close>

definition reconcile_shard ::
  "tick \<Rightarrow> placement \<Rightarrow> shard_id \<Rightarrow> loads \<Rightarrow> (shard_assignment option \<times> loads) option" where
  "reconcile_shard tk p shard lo =
     (let current = get p shard;
          cur = current_replicas tk p shard;
          known = set (map ni_node_id (tk_nodes tk));
          healthy_ids = tk_healthy_ids tk in
      if cur \<noteq> [] \<and> \<not> set cur \<subseteq> known then None
      else
        let desired = plan_replicas cur (node_slots tk (lo_load lo)) (tk_rf tk) in
        if length healthy_ids < tk_rf tk \<and> length desired < min (length cur) (tk_rf tk) then None
        else
          let l = foldl bump (foldl unbump (lo_load lo) cur) desired;
              ll = (case Option.bind current sa_preferred_leader of
                      Some previous \<Rightarrow> unbump (lo_leader_load lo) previous
                    | None \<Rightarrow> lo_leader_load lo);
              pol = policy p shard;
              observed = observed_leader (tk_nodes tk) shard;
              affinity_target = preferred_leader_for_policy pol desired (set healthy_ids)
                (leader_slots tk ll desired) observed;
              preferred_leader = desired_leader affinity_target desired (set healthy_ids) observed;
              ll = (case preferred_leader of Some next \<Rightarrow> bump ll next | None \<Rightarrow> ll);
              new = \<lparr>sa_shard_id = shard, sa_replicas = desired,
                     sa_preferred_leader = preferred_leader,
                     sa_preferred_region = Option.bind pol pp_home_region,
                     sa_preferred_cloud_provider = Option.bind pol pp_preferred_cloud_provider\<rparr>
          in Some (if assignment_changed current new then Some new else None,
                   \<lparr>lo_load = l, lo_leader_load = ll\<rparr>))"

type_synonym proposal = "state_machine \<times> command"

fun reconcile_shards ::
  "'c control_plane_ops \<Rightarrow> tick \<Rightarrow> shard_id list \<Rightarrow> loads \<Rightarrow> 'c \<Rightarrow> state_machine
    \<Rightarrow> proposal list \<times> 'c \<times> state_machine" where
  "reconcile_shards cp tk [] lo c sm = ([], c, sm)"
| "reconcile_shards cp tk (shard # shards) lo c sm =
     (case reconcile_shard tk (sm_placement sm) shard lo of
        None \<Rightarrow> reconcile_shards cp tk shards lo c sm
      | Some (None, lo') \<Rightarrow> reconcile_shards cp tk shards lo' c sm
      | Some (Some a, lo') \<Rightarrow>
          let (ok, c', sm') = cp_propose cp (AssignShard a) c sm;
              (ps, c'', sm'') = reconcile_shards cp tk shards lo' c' sm'
          in ((sm, AssignShard a) # ps, c'', sm''))"

fun forget_drained ::
  "'c control_plane_ops \<Rightarrow> node_id set \<Rightarrow> node_info list \<Rightarrow> 'c \<Rightarrow> state_machine
    \<Rightarrow> proposal list \<times> 'c \<times> state_machine" where
  "forget_drained cp assigned [] c sm = ([], c, sm)"
| "forget_drained cp assigned (n # nodes) c sm =
     (if ni_health n = Draining \<and> ni_hosted_shards n = [] \<and> ni_node_id n \<notin> assigned then
        let (ok, c', sm') = cp_propose cp (ForgetNode (ni_node_id n)) c sm;
            (ps, c'', sm'') = forget_drained cp assigned nodes c' sm'
        in ((sm, ForgetNode (ni_node_id n)) # ps, c'', sm'')
      else forget_drained cp assigned nodes c sm)"

definition reconcile ::
  "'c control_plane_ops \<Rightarrow> 'c \<Rightarrow> state_machine \<Rightarrow> proposal list \<times> 'c \<times> state_machine" where
  "reconcile cp c sm =
     (if \<not> cp_is_leader cp c then ([], c, sm)
      else
        let (tk, lo) = observe sm;
            (ps, c', sm') = reconcile_shards cp tk [0..<pl_shard_count (sm_placement sm)] lo c sm;
            assigned = assigned_nodes (sm_placement sm');
            (qs, c'', sm'') = forget_drained cp assigned (tk_nodes tk) c' sm'
        in (ps @ qs, c'', sm''))"

text \<open>One turn of the loop of \<open>run\<close>: only the leader sweeps and reconciles.\<close>

definition run_tick ::
  "'c control_plane_ops \<Rightarrow> (node_id \<Rightarrow> pod_liveness) \<Rightarrow> nat \<Rightarrow> 'c \<Rightarrow> state_machine
    \<Rightarrow> proposal list \<times> 'c \<times> state_machine" where
  "run_tick cp orc now c sm =
     (if cp_is_leader cp c then
        let (newly_dead, m) = sweep orc now (sm_membership sm)
        in reconcile cp c (sm\<lparr>sm_membership := m\<rparr>)
      else ([], c, sm))"

subsection \<open>What a tick observes\<close>

lemma healthy_ids_subset:
  "set (active_nodes_for_target ids l target) \<subseteq> set ids"
  by (auto simp: active_nodes_for_target_def dest: in_set_takeD)

lemma distinct_healthy_ids:
  "distinct ids \<Longrightarrow> distinct (active_nodes_for_target ids l target)"
  by (simp add: active_nodes_for_target_def)

lemma length_healthy_ids:
  "length (active_nodes_for_target ids l target) = min target (length ids)"
  by (simp add: active_nodes_for_target_def)

text \<open>The most loaded nodes stay active: a node left out is no busier than one kept.\<close>

lemma sort_key_take_drop:
  assumes "x \<in> set (take k (sort_key f xs))" and "y \<in> set (drop k (sort_key f xs))"
  shows "f x \<le> f y"
proof -
  have "sorted (map f (take k (sort_key f xs) @ drop k (sort_key f xs)))" by simp
  with assms show ?thesis unfolding map_append sorted_append by simp
qed

lemma active_nodes_busiest:
  assumes "x \<in> set (active_nodes_for_target ids l target)"
    and "y \<in> set ids" "y \<notin> set (active_nodes_for_target ids l target)"
  shows "load_of l y \<le> load_of l x"
proof -
  let ?k = "\<lambda>n. (- int (load_of l n), n)"
  have long: "\<not> length ids \<le> target" using assms(2,3) by (auto simp: active_nodes_for_target_def)
  then have x: "x \<in> set (take target (sort_key ?k ids))"
    and y: "y \<notin> set (take target (sort_key ?k ids))"
    using assms(1,3) by (auto simp: active_nodes_for_target_def)
  have "y \<in> set (sort_key ?k ids)" using assms(2) by simp
  with y have "y \<in> set (drop target (sort_key ?k ids))"
    by (metis Un_iff append_take_drop_id set_append)
  from sort_key_take_drop [OF x this] show ?thesis by auto
qed

text \<open>A tick that comes from a well-formed state: distinct healthy candidates, factor in range.\<close>

definition tick_ok :: "tick \<Rightarrow> bool" where
  "tick_ok tk \<longleftrightarrow> distinct (tk_healthy_ids tk) \<and> 1 \<le> tk_rf tk \<and> tk_rf tk \<le> u32_max \<and>
     set (tk_healthy_ids tk) \<subseteq> ni_node_id ` set (healthy_nodes (tk_nodes tk))"

definition plan_wf :: "scale_plan \<Rightarrow> bool" where
  "plan_wf p \<longleftrightarrow> sp_target_nodes p \<le> u32_max \<and> sp_replication_factor p \<le> u32_max"

lemma observe_ok:
  assumes "state_machine_inv sm" and "plan_wf (sm_plan sm)"
  shows "tick_ok (fst (observe sm))"
proof -
  have "distinct (map ni_node_id (healthy_nodes (membership_snapshot (sm_membership sm))))"
    unfolding healthy_nodes_def using assms(1)
    by (auto simp: state_machine_inv_def intro: distinct_map_filter membership_snapshot_ids(1))
  moreover have "1 \<le> u32_max" by (simp add: u32_max_def)
  ultimately show ?thesis
    using assms(2) healthy_ids_subset
    by (fastforce simp: tick_ok_def observe_def Let_def plan_wf_def distinct_healthy_ids)
qed

lemma tk_nodes_observe [simp]: "tk_nodes (fst (observe sm)) = membership_snapshot (sm_membership sm)"
  by (simp add: observe_def Let_def)

lemma tk_rf_observe [simp]: "tk_rf (fst (observe sm)) = max (sp_replication_factor (sm_plan sm)) 1"
  by (simp add: observe_def Let_def)

subsection \<open>One shard\<close>

text \<open>
  What the scheduler promises of an assignment \<open>a\<close> that it proposes while the placement is \<open>p\<close>:
  every current replica was known, the new ones are active healthy nodes, between the no-shrink
  floor and the replication factor, with a leader among them, following the shard's policy.
\<close>

definition good_assignment :: "tick \<Rightarrow> placement \<Rightarrow> shard_assignment \<Rightarrow> bool" where
  "good_assignment tk p a \<longleftrightarrow>
     (let cur = current_replicas tk p (sa_shard_id a); pol = policy p (sa_shard_id a) in
      set cur \<subseteq> ni_node_id ` set (tk_nodes tk) \<and>
      set (sa_replicas a) \<subseteq> set (tk_healthy_ids tk) \<and>
      min (length cur) (tk_rf tk) \<le> length (sa_replicas a) \<and>
      length (sa_replicas a) \<le> tk_rf tk \<and>
      (distinct cur \<longrightarrow> distinct (sa_replicas a)) \<and>
      (case sa_preferred_leader a of None \<Rightarrow> sa_replicas a = [] | Some l \<Rightarrow> l \<in> set (sa_replicas a)) \<and>
      sa_preferred_region a = Option.bind pol pp_home_region \<and>
      sa_preferred_cloud_provider a = Option.bind pol pp_preferred_cloud_provider)"

lemma slot_ids_node_slots [simp]: "slot_ids (node_slots tk l) = tk_healthy_ids tk"
  by (simp add: node_slots_def comp_def)

lemma length_node_slots [simp]: "length (node_slots tk l) = length (tk_healthy_ids tk)"
  by (simp add: node_slots_def)

lemma plan_input_tick:
  assumes "tick_ok tk" and "length cur < 2 ^ 32"
  shows "plan_input cur (node_slots tk l) (tk_rf tk)"
  using assms by (simp add: plan_input_def tick_ok_def u32_max_def)

lemma desired_leader_of_plan:
  assumes "set desired \<subseteq> H"
  shows "case desired_leader pref desired H obs of None \<Rightarrow> desired = [] | Some l \<Rightarrow> l \<in> set desired"
proof (cases "desired_leader pref desired H obs")
  case None
  with assms show ?thesis using desired_leader_None [of pref desired H obs] by (auto simp: Int_absorb2)
next
  case (Some l)
  then show ?thesis using desired_leader_SomeD(2) [OF Some] by simp
qed

lemma reconcile_shard_good:
  assumes step: "reconcile_shard tk p shard lo = Some (Some a, lo')"
    and tk: "tick_ok tk" and size: "length (current_replicas tk p shard) < 2 ^ 32"
  shows "good_assignment tk p a" and "sa_shard_id a = shard" and "assignment_changed (get p shard) a"
proof -
  let ?cur = "current_replicas tk p shard"
  let ?d = "plan_replicas ?cur (node_slots tk (lo_load lo)) (tk_rf tk)"
  note inp = plan_input_tick [OF tk size, of "lo_load lo"]
  have known: "set ?cur \<subseteq> ni_node_id ` set (tk_nodes tk)"
    using step by (auto simp: reconcile_shard_def Let_def split: if_splits)
  have floor: "\<not> (length (tk_healthy_ids tk) < tk_rf tk \<and> length ?d < min (length ?cur) (tk_rf tk))"
    using step by (auto simp: reconcile_shard_def Let_def split: if_splits)
  obtain aff obs where lead: "sa_preferred_leader a = desired_leader aff ?d (set (tk_healthy_ids tk)) obs"
    and a: "sa_shard_id a = shard" "sa_replicas a = ?d"
      "sa_preferred_region a = Option.bind (policy p shard) pp_home_region"
      "sa_preferred_cloud_provider a = Option.bind (policy p shard) pp_preferred_cloud_provider"
    and ch: "assignment_changed (get p shard) a"
    using step by (auto simp: reconcile_shard_def Let_def split: if_splits)
  show "sa_shard_id a = shard" "assignment_changed (get p shard) a" by fact+
  have sub: "set ?d \<subseteq> set (tk_healthy_ids tk)"
    using plan_replicas_set(1) [OF inp] by simp
  have "min (length ?cur) (tk_rf tk) \<le> length ?d"
    using floor plan_length_ge [OF inp] by auto
  then show "good_assignment tk p a"
    using known sub plan_length_le [OF inp] plan_replicas_set(2) [OF inp]
      desired_leader_of_plan [OF sub, of aff obs]
    by (simp add: good_assignment_def a lead Let_def cong: option.case_cong)
qed

lemma good_assignment_cong:
  assumes "get p (sa_shard_id a) = get q (sa_shard_id a)"
    and "policy p (sa_shard_id a) = policy q (sa_shard_id a)"
  shows "good_assignment tk p a \<longleftrightarrow> good_assignment tk q a"
  using assms by (simp add: good_assignment_def current_replicas_def)

subsection \<open>The loop over the shards, for any control plane\<close>

lemma reconcile_shards_Cons:
  assumes "reconcile_shards cp tk (shard # shards) lo c sm = (ps, c', sm')"
  obtains (held) lo' where "reconcile_shards cp tk shards lo' c sm = (ps, c', sm')"
      "(\<exists>r. reconcile_shard tk (sm_placement sm) shard lo = Some (None, r)) \<or>
       reconcile_shard tk (sm_placement sm) shard lo = None"
  | (proposed) a lo' ok c1 sm1 qs where
      "reconcile_shard tk (sm_placement sm) shard lo = Some (Some a, lo')"
      "cp_propose cp (AssignShard a) c sm = (ok, c1, sm1)"
      "reconcile_shards cp tk shards lo' c1 sm1 = (qs, c', sm')"
      "ps = (sm, AssignShard a) # qs"
  using assms by (auto split: option.splits prod.splits)

lemma forget_drained_Cons:
  assumes "forget_drained cp assigned (n # nodes) c sm = (ps, c', sm')"
  obtains (kept) "forget_drained cp assigned nodes c sm = (ps, c', sm')"
  | (proposed) ok c1 sm1 qs where
      "ni_health n = Draining" "ni_hosted_shards n = []" "ni_node_id n \<notin> assigned"
      "cp_propose cp (ForgetNode (ni_node_id n)) c sm = (ok, c1, sm1)"
      "forget_drained cp assigned nodes c1 sm1 = (qs, c', sm')"
      "ps = (sm, ForgetNode (ni_node_id n)) # qs"
  using assms by (auto split: if_splits prod.splits)

lemma reconcile_shard_id:
  "reconcile_shard tk p shard lo = Some (Some a, lo') \<Longrightarrow> sa_shard_id a = shard"
  by (auto simp: reconcile_shard_def Let_def split: if_splits)

lemma reconcile_shards_trace:
  assumes "reconcile_shards cp tk shards lo c sm = (ps, c', sm')" and "(sm0, cmd) \<in> set ps" and "tick_ok tk"
  shows "\<exists>a. cmd = AssignShard a \<and> sa_shard_id a \<in> set shards \<and>
    (length (current_replicas tk (sm_placement sm0) (sa_shard_id a)) < 2 ^ 32 \<longrightarrow>
      good_assignment tk (sm_placement sm0) a)"
  using assms(1,2)
proof (induction shards arbitrary: lo c sm ps)
  case (Cons shard shards)
  from Cons.prems(1) show ?case
  proof (cases rule: reconcile_shards_Cons)
    case (held lo')
    from Cons.IH [OF held(1) Cons.prems(2)] show ?thesis by auto
  next
    case (proposed a lo' ok c1 sm1 qs)
    show ?thesis
    proof (cases "(sm0, cmd) = (sm, AssignShard a)")
      case True
      then show ?thesis
        using reconcile_shard_good(1) [OF proposed(1) assms(3)] reconcile_shard_id [OF proposed(1)] by auto
    next
      case False
      then have "(sm0, cmd) \<in> set qs" using Cons.prems(2) proposed(4) by auto
      from Cons.IH [OF proposed(3) this] show ?thesis by auto
    qed
  qed
qed simp

lemma forget_drained_trace:
  assumes "forget_drained cp assigned nodes c sm = (ps, c', sm')" and "(sm0, cmd) \<in> set ps"
  shows "\<exists>n \<in> set nodes. cmd = ForgetNode (ni_node_id n) \<and> ni_health n = Draining \<and>
    ni_hosted_shards n = [] \<and> ni_node_id n \<notin> assigned"
  using assms
proof (induction nodes arbitrary: c sm ps)
  case (Cons n nodes)
  from Cons.prems(1) show ?case
  proof (cases rule: forget_drained_Cons)
    case kept
    from Cons.IH [OF kept Cons.prems(2)] show ?thesis by auto
  next
    case (proposed ok c1 sm1 qs)
    show ?thesis
    proof (cases "(sm0, cmd) \<in> set qs")
      case True
      from Cons.IH [OF proposed(5) True] show ?thesis by auto
    next
      case False
      with Cons.prems(2) proposed show ?thesis by auto
    qed
  qed
qed simp

text \<open>A command the scheduler may propose in the state \<open>sm\<close> of a tick that began in \<open>start\<close>.\<close>

definition good_proposal :: "state_machine \<Rightarrow> proposal \<Rightarrow> bool" where
  "good_proposal start pr =
     (let tk = fst (observe start) in
      case pr of
        (sm, AssignShard a) \<Rightarrow>
          sa_shard_id a < pl_shard_count (sm_placement start) \<and>
          (length (current_replicas tk (sm_placement sm) (sa_shard_id a)) < 2 ^ 32 \<longrightarrow>
            good_assignment tk (sm_placement sm) a)
      | (sm, ForgetNode n) \<Rightarrow>
          (\<exists>info \<in> set (tk_nodes tk). ni_node_id info = n \<and> ni_health info = Draining \<and>
             ni_hosted_shards info = [])
      | (sm, SetScalePlan _) \<Rightarrow> False)"

lemma reconcile_trace:
  assumes "reconcile cp c sm = (ps, c', sm')" and "pr \<in> set ps"
    and "state_machine_inv sm" and "plan_wf (sm_plan sm)"
  shows "good_proposal sm pr"
proof -
  obtain tk lo where ob: "observe sm = (tk, lo)" by fastforce
  then have tk: "tk = fst (observe sm)" by simp
  obtain ps1 c1 sm1 where r: "reconcile_shards cp tk [0..<pl_shard_count (sm_placement sm)] lo c sm = (ps1, c1, sm1)"
    by (metis prod_cases3)
  obtain ps2 c2 sm2 where f: "forget_drained cp (assigned_nodes (sm_placement sm1)) (tk_nodes tk) c1 sm1 = (ps2, c2, sm2)"
    by (metis prod_cases3)
  have "pr \<in> set ps1 \<union> set ps2"
    using assms(1,2) ob r f by (auto simp: reconcile_def Let_def split: if_splits)
  moreover obtain sm0 cmd where pr: "pr = (sm0, cmd)" by fastforce
  moreover have "tick_ok tk" unfolding tk using assms(3,4) by (rule observe_ok)
  ultimately show ?thesis
    using reconcile_shards_trace [OF r, of sm0 cmd] forget_drained_trace [OF f, of sm0 cmd]
    by (fastforce simp: good_proposal_def tk Let_def)
qed

lemma follower_no_op:
  assumes "\<not> cp_is_leader cp c"
  shows "reconcile cp c sm = ([], c, sm)" and "run_tick cp orc now c sm = ([], c, sm)"
  using assms by (simp_all add: reconcile_def run_tick_def)

context control_plane
begin

lemma propose_then_events:
  assumes "cp_propose cp cmd c sm = (ok, c1, sm1)" and "\<exists>evs. sm' = sm_events evs sm1"
  shows "\<exists>evs. sm' = sm_events evs sm"
proof -
  obtain evs evs' where "sm1 = sm_events evs sm" "sm' = sm_events evs' sm1"
    using propose_events [OF assms(1)] assms(2) by blast
  then have "sm' = sm_events (evs @ evs') sm" by simp
  then show ?thesis ..
qed

lemma no_events: "\<exists>evs. sm = sm_events evs sm"
  by (rule exI [of _ "[]"]) simp

lemma reconcile_shards_events:
  "reconcile_shards cp tk shards lo c sm = (ps, c', sm') \<Longrightarrow> \<exists>evs. sm' = sm_events evs sm"
proof (induction shards arbitrary: lo c sm ps)
  case (Cons shard shards)
  from Cons.prems show ?case
  proof (cases rule: reconcile_shards_Cons)
    case (proposed a lo' ok c1 sm1 qs)
    from propose_then_events [OF proposed(2) Cons.IH [OF proposed(3)]] show ?thesis .
  qed (use Cons.IH in blast)
qed (simp add: no_events)

lemma forget_drained_events:
  "forget_drained cp assigned nodes c sm = (ps, c', sm') \<Longrightarrow> \<exists>evs. sm' = sm_events evs sm"
proof (induction nodes arbitrary: c sm ps)
  case (Cons n nodes)
  from Cons.prems show ?case
  proof (cases rule: forget_drained_Cons)
    case (proposed ok c1 sm1 qs)
    from propose_then_events [OF proposed(4) Cons.IH [OF proposed(5)]] show ?thesis .
  qed (use Cons.IH in blast)
qed (simp add: no_events)

text \<open>Whatever the control plane, a reconciliation changes the state machine only by events of the log.\<close>

lemma reconcile_events:
  assumes "reconcile cp c sm = (ps, c', sm')"
  shows "\<exists>evs. sm' = sm_events evs sm"
proof (cases "cp_is_leader cp c")
  case True
  obtain tk lo where ob: "observe sm = (tk, lo)" by fastforce
  obtain ps1 c1 sm1 where r: "reconcile_shards cp tk [0..<pl_shard_count (sm_placement sm)] lo c sm = (ps1, c1, sm1)"
    by (metis prod_cases3)
  obtain ps2 where f: "forget_drained cp (assigned_nodes (sm_placement sm1)) (tk_nodes tk) c1 sm1 = (ps2, c', sm')"
    using assms True ob r by (auto simp: reconcile_def Let_def split: prod.splits)
  obtain evs evs' where "sm1 = sm_events evs sm" "sm' = sm_events evs' sm1"
    using reconcile_shards_events [OF r] forget_drained_events [OF f] by blast
  then have "sm' = sm_events (evs @ evs') sm" by simp
  then show ?thesis ..
qed (use assms no_events in \<open>auto simp: reconcile_def\<close>)

lemma reconcile_inv:
  assumes "reconcile cp c sm = (ps, c', sm')" and "state_machine_inv sm"
  shows "state_machine_inv sm' \<and> pl_shard_count (sm_placement sm') = pl_shard_count (sm_placement sm)"
  using reconcile_events [OF assms(1)] assms(2) by (auto simp: state_machine_inv_events)

end

subsection \<open>The single-member control plane\<close>

text \<open>
  What a tick does to the shard \<open>s\<close>: nothing, or a good assignment judged against the state the
  tick began in.
\<close>

definition shard_outcome :: "tick \<Rightarrow> placement \<Rightarrow> placement \<Rightarrow> shard_id \<Rightarrow> bool" where
  "shard_outcome tk before_p after_p s \<longleftrightarrow>
     get after_p s = get before_p s \<or>
     (\<exists>a. get after_p s = Some a \<and> sa_shard_id a = s \<and> good_assignment tk before_p a)"

definition sizes_ok :: "tick \<Rightarrow> placement \<Rightarrow> bool" where
  "sizes_ok tk p \<longleftrightarrow> (\<forall>s < pl_shard_count p. length (current_replicas tk p s) < 2 ^ 32)"

lemma local_reconcile_shards:
  assumes "reconcile_shards local_control_plane tk shards lo c sm = (ps, c', sm')"
    and "tick_ok tk" and "distinct shards"
    and "\<forall>s \<in> set shards. length (current_replicas tk (sm_placement sm) s) < 2 ^ 32"
  shows "shard_outcome tk (sm_placement sm) (sm_placement sm') s \<and>
    (s \<notin> set shards \<longrightarrow> get (sm_placement sm') s = get (sm_placement sm) s) \<and>
    sm_membership sm' = sm_membership sm \<and> sm_plan sm' = sm_plan sm"
  using assms(1,3,4)
proof (induction shards arbitrary: lo c sm ps)
  case (Cons shard shards)
  from Cons.prems(1) show ?case
  proof (cases rule: reconcile_shards_Cons)
    case (held lo')
    from Cons.IH [OF held(1)] Cons.prems show ?thesis by simp
  next
    case (proposed a lo' ok c1 sm1 qs)
    note good = reconcile_shard_good(1,2) [OF proposed(1) assms(2)]
    have sm1: "sm1 = apply_command (AssignShard a) sm" using proposed(2) by simp
    have other: "get (sm_placement sm1) t = get (sm_placement sm) t" if "t \<noteq> shard" for t
      using that good(2) Cons.prems(3) by (simp add: sm1 get_assign)
    have "length (current_replicas tk (sm_placement sm1) t) < 2 ^ 32" if "t \<in> set shards" for t
    proof -
      have "t \<noteq> shard" using that Cons.prems(2) by auto
      with that Cons.prems(3) other [of t] show ?thesis by (simp add: current_replicas_def)
    qed
    with Cons.IH [OF proposed(3)] Cons.prems(2)
    have IH: "shard_outcome tk (sm_placement sm1) (sm_placement sm') s"
      "s \<notin> set shards \<longrightarrow> get (sm_placement sm') s = get (sm_placement sm1) s"
      "sm_membership sm' = sm_membership sm1" "sm_plan sm' = sm_plan sm1"
      by auto
    have "shard_outcome tk (sm_placement sm) (sm_placement sm') s"
    proof (cases "s = shard")
      case True
      then have "get (sm_placement sm') s = Some a"
        using IH(2) good(2) Cons.prems(2,3) by (simp add: sm1 get_assign)
      with True good Cons.prems(3) show ?thesis by (auto simp: shard_outcome_def)
    next
      case False
      have "policy (sm_placement sm1) t = policy (sm_placement sm) t" for t by (simp add: sm1)
      with IH(1) False other [OF False] show ?thesis
        using good_assignment_cong [of "sm_placement sm1" _ "sm_placement sm" tk]
        by (auto simp: shard_outcome_def)
    qed
    with IH other show ?thesis by (auto simp: sm1)
  qed
qed (auto simp: shard_outcome_def)

lemma local_forget_drained:
  assumes "forget_drained local_control_plane assigned nodes c sm = (ps, c', sm')"
  shows "sm_placement sm' = sm_placement sm \<and> sm_plan sm' = sm_plan sm \<and>
    (state_machine_inv sm \<longrightarrow> placed_known sm \<longrightarrow> placed_known sm')"
  using assms
proof (induction nodes arbitrary: c sm ps)
  case (Cons n nodes)
  from Cons.prems(1) show ?case
  proof (cases rule: forget_drained_Cons)
    case kept
    from Cons.IH [OF kept] show ?thesis by blast
  next
    case (proposed ok c1 sm1 qs)
    then have "sm1 = apply_command (ForgetNode (ni_node_id n)) sm" by simp
    with Cons.IH [OF proposed(5)] show ?thesis
      using placed_known_forget [of sm "ni_node_id n"]
        state_machine_inv_command [of sm "ForgetNode (ni_node_id n)"]
      by auto
  qed
qed auto

lemma placed_known_outcome:
  assumes inv: "state_machine_inv sm" and inv1: "state_machine_inv sm1"
    and known: "placed_known sm" and tk: "tick_ok tk"
    and nodes: "tk_nodes tk = membership_snapshot (sm_membership sm)"
    and out: "\<And>t. shard_outcome tk (sm_placement sm) (sm_placement sm1) t"
    and mem: "sm_membership sm1 = sm_membership sm"
  shows "placed_known sm1"
  unfolding placed_known_def
proof
  fix n assume "n \<in> assigned_nodes (sm_placement sm1)"
  then obtain t a where a: "get (sm_placement sm1) t = Some a" "n \<in> set (sa_replicas a)"
    using inv1 by (auto simp: assigned_nodes_iff state_machine_inv_def)
  then consider "n \<in> set (tk_healthy_ids tk)" | "n \<in> assigned_nodes (sm_placement sm)"
    using out [of t] inv
    by (fastforce simp: shard_outcome_def good_assignment_def Let_def assigned_nodes_iff state_machine_inv_def)
  then show "n \<in> dom (map_of (mb_nodes (sm_membership sm1)))"
  proof cases
    case 1
    then have "n \<in> ni_node_id ` set (tk_nodes tk)"
      using tk by (auto simp: tick_ok_def healthy_nodes_def)
    then show ?thesis
      using membership_snapshot_ids(3) [of "sm_membership sm"] inv
      by (auto simp: nodes mem state_machine_inv_def)
  next
    case 2
    with known show ?thesis by (auto simp: placed_known_def mem)
  qed
qed

lemma local_reconcile:
  assumes run: "reconcile local_control_plane c sm = (ps, c', sm')"
    and inv: "state_machine_inv sm" and wf: "plan_wf (sm_plan sm)"
    and sizes: "sizes_ok (fst (observe sm)) (sm_placement sm)"
  shows "shard_outcome (fst (observe sm)) (sm_placement sm) (sm_placement sm') s"
    and "sm_plan sm' = sm_plan sm"
    and "placed_known sm \<Longrightarrow> placed_known sm'"
proof -
  obtain tk lo where ob: "observe sm = (tk, lo)" by fastforce
  obtain ps1 c1 sm1 where
    r: "reconcile_shards local_control_plane tk [0..<pl_shard_count (sm_placement sm)] lo c sm = (ps1, c1, sm1)"
    by (metis prod_cases3)
  obtain ps2 where
    f: "forget_drained local_control_plane (assigned_nodes (sm_placement sm1)) (tk_nodes tk) c1 sm1 = (ps2, c', sm')"
    using run ob r by (auto simp: reconcile_def Let_def split: prod.splits)
  have tk: "tick_ok tk" using observe_ok [OF inv wf] ob by simp
  have all: "shard_outcome tk (sm_placement sm) (sm_placement sm1) t \<and>
      sm_membership sm1 = sm_membership sm \<and> sm_plan sm1 = sm_plan sm" for t
    using local_reconcile_shards [OF r tk, of t] sizes ob by (auto simp: sizes_ok_def)
  note fd = local_forget_drained [OF f]
  show "shard_outcome (fst (observe sm)) (sm_placement sm) (sm_placement sm') s"
    and "sm_plan sm' = sm_plan sm"
    using all fd ob by auto
  have "state_machine_inv sm1" using lcp.reconcile_shards_events [OF r] inv by (auto simp: state_machine_inv_events)
  with placed_known_outcome [OF inv _ _ tk, of sm1] all fd
  show "placed_known sm'" if "placed_known sm"
    using that ob tk_nodes_observe [of sm] by simp
qed

subsection \<open>A small cluster\<close>

text \<open>One healthy node and one shard without a placement, used by the witnesses.\<close>

definition sample_cluster :: state_machine where
  "sample_cluster =
     \<lparr>sm_membership = run_ops [Heartbeat ''a'' 0 default_report]
        (new_membership \<lparr>suspect_after_ms = 6, dead_after_ms = 30\<rparr>),
      sm_placement = new_placement 1,
      sm_plan = \<lparr>sp_target_nodes = 1, sp_replication_factor = 1\<rparr>\<rparr>"

definition sample_assignment :: shard_assignment where
  "sample_assignment =
     \<lparr>sa_shard_id = 0, sa_replicas = [''a''], sa_preferred_leader = Some ''a'',
      sa_preferred_region = None, sa_preferred_cloud_provider = None\<rparr>"

lemma sample_cluster_ok:
  "state_machine_inv sample_cluster" "plan_wf (sm_plan sample_cluster)" "placed_known sample_cluster"
  "sizes_ok (fst (observe sample_cluster)) (sm_placement sample_cluster)"
proof -
  show "state_machine_inv sample_cluster"
    by (simp add: state_machine_inv_def sample_cluster_def membership_inv_run membership_inv_new
        placement_inv_new del: run_ops_simps)
  show "plan_wf (sm_plan sample_cluster)" by (simp add: plan_wf_def sample_cluster_def u32_max_def)
  show "placed_known sample_cluster"
    by (simp add: placed_known_def sample_cluster_def assigned_nodes_def placement_snapshot_def
        new_placement_def)
  have "current_replicas (fst (observe sample_cluster)) (sm_placement sample_cluster) 0 = []"
    by code_simp
  then show "sizes_ok (fst (observe sample_cluster)) (sm_placement sample_cluster)"
    by (simp add: sizes_ok_def sample_cluster_def new_placement_def)
qed

lemma sample_cluster_tick:
  "map snd (fst (reconcile local_control_plane () sample_cluster)) = [AssignShard sample_assignment]"
  "get (sm_placement (snd (snd (reconcile local_control_plane () sample_cluster)))) 0 = Some sample_assignment"
  by code_simp+

subsection \<open>Properties\<close>

text \<open>
  C17. Every command a reconciliation proposes is sound, on any control plane: an assignment is for a
  shard of the cluster, was computed from replicas that membership all knows, uses only active
  healthy nodes, stays between the no-shrink floor and the replication factor, and names a leader
  among its replicas; a removal is for a draining node that hosts nothing; the scale plan is never
  touched.
\<close>

theorem reconcile_proposals_sound:
  assumes "state_machine_inv sm" and "plan_wf (sm_plan sm)"
  shows "\<forall>pr \<in> set (fst (reconcile cp c sm)). good_proposal sm pr"
  using reconcile_trace [OF _ _ assms] by (metis prod.collapse)

theorem reconcile_proposals_sound_witness:
  "good_proposal sample_cluster (hd (fst (reconcile local_control_plane () sample_cluster)))
   \<and> fst (reconcile local_control_plane () sample_cluster) \<noteq> []"
proof -
  have "fst (reconcile local_control_plane () sample_cluster) \<noteq> []"
    using sample_cluster_tick(1) by auto
  with reconcile_proposals_sound [OF sample_cluster_ok(1,2), of local_control_plane "()"]
  show ?thesis by (metis hd_in_set)
qed

text \<open>
  C16. One tick on the single-member control plane never takes a shard offline: every shard keeps its
  assignment or gets a sound one, a shard with a replica that membership does not know is left
  alone, and no live replica set shrinks below the smaller of its size and the replication factor.
\<close>

theorem reconcile_never_shrinks:
  assumes "state_machine_inv sm" and "plan_wf (sm_plan sm)"
    and "sizes_ok (fst (observe sm)) (sm_placement sm)"
    and "get (sm_placement sm) s = Some a"
  shows "\<exists>b. get (sm_placement (snd (snd (reconcile local_control_plane c sm)))) s = Some b \<and>
    min (length (sa_replicas a)) (max (sp_replication_factor (sm_plan sm)) 1) \<le> length (sa_replicas b) \<and>
    (\<not> set (sa_replicas a) \<subseteq> ni_node_id ` set (membership_snapshot (sm_membership sm)) \<longrightarrow> b = a) \<and>
    (b \<noteq> a \<longrightarrow> set (sa_replicas b) \<subseteq> set (tk_healthy_ids (fst (observe sm))))"
proof -
  obtain ps c' sm' where run: "reconcile local_control_plane c sm = (ps, c', sm')"
    by (metis prod_cases3)
  have "shard_outcome (fst (observe sm)) (sm_placement sm) (sm_placement sm') s"
    using local_reconcile(1) [OF run assms(1-3)] .
  then consider "get (sm_placement sm') s = Some a"
    | b where "get (sm_placement sm') s = Some b" "sa_shard_id b = s"
      "good_assignment (fst (observe sm)) (sm_placement sm) b"
    using assms(4) by (auto simp: shard_outcome_def)
  then show ?thesis
  proof cases
    case 1
    then show ?thesis using run by simp
  next
    case 2
    then show ?thesis
      using run assms(4) by (auto simp: good_assignment_def current_replicas_def Let_def)
  qed
qed

theorem reconcile_never_shrinks_witness:
  "\<exists>sm b. get (sm_placement sm) 0 = Some sample_assignment \<and>
     get (sm_placement (snd (snd (reconcile local_control_plane () sm)))) 0 = Some b \<and>
     1 \<le> length (sa_replicas b)"
proof -
  let ?sm = "apply_command (AssignShard sample_assignment) sample_cluster"
  have get: "get (sm_placement ?sm) 0 = Some sample_assignment"
    by (simp add: get_assign sample_assignment_def)
  have "current_replicas (fst (observe ?sm)) (sm_placement ?sm) 0 = [''a'']"
    using get by (simp add: current_replicas_def sample_assignment_def)
  then have sizes: "sizes_ok (fst (observe ?sm)) (sm_placement ?sm)"
    by (simp add: sizes_ok_def sample_cluster_def new_placement_def assign_def)
  have "plan_wf (sm_plan ?sm)" using sample_cluster_ok(2) by simp
  from reconcile_never_shrinks [OF state_machine_inv_command [OF sample_cluster_ok(1)] this sizes get, of "()"]
  have "\<exists>b. get (sm_placement (snd (snd (reconcile local_control_plane () ?sm)))) 0 = Some b \<and>
     1 \<le> length (sa_replicas b)"
    by (auto simp: sample_assignment_def sample_cluster_def)
  with get show ?thesis by blast
qed



text \<open>
  A follower never acts: neither a direct reconciliation nor a turn of the loop proposes a
  command or changes any state on a member that does not lead.
\<close>

theorem follower_never_reconciles:
  assumes "\<not> cp_is_leader cp c"
  shows "reconcile cp c sm = ([], c, sm) \<and> run_tick cp orc now c sm = ([], c, sm)"
  using follower_no_op [OF assms] by simp

theorem follower_never_reconciles_witness:
  "reconcile (local_control_plane\<lparr>cp_is_leader := \<lambda>_. False\<rparr>) () sample_cluster = ([], (), sample_cluster)"
  using follower_never_reconciles [of "local_control_plane\<lparr>cp_is_leader := \<lambda>_. False\<rparr>" "()"] by simp

end
