(* ===== verification/Raft.thy ===== *)
theory Raft
  imports Cluster
begin

section \<open>The consensus engine (\<open>src/raft.rs\<close>)\<close>

text \<open>
  The brain's Raft as the pure state machine that it is in the source: \<open>raft_tick\<close>, \<open>raft_step\<close>,
  \<open>raft_propose\<close> and \<open>compact\<close> change the record \<open>raft\<close>, \<open>raft_ready\<close> drains its side effects. Terms and
  log indices are \<open>u64\<close>: an addition that is not checked in the source is \<^const>\<open>add64\<close>. The hash
  maps of the leader are only looked up, inserted into and cleared, so they are functional maps.
\<close>

unbundle bit_operations_syntax

subsection \<open>Data\<close>

record log_entry =
  le_term :: nat
  le_index :: nat
  le_command :: "command option"

record persisted =
  ps_current_term :: nat
  ps_voted_for :: "node_id option"
  ps_commit_index :: nat
  ps_log :: "log_entry list"
  ps_base_index :: nat
  ps_base_term :: nat
  ps_snapshot :: "bytes option"

definition default_persisted :: persisted where
  "default_persisted =
     \<lparr>ps_current_term = 0, ps_voted_for = None, ps_commit_index = 0, ps_log = [],
      ps_base_index = 0, ps_base_term = 0, ps_snapshot = None\<rparr>"

datatype role = Follower | PreCandidate | Candidate | Leader

record request_vote_req =
  rv_term :: nat
  rv_candidate_id :: node_id
  rv_last_log_index :: nat
  rv_last_log_term :: nat
  rv_pre_vote :: bool

record request_vote_resp =
  rvr_term :: nat
  rvr_granted :: bool
  rvr_pre_vote :: bool

record append_entries_req =
  ae_term :: nat
  ae_leader_id :: node_id
  ae_prev_log_index :: nat
  ae_prev_log_term :: nat
  ae_entries :: "log_entry list"
  ae_leader_commit :: nat

record append_entries_resp =
  aer_term :: nat
  aer_success :: bool
  aer_match_index :: nat

record install_snapshot_req =
  is_term :: nat
  is_leader_id :: node_id
  is_last_included_index :: nat
  is_last_included_term :: nat
  is_data :: bytes

record install_snapshot_resp =
  isr_term :: nat
  isr_success :: bool
  isr_last_included_index :: nat

datatype raft_message =
    RequestVote request_vote_req
  | RequestVoteResp request_vote_resp
  | AppendEntries append_entries_req
  | AppendEntriesResp append_entries_resp
  | InstallSnapshot install_snapshot_req
  | InstallSnapshotResp install_snapshot_resp

record addressed =
  ad_to :: node_id
  ad_msg :: raft_message

record raft_config =
  heartbeat_ticks :: nat
  election_min_ticks :: nat
  election_max_ticks :: nat

definition default_raft_config :: raft_config where
  "default_raft_config = \<lparr>heartbeat_ticks = 3, election_min_ticks = 10, election_max_ticks = 18\<rparr>"

datatype config_error = HeartbeatZero | ElectionMinTooSmall | ElectionMaxTooSmall

definition validate_config :: "raft_config \<Rightarrow> config_error + unit" where
  "validate_config cfg =
     (if heartbeat_ticks cfg = 0 then Inl HeartbeatZero
      else if election_min_ticks cfg \<le> heartbeat_ticks cfg then Inl ElectionMinTooSmall
      else if election_max_ticks cfg < election_min_ticks cfg then Inl ElectionMaxTooSmall
      else Inr ())"

record ready =
  rd_persist :: "persisted option"
  rd_restore :: "bytes option"
  rd_applied_from :: nat
  rd_applied_upto :: nat
  rd_messages :: "addressed list"
  rd_committed :: "(nat \<times> command) list"

record raft =
  rf_id :: node_id
  rf_peers :: "node_id list"
  rf_cfg :: raft_config
  rf_current_term :: nat
  rf_voted_for :: "node_id option"
  rf_log :: "log_entry list"
  rf_base_index :: nat
  rf_base_term :: nat
  rf_snapshot :: "bytes option"
  rf_role :: role
  rf_commit_index :: nat
  rf_last_applied :: nat
  rf_leader_id :: "node_id option"
  rf_pending_restore :: bool
  rf_votes :: "node_id set"
  rf_acked_since_check :: "node_id set"
  rf_next_index :: "node_id \<rightharpoonup> nat"
  rf_match_index :: "node_id \<rightharpoonup> nat"
  rf_snapshot_inflight :: "node_id \<rightharpoonup> nat"
  rf_election_elapsed :: nat
  rf_heartbeat_elapsed :: nat
  rf_randomized_election_timeout :: nat
  rf_rng :: "64 word"
  rf_out :: "addressed list"
  rf_dirty :: bool

subsection \<open>Structural checks on requests\<close>

text \<open>The loop of \<open>entries_are_contiguous\<close>: \<open>position\<close> counts the entries already seen.\<close>

fun contiguous_from :: "append_entries_req \<Rightarrow> nat \<Rightarrow> nat \<Rightarrow> log_entry list \<Rightarrow> bool" where
  "contiguous_from req position previous_term [] = True"
| "contiguous_from req position previous_term (entry # entries) =
     (case Option.bind (checked_add64 (ae_prev_log_index req) 1) (\<lambda>first. checked_add64 first position) of
        None \<Rightarrow> False
      | Some expected_index \<Rightarrow>
          if le_index entry \<noteq> expected_index \<or> le_term entry = 0 \<or> le_term entry < previous_term
             \<or> ae_term req < le_term entry then False
          else contiguous_from req (Suc position) (le_term entry) entries)"

definition entries_are_contiguous :: "append_entries_req \<Rightarrow> bool" where
  "entries_are_contiguous req =
     (if ae_term req = 0 \<or> (ae_prev_log_index req = 0) \<noteq> (ae_prev_log_term req = 0) then False
      else contiguous_from req 0 (ae_prev_log_term req) (ae_entries req))"

definition snapshot_metadata_is_valid :: "install_snapshot_req \<Rightarrow> bool" where
  "snapshot_metadata_is_valid req \<longleftrightarrow>
     is_term req > 0 \<and> is_last_included_index req > 0 \<and> is_last_included_term req > 0 \<and>
     is_last_included_term req \<le> is_term req"

subsection \<open>Log access\<close>

definition quorum :: "raft \<Rightarrow> nat" where
  "quorum r = (length (rf_peers r) + 1) div 2 + 1"

definition last_index :: "raft \<Rightarrow> nat" where
  "last_index r = add64 (rf_base_index r) (length (rf_log r))"

definition last_term :: "raft \<Rightarrow> nat" where
  "last_term r = (if rf_log r = [] then rf_base_term r else le_term (last (rf_log r)))"

definition log_slot :: "raft \<Rightarrow> nat \<Rightarrow> nat option" where
  "log_slot r index =
     (if index \<le> rf_base_index r \<or> last_index r < index then None
      else Some (index - rf_base_index r - 1))"

definition term_at :: "raft \<Rightarrow> nat \<Rightarrow> nat" where
  "term_at r index =
     (if index = rf_base_index r then rf_base_term r
      else (case log_slot r index of Some i \<Rightarrow> le_term (rf_log r ! i) | None \<Rightarrow> 0))"

definition is_leader :: "raft \<Rightarrow> bool" where
  "is_leader r \<longleftrightarrow> rf_role r = Leader"

definition persisted_snapshot :: "raft \<Rightarrow> persisted" where
  "persisted_snapshot r =
     \<lparr>ps_current_term = rf_current_term r, ps_voted_for = rf_voted_for r,
      ps_commit_index = rf_commit_index r, ps_log = rf_log r, ps_base_index = rf_base_index r,
      ps_base_term = rf_base_term r, ps_snapshot = rf_snapshot r\<rparr>"

subsection \<open>Timers and sending\<close>

definition next_rand :: "raft \<Rightarrow> 64 word \<times> raft" where
  "next_rand r =
     (let x = rf_rng r;
          x = x XOR push_bit 13 x;
          x = x XOR drop_bit 7 x;
          x = x XOR push_bit 17 x
      in (x, r\<lparr>rf_rng := x\<rparr>))"

definition reset_election_timer :: "raft \<Rightarrow> raft" where
  "reset_election_timer r =
     (let r = r\<lparr>rf_election_elapsed := 0\<rparr>;
          lo = max (election_min_ticks (rf_cfg r)) 1;
          hi = max (election_max_ticks (rf_cfg r)) lo;
          span = hi - lo + 1;
          (x, r) = next_rand r
      in r\<lparr>rf_randomized_election_timeout := lo + unat x mod span\<rparr>)"

definition send :: "node_id \<Rightarrow> raft_message \<Rightarrow> raft \<Rightarrow> raft" where
  "send to msg r = r\<lparr>rf_out := rf_out r @ [\<lparr>ad_to = to, ad_msg = msg\<rparr>]\<rparr>"

definition send_snapshot :: "node_id \<Rightarrow> raft \<Rightarrow> raft" where
  "send_snapshot peer r =
     (case rf_snapshot r of
        None \<Rightarrow> r
      | Some data \<Rightarrow>
          let req = \<lparr>is_term = rf_current_term r, is_leader_id = rf_id r,
                     is_last_included_index = rf_base_index r,
                     is_last_included_term = rf_base_term r, is_data = data\<rparr>;
              r = r\<lparr>rf_snapshot_inflight := (rf_snapshot_inflight r)(peer \<mapsto> rf_base_index r)\<rparr>
          in send peer (InstallSnapshot req) r)"

definition append_request :: "raft \<Rightarrow> nat \<Rightarrow> append_entries_req" where
  "append_request r next =
     \<lparr>ae_term = rf_current_term r, ae_leader_id = rf_id r, ae_prev_log_index = next - 1,
      ae_prev_log_term = term_at r (next - 1),
      ae_entries = (case log_slot r next of Some slot \<Rightarrow> drop slot (rf_log r) | None \<Rightarrow> []),
      ae_leader_commit = rf_commit_index r\<rparr>"

definition send_append :: "node_id \<Rightarrow> raft \<Rightarrow> raft" where
  "send_append peer r =
     (let next = (case rf_next_index r peer of Some n \<Rightarrow> n | None \<Rightarrow> add64 (last_index r) 1) in
      if next \<le> rf_base_index r then send_snapshot peer r
      else send peer (AppendEntries (append_request r next)) r)"

definition broadcast_append :: "raft \<Rightarrow> raft" where
  "broadcast_append r = foldl (\<lambda>r p. send_append p r) r (rf_peers r)"

definition send_all :: "raft_message \<Rightarrow> raft \<Rightarrow> raft" where
  "send_all msg r = foldl (\<lambda>r p. send p msg r) r (rf_peers r)"

subsection \<open>Elections\<close>

definition become_leader :: "raft \<Rightarrow> raft" where
  "become_leader r =
     (let r = r\<lparr>rf_role := Leader, rf_leader_id := Some (rf_id r)\<rparr>;
          next = add64 (last_index r) 1;
          r = r\<lparr>rf_next_index := map_of (map (\<lambda>p. (p, next)) (rf_peers r)),
                rf_match_index := map_of (map (\<lambda>p. (p, 0)) (rf_peers r)),
                rf_snapshot_inflight := Map.empty\<rparr>;
          index = add64 (last_index r) 1;
          r = r\<lparr>rf_log := rf_log r @ [\<lparr>le_term = rf_current_term r, le_index = index, le_command = None\<rparr>],
                rf_dirty := True, rf_heartbeat_elapsed := 0, rf_acked_since_check := {}\<rparr>
      in broadcast_append (reset_election_timer r))"

definition maybe_win_election :: "raft \<Rightarrow> raft" where
  "maybe_win_election r =
     (if rf_role r = Candidate \<and> quorum r \<le> card (rf_votes r) then become_leader r else r)"

definition vote_request :: "raft \<Rightarrow> nat \<Rightarrow> bool \<Rightarrow> request_vote_req" where
  "vote_request r t pre_vote =
     \<lparr>rv_term = t, rv_candidate_id = rf_id r, rv_last_log_index = last_index r,
      rv_last_log_term = last_term r, rv_pre_vote = pre_vote\<rparr>"

definition start_election :: "raft \<Rightarrow> raft" where
  "start_election r =
     (let r = r\<lparr>rf_current_term := add64 (rf_current_term r) 1, rf_voted_for := Some (rf_id r),
                rf_dirty := True, rf_role := Candidate, rf_leader_id := None\<rparr>;
          r = reset_election_timer r;
          r = r\<lparr>rf_votes := {rf_id r}\<rparr>
      in maybe_win_election (send_all (RequestVote (vote_request r (rf_current_term r) False)) r))"

definition maybe_win_pre_election :: "raft \<Rightarrow> raft" where
  "maybe_win_pre_election r =
     (if rf_role r = PreCandidate \<and> quorum r \<le> card (rf_votes r) then start_election r else r)"

definition start_pre_election :: "raft \<Rightarrow> raft" where
  "start_pre_election r =
     (let r = reset_election_timer r;
          r = r\<lparr>rf_role := PreCandidate, rf_votes := {rf_id r}\<rparr>
      in maybe_win_pre_election
           (send_all (RequestVote (vote_request r (add64 (rf_current_term r) 1) True)) r))"

definition become_follower :: "nat \<Rightarrow> node_id option \<Rightarrow> raft \<Rightarrow> raft" where
  "become_follower t leader r =
     (let r = (if rf_current_term r < t
               then r\<lparr>rf_current_term := t, rf_voted_for := None, rf_dirty := True\<rparr> else r)
      in reset_election_timer
           (r\<lparr>rf_role := Follower, rf_leader_id := leader, rf_votes := {},
              rf_snapshot_inflight := Map.empty\<rparr>))"

definition raft_tick :: "raft \<Rightarrow> raft" where
  "raft_tick r =
     (if rf_role r = Leader then
        let r = r\<lparr>rf_heartbeat_elapsed := add64 (rf_heartbeat_elapsed r) 1\<rparr>;
            r = (if heartbeat_ticks (rf_cfg r) \<le> rf_heartbeat_elapsed r
                 then broadcast_append (r\<lparr>rf_heartbeat_elapsed := 0\<rparr>) else r);
            r = r\<lparr>rf_election_elapsed := add64 (rf_election_elapsed r) 1\<rparr>
        in if rf_randomized_election_timeout r \<le> rf_election_elapsed r then
             let reachable = card (rf_acked_since_check r) + 1;
                 r = r\<lparr>rf_acked_since_check := {}\<rparr>
             in if reachable < quorum r then become_follower (rf_current_term r) None r
                else reset_election_timer r
           else r
      else
        let r = r\<lparr>rf_election_elapsed := add64 (rf_election_elapsed r) 1\<rparr>
        in if rf_randomized_election_timeout r \<le> rf_election_elapsed r then start_pre_election r else r)"

subsection \<open>Inbound messages\<close>

definition log_ok :: "raft \<Rightarrow> request_vote_req \<Rightarrow> bool" where
  "log_ok r req \<longleftrightarrow>
     last_term r < rv_last_log_term req \<or>
     (rv_last_log_term req = last_term r \<and> last_index r \<le> rv_last_log_index req)"

definition handle_request_vote :: "node_id \<Rightarrow> request_vote_req \<Rightarrow> raft \<Rightarrow> raft" where
  "handle_request_vote from_node req r =
     (if rv_term req = 0 then
        send from_node (RequestVoteResp \<lparr>rvr_term = rf_current_term r, rvr_granted = False,
          rvr_pre_vote = rv_pre_vote req\<rparr>) r
      else
        let r = (if \<not> rv_pre_vote req \<and> rf_current_term r < rv_term req
                 then become_follower (rv_term req) None r else r);
            (granted, r) =
              (if rv_term req < rf_current_term r then (False, r)
               else if rv_pre_vote req then
                 (log_ok r req \<and>
                    (rf_leader_id r = None \<or> election_min_ticks (rf_cfg r) \<le> rf_election_elapsed r), r)
               else if (rf_voted_for r = None \<or> rf_voted_for r = Some from_node) \<and> log_ok r req
                 \<and> rv_term req = rf_current_term r then
                 (True, reset_election_timer (r\<lparr>rf_voted_for := Some from_node, rf_dirty := True\<rparr>))
               else (False, r))
        in send from_node (RequestVoteResp \<lparr>rvr_term = rf_current_term r, rvr_granted = granted,
             rvr_pre_vote = rv_pre_vote req\<rparr>) r)"

definition handle_vote_resp :: "node_id \<Rightarrow> request_vote_resp \<Rightarrow> raft \<Rightarrow> raft" where
  "handle_vote_resp from_node resp r =
     (if rf_current_term r < rvr_term resp then become_follower (rvr_term resp) None r
      else if \<not> rvr_granted resp then r
      else if rvr_pre_vote resp then
        (if rf_role r = PreCandidate
         then maybe_win_pre_election (r\<lparr>rf_votes := insert from_node (rf_votes r)\<rparr>) else r)
      else if rf_role r = Candidate \<and> rvr_term resp = rf_current_term r
        then maybe_win_election (r\<lparr>rf_votes := insert from_node (rf_votes r)\<rparr>)
      else r)"

definition truncate_from :: "nat \<Rightarrow> raft \<Rightarrow> bool \<times> raft" where
  "truncate_from index r =
     (if index \<le> rf_commit_index r then (False, r)
      else (True, case log_slot r index of
                    Some slot \<Rightarrow> r\<lparr>rf_log := take slot (rf_log r), rf_dirty := True\<rparr>
                  | None \<Rightarrow> r))"

definition push_entry :: "log_entry \<Rightarrow> raft \<Rightarrow> raft" where
  "push_entry entry r = r\<lparr>rf_log := rf_log r @ [entry], rf_dirty := True\<rparr>"

text \<open>The splicing loop of \<open>handle_append\<close>, with \<open>spliced\<close> and \<open>confirmed\<close> in its result.\<close>

fun splice_entries :: "log_entry list \<Rightarrow> nat \<Rightarrow> raft \<Rightarrow> bool \<times> nat \<times> raft" where
  "splice_entries [] confirmed r = (True, confirmed, r)"
| "splice_entries (entry # entries) confirmed r =
     (if le_index entry \<le> last_index r then
        (if term_at r (le_index entry) \<noteq> le_term entry then
           (case truncate_from (le_index entry) r of
              (False, r') \<Rightarrow> (False, confirmed, r')
            | (True, r') \<Rightarrow> splice_entries entries (le_index entry) (push_entry entry r'))
         else splice_entries entries (le_index entry) r)
      else splice_entries entries (le_index entry) (push_entry entry r))"

definition append_resp :: "node_id \<Rightarrow> bool \<Rightarrow> nat \<Rightarrow> raft \<Rightarrow> raft" where
  "append_resp to success match_index r =
     send to (AppendEntriesResp \<lparr>aer_term = rf_current_term r, aer_success = success,
       aer_match_index = match_index\<rparr>) r"

definition handle_append :: "node_id \<Rightarrow> append_entries_req \<Rightarrow> raft \<Rightarrow> raft" where
  "handle_append from_node req r =
     (if ae_term req < rf_current_term r then append_resp from_node False 0 r
      else
        let r = (if rf_current_term r < ae_term req then become_follower (ae_term req) None r else r) in
        if \<not> entries_are_contiguous req then append_resp from_node False (last_index r) r
        else
          let r = become_follower (ae_term req) (Some from_node) r in
          if last_index r < ae_prev_log_index req then append_resp from_node False (last_index r) r
          else if 0 < ae_prev_log_index req \<and> term_at r (ae_prev_log_index req) \<noteq> ae_prev_log_term req then
            append_resp from_node False (sat_sub (ae_prev_log_index req) 1) r
          else
            let (spliced, confirmed, r) = splice_entries (ae_entries req) (ae_prev_log_index req) r;
                commit = min (ae_leader_commit req) confirmed;
                r = (if spliced \<and> rf_commit_index r < commit
                     then r\<lparr>rf_commit_index := commit, rf_dirty := True\<rparr> else r)
            in append_resp from_node spliced confirmed r)"

text \<open>The replicas of index \<open>n\<close>: this member and every peer whose match index reached it.\<close>

definition replicas_at :: "raft \<Rightarrow> nat \<Rightarrow> nat" where
  "replicas_at r n =
     1 + length (filter (\<lambda>p. n \<le> (case rf_match_index r p of Some m \<Rightarrow> m | None \<Rightarrow> 0)) (rf_peers r))"

definition maybe_advance_commit :: "raft \<Rightarrow> bool \<times> raft" where
  "maybe_advance_commit r =
     (let new_commit = foldl (\<lambda>nc n.
            if term_at r n \<noteq> rf_current_term r then nc
            else if quorum r \<le> replicas_at r n then n else nc)
          (rf_commit_index r) [add64 (rf_commit_index r) 1..<Suc (last_index r)]
      in if rf_commit_index r < new_commit
         then (True, r\<lparr>rf_commit_index := new_commit, rf_dirty := True\<rparr>) else (False, r))"

definition record_match :: "node_id \<Rightarrow> nat \<Rightarrow> raft \<Rightarrow> raft" where
  "record_match from_node acknowledged r =
     (let matched = max acknowledged (case rf_match_index r from_node of Some m \<Rightarrow> m | None \<Rightarrow> 0);
          r = r\<lparr>rf_match_index := (rf_match_index r)(from_node \<mapsto> matched),
                rf_next_index := (rf_next_index r)(from_node \<mapsto> sat_add64 matched 1)\<rparr>;
          (advanced, r) = maybe_advance_commit r
      in if advanced then broadcast_append r else r)"

definition handle_append_resp :: "node_id \<Rightarrow> append_entries_resp \<Rightarrow> raft \<Rightarrow> raft" where
  "handle_append_resp from_node resp r =
     (if rf_current_term r < aer_term resp then become_follower (aer_term resp) None r
      else if rf_role r \<noteq> Leader \<or> aer_term resp \<noteq> rf_current_term r then r
      else
        let r = r\<lparr>rf_acked_since_check := insert from_node (rf_acked_since_check r)\<rparr> in
        if aer_success resp then record_match from_node (min (aer_match_index resp) (last_index r)) r
        else
          let hinted = max (sat_add64 (aer_match_index resp) 1) 1;
              previous = (case rf_next_index r from_node of Some n \<Rightarrow> n | None \<Rightarrow> 1);
              r = r\<lparr>rf_next_index := (rf_next_index r)(from_node \<mapsto> previous)\<rparr>;
              next = min hinted (max (sat_sub previous 1) 1)
          in if next < previous
             then send_append from_node (r\<lparr>rf_next_index := (rf_next_index r)(from_node \<mapsto> next)\<rparr>)
             else r)"

definition snapshot_resp :: "node_id \<Rightarrow> bool \<Rightarrow> nat \<Rightarrow> raft \<Rightarrow> raft" where
  "snapshot_resp to success index r =
     send to (InstallSnapshotResp \<lparr>isr_term = rf_current_term r, isr_success = success,
       isr_last_included_index = index\<rparr>) r"

definition install_snapshot :: "install_snapshot_req \<Rightarrow> raft \<Rightarrow> raft" where
  "install_snapshot req r =
     (let keep = term_at r (is_last_included_index req) = is_last_included_term req
            \<and> is_last_included_index req \<le> last_index r;
          r = r\<lparr>rf_log := (if keep then drop (is_last_included_index req - rf_base_index r) (rf_log r) else [])\<rparr>;
          r = r\<lparr>rf_base_index := is_last_included_index req, rf_base_term := is_last_included_term req,
                rf_snapshot := Some (is_data req)\<rparr>
      in r\<lparr>rf_commit_index := max (rf_commit_index r) (rf_base_index r),
           rf_last_applied := rf_base_index r, rf_pending_restore := True, rf_dirty := True\<rparr>)"

definition handle_install_snapshot :: "node_id \<Rightarrow> install_snapshot_req \<Rightarrow> raft \<Rightarrow> raft" where
  "handle_install_snapshot from_node req r =
     (if is_term req < rf_current_term r then snapshot_resp from_node False 0 r
      else
        let r = (if rf_current_term r < is_term req then become_follower (is_term req) None r else r) in
        if \<not> snapshot_metadata_is_valid req then snapshot_resp from_node False 0 r
        else
          let r = become_follower (is_term req) (Some from_node) r in
          if is_last_included_index req \<le> rf_base_index r
             \<or> is_last_included_index req \<le> rf_commit_index r
          then snapshot_resp from_node True (is_last_included_index req) r
          else
            let r = install_snapshot req r
            in snapshot_resp from_node True (rf_base_index r) r)"

definition handle_install_snapshot_resp :: "node_id \<Rightarrow> install_snapshot_resp \<Rightarrow> raft \<Rightarrow> raft" where
  "handle_install_snapshot_resp from_node resp r =
     (if rf_current_term r < isr_term resp then become_follower (isr_term resp) None r
      else if rf_role r \<noteq> Leader \<or> isr_term resp \<noteq> rf_current_term r then r
      else
        let r = r\<lparr>rf_acked_since_check := insert from_node (rf_acked_since_check r)\<rparr> in
        if isr_success resp then
          let sent = (case rf_snapshot_inflight r from_node of Some n \<Rightarrow> n | None \<Rightarrow> 0);
              r = r\<lparr>rf_snapshot_inflight := (rf_snapshot_inflight r)(from_node := None)\<rparr>
          in record_match from_node (min (isr_last_included_index resp) sent) r
        else r)"

definition body_identity_matches :: "node_id \<Rightarrow> raft_message \<Rightarrow> bool" where
  "body_identity_matches from_node msg =
     (case msg of
        RequestVote req \<Rightarrow> rv_candidate_id req = from_node
      | AppendEntries req \<Rightarrow> ae_leader_id req = from_node
      | InstallSnapshot req \<Rightarrow> is_leader_id req = from_node
      | _ \<Rightarrow> True)"

definition raft_step :: "node_id \<Rightarrow> raft_message \<Rightarrow> raft \<Rightarrow> raft" where
  "raft_step from_node msg r =
     (if from_node \<notin> set (rf_peers r) \<or> \<not> body_identity_matches from_node msg then r
      else
        (case msg of
           RequestVote req \<Rightarrow> handle_request_vote from_node req r
         | RequestVoteResp resp \<Rightarrow> handle_vote_resp from_node resp r
         | AppendEntries req \<Rightarrow> handle_append from_node req r
         | AppendEntriesResp resp \<Rightarrow> handle_append_resp from_node resp r
         | InstallSnapshot req \<Rightarrow> handle_install_snapshot from_node req r
         | InstallSnapshotResp resp \<Rightarrow> handle_install_snapshot_resp from_node resp r))"

subsection \<open>Proposals, compaction and side effects\<close>

definition raft_propose :: "command \<Rightarrow> raft \<Rightarrow> (node_id option + nat) \<times> raft" where
  "raft_propose command r =
     (if rf_role r \<noteq> Leader then (Inl (rf_leader_id r), r)
      else
        let index = add64 (last_index r) 1;
            r = push_entry \<lparr>le_term = rf_current_term r, le_index = index, le_command = Some command\<rparr> r;
            (advanced, r) = maybe_advance_commit r
        in (Inr index, broadcast_append r))"

definition compact :: "nat \<Rightarrow> bytes \<Rightarrow> raft \<Rightarrow> raft" where
  "compact index data r =
     (if index \<le> rf_base_index r \<or> rf_commit_index r < index then r
      else
        let keep_from = index - rf_base_index r in
        r\<lparr>rf_log := (if keep_from \<le> length (rf_log r) then drop keep_from (rf_log r) else []),
          rf_base_index := index, rf_base_term := term_at r index, rf_snapshot := Some data,
          rf_dirty := True\<rparr>)"

text \<open>The commands that the loop of \<open>ready\<close> collects from the indices it passes.\<close>

definition collect_committed :: "raft \<Rightarrow> nat list \<Rightarrow> (nat \<times> command) list" where
  "collect_committed r indices =
     List.map_filter (\<lambda>i.
        case log_slot r i of
          Some slot \<Rightarrow> map_option (\<lambda>cmd. (i, cmd)) (le_command (rf_log r ! slot))
        | None \<Rightarrow> None) indices"

definition raft_ready :: "raft \<Rightarrow> ready \<times> raft" where
  "raft_ready r =
     (let upto = max (rf_last_applied r) (rf_commit_index r) in
      (\<lparr>rd_persist = (if rf_dirty r then Some (persisted_snapshot r) else None),
        rd_restore = (if rf_pending_restore r then rf_snapshot r else None),
        rd_applied_from = rf_last_applied r,
        rd_applied_upto = upto,
        rd_messages = rf_out r,
        rd_committed = collect_committed r [Suc (rf_last_applied r)..<Suc (rf_commit_index r)]\<rparr>,
       r\<lparr>rf_out := [], rf_dirty := False, rf_pending_restore := False, rf_last_applied := upto\<rparr>))"

definition raft_new :: "node_id \<Rightarrow> node_id list \<Rightarrow> raft_config \<Rightarrow> 64 word \<Rightarrow> persisted \<Rightarrow> raft" where
  "raft_new nid peers cfg seed restored =
     reset_election_timer
       \<lparr>rf_id = nid, rf_peers = peers, rf_cfg = cfg,
        rf_current_term = ps_current_term restored, rf_voted_for = ps_voted_for restored,
        rf_log = ps_log restored, rf_base_index = ps_base_index restored,
        rf_base_term = ps_base_term restored, rf_snapshot = ps_snapshot restored,
        rf_role = Follower, rf_commit_index = ps_commit_index restored,
        rf_last_applied = ps_base_index restored, rf_leader_id = None, rf_pending_restore = False,
        rf_votes = {}, rf_acked_since_check = {}, rf_next_index = Map.empty,
        rf_match_index = Map.empty, rf_snapshot_inflight = Map.empty,
        rf_election_elapsed = 0, rf_heartbeat_elapsed = 0, rf_randomized_election_timeout = 0,
        rf_rng = seed OR 1, rf_out = [], rf_dirty = False\<rparr>"

end
