(* ===== verification/Raft_Frames.thy ===== *)
theory Raft_Frames
  imports Raft
begin

section \<open>Frames of the consensus engine\<close>

text \<open>
  Which fields of the engine its helpers leave alone, and what they make of the others. Every later
  proof on the engine reads the fields through these equations and does not unfold the helpers.
\<close>

lemma send_frame [frames, simp]:
  "rf_id (send to msg r) = rf_id r"
  "rf_peers (send to msg r) = rf_peers r"
  "rf_cfg (send to msg r) = rf_cfg r"
  "rf_current_term (send to msg r) = rf_current_term r"
  "rf_voted_for (send to msg r) = rf_voted_for r"
  "rf_log (send to msg r) = rf_log r"
  "rf_base_index (send to msg r) = rf_base_index r"
  "rf_base_term (send to msg r) = rf_base_term r"
  "rf_snapshot (send to msg r) = rf_snapshot r"
  "rf_role (send to msg r) = rf_role r"
  "rf_commit_index (send to msg r) = rf_commit_index r"
  "rf_last_applied (send to msg r) = rf_last_applied r"
  "rf_leader_id (send to msg r) = rf_leader_id r"
  "rf_pending_restore (send to msg r) = rf_pending_restore r"
  "rf_votes (send to msg r) = rf_votes r"
  "rf_acked_since_check (send to msg r) = rf_acked_since_check r"
  "rf_next_index (send to msg r) = rf_next_index r"
  "rf_match_index (send to msg r) = rf_match_index r"
  "rf_snapshot_inflight (send to msg r) = rf_snapshot_inflight r"
  "rf_election_elapsed (send to msg r) = rf_election_elapsed r"
  "rf_heartbeat_elapsed (send to msg r) = rf_heartbeat_elapsed r"
  "rf_randomized_election_timeout (send to msg r) = rf_randomized_election_timeout r"
  "rf_rng (send to msg r) = rf_rng r"
  "rf_dirty (send to msg r) = rf_dirty r"
  by (simp_all add: send_def)

lemma out_send [simp]: "rf_out (send to msg r) = rf_out r @ [\<lparr>ad_to = to, ad_msg = msg\<rparr>]"
  by (simp add: send_def)

lemma reset_election_timer_frame [frames, simp]:
  "rf_id (reset_election_timer r) = rf_id r"
  "rf_peers (reset_election_timer r) = rf_peers r"
  "rf_cfg (reset_election_timer r) = rf_cfg r"
  "rf_current_term (reset_election_timer r) = rf_current_term r"
  "rf_voted_for (reset_election_timer r) = rf_voted_for r"
  "rf_log (reset_election_timer r) = rf_log r"
  "rf_base_index (reset_election_timer r) = rf_base_index r"
  "rf_base_term (reset_election_timer r) = rf_base_term r"
  "rf_snapshot (reset_election_timer r) = rf_snapshot r"
  "rf_role (reset_election_timer r) = rf_role r"
  "rf_commit_index (reset_election_timer r) = rf_commit_index r"
  "rf_last_applied (reset_election_timer r) = rf_last_applied r"
  "rf_leader_id (reset_election_timer r) = rf_leader_id r"
  "rf_pending_restore (reset_election_timer r) = rf_pending_restore r"
  "rf_votes (reset_election_timer r) = rf_votes r"
  "rf_acked_since_check (reset_election_timer r) = rf_acked_since_check r"
  "rf_next_index (reset_election_timer r) = rf_next_index r"
  "rf_match_index (reset_election_timer r) = rf_match_index r"
  "rf_snapshot_inflight (reset_election_timer r) = rf_snapshot_inflight r"
  "rf_heartbeat_elapsed (reset_election_timer r) = rf_heartbeat_elapsed r"
  "rf_out (reset_election_timer r) = rf_out r"
  "rf_dirty (reset_election_timer r) = rf_dirty r"
  by (simp_all add: reset_election_timer_def next_rand_def Let_def)

lemma send_snapshot_frame [frames, simp]:
  "rf_id (send_snapshot peer r) = rf_id r"
  "rf_peers (send_snapshot peer r) = rf_peers r"
  "rf_cfg (send_snapshot peer r) = rf_cfg r"
  "rf_current_term (send_snapshot peer r) = rf_current_term r"
  "rf_voted_for (send_snapshot peer r) = rf_voted_for r"
  "rf_log (send_snapshot peer r) = rf_log r"
  "rf_base_index (send_snapshot peer r) = rf_base_index r"
  "rf_base_term (send_snapshot peer r) = rf_base_term r"
  "rf_snapshot (send_snapshot peer r) = rf_snapshot r"
  "rf_role (send_snapshot peer r) = rf_role r"
  "rf_commit_index (send_snapshot peer r) = rf_commit_index r"
  "rf_last_applied (send_snapshot peer r) = rf_last_applied r"
  "rf_leader_id (send_snapshot peer r) = rf_leader_id r"
  "rf_pending_restore (send_snapshot peer r) = rf_pending_restore r"
  "rf_votes (send_snapshot peer r) = rf_votes r"
  "rf_acked_since_check (send_snapshot peer r) = rf_acked_since_check r"
  "rf_next_index (send_snapshot peer r) = rf_next_index r"
  "rf_match_index (send_snapshot peer r) = rf_match_index r"
  "rf_election_elapsed (send_snapshot peer r) = rf_election_elapsed r"
  "rf_heartbeat_elapsed (send_snapshot peer r) = rf_heartbeat_elapsed r"
  "rf_randomized_election_timeout (send_snapshot peer r) = rf_randomized_election_timeout r"
  "rf_rng (send_snapshot peer r) = rf_rng r"
  "rf_dirty (send_snapshot peer r) = rf_dirty r"
  by (simp_all add: send_snapshot_def Let_def split: option.splits)

lemma send_append_frame [frames, simp]:
  "rf_id (send_append peer r) = rf_id r"
  "rf_peers (send_append peer r) = rf_peers r"
  "rf_cfg (send_append peer r) = rf_cfg r"
  "rf_current_term (send_append peer r) = rf_current_term r"
  "rf_voted_for (send_append peer r) = rf_voted_for r"
  "rf_log (send_append peer r) = rf_log r"
  "rf_base_index (send_append peer r) = rf_base_index r"
  "rf_base_term (send_append peer r) = rf_base_term r"
  "rf_snapshot (send_append peer r) = rf_snapshot r"
  "rf_role (send_append peer r) = rf_role r"
  "rf_commit_index (send_append peer r) = rf_commit_index r"
  "rf_last_applied (send_append peer r) = rf_last_applied r"
  "rf_leader_id (send_append peer r) = rf_leader_id r"
  "rf_pending_restore (send_append peer r) = rf_pending_restore r"
  "rf_votes (send_append peer r) = rf_votes r"
  "rf_acked_since_check (send_append peer r) = rf_acked_since_check r"
  "rf_next_index (send_append peer r) = rf_next_index r"
  "rf_match_index (send_append peer r) = rf_match_index r"
  "rf_election_elapsed (send_append peer r) = rf_election_elapsed r"
  "rf_heartbeat_elapsed (send_append peer r) = rf_heartbeat_elapsed r"
  "rf_randomized_election_timeout (send_append peer r) = rf_randomized_election_timeout r"
  "rf_rng (send_append peer r) = rf_rng r"
  "rf_dirty (send_append peer r) = rf_dirty r"
  by (simp_all add: send_append_def Let_def)

lemma foldl_frame:
  assumes "\<And>r p. f (g r p) = f r"
  shows "f (foldl g r ps) = f r"
  using assms by (induction ps arbitrary: r) auto

lemma broadcast_append_frame [frames, simp]:
  "rf_id (broadcast_append r) = rf_id r"
  "rf_peers (broadcast_append r) = rf_peers r"
  "rf_cfg (broadcast_append r) = rf_cfg r"
  "rf_current_term (broadcast_append r) = rf_current_term r"
  "rf_voted_for (broadcast_append r) = rf_voted_for r"
  "rf_log (broadcast_append r) = rf_log r"
  "rf_base_index (broadcast_append r) = rf_base_index r"
  "rf_base_term (broadcast_append r) = rf_base_term r"
  "rf_snapshot (broadcast_append r) = rf_snapshot r"
  "rf_role (broadcast_append r) = rf_role r"
  "rf_commit_index (broadcast_append r) = rf_commit_index r"
  "rf_last_applied (broadcast_append r) = rf_last_applied r"
  "rf_leader_id (broadcast_append r) = rf_leader_id r"
  "rf_pending_restore (broadcast_append r) = rf_pending_restore r"
  "rf_votes (broadcast_append r) = rf_votes r"
  "rf_acked_since_check (broadcast_append r) = rf_acked_since_check r"
  "rf_next_index (broadcast_append r) = rf_next_index r"
  "rf_match_index (broadcast_append r) = rf_match_index r"
  "rf_election_elapsed (broadcast_append r) = rf_election_elapsed r"
  "rf_heartbeat_elapsed (broadcast_append r) = rf_heartbeat_elapsed r"
  "rf_randomized_election_timeout (broadcast_append r) = rf_randomized_election_timeout r"
  "rf_rng (broadcast_append r) = rf_rng r"
  "rf_dirty (broadcast_append r) = rf_dirty r"
  by (simp_all add: broadcast_append_def foldl_frame)

lemma send_all_frame [frames, simp]:
  "rf_id (send_all msg r) = rf_id r"
  "rf_peers (send_all msg r) = rf_peers r"
  "rf_cfg (send_all msg r) = rf_cfg r"
  "rf_current_term (send_all msg r) = rf_current_term r"
  "rf_voted_for (send_all msg r) = rf_voted_for r"
  "rf_log (send_all msg r) = rf_log r"
  "rf_base_index (send_all msg r) = rf_base_index r"
  "rf_base_term (send_all msg r) = rf_base_term r"
  "rf_snapshot (send_all msg r) = rf_snapshot r"
  "rf_role (send_all msg r) = rf_role r"
  "rf_commit_index (send_all msg r) = rf_commit_index r"
  "rf_last_applied (send_all msg r) = rf_last_applied r"
  "rf_leader_id (send_all msg r) = rf_leader_id r"
  "rf_pending_restore (send_all msg r) = rf_pending_restore r"
  "rf_votes (send_all msg r) = rf_votes r"
  "rf_acked_since_check (send_all msg r) = rf_acked_since_check r"
  "rf_next_index (send_all msg r) = rf_next_index r"
  "rf_match_index (send_all msg r) = rf_match_index r"
  "rf_snapshot_inflight (send_all msg r) = rf_snapshot_inflight r"
  "rf_election_elapsed (send_all msg r) = rf_election_elapsed r"
  "rf_heartbeat_elapsed (send_all msg r) = rf_heartbeat_elapsed r"
  "rf_randomized_election_timeout (send_all msg r) = rf_randomized_election_timeout r"
  "rf_rng (send_all msg r) = rf_rng r"
  "rf_dirty (send_all msg r) = rf_dirty r"
  by (simp_all add: send_all_def foldl_frame)

lemma append_resp_frame [frames, simp]:
  "rf_id (append_resp to ok m r) = rf_id r"
  "rf_peers (append_resp to ok m r) = rf_peers r"
  "rf_cfg (append_resp to ok m r) = rf_cfg r"
  "rf_current_term (append_resp to ok m r) = rf_current_term r"
  "rf_voted_for (append_resp to ok m r) = rf_voted_for r"
  "rf_log (append_resp to ok m r) = rf_log r"
  "rf_base_index (append_resp to ok m r) = rf_base_index r"
  "rf_base_term (append_resp to ok m r) = rf_base_term r"
  "rf_snapshot (append_resp to ok m r) = rf_snapshot r"
  "rf_role (append_resp to ok m r) = rf_role r"
  "rf_commit_index (append_resp to ok m r) = rf_commit_index r"
  "rf_last_applied (append_resp to ok m r) = rf_last_applied r"
  "rf_leader_id (append_resp to ok m r) = rf_leader_id r"
  "rf_pending_restore (append_resp to ok m r) = rf_pending_restore r"
  "rf_votes (append_resp to ok m r) = rf_votes r"
  "rf_acked_since_check (append_resp to ok m r) = rf_acked_since_check r"
  "rf_next_index (append_resp to ok m r) = rf_next_index r"
  "rf_match_index (append_resp to ok m r) = rf_match_index r"
  "rf_snapshot_inflight (append_resp to ok m r) = rf_snapshot_inflight r"
  "rf_election_elapsed (append_resp to ok m r) = rf_election_elapsed r"
  "rf_heartbeat_elapsed (append_resp to ok m r) = rf_heartbeat_elapsed r"
  "rf_randomized_election_timeout (append_resp to ok m r) = rf_randomized_election_timeout r"
  "rf_rng (append_resp to ok m r) = rf_rng r"
  "rf_dirty (append_resp to ok m r) = rf_dirty r"
  by (simp_all add: append_resp_def)

lemma snapshot_resp_frame [frames, simp]:
  "rf_id (snapshot_resp to ok m r) = rf_id r"
  "rf_peers (snapshot_resp to ok m r) = rf_peers r"
  "rf_cfg (snapshot_resp to ok m r) = rf_cfg r"
  "rf_current_term (snapshot_resp to ok m r) = rf_current_term r"
  "rf_voted_for (snapshot_resp to ok m r) = rf_voted_for r"
  "rf_log (snapshot_resp to ok m r) = rf_log r"
  "rf_base_index (snapshot_resp to ok m r) = rf_base_index r"
  "rf_base_term (snapshot_resp to ok m r) = rf_base_term r"
  "rf_snapshot (snapshot_resp to ok m r) = rf_snapshot r"
  "rf_role (snapshot_resp to ok m r) = rf_role r"
  "rf_commit_index (snapshot_resp to ok m r) = rf_commit_index r"
  "rf_last_applied (snapshot_resp to ok m r) = rf_last_applied r"
  "rf_leader_id (snapshot_resp to ok m r) = rf_leader_id r"
  "rf_pending_restore (snapshot_resp to ok m r) = rf_pending_restore r"
  "rf_votes (snapshot_resp to ok m r) = rf_votes r"
  "rf_acked_since_check (snapshot_resp to ok m r) = rf_acked_since_check r"
  "rf_next_index (snapshot_resp to ok m r) = rf_next_index r"
  "rf_match_index (snapshot_resp to ok m r) = rf_match_index r"
  "rf_snapshot_inflight (snapshot_resp to ok m r) = rf_snapshot_inflight r"
  "rf_election_elapsed (snapshot_resp to ok m r) = rf_election_elapsed r"
  "rf_heartbeat_elapsed (snapshot_resp to ok m r) = rf_heartbeat_elapsed r"
  "rf_randomized_election_timeout (snapshot_resp to ok m r) = rf_randomized_election_timeout r"
  "rf_rng (snapshot_resp to ok m r) = rf_rng r"
  "rf_dirty (snapshot_resp to ok m r) = rf_dirty r"
  by (simp_all add: snapshot_resp_def)

lemma become_follower_frame [frames, simp]:
  "rf_id (become_follower t leader r) = rf_id r"
  "rf_peers (become_follower t leader r) = rf_peers r"
  "rf_cfg (become_follower t leader r) = rf_cfg r"
  "rf_log (become_follower t leader r) = rf_log r"
  "rf_base_index (become_follower t leader r) = rf_base_index r"
  "rf_base_term (become_follower t leader r) = rf_base_term r"
  "rf_snapshot (become_follower t leader r) = rf_snapshot r"
  "rf_commit_index (become_follower t leader r) = rf_commit_index r"
  "rf_last_applied (become_follower t leader r) = rf_last_applied r"
  "rf_pending_restore (become_follower t leader r) = rf_pending_restore r"
  "rf_acked_since_check (become_follower t leader r) = rf_acked_since_check r"
  "rf_next_index (become_follower t leader r) = rf_next_index r"
  "rf_match_index (become_follower t leader r) = rf_match_index r"
  "rf_heartbeat_elapsed (become_follower t leader r) = rf_heartbeat_elapsed r"
  "rf_out (become_follower t leader r) = rf_out r"
  by (simp_all add: become_follower_def Let_def)

lemma become_follower_sel [simp]:
  "rf_current_term (become_follower t leader r) = max (rf_current_term r) t"
  "rf_voted_for (become_follower t leader r) = (if rf_current_term r < t then None else rf_voted_for r)"
  "rf_dirty (become_follower t leader r) \<longleftrightarrow> rf_current_term r < t \<or> rf_dirty r"
  "rf_role (become_follower t leader r) = Follower"
  "rf_leader_id (become_follower t leader r) = leader"
  "rf_votes (become_follower t leader r) = {}"
  "rf_snapshot_inflight (become_follower t leader r) = Map.empty"
  by (auto simp: become_follower_def Let_def max_def)

lemma become_leader_frame [frames, simp]:
  "rf_id (become_leader r) = rf_id r"
  "rf_peers (become_leader r) = rf_peers r"
  "rf_cfg (become_leader r) = rf_cfg r"
  "rf_current_term (become_leader r) = rf_current_term r"
  "rf_voted_for (become_leader r) = rf_voted_for r"
  "rf_base_index (become_leader r) = rf_base_index r"
  "rf_base_term (become_leader r) = rf_base_term r"
  "rf_snapshot (become_leader r) = rf_snapshot r"
  "rf_commit_index (become_leader r) = rf_commit_index r"
  "rf_last_applied (become_leader r) = rf_last_applied r"
  "rf_pending_restore (become_leader r) = rf_pending_restore r"
  "rf_votes (become_leader r) = rf_votes r"
  by (simp_all add: become_leader_def Let_def)

lemma become_leader_sel [simp]:
  "rf_role (become_leader r) = Leader"
  "rf_leader_id (become_leader r) = Some (rf_id r)"
  "rf_log (become_leader r) = rf_log r @
     [\<lparr>le_term = rf_current_term r, le_index = add64 (last_index r) 1, le_command = None\<rparr>]"
  "rf_dirty (become_leader r)"
  "rf_acked_since_check (become_leader r) = {}"
  "rf_match_index (become_leader r) = map_of (map (\<lambda>p. (p, 0)) (rf_peers r))"
  "rf_next_index (become_leader r) = map_of (map (\<lambda>p. (p, add64 (last_index r) 1)) (rf_peers r))"
  by (simp_all add: become_leader_def Let_def last_index_def)

end
