(* ===== verification/Raft_Invariants.thy ===== *)
theory Raft_Invariants
  imports Raft_Frames
begin

section \<open>Invariants of the consensus engine\<close>

text \<open>
  Well-formedness of one engine (\<open>raft_wf\<close>), that every operation keeps it, and what an operation
  can do to the term, the vote, the commit index and the committed prefix of the log.
\<close>

subsection \<open>Well-formed logs\<close>

definition wf_log :: "nat \<Rightarrow> nat \<Rightarrow> log_entry list \<Rightarrow> nat \<Rightarrow> bool" where
  "wf_log b bt es t \<longleftrightarrow>
     b + length es \<le> u64_max \<and> (\<forall>i < length es. le_index (es ! i) = b + i + 1) \<and>
     sorted (bt # map le_term es) \<and> (\<forall>e \<in> set es. 0 < le_term e \<and> le_term e \<le> t) \<and>
     bt \<le> t \<and> (b = 0 \<longleftrightarrow> bt = 0)"

text \<open>The term at a log index and the entry there, on the slab itself.\<close>

definition slab_term :: "nat \<Rightarrow> nat \<Rightarrow> log_entry list \<Rightarrow> nat \<Rightarrow> nat" where
  "slab_term b bt es i =
     (if i = b then bt else if b < i \<and> i \<le> b + length es then le_term (es ! (i - b - 1)) else 0)"

definition entry_at :: "raft \<Rightarrow> nat \<Rightarrow> log_entry option" where
  "entry_at r i =
     (if rf_base_index r < i \<and> i \<le> rf_base_index r + length (rf_log r)
      then Some (rf_log r ! (i - rf_base_index r - 1)) else None)"

definition last_slab_term :: "nat \<Rightarrow> log_entry list \<Rightarrow> nat" where
  "last_slab_term bt es = (if es = [] then bt else le_term (last es))"

lemma wf_log_mono: "wf_log b bt es t \<Longrightarrow> t \<le> t' \<Longrightarrow> wf_log b bt es t'"
  by (auto simp: wf_log_def)

lemma wf_log_take: "wf_log b bt es t \<Longrightarrow> wf_log b bt (take k es) t"
proof -
  assume wf: "wf_log b bt es t"
  then have "sorted (take (Suc k) (bt # map le_term es))"
    unfolding wf_log_def by (blast intro: sorted_wrt_take)
  then have "sorted (bt # map le_term (take k es))" by (simp add: take_map)
  with wf show ?thesis by (auto simp: wf_log_def dest: in_set_takeD)
qed

lemma sorted_last_le: "sorted (x # xs) \<Longrightarrow> y \<in> set (x # xs) \<Longrightarrow> y \<le> last (x # xs)"
  by (induction xs rule: rev_induct) (auto simp: sorted_append)

lemma last_slab_term_last: "last_slab_term bt es = last (bt # map le_term es)"
  by (simp add: last_slab_term_def last_map)

lemma wf_log_push:
  assumes "wf_log b bt es t" and "le_index e = b + length es + 1" and "b + length es < u64_max"
    and "last_slab_term bt es \<le> le_term e" and "0 < le_term e" and "le_term e \<le> t"
  shows "wf_log b bt (es @ [e]) t"
proof -
  have s: "sorted (bt # map le_term es)" using assms(1) by (simp add: wf_log_def)
  have "x \<le> le_term e" if "x \<in> set (bt # map le_term es)" for x
    using sorted_last_le [OF s that] assms(4) by (simp add: last_slab_term_last)
  then have "sorted ((bt # map le_term es) @ [le_term e])"
    using s unfolding sorted_append by auto
  with assms show ?thesis
    by (auto simp: wf_log_def nth_append less_Suc_eq)
qed

lemma wf_log_drop:
  assumes "wf_log b bt es t" and "0 < k" and "k \<le> length es"
  shows "wf_log (b + k) (le_term (es ! (k - 1))) (drop k es) t"
proof -
  have "drop (k - 1) es = es ! (k - 1) # drop k es"
    using assms(2,3) by (metis Cons_nth_drop_Suc Suc_pred' diff_less less_le_trans zero_less_one)
  moreover have "sorted (map le_term (drop (k - 1) es))"
    using assms(1) by (simp add: wf_log_def sorted_wrt_drop flip: drop_map)
  ultimately have "sorted (le_term (es ! (k - 1)) # map le_term (drop k es))" by simp
  moreover have "es ! (k - 1) \<in> set es" using assms(2,3) by simp
  ultimately show ?thesis
    using assms by (auto simp: wf_log_def dest: in_set_dropD)
qed

lemma last_index_eq: "rf_base_index r + length (rf_log r) \<le> u64_max \<Longrightarrow>
    last_index r = rf_base_index r + length (rf_log r)"
  by (simp add: last_index_def add64_small)

lemma term_at_eq: "rf_base_index r + length (rf_log r) \<le> u64_max \<Longrightarrow>
    term_at r i = slab_term (rf_base_index r) (rf_base_term r) (rf_log r) i"
  by (auto simp: term_at_def slab_term_def log_slot_def last_index_eq)

lemma last_term_eq: "last_term r = last_slab_term (rf_base_term r) (rf_log r)"
  by (simp add: last_term_def last_slab_term_def)

lemma slab_term_last: "slab_term b bt es (b + length es) = last_slab_term bt es"
  by (auto simp: slab_term_def last_slab_term_def last_conv_nth)

lemma slab_term_le: "wf_log b bt es t \<Longrightarrow> slab_term b bt es i \<le> t"
  by (auto simp: slab_term_def wf_log_def)

lemma last_slab_term_le: "wf_log b bt es t \<Longrightarrow> last_slab_term bt es \<le> t"
  using slab_term_le [of b bt es t "b + length es"] by (simp add: slab_term_last)

subsection \<open>Well-formed engines\<close>

definition wf_index :: "nat \<Rightarrow> nat \<Rightarrow> nat \<Rightarrow> nat \<Rightarrow> bool" where
  "wf_index b applied commit top_index \<longleftrightarrow> b \<le> applied \<and> applied \<le> commit \<and> commit \<le> top_index"

definition wf_vote :: "node_id \<Rightarrow> role \<Rightarrow> nat \<Rightarrow> node_id option \<Rightarrow> bool" where
  "wf_vote nid rl t vote \<longleftrightarrow>
     (rl = Candidate \<or> rl = Leader \<longrightarrow> vote = Some nid) \<and> (vote \<noteq> None \<longrightarrow> 0 < t)"

definition wf_leader ::
  "node_id \<Rightarrow> role \<Rightarrow> node_id option \<Rightarrow> (node_id \<rightharpoonup> nat) \<Rightarrow> (node_id \<rightharpoonup> nat) \<Rightarrow> nat \<Rightarrow> nat \<Rightarrow> bool" where
  "wf_leader nid rl leader matched inflight b top_index \<longleftrightarrow>
     (rl = Leader \<longrightarrow> leader = Some nid \<and> (\<forall>m \<in> ran matched. m \<le> top_index) \<and> (\<forall>n \<in> ran inflight. n \<le> b))"

definition raft_wf :: "raft \<Rightarrow> bool" where
  "raft_wf r \<longleftrightarrow>
     wf_log (rf_base_index r) (rf_base_term r) (rf_log r) (rf_current_term r) \<and>
     wf_index (rf_base_index r) (rf_last_applied r) (rf_commit_index r) (rf_base_index r + length (rf_log r)) \<and>
     (0 < rf_base_index r \<longleftrightarrow> rf_snapshot r \<noteq> None) \<and>
     wf_vote (rf_id r) (rf_role r) (rf_current_term r) (rf_voted_for r) \<and>
     wf_leader (rf_id r) (rf_role r) (rf_leader_id r) (rf_match_index r) (rf_snapshot_inflight r)
       (rf_base_index r) (rf_base_index r + length (rf_log r)) \<and>
     set_option (rf_leader_id r) \<subseteq> insert (rf_id r) (set (rf_peers r)) \<and>
     rf_votes r \<subseteq> insert (rf_id r) (set (rf_peers r))"

text \<open>Room for one more term and one more log entry below the \<open>u64\<close> limit.\<close>

definition log_room :: "raft \<Rightarrow> bool" where
  "log_room r \<longleftrightarrow> last_index r < u64_max"

definition has_room :: "raft \<Rightarrow> bool" where
  "has_room r \<longleftrightarrow> rf_current_term r < u64_max \<and> log_room r"

lemma raft_wf_last_index: "raft_wf r \<Longrightarrow> last_index r = rf_base_index r + length (rf_log r)"
  by (rule last_index_eq) (simp add: raft_wf_def wf_log_def)

lemma raft_wf_term_at: "raft_wf r \<Longrightarrow> term_at r i = slab_term (rf_base_index r) (rf_base_term r) (rf_log r) i"
  by (rule term_at_eq) (simp add: raft_wf_def wf_log_def)

lemma log_room_cong:
  assumes "rf_base_index r = rf_base_index q" "rf_log r = rf_log q"
  shows "log_room r \<longleftrightarrow> log_room q"
  using assms by (simp add: log_room_def last_index_def)

text \<open>Sending only appends to the outbox and may note a snapshot at the present base.\<close>

lemma send_append_inflight:
  "rf_snapshot_inflight (send_append p r) = rf_snapshot_inflight r \<or>
   rf_snapshot_inflight (send_append p r) = (rf_snapshot_inflight r)(p \<mapsto> rf_base_index r)"
  by (auto simp: send_append_def send_snapshot_def Let_def split: option.splits)

lemma wf_leader_inflight:
  assumes "wf_leader nid rl leader matched inflight b top_index"
  shows "wf_leader nid rl leader matched (inflight(p \<mapsto> b)) b top_index"
  using assms by (auto simp: wf_leader_def ran_def)

lemma raft_wf_send [simp]: "raft_wf (send to msg r) \<longleftrightarrow> raft_wf r"
  by (simp add: raft_wf_def)

lemma raft_wf_append_resp [simp]: "raft_wf (append_resp to ok m r) \<longleftrightarrow> raft_wf r"
  by (simp add: raft_wf_def)

lemma raft_wf_snapshot_resp [simp]: "raft_wf (snapshot_resp to ok m r) \<longleftrightarrow> raft_wf r"
  by (simp add: raft_wf_def)

lemma raft_wf_send_all [simp]: "raft_wf (send_all msg r) \<longleftrightarrow> raft_wf r"
  by (simp add: raft_wf_def)

lemma raft_wf_reset [simp]: "raft_wf (reset_election_timer r) \<longleftrightarrow> raft_wf r"
  by (simp add: raft_wf_def)

lemma raft_wf_send_append: "raft_wf r \<Longrightarrow> raft_wf (send_append p r)"
  using send_append_inflight [of p r] wf_leader_inflight by (auto simp: raft_wf_def)

lemma raft_wf_broadcast: "raft_wf r \<Longrightarrow> raft_wf (broadcast_append r)"
  unfolding broadcast_append_def by (rule foldl_invariant [of raft_wf]) (auto intro: raft_wf_send_append)

lemma raft_wf_become_follower:
  assumes "raft_wf r" and "set_option leader \<subseteq> insert (rf_id r) (set (rf_peers r))"
  shows "raft_wf (become_follower t leader r)"
  using assms by (auto simp: raft_wf_def wf_vote_def wf_leader_def intro: wf_log_mono)

lemma raft_wf_step_down: "raft_wf r \<Longrightarrow> raft_wf (become_follower t None r)"
  by (rule raft_wf_become_follower) simp_all

subsection \<open>Elections keep the engine well formed\<close>

lemma wf_log_push_current:
  assumes "raft_wf r" and "log_room r" and "0 < rf_current_term r"
  shows "wf_log (rf_base_index r) (rf_base_term r)
    (rf_log r @ [\<lparr>le_term = rf_current_term r, le_index = add64 (last_index r) 1, le_command = c\<rparr>])
    (rf_current_term r)"
proof -
  have "add64 (last_index r) 1 = rf_base_index r + length (rf_log r) + 1"
    using assms(2) raft_wf_last_index [OF assms(1)] by (simp add: log_room_def add64_small)
  then show ?thesis
    using assms raft_wf_last_index [OF assms(1)]
    by (intro wf_log_push) (auto simp: raft_wf_def log_room_def intro: last_slab_term_le)
qed

lemma raft_wf_become_leader:
  assumes "raft_wf r" and "log_room r" and "rf_voted_for r = Some (rf_id r)"
  shows "raft_wf (become_leader r)"
proof -
  have "0 < rf_current_term r" using assms(1,3) by (auto simp: raft_wf_def wf_vote_def)
  note push = wf_log_push_current [OF assms(1,2) this]
  have "\<forall>m \<in> ran (map_of (map (\<lambda>p. (p, 0)) (rf_peers r))). m = 0"
    by (auto simp: ran_def dest: map_of_SomeD)
  then show ?thesis
    using assms(1,3) push unfolding become_leader_def Let_def
    by (intro raft_wf_broadcast)
      (auto simp: raft_wf_def wf_index_def wf_vote_def wf_leader_def last_index_def)
qed

lemma raft_wf_maybe_win_election:
  assumes "raft_wf r" and "log_room r"
  shows "raft_wf (maybe_win_election r)"
proof (cases "rf_role r = Candidate")
  case True
  then have "rf_voted_for r = Some (rf_id r)" using assms(1) by (simp add: raft_wf_def wf_vote_def)
  from raft_wf_become_leader [OF assms this] assms(1) show ?thesis by (simp add: maybe_win_election_def)
qed (use assms in \<open>simp add: maybe_win_election_def\<close>)

text \<open>The candidate and the pre-candidate before they ask for votes.\<close>

definition candidate_of :: "raft \<Rightarrow> raft" where
  "candidate_of r =
     (reset_election_timer (r\<lparr>rf_current_term := add64 (rf_current_term r) 1, rf_voted_for := Some (rf_id r),
        rf_dirty := True, rf_role := Candidate, rf_leader_id := None\<rparr>))\<lparr>rf_votes := {rf_id r}\<rparr>"

definition pre_candidate_of :: "raft \<Rightarrow> raft" where
  "pre_candidate_of r = (reset_election_timer r)\<lparr>rf_role := PreCandidate, rf_votes := {rf_id r}\<rparr>"

lemma start_election_eq:
  "start_election r = maybe_win_election
     (send_all (RequestVote (vote_request (candidate_of r) (rf_current_term (candidate_of r)) False)) (candidate_of r))"
  by (simp add: start_election_def candidate_of_def Let_def)

lemma start_pre_election_eq:
  "start_pre_election r = maybe_win_pre_election
     (send_all (RequestVote (vote_request (pre_candidate_of r) (add64 (rf_current_term r) 1) True)) (pre_candidate_of r))"
  by (simp add: start_pre_election_def pre_candidate_of_def Let_def)

lemma candidate_of_frame [frames, simp]:
  "rf_id (candidate_of r) = rf_id r"
  "rf_peers (candidate_of r) = rf_peers r"
  "rf_cfg (candidate_of r) = rf_cfg r"
  "rf_log (candidate_of r) = rf_log r"
  "rf_base_index (candidate_of r) = rf_base_index r"
  "rf_base_term (candidate_of r) = rf_base_term r"
  "rf_snapshot (candidate_of r) = rf_snapshot r"
  "rf_commit_index (candidate_of r) = rf_commit_index r"
  "rf_last_applied (candidate_of r) = rf_last_applied r"
  "rf_pending_restore (candidate_of r) = rf_pending_restore r"
  "rf_acked_since_check (candidate_of r) = rf_acked_since_check r"
  "rf_next_index (candidate_of r) = rf_next_index r"
  "rf_match_index (candidate_of r) = rf_match_index r"
  "rf_snapshot_inflight (candidate_of r) = rf_snapshot_inflight r"
  "rf_heartbeat_elapsed (candidate_of r) = rf_heartbeat_elapsed r"
  "rf_out (candidate_of r) = rf_out r"
  by (simp_all add: candidate_of_def)

lemma candidate_of_sel [simp]:
  "rf_current_term (candidate_of r) = add64 (rf_current_term r) 1"
  "rf_voted_for (candidate_of r) = Some (rf_id r)"
  "rf_dirty (candidate_of r)"
  "rf_role (candidate_of r) = Candidate"
  "rf_leader_id (candidate_of r) = None"
  "rf_votes (candidate_of r) = {rf_id r}"
  by (simp_all add: candidate_of_def)

lemma pre_candidate_of_frame [frames, simp]:
  "rf_id (pre_candidate_of r) = rf_id r"
  "rf_peers (pre_candidate_of r) = rf_peers r"
  "rf_cfg (pre_candidate_of r) = rf_cfg r"
  "rf_current_term (pre_candidate_of r) = rf_current_term r"
  "rf_voted_for (pre_candidate_of r) = rf_voted_for r"
  "rf_log (pre_candidate_of r) = rf_log r"
  "rf_base_index (pre_candidate_of r) = rf_base_index r"
  "rf_base_term (pre_candidate_of r) = rf_base_term r"
  "rf_snapshot (pre_candidate_of r) = rf_snapshot r"
  "rf_commit_index (pre_candidate_of r) = rf_commit_index r"
  "rf_last_applied (pre_candidate_of r) = rf_last_applied r"
  "rf_leader_id (pre_candidate_of r) = rf_leader_id r"
  "rf_pending_restore (pre_candidate_of r) = rf_pending_restore r"
  "rf_acked_since_check (pre_candidate_of r) = rf_acked_since_check r"
  "rf_next_index (pre_candidate_of r) = rf_next_index r"
  "rf_match_index (pre_candidate_of r) = rf_match_index r"
  "rf_snapshot_inflight (pre_candidate_of r) = rf_snapshot_inflight r"
  "rf_heartbeat_elapsed (pre_candidate_of r) = rf_heartbeat_elapsed r"
  "rf_out (pre_candidate_of r) = rf_out r"
  "rf_dirty (pre_candidate_of r) = rf_dirty r"
  by (simp_all add: pre_candidate_of_def)

lemma pre_candidate_of_sel [simp]:
  "rf_role (pre_candidate_of r) = PreCandidate"
  "rf_votes (pre_candidate_of r) = {rf_id r}"
  by (simp_all add: pre_candidate_of_def)

lemma raft_wf_candidate_of:
  assumes "raft_wf r" and "rf_current_term r < u64_max"
  shows "raft_wf (candidate_of r)"
proof -
  have "add64 (rf_current_term r) 1 = rf_current_term r + 1" using assms(2) by (simp add: add64_small)
  with assms(1) show ?thesis
    by (auto simp: raft_wf_def wf_vote_def wf_leader_def intro: wf_log_mono)
qed

lemma raft_wf_start_election:
  assumes "raft_wf r" and "has_room r"
  shows "raft_wf (start_election r)"
  unfolding start_election_eq using assms
  by (intro raft_wf_maybe_win_election)
    (auto simp: has_room_def raft_wf_candidate_of log_room_def last_index_def)

lemma raft_wf_maybe_win_pre_election:
  assumes "raft_wf r" and "has_room r"
  shows "raft_wf (maybe_win_pre_election r)"
  using assms by (simp add: maybe_win_pre_election_def raft_wf_start_election)

lemma raft_wf_start_pre_election:
  assumes "raft_wf r" and "has_room r"
  shows "raft_wf (start_pre_election r)"
  unfolding start_pre_election_eq using assms
  by (intro raft_wf_maybe_win_pre_election)
    (auto simp: raft_wf_def wf_vote_def wf_leader_def has_room_def log_room_def last_index_def)

lemma raft_wf_timers [simp]:
  "raft_wf (r\<lparr>rf_election_elapsed := n\<rparr>) \<longleftrightarrow> raft_wf r"
  "raft_wf (r\<lparr>rf_heartbeat_elapsed := n\<rparr>) \<longleftrightarrow> raft_wf r"
  "raft_wf (r\<lparr>rf_acked_since_check := s\<rparr>) \<longleftrightarrow> raft_wf r"
  by (simp_all add: raft_wf_def)

lemma has_room_timers [simp]:
  "has_room (r\<lparr>rf_election_elapsed := n\<rparr>) \<longleftrightarrow> has_room r"
  by (simp add: has_room_def log_room_def last_index_def)

lemma raft_wf_tick:
  assumes "raft_wf r" and "has_room r"
  shows "raft_wf (raft_tick r)"
  using assms
  by (auto simp: raft_tick_def Let_def intro!: raft_wf_broadcast raft_wf_step_down raft_wf_start_pre_election)

subsection \<open>Votes\<close>

lemma raft_wf_request_vote:
  assumes "raft_wf r"
  shows "raft_wf (handle_request_vote from_node req r)"
proof -
  have grant: "raft_wf (q\<lparr>rf_voted_for := Some from_node, rf_dirty := True\<rparr>)"
    if "raft_wf q" "rf_voted_for q = None \<or> rf_voted_for q = Some from_node" "0 < rf_current_term q" for q
    using that by (auto simp: raft_wf_def wf_vote_def)
  from assms show ?thesis
    by (auto simp: handle_request_vote_def Let_def intro!: grant raft_wf_step_down)
qed

lemma raft_wf_vote_resp:
  assumes "raft_wf r" and "has_room r" and "from_node \<in> set (rf_peers r)"
  shows "raft_wf (handle_vote_resp from_node resp r)"
proof -
  let ?r = "r\<lparr>rf_votes := insert from_node (rf_votes r)\<rparr>"
  have "raft_wf ?r" "has_room ?r"
    using assms by (auto simp: raft_wf_def has_room_def log_room_def last_index_def)
  with assms(1) show ?thesis
    by (auto simp: handle_vote_resp_def has_room_def
        intro!: raft_wf_step_down raft_wf_maybe_win_pre_election raft_wf_maybe_win_election)
qed

subsection \<open>Replication to a follower\<close>

text \<open>A contiguous run of entries after index \<open>i\<close> whose terms lie between \<open>pt\<close> and \<open>t\<close>.\<close>

fun entry_run :: "nat \<Rightarrow> nat \<Rightarrow> nat \<Rightarrow> log_entry list \<Rightarrow> bool" where
  "entry_run t i pt [] = True"
| "entry_run t i pt (e # es) =
     (le_index e = i + 1 \<and> i + 1 \<le> u64_max \<and> 0 < le_term e \<and> pt \<le> le_term e \<and> le_term e \<le> t \<and>
      entry_run t (i + 1) (le_term e) es)"

lemma contiguous_from_run:
  "contiguous_from req k pt es \<longleftrightarrow> entry_run (ae_term req) (ae_prev_log_index req + k) pt es"
proof (induction es arbitrary: k pt)
  case (Cons e es)
  show ?case
    using Cons.IH [of "Suc k" "le_term e"]
    by (auto simp: checked_add64_def bind_eq_Some_conv split: option.splits)
qed simp

lemma entries_are_contiguous_run:
  "entries_are_contiguous req \<longleftrightarrow>
     0 < ae_term req \<and> (ae_prev_log_index req = 0 \<longleftrightarrow> ae_prev_log_term req = 0) \<and>
     entry_run (ae_term req) (ae_prev_log_index req) (ae_prev_log_term req) (ae_entries req)"
  by (auto simp: entries_are_contiguous_def contiguous_from_run)

text \<open>The loop invariant of the splice: everything up to \<open>c\<close> is there, with term \<open>pt\<close> at \<open>c\<close>.\<close>

definition spliced_upto :: "nat \<Rightarrow> nat \<Rightarrow> raft \<Rightarrow> bool" where
  "spliced_upto c pt r \<longleftrightarrow> c \<le> last_index r \<and> (c = 0 \<or> term_at r c = pt)"

lemma entry_at_base: "entry_at r i = Some e \<Longrightarrow> rf_base_index r < i \<and> i \<le> rf_base_index r + length (rf_log r)"
  by (auto simp: entry_at_def split: if_splits)

lemma term_at_entry:
  "raft_wf r \<Longrightarrow> term_at r i =
     (if i = rf_base_index r then rf_base_term r
      else case entry_at r i of Some e \<Rightarrow> le_term e | None \<Rightarrow> 0)"
  by (simp add: raft_wf_term_at slab_term_def entry_at_def)

lemma push_entry_sel [simp]:
  "rf_log (push_entry e r) = rf_log r @ [e]" "rf_dirty (push_entry e r)"
  by (simp_all add: push_entry_def)

lemma push_entry_frame [frames, simp]:
  "rf_id (push_entry e r) = rf_id r"
  "rf_peers (push_entry e r) = rf_peers r"
  "rf_cfg (push_entry e r) = rf_cfg r"
  "rf_current_term (push_entry e r) = rf_current_term r"
  "rf_voted_for (push_entry e r) = rf_voted_for r"
  "rf_base_index (push_entry e r) = rf_base_index r"
  "rf_base_term (push_entry e r) = rf_base_term r"
  "rf_snapshot (push_entry e r) = rf_snapshot r"
  "rf_role (push_entry e r) = rf_role r"
  "rf_commit_index (push_entry e r) = rf_commit_index r"
  "rf_last_applied (push_entry e r) = rf_last_applied r"
  "rf_leader_id (push_entry e r) = rf_leader_id r"
  "rf_pending_restore (push_entry e r) = rf_pending_restore r"
  "rf_votes (push_entry e r) = rf_votes r"
  "rf_acked_since_check (push_entry e r) = rf_acked_since_check r"
  "rf_next_index (push_entry e r) = rf_next_index r"
  "rf_match_index (push_entry e r) = rf_match_index r"
  "rf_snapshot_inflight (push_entry e r) = rf_snapshot_inflight r"
  "rf_election_elapsed (push_entry e r) = rf_election_elapsed r"
  "rf_heartbeat_elapsed (push_entry e r) = rf_heartbeat_elapsed r"
  "rf_randomized_election_timeout (push_entry e r) = rf_randomized_election_timeout r"
  "rf_rng (push_entry e r) = rf_rng r"
  "rf_out (push_entry e r) = rf_out r"
  by (simp_all add: push_entry_def)

lemma entry_at_push:
  "entry_at (push_entry e r) i =
     (if i = rf_base_index r + length (rf_log r) + 1 then Some e else entry_at r i)"
  by (auto simp: entry_at_def nth_append)

lemma raft_wf_push:
  assumes "raft_wf r" and "rf_role r \<noteq> Leader" and "le_index e = last_index r + 1" and "last_index r < u64_max"
    and "last_term r \<le> le_term e" and "0 < le_term e" and "le_term e \<le> rf_current_term r"
  shows "raft_wf (push_entry e r)" and "last_index (push_entry e r) = last_index r + 1"
proof -
  have len: "last_index r = rf_base_index r + length (rf_log r)" using assms(1) by (rule raft_wf_last_index)
  have "wf_log (rf_base_index r) (rf_base_term r) (rf_log r @ [e]) (rf_current_term r)"
    using assms len by (intro wf_log_push) (auto simp: raft_wf_def last_term_eq)
  then show "raft_wf (push_entry e r)"
    using assms(1,2) by (auto simp: raft_wf_def wf_index_def wf_leader_def)
  then show "last_index (push_entry e r) = last_index r + 1"
    using raft_wf_last_index len by auto
qed

lemma truncate_from_spec:
  assumes "raft_wf r" and "rf_role r \<noteq> Leader" and "rf_commit_index r < i" and "i \<le> last_index r"
  obtains r1 where "truncate_from i r = (True, r1)" "r1 = r\<lparr>rf_log := take (i - rf_base_index r - 1) (rf_log r), rf_dirty := True\<rparr>"
    "raft_wf r1" "last_index r1 = i - 1" "\<And>k. k < i \<Longrightarrow> entry_at r1 k = entry_at r k"
proof -
  let ?r = "r\<lparr>rf_log := take (i - rf_base_index r - 1) (rf_log r), rf_dirty := True\<rparr>"
  have len: "last_index r = rf_base_index r + length (rf_log r)" using assms(1) by (rule raft_wf_last_index)
  have b: "rf_base_index r < i" using assms(1,3) by (simp add: raft_wf_def wf_index_def)
  have wf: "raft_wf ?r"
    using assms len b by (auto simp: raft_wf_def wf_index_def wf_leader_def intro: wf_log_take)
  show ?thesis
  proof (rule that [OF _ refl wf])
    show "truncate_from i r = (True, ?r)"
      using assms(3,4) b by (simp add: truncate_from_def log_slot_def)
    show "last_index ?r = i - 1" using raft_wf_last_index [OF wf] assms(4) len b by simp
    show "entry_at ?r k = entry_at r k" if "k < i" for k
      using that assms(4) len b by (auto simp: entry_at_def)
  qed
qed

lemma last_term_spliced:
  assumes "raft_wf r" and "raft_wf q" and "spliced_upto c pt r" and "last_index q = c"
    and "rf_base_term q = rf_base_term r" "rf_base_index q = rf_base_index r"
    and "\<And>k. k \<le> c \<Longrightarrow> entry_at q k = entry_at r k"
  shows "last_term q \<le> pt"
proof (cases "c = 0")
  case True
  then show ?thesis using assms(2,4) raft_wf_last_index [OF assms(2)]
    by (auto simp: raft_wf_def wf_log_def last_term_def)
next
  case False
  have "last_term q = term_at q c"
    using assms(4) raft_wf_last_index [OF assms(2)] slab_term_last [of "rf_base_index q"]
    by (auto simp: raft_wf_term_at [OF assms(2)] last_term_eq)
  also have "\<dots> = term_at r c" using assms by (simp add: term_at_entry)
  finally show ?thesis using False assms(3) by (simp add: spliced_upto_def)
qed

lemma splice_push:
  assumes "raft_wf r" and q: "raft_wf q" "rf_role q \<noteq> Leader" "last_index q = c"
      "rf_base_term q = rf_base_term r" "rf_base_index q = rf_base_index r"
      "\<And>k. k \<le> c \<Longrightarrow> entry_at q k = entry_at r k"
    and "spliced_upto c pt r"
    and e: "le_index e = c + 1" "c + 1 \<le> u64_max" "0 < le_term e" "pt \<le> le_term e"
      "le_term e \<le> rf_current_term q"
  shows "raft_wf (push_entry e q)" and "spliced_upto (le_index e) (le_term e) (push_entry e q)"
    and "\<And>k. k \<le> c \<Longrightarrow> entry_at (push_entry e q) k = entry_at r k"
proof -
  have "last_term q \<le> pt" using assms(1) q(1) assms(8) q(3-6) by (rule last_term_spliced)
  with e have "last_term q \<le> le_term e" by simp
  then show wf: "raft_wf (push_entry e q)"
    using raft_wf_push(1) [OF q(1,2)] q(3) e by simp
  have len: "rf_base_index q + length (rf_log q) = c" using raft_wf_last_index [OF q(1)] q(3) by simp
  have "last_index (push_entry e q) = c + 1" using raft_wf_last_index [OF wf] len by simp
  moreover have "rf_base_index q < c + 1" using len by simp
  ultimately show "spliced_upto (le_index e) (le_term e) (push_entry e q)"
    using len e(1) by (simp add: spliced_upto_def term_at_entry [OF wf] entry_at_push)
  show "entry_at (push_entry e q) k = entry_at r k" if "k \<le> c" for k
    using that len q(6) by (simp add: entry_at_push)
qed

text \<open>What the splice guarantees: the committed prefix stays, and a full splice has every entry.\<close>

definition splice_result :: "nat \<Rightarrow> log_entry list \<Rightarrow> raft \<Rightarrow> bool \<Rightarrow> nat \<Rightarrow> raft \<Rightarrow> bool" where
  "splice_result c es r ok c' r' \<longleftrightarrow>
    raft_wf r' \<and> c \<le> c' \<and> c' \<le> last_index r' \<and>
    (\<forall>i. i \<le> c \<or> i \<le> rf_commit_index r \<longrightarrow> entry_at r' i = entry_at r i) \<and>
    (\<exists>es' d. r' = r\<lparr>rf_log := es', rf_dirty := d\<rparr> \<and> (rf_dirty r \<longrightarrow> d) \<and> (es' \<noteq> rf_log r \<longrightarrow> d)) \<and>
    (ok \<longrightarrow> c' = c + length es \<and> (\<forall>e \<in> set es. term_at r' (le_index e) = le_term e))"

lemma splice_result_step:
  assumes res: "splice_result (le_index e) es q ok c' r'" and wf: "raft_wf q" and e: "le_index e = c + 1"
    and sp: "spliced_upto (le_index e) (le_term e) q"
    and agree: "\<And>k. k \<le> c \<or> k \<le> rf_commit_index r \<Longrightarrow> entry_at q k = entry_at r k"
    and q: "q = r\<lparr>rf_log := esq, rf_dirty := dq\<rparr>" "rf_dirty r \<longrightarrow> dq" "esq \<noteq> rf_log r \<longrightarrow> dq"
  shows "splice_result c (e # es) r ok c' r'"
proof -
  have "entry_at r' (le_index e) = entry_at q (le_index e)" "rf_base_index r' = rf_base_index q"
      "rf_base_term r' = rf_base_term q" and wf': "raft_wf r'"
    using res by (auto simp: splice_result_def)
  then have "term_at r' (le_index e) = term_at q (le_index e)"
    using wf by (simp add: term_at_entry)
  also have "\<dots> = le_term e" using sp e by (simp add: spliced_upto_def)
  finally have "term_at r' (le_index e) = le_term e" .
  moreover have "\<exists>es' d. r' = r\<lparr>rf_log := es', rf_dirty := d\<rparr> \<and> (rf_dirty r \<longrightarrow> d) \<and> (es' \<noteq> rf_log r \<longrightarrow> d)"
  proof -
    obtain es' d where "r' = q\<lparr>rf_log := es', rf_dirty := d\<rparr>" "rf_dirty q \<longrightarrow> d" "es' \<noteq> rf_log q \<longrightarrow> d"
      using res by (auto simp: splice_result_def)
    with q show ?thesis by (intro exI [of _ es'] exI [of _ d]) auto
  qed
  moreover have "rf_commit_index q = rf_commit_index r" using q(1) by simp
  ultimately show ?thesis
    using res agree e unfolding splice_result_def by auto
qed

lemma splice_spec:
  assumes "splice_entries es c r = (ok, c', r')" and "raft_wf r" and "rf_role r \<noteq> Leader"
    and "entry_run t c pt es" and "t \<le> rf_current_term r" and "spliced_upto c pt r"
  shows "splice_result c es r ok c' r'"
  using assms
proof (induction es c r arbitrary: pt ok c' r' rule: splice_entries.induct)
  case (1 c r)
  then show ?case
    by (auto simp: splice_result_def spliced_upto_def intro!: exI [of _ "rf_log r"] exI [of _ "rf_dirty r"])
next
  case (2 e es c r)
  note wf = "2.prems"(2) and role = "2.prems"(3) and sp = "2.prems"(6)
  have e: "le_index e = c + 1" "c + 1 \<le> u64_max" "0 < le_term e" "pt \<le> le_term e"
    "le_term e \<le> rf_current_term r" and run': "entry_run t (le_index e) (le_term e) es"
    using "2.prems"(4,5) by auto
  have commit: "rf_commit_index r \<le> last_index r"
    using wf raft_wf_last_index [OF wf] by (simp add: raft_wf_def wf_index_def)
  consider (skip) "le_index e \<le> last_index r" "term_at r (le_index e) = le_term e"
    | (refuse) "le_index e \<le> last_index r" "term_at r (le_index e) \<noteq> le_term e" "le_index e \<le> rf_commit_index r"
    | (cut) "le_index e \<le> last_index r" "term_at r (le_index e) \<noteq> le_term e" "rf_commit_index r < le_index e"
    | (grow) "last_index r < le_index e"
    by linarith
  then show ?case
  proof cases
    case skip
    then have "splice_entries es (le_index e) r = (ok, c', r')" using "2.prems"(1) by simp
    moreover have sp': "spliced_upto (le_index e) (le_term e) r" using skip by (simp add: spliced_upto_def)
    ultimately have "splice_result (le_index e) es r ok c' r'"
      using "2.IH"(2) [OF skip(1)] skip(2) wf role run' "2.prems"(5) by simp
    from splice_result_step [OF this wf e(1) sp'] show ?thesis
      by (metis (no_types, lifting) raft.surjective raft.update_convs(6,25) raft.select_convs(6,25))
  next
    case refuse
    then have "ok = False" "c' = c" "r' = r" using "2.prems"(1) by (auto simp: truncate_from_def)
    with wf sp show ?thesis
      by (auto simp: splice_result_def spliced_upto_def intro!: exI [of _ "rf_log r"] exI [of _ "rf_dirty r"])
  next
    case cut
    obtain r1 where r1: "truncate_from (le_index e) r = (True, r1)"
      "r1 = r\<lparr>rf_log := take (le_index e - rf_base_index r - 1) (rf_log r), rf_dirty := True\<rparr>"
      "raft_wf r1" "last_index r1 = le_index e - 1" "\<And>k. k < le_index e \<Longrightarrow> entry_at r1 k = entry_at r k"
      using truncate_from_spec [OF wf role cut(3,1)] by blast
    have push: "raft_wf (push_entry e r1)" "spliced_upto (le_index e) (le_term e) (push_entry e r1)"
      "\<And>k. k \<le> c \<Longrightarrow> entry_at (push_entry e r1) k = entry_at r k"
      using splice_push [OF wf r1(3) _ _ _ _ _ sp e(1-4)] r1 role e by (auto simp: less_Suc_eq_le)
    have "splice_entries es (le_index e) (push_entry e r1) = (ok, c', r')"
      using "2.prems"(1) cut(1,2) r1(1) by simp
    then have res: "splice_result (le_index e) es (push_entry e r1) ok c' r'"
      using "2.IH"(1) [OF cut(1,2) r1(1) [symmetric] refl] push r1(2) role run' "2.prems"(5) by simp
    have eq: "push_entry e r1 = r\<lparr>rf_log := rf_log r1 @ [e], rf_dirty := True\<rparr>"
      using r1(2) by (simp add: push_entry_def)
    have "entry_at (push_entry e r1) k = entry_at r k" if "k \<le> c \<or> k \<le> rf_commit_index r" for k
      using that push(3) cut(3) e(1) by (metis Suc_eq_plus1 less_Suc_eq_le order.trans)
    from splice_result_step [OF res push(1) e(1) push(2) this eq] show ?thesis by simp
  next
    case grow
    with sp e(1) have c: "last_index r = c" by (simp add: spliced_upto_def)
    have push: "raft_wf (push_entry e r)" "spliced_upto (le_index e) (le_term e) (push_entry e r)"
      "\<And>k. k \<le> c \<Longrightarrow> entry_at (push_entry e r) k = entry_at r k"
      using splice_push [OF wf wf role c _ _ _ sp e(1-4)] e(5) by auto
    have "splice_entries es (le_index e) (push_entry e r) = (ok, c', r')" using "2.prems"(1) grow by simp
    then have res: "splice_result (le_index e) es (push_entry e r) ok c' r'"
      using "2.IH"(3) grow push role run' "2.prems"(5) by simp
    have "entry_at (push_entry e r) k = entry_at r k" if "k \<le> c \<or> k \<le> rf_commit_index r" for k
      using that push(3) commit c by auto
    from splice_result_step [OF res push(1) e(1) push(2) this push_entry_def] show ?thesis by simp
  qed
qed

text \<open>The last stage of \<open>handle_append\<close> and the whole handler.\<close>

definition same_committed :: "raft \<Rightarrow> raft \<Rightarrow> bool" where
  "same_committed r r' \<longleftrightarrow>
     rf_commit_index r \<le> rf_commit_index r' \<and> rf_base_index r \<le> rf_base_index r' \<and>
     (\<forall>i \<le> rf_commit_index r. rf_base_index r' < i \<longrightarrow> entry_at r' i = entry_at r i)"

lemma same_committed_refl:
  assumes "rf_commit_index r' = rf_commit_index r" "rf_base_index r' = rf_base_index r" "rf_log r' = rf_log r"
  shows "same_committed r r'"
  using assms by (simp add: same_committed_def entry_at_def)

lemma same_committed_trans:
  assumes "same_committed r s" and "same_committed s t"
  shows "same_committed r t"
  unfolding same_committed_def
proof (intro conjI allI impI)
  fix i assume "i \<le> rf_commit_index r" "rf_base_index t < i"
  moreover from this have "rf_base_index s < i" "i \<le> rf_commit_index s"
    using assms by (auto simp: same_committed_def)
  ultimately show "entry_at t i = entry_at r i" using assms by (simp add: same_committed_def)
qed (use assms in \<open>auto simp: same_committed_def\<close>)

definition accept_entries :: "node_id \<Rightarrow> append_entries_req \<Rightarrow> raft \<Rightarrow> raft" where
  "accept_entries from_node req r =
     (let (spliced, confirmed, r) = splice_entries (ae_entries req) (ae_prev_log_index req) r;
          commit = min (ae_leader_commit req) confirmed;
          r = (if spliced \<and> rf_commit_index r < commit
               then r\<lparr>rf_commit_index := commit, rf_dirty := True\<rparr> else r)
      in append_resp from_node spliced confirmed r)"

definition adopt_term :: "nat \<Rightarrow> raft \<Rightarrow> raft" where
  "adopt_term t r = (if rf_current_term r < t then become_follower t None r else r)"

lemma adopt_term_frame [frames, simp]:
  "rf_id (adopt_term t r) = rf_id r"
  "rf_peers (adopt_term t r) = rf_peers r"
  "rf_cfg (adopt_term t r) = rf_cfg r"
  "rf_log (adopt_term t r) = rf_log r"
  "rf_base_index (adopt_term t r) = rf_base_index r"
  "rf_base_term (adopt_term t r) = rf_base_term r"
  "rf_snapshot (adopt_term t r) = rf_snapshot r"
  "rf_commit_index (adopt_term t r) = rf_commit_index r"
  "rf_last_applied (adopt_term t r) = rf_last_applied r"
  "rf_pending_restore (adopt_term t r) = rf_pending_restore r"
  "rf_acked_since_check (adopt_term t r) = rf_acked_since_check r"
  "rf_next_index (adopt_term t r) = rf_next_index r"
  "rf_match_index (adopt_term t r) = rf_match_index r"
  "rf_heartbeat_elapsed (adopt_term t r) = rf_heartbeat_elapsed r"
  "rf_out (adopt_term t r) = rf_out r"
  by (simp_all add: adopt_term_def)

lemma adopt_term_sel [simp]:
  "rf_current_term (adopt_term t r) = max (rf_current_term r) t"
  "rf_voted_for (adopt_term t r) = (if rf_current_term r < t then None else rf_voted_for r)"
  "rf_dirty (adopt_term t r) \<longleftrightarrow> rf_current_term r < t \<or> rf_dirty r"
  by (auto simp: adopt_term_def max_def)

lemma handle_append_eq:
  "handle_append from_node req r =
     (let q = adopt_term (ae_term req) r; q' = become_follower (ae_term req) (Some from_node) q in
      if ae_term req < rf_current_term r then append_resp from_node False 0 r
      else if \<not> entries_are_contiguous req then append_resp from_node False (last_index q) q
      else if last_index q' < ae_prev_log_index req then append_resp from_node False (last_index q') q'
      else if 0 < ae_prev_log_index req \<and> term_at q' (ae_prev_log_index req) \<noteq> ae_prev_log_term req
        then append_resp from_node False (sat_sub (ae_prev_log_index req) 1) q'
      else accept_entries from_node req q')"
  by (simp add: handle_append_def accept_entries_def adopt_term_def Let_def)

lemma entry_at_frame [frames, simp]:
  "entry_at (r\<lparr>rf_commit_index := c\<rparr>) i = entry_at r i"
  "entry_at (r\<lparr>rf_dirty := d\<rparr>) i = entry_at r i"
  "entry_at (append_resp to ok m r) i = entry_at r i"
  by (simp_all add: entry_at_def)

lemma raft_wf_adopt_term: "raft_wf r \<Longrightarrow> raft_wf (adopt_term t r)"
  by (simp add: adopt_term_def raft_wf_step_down)

lemma accept_entries_spec:
  assumes "raft_wf q" and "rf_role q \<noteq> Leader" and "entries_are_contiguous req"
    and "ae_term req \<le> rf_current_term q" and "ae_prev_log_index req \<le> last_index q"
    and "\<not> (0 < ae_prev_log_index req \<and> term_at q (ae_prev_log_index req) \<noteq> ae_prev_log_term req)"
  shows "raft_wf (accept_entries from_node req q)" and "same_committed q (accept_entries from_node req q)"
proof -
  obtain ok c r where s: "splice_entries (ae_entries req) (ae_prev_log_index req) q = (ok, c, r)"
    by (metis prod_cases3)
  have "spliced_upto (ae_prev_log_index req) (ae_prev_log_term req) q"
    using assms(5,6) by (auto simp: spliced_upto_def)
  then have res: "splice_result (ae_prev_log_index req) (ae_entries req) q ok c r"
    using assms by (intro splice_spec [OF s assms(1,2)]) (auto simp: entries_are_contiguous_run)
  then have wf: "raft_wf r" and c: "c \<le> last_index r" by (simp_all add: splice_result_def)
  have r: "rf_commit_index r = rf_commit_index q" "rf_base_index r = rf_base_index q"
    using res by (auto simp: splice_result_def)
  have "\<And>i. i \<le> rf_commit_index q \<Longrightarrow> entry_at r i = entry_at q i"
    using res by (auto simp: splice_result_def)
  with r show "same_committed q (accept_entries from_node req q)"
    by (auto simp: accept_entries_def s Let_def same_committed_def)
  show "raft_wf (accept_entries from_node req q)"
    using wf c raft_wf_last_index [OF wf]
    by (auto simp: accept_entries_def s Let_def raft_wf_def wf_index_def)
qed

lemma same_committed_resp [simp]:
  "same_committed r (append_resp to ok m q) \<longleftrightarrow> same_committed r q"
  "same_committed r (snapshot_resp to ok m q) \<longleftrightarrow> same_committed r q"
  "same_committed r (send to msg q) \<longleftrightarrow> same_committed r q"
  "same_committed r (become_follower t l q) \<longleftrightarrow> same_committed r q"
  "same_committed (become_follower t l r) q \<longleftrightarrow> same_committed r q"
  "same_committed r (reset_election_timer q) \<longleftrightarrow> same_committed r q"
  "same_committed r (broadcast_append q) \<longleftrightarrow> same_committed r q"
  "same_committed r (send_append p q) \<longleftrightarrow> same_committed r q"
  "same_committed r (send_all msg q) \<longleftrightarrow> same_committed r q"
  by (simp_all add: same_committed_def entry_at_def)

lemma same_committed_adopt [simp]:
  "same_committed r (adopt_term t q) \<longleftrightarrow> same_committed r q"
  "same_committed (adopt_term t r) q \<longleftrightarrow> same_committed r q"
  by (simp_all add: adopt_term_def)

lemma same_committed_self [simp]: "same_committed r r"
  by (rule same_committed_refl) simp_all

lemma handle_append_ok:
  assumes "raft_wf r" and "from_node \<in> set (rf_peers r)"
  shows "raft_wf (handle_append from_node req r)" and "same_committed r (handle_append from_node req r)"
proof -
  let ?q = "become_follower (ae_term req) (Some from_node) (adopt_term (ae_term req) r)"
  have wf: "raft_wf (adopt_term (ae_term req) r)" using assms(1) by (rule raft_wf_adopt_term)
  have wf': "raft_wf ?q" using wf assms(2) by (intro raft_wf_become_follower) simp_all
  have acc: "raft_wf (accept_entries from_node req ?q) \<and> same_committed ?q (accept_entries from_node req ?q)"
    if "entries_are_contiguous req" "\<not> last_index ?q < ae_prev_log_index req"
      "\<not> (0 < ae_prev_log_index req \<and> term_at ?q (ae_prev_log_index req) \<noteq> ae_prev_log_term req)"
    using accept_entries_spec [OF wf' _ that(1) _ _ that(3)] that(2) by simp
  show "raft_wf (handle_append from_node req r)"
    unfolding handle_append_eq Let_def using assms(1) wf wf' acc by (simp split: if_split)
  show "same_committed r (handle_append from_node req r)"
    unfolding handle_append_eq Let_def using acc by (simp split: if_split)
qed

subsection \<open>The leader's bookkeeping\<close>

text \<open>A commit index that the leader may advance to: its own term, on a quorum of members.\<close>

definition committable :: "raft \<Rightarrow> nat \<Rightarrow> bool" where
  "committable r n \<longleftrightarrow>
     rf_commit_index r < n \<and> n \<le> last_index r \<and> term_at r n = rf_current_term r \<and>
     quorum r \<le> replicas_at r n"

lemma maybe_advance_commit_cases:
  assumes "raft_wf r"
  obtains (same) "maybe_advance_commit r = (False, r)"
  | (advance) n where "maybe_advance_commit r = (True, r\<lparr>rf_commit_index := n, rf_dirty := True\<rparr>)" "committable r n"
proof -
  let ?f = "\<lambda>nc n. if term_at r n \<noteq> rf_current_term r then nc
            else if quorum r \<le> replicas_at r n then n else nc"
  let ?l = "[add64 (rf_commit_index r) 1..<Suc (last_index r)]"
  define ok where "ok nc \<longleftrightarrow> nc = rf_commit_index r \<or>
    (nc \<in> set ?l \<and> term_at r nc = rf_current_term r \<and> quorum r \<le> replicas_at r nc)" for nc
  define n where "n = foldl ?f (rf_commit_index r) ?l"
  have ok: "ok n"
    unfolding n_def by (rule foldl_invariant [of ok]) (auto simp: ok_def)
  have eq: "maybe_advance_commit r =
      (if rf_commit_index r < n then (True, r\<lparr>rf_commit_index := n, rf_dirty := True\<rparr>) else (False, r))"
    unfolding maybe_advance_commit_def Let_def n_def ..
  show ?thesis
  proof (cases "rf_commit_index r < n")
    case True
    with ok have "committable r n" by (auto simp: ok_def committable_def)
    with True eq show ?thesis by (intro advance) simp_all
  qed (use eq same in simp)
qed

lemma raft_wf_commit:
  assumes "raft_wf r" and "committable r n"
  shows "raft_wf (r\<lparr>rf_commit_index := n, rf_dirty := True\<rparr>)"
    and "same_committed r (r\<lparr>rf_commit_index := n, rf_dirty := True\<rparr>)"
  using assms raft_wf_last_index [OF assms(1)]
  by (auto simp: raft_wf_def wf_index_def committable_def same_committed_def)

lemma maybe_advance_commit_ok:
  assumes "raft_wf r"
  shows "raft_wf (snd (maybe_advance_commit r))" and "same_committed r (snd (maybe_advance_commit r))"
  using assms raft_wf_commit [OF assms]
  by (cases rule: maybe_advance_commit_cases [OF assms]; simp)+

lemma record_match_cases:
  assumes "raft_wf r" and "acked \<le> last_index r"
  obtains q where "raft_wf q" "rf_commit_index q = rf_commit_index r" "same_committed r q"
    "record_match from_node acked r =
      (if fst (maybe_advance_commit q) then broadcast_append (snd (maybe_advance_commit q))
       else snd (maybe_advance_commit q))"
proof -
  define m where "m = max acked (case rf_match_index r from_node of Some m \<Rightarrow> m | None \<Rightarrow> 0)"
  define q where "q = r\<lparr>rf_match_index := (rf_match_index r)(from_node \<mapsto> m),
      rf_next_index := (rf_next_index r)(from_node \<mapsto> sat_add64 m 1)\<rparr>"
  have "rf_role r = Leader \<Longrightarrow> m \<le> last_index r"
    using assms raft_wf_last_index [OF assms(1)]
    by (auto simp: m_def raft_wf_def wf_leader_def ranI split: option.splits)
  then have wf: "raft_wf q"
    using assms(1) raft_wf_last_index [OF assms(1)]
    by (auto simp: q_def raft_wf_def wf_leader_def ran_def)
  have "same_committed r q" by (rule same_committed_refl) (simp_all add: q_def)
  with wf show ?thesis
    by (intro that [of q]) (simp_all add: record_match_def Let_def m_def q_def case_prod_beta)
qed

lemma record_match_ok:
  assumes "raft_wf r" and "acked \<le> last_index r"
  shows "raft_wf (record_match from_node acked r)" and "same_committed r (record_match from_node acked r)"
proof -
  obtain q where q: "raft_wf q" "same_committed r q" and eq: "record_match from_node acked r =
      (if fst (maybe_advance_commit q) then broadcast_append (snd (maybe_advance_commit q))
       else snd (maybe_advance_commit q))"
    using record_match_cases [OF assms] by metis
  have same: "same_committed r (snd (maybe_advance_commit q))"
    using q(2) maybe_advance_commit_ok(2) [OF q(1)] by (rule same_committed_trans)
  show "raft_wf (record_match from_node acked r)"
    unfolding eq using maybe_advance_commit_ok(1) [OF q(1)] raft_wf_broadcast by simp
  show "same_committed r (record_match from_node acked r)"
    unfolding eq using same by simp
qed

lemma handle_append_resp_ok:
  assumes "raft_wf r"
  shows "raft_wf (handle_append_resp from_node resp r)" and "same_committed r (handle_append_resp from_node resp r)"
proof -
  let ?r = "r\<lparr>rf_acked_since_check := insert from_node (rf_acked_since_check r)\<rparr>"
  have wf: "raft_wf ?r" using assms by simp
  have next_wf: "raft_wf (q\<lparr>rf_next_index := n\<rparr>) \<longleftrightarrow> raft_wf q" for q n by (simp add: raft_wf_def)
  have same: "same_committed r ?r" by (rule same_committed_refl) simp_all
  note rm = record_match_ok [OF wf min.cobounded2, of from_node "aer_match_index resp"]
  show "raft_wf (handle_append_resp from_node resp r)"
    using assms wf rm(1)
    by (auto simp: handle_append_resp_def Let_def next_wf intro!: raft_wf_step_down raft_wf_send_append)
  show "same_committed r (handle_append_resp from_node resp r)"
    using same_committed_trans [OF same rm(2)]
    by (auto simp: handle_append_resp_def Let_def intro!: same_committed_refl)
qed

lemma install_snapshot_resp_ok:
  assumes "raft_wf r"
  shows "raft_wf (handle_install_snapshot_resp from_node resp r)"
    and "same_committed r (handle_install_snapshot_resp from_node resp r)"
proof -
  let ?r = "r\<lparr>rf_acked_since_check := insert from_node (rf_acked_since_check r)\<rparr>"
  let ?q = "?r\<lparr>rf_snapshot_inflight := (rf_snapshot_inflight r)(from_node := None)\<rparr>"
  let ?sent = "case rf_snapshot_inflight r from_node of Some n \<Rightarrow> n | None \<Rightarrow> 0"
  have wf: "raft_wf ?r" "raft_wf ?q"
    using assms by (auto simp: raft_wf_def wf_leader_def ran_def)
  have same: "same_committed r ?r" "same_committed r ?q" by (rule same_committed_refl; simp)+
  have sent: "min (isr_last_included_index resp) ?sent \<le> last_index ?q" if "rf_role r = Leader"
  proof -
    have "?sent \<le> rf_base_index r"
      using assms that by (auto simp: raft_wf_def wf_leader_def ranI split: option.splits)
    with raft_wf_last_index [OF wf(2)] show ?thesis by simp
  qed
  show "raft_wf (handle_install_snapshot_resp from_node resp r)"
    using assms wf record_match_ok(1) [OF wf(2) sent]
    by (auto simp: handle_install_snapshot_resp_def Let_def intro!: raft_wf_step_down)
  show "same_committed r (handle_install_snapshot_resp from_node resp r)"
    using same same_committed_trans [OF same(2) record_match_ok(2) [OF wf(2) sent]]
    by (auto simp: handle_install_snapshot_resp_def Let_def)
qed

subsection \<open>Snapshots\<close>

lemma raft_wf_install:
  assumes "raft_wf r" and "snapshot_metadata_is_valid req" and "is_last_included_index req \<le> u64_max"
    and "rf_base_index r < is_last_included_index req" and "rf_commit_index r < is_last_included_index req"
    and "is_last_included_term req \<le> rf_current_term r" and "rf_role r \<noteq> Leader"
  shows "raft_wf (install_snapshot req r)" and "same_committed r (install_snapshot req r)"
proof -
  let ?i = "is_last_included_index req" and ?b = "rf_base_index r"
  have len: "last_index r = ?b + length (rf_log r)" using assms(1) by (rule raft_wf_last_index)
  have log: "wf_log ?i (is_last_included_term req) (rf_log (install_snapshot req r)) (rf_current_term r)"
  proof (cases "term_at r ?i = is_last_included_term req \<and> ?i \<le> last_index r")
    case True
    have "wf_log (?b + (?i - ?b)) (le_term (rf_log r ! (?i - ?b - 1))) (drop (?i - ?b) (rf_log r)) (rf_current_term r)"
      using assms(1,4) True len by (intro wf_log_drop) (auto simp: raft_wf_def)
    moreover have "le_term (rf_log r ! (?i - ?b - 1)) = is_last_included_term req"
      using True assms(4) len by (auto simp: raft_wf_term_at [OF assms(1)] slab_term_def)
    ultimately show ?thesis using True assms(4) by (simp add: install_snapshot_def Let_def)
  next
    case False
    with assms(2,3,6) show ?thesis
      by (auto simp: install_snapshot_def Let_def wf_log_def snapshot_metadata_is_valid_def)
  qed
  then show "raft_wf (install_snapshot req r)"
    using assms by (auto simp: install_snapshot_def Let_def raft_wf_def wf_index_def wf_vote_def wf_leader_def)
  show "same_committed r (install_snapshot req r)"
    using assms(4,5) by (auto simp: install_snapshot_def Let_def same_committed_def)
qed

lemma handle_install_snapshot_eq:
  "handle_install_snapshot from_node req r =
     (let q = adopt_term (is_term req) r; q' = become_follower (is_term req) (Some from_node) q in
      if is_term req < rf_current_term r then snapshot_resp from_node False 0 r
      else if \<not> snapshot_metadata_is_valid req then snapshot_resp from_node False 0 q
      else if is_last_included_index req \<le> rf_base_index r \<or> is_last_included_index req \<le> rf_commit_index r
        then snapshot_resp from_node True (is_last_included_index req) q'
      else snapshot_resp from_node True (rf_base_index (install_snapshot req q')) (install_snapshot req q'))"
  by (simp add: handle_install_snapshot_def adopt_term_def Let_def)

lemma handle_install_snapshot_ok:
  assumes "raft_wf r" and "from_node \<in> set (rf_peers r)" and "is_last_included_index req \<le> u64_max"
  shows "raft_wf (handle_install_snapshot from_node req r)"
    and "same_committed r (handle_install_snapshot from_node req r)"
proof -
  let ?q = "become_follower (is_term req) (Some from_node) (adopt_term (is_term req) r)"
  have wf: "raft_wf (adopt_term (is_term req) r)" using assms(1) by (rule raft_wf_adopt_term)
  have wf': "raft_wf ?q" using wf assms(2) by (intro raft_wf_become_follower) simp_all
  have inst: "raft_wf (install_snapshot req ?q) \<and> same_committed ?q (install_snapshot req ?q)"
    if "snapshot_metadata_is_valid req" "rf_base_index r < is_last_included_index req"
      "rf_commit_index r < is_last_included_index req"
  proof -
    have "is_last_included_term req \<le> rf_current_term ?q"
      using that(1) by (auto simp: snapshot_metadata_is_valid_def)
    with raft_wf_install [OF wf' that(1) assms(3)] that show ?thesis by simp
  qed
  show "raft_wf (handle_install_snapshot from_node req r)"
    unfolding handle_install_snapshot_eq Let_def using assms(1) wf wf' inst by (simp split: if_split)
  show "same_committed r (handle_install_snapshot from_node req r)"
    unfolding handle_install_snapshot_eq Let_def using inst by (simp split: if_split)
qed

lemma compact_ok:
  assumes "raft_wf r" and "index \<le> rf_last_applied r"
  shows "raft_wf (compact index data r)" and "same_committed r (compact index data r)"
proof -
  let ?b = "rf_base_index r" and ?es = "rf_log r"
  have "raft_wf (compact index data r) \<and> same_committed r (compact index data r)"
  proof (cases "index \<le> ?b \<or> rf_commit_index r < index")
    case True
    with assms(1) show ?thesis by (simp add: compact_def)
  next
    case False
    have len: "index \<le> ?b + length ?es" using assms(1) False by (auto simp: raft_wf_def wf_index_def)
    have "wf_log (?b + (index - ?b)) (le_term (?es ! (index - ?b - 1))) (drop (index - ?b) ?es) (rf_current_term r)"
      using assms(1) False len by (intro wf_log_drop) (auto simp: raft_wf_def)
    moreover have "term_at r index = le_term (?es ! (index - ?b - 1))"
      using False len by (auto simp: raft_wf_term_at [OF assms(1)] slab_term_def)
    moreover have "entry_at (compact index data r) i = entry_at r i" if "index < i" for i
      using False len that by (auto simp: compact_def Let_def entry_at_def add.commute)
    ultimately show ?thesis
      using assms False len
      by (auto simp: compact_def Let_def raft_wf_def wf_index_def wf_leader_def same_committed_def)
  qed
  then show "raft_wf (compact index data r)" and "same_committed r (compact index data r)" by simp_all
qed

subsection \<open>Operations of the engine\<close>

lemma same_committed_grow:
  assumes "raft_wf r" and "rf_commit_index r' = rf_commit_index r" and "rf_base_index r' = rf_base_index r"
    and "rf_log r' = rf_log r @ es"
  shows "same_committed r r'"
  using assms by (auto simp: same_committed_def entry_at_def nth_append raft_wf_def wf_index_def)

lemma become_leader_committed: "raft_wf r \<Longrightarrow> same_committed r (become_leader r)"
  by (rule same_committed_grow) simp_all

lemma maybe_win_election_committed: "raft_wf r \<Longrightarrow> same_committed r (maybe_win_election r)"
  by (simp add: maybe_win_election_def become_leader_committed)

lemma start_election_committed:
  assumes "raft_wf r" and "rf_current_term r < u64_max"
  shows "same_committed r (start_election r)"
proof -
  have "same_committed r (send_all (RequestVote (vote_request (candidate_of r) (rf_current_term (candidate_of r)) False)) (candidate_of r))"
    by (rule same_committed_refl) simp_all
  moreover have "raft_wf (send_all (RequestVote (vote_request (candidate_of r) (rf_current_term (candidate_of r)) False)) (candidate_of r))"
    using raft_wf_candidate_of [OF assms] by simp
  ultimately show ?thesis
    unfolding start_election_eq using maybe_win_election_committed same_committed_trans by blast
qed

lemma maybe_win_pre_election_committed:
  "raft_wf r \<Longrightarrow> rf_current_term r < u64_max \<Longrightarrow> same_committed r (maybe_win_pre_election r)"
  by (simp add: maybe_win_pre_election_def start_election_committed)

lemma raft_wf_pre_candidate_of: "raft_wf r \<Longrightarrow> raft_wf (pre_candidate_of r)"
  by (auto simp: raft_wf_def wf_vote_def wf_leader_def)

lemma start_pre_election_committed:
  assumes "raft_wf r" and "rf_current_term r < u64_max"
  shows "same_committed r (start_pre_election r)"
proof -
  let ?q = "send_all (RequestVote (vote_request (pre_candidate_of r) (add64 (rf_current_term r) 1) True)) (pre_candidate_of r)"
  have "same_committed r ?q" by (rule same_committed_refl) simp_all
  moreover have "same_committed ?q (maybe_win_pre_election ?q)"
    using assms by (intro maybe_win_pre_election_committed) (simp_all add: raft_wf_pre_candidate_of)
  ultimately show ?thesis unfolding start_pre_election_eq by (rule same_committed_trans)
qed

lemma tick_committed:
  assumes "raft_wf r" and "rf_current_term r < u64_max"
  shows "same_committed r (raft_tick r)"
proof (cases "rf_role r = Leader")
  case True
  then show ?thesis by (auto simp: raft_tick_def Let_def intro!: same_committed_refl)
next
  case False
  let ?q = "r\<lparr>rf_election_elapsed := add64 (rf_election_elapsed r) 1\<rparr>"
  have "same_committed r ?q" by (rule same_committed_refl) simp_all
  moreover have "same_committed ?q (start_pre_election ?q)"
    using assms by (intro start_pre_election_committed) simp_all
  ultimately show ?thesis
    using False same_committed_trans by (auto simp: raft_tick_def Let_def)
qed

lemma request_vote_committed: "same_committed r (handle_request_vote from_node req r)"
  by (rule same_committed_refl) (auto simp: handle_request_vote_def Let_def)

lemma vote_resp_committed:
  assumes "raft_wf r" and "rf_current_term r < u64_max" and "from_node \<in> set (rf_peers r)"
  shows "same_committed r (handle_vote_resp from_node resp r)"
proof -
  let ?q = "r\<lparr>rf_votes := insert from_node (rf_votes r)\<rparr>"
  have wf: "raft_wf ?q" using assms by (auto simp: raft_wf_def)
  have "same_committed r ?q" by (rule same_committed_refl) simp_all
  then have "same_committed r (maybe_win_pre_election ?q)" "same_committed r (maybe_win_election ?q)"
    using maybe_win_pre_election_committed [OF wf] maybe_win_election_committed [OF wf] assms(2)
    by (auto intro: same_committed_trans)
  then show ?thesis by (auto simp: handle_vote_resp_def)
qed

lemma propose_ok:
  assumes "raft_wf r" and "log_room r"
  shows "raft_wf (snd (raft_propose cmd r))" and "same_committed r (snd (raft_propose cmd r))"
proof -
  let ?e = "\<lparr>le_term = rf_current_term r, le_index = add64 (last_index r) 1, le_command = Some cmd\<rparr>"
  let ?q = "push_entry ?e r"
  have "raft_wf ?q \<and> same_committed r ?q" if "rf_role r = Leader"
  proof -
    have "0 < rf_current_term r" using assms(1) that by (auto simp: raft_wf_def wf_vote_def)
    from wf_log_push_current [OF assms this] assms(1) show ?thesis
      by (auto simp: raft_wf_def wf_index_def wf_leader_def intro: same_committed_grow)
  qed
  moreover have "same_committed r (snd (maybe_advance_commit ?q))" if "raft_wf ?q" "same_committed r ?q"
    using that(2) maybe_advance_commit_ok(2) [OF that(1)] by (rule same_committed_trans)
  ultimately show "raft_wf (snd (raft_propose cmd r))" and "same_committed r (snd (raft_propose cmd r))"
    using assms(1) maybe_advance_commit_ok(1) [of ?q] raft_wf_broadcast
    by (auto simp: raft_propose_def Let_def case_prod_beta)
qed

lemma ready_ok:
  assumes "raft_wf r"
  shows "raft_wf (snd (raft_ready r))" and "same_committed r (snd (raft_ready r))"
proof -
  show "raft_wf (snd (raft_ready r))"
    using assms by (auto simp: raft_ready_def Let_def raft_wf_def wf_index_def)
  show "same_committed r (snd (raft_ready r))"
    by (rule same_committed_refl) (simp_all add: raft_ready_def Let_def)
qed

datatype raft_op =
    Tick
  | Step node_id raft_message
  | Propose command
  | Compact nat bytes
  | Drain_Ready

fun apply_raft_op :: "raft_op \<Rightarrow> raft \<Rightarrow> raft" where
  "apply_raft_op Tick r = raft_tick r"
| "apply_raft_op (Step from_node msg) r = raft_step from_node msg r"
| "apply_raft_op (Propose cmd) r = snd (raft_propose cmd r)"
| "apply_raft_op (Compact i data) r = compact i data r"
| "apply_raft_op Drain_Ready r = snd (raft_ready r)"

text \<open>
  When an operation is admissible: the counters have room, a snapshot index of the wire fits its
  \<open>u64\<close>, and the driver compacts no further than it applied.
\<close>

fun op_ok :: "raft_op \<Rightarrow> raft \<Rightarrow> bool" where
  "op_ok (Step from_node (InstallSnapshot req)) r \<longleftrightarrow> has_room r \<and> is_last_included_index req \<le> u64_max"
| "op_ok (Compact i data) r \<longleftrightarrow> has_room r \<and> i \<le> rf_last_applied r"
| "op_ok op r \<longleftrightarrow> has_room r"

lemma op_ok_room: "op_ok op r \<Longrightarrow> has_room r"
  by (induction op r rule: op_ok.induct) auto

lemma step_ok:
  assumes "raft_wf r" and "op_ok (Step from_node msg) r"
  shows "raft_wf (raft_step from_node msg r) \<and> same_committed r (raft_step from_node msg r)"
proof (cases "from_node \<in> set (rf_peers r) \<and> body_identity_matches from_node msg")
  case True
  have room: "has_room r" using assms(2) by (rule op_ok_room)
  then have t: "rf_current_term r < u64_max" by (simp add: has_room_def)
  from True have p: "from_node \<in> set (rf_peers r)" by simp
  show ?thesis
    using True assms(2) raft_wf_request_vote [OF assms(1)] request_vote_committed
      raft_wf_vote_resp [OF assms(1) room p] vote_resp_committed [OF assms(1) t p]
      handle_append_ok [OF assms(1) p] handle_append_resp_ok [OF assms(1)]
      handle_install_snapshot_ok [OF assms(1) p] install_snapshot_resp_ok [OF assms(1)]
    by (cases msg) (simp_all add: raft_step_def)
qed (use assms in \<open>auto simp: raft_step_def\<close>)

lemma raft_op_ok:
  assumes "raft_wf r" and "op_ok op r"
  shows "raft_wf (apply_raft_op op r) \<and> same_committed r (apply_raft_op op r)"
proof -
  have room: "has_room r" using assms(2) by (rule op_ok_room)
  then have t: "rf_current_term r < u64_max" and l: "log_room r" by (simp_all add: has_room_def)
  show ?thesis
    using assms raft_wf_tick [OF assms(1) room] tick_committed [OF assms(1) t]
      propose_ok [OF assms(1) l] compact_ok [OF assms(1)] ready_ok [OF assms(1)] step_ok
    by (cases op) auto
qed

subsection \<open>Terms and votes\<close>

lemma maybe_advance_commit_frame [frames, simp]:
  "rf_id (snd (maybe_advance_commit r)) = rf_id r"
  "rf_peers (snd (maybe_advance_commit r)) = rf_peers r"
  "rf_cfg (snd (maybe_advance_commit r)) = rf_cfg r"
  "rf_current_term (snd (maybe_advance_commit r)) = rf_current_term r"
  "rf_voted_for (snd (maybe_advance_commit r)) = rf_voted_for r"
  "rf_log (snd (maybe_advance_commit r)) = rf_log r"
  "rf_base_index (snd (maybe_advance_commit r)) = rf_base_index r"
  "rf_base_term (snd (maybe_advance_commit r)) = rf_base_term r"
  "rf_snapshot (snd (maybe_advance_commit r)) = rf_snapshot r"
  "rf_role (snd (maybe_advance_commit r)) = rf_role r"
  "rf_last_applied (snd (maybe_advance_commit r)) = rf_last_applied r"
  "rf_leader_id (snd (maybe_advance_commit r)) = rf_leader_id r"
  "rf_pending_restore (snd (maybe_advance_commit r)) = rf_pending_restore r"
  "rf_votes (snd (maybe_advance_commit r)) = rf_votes r"
  "rf_acked_since_check (snd (maybe_advance_commit r)) = rf_acked_since_check r"
  "rf_next_index (snd (maybe_advance_commit r)) = rf_next_index r"
  "rf_match_index (snd (maybe_advance_commit r)) = rf_match_index r"
  "rf_snapshot_inflight (snd (maybe_advance_commit r)) = rf_snapshot_inflight r"
  "rf_election_elapsed (snd (maybe_advance_commit r)) = rf_election_elapsed r"
  "rf_heartbeat_elapsed (snd (maybe_advance_commit r)) = rf_heartbeat_elapsed r"
  "rf_randomized_election_timeout (snd (maybe_advance_commit r)) = rf_randomized_election_timeout r"
  "rf_rng (snd (maybe_advance_commit r)) = rf_rng r"
  "rf_out (snd (maybe_advance_commit r)) = rf_out r"
  by (simp_all add: maybe_advance_commit_def Let_def)

lemma record_match_frame [frames, simp]:
  "rf_id (record_match f n r) = rf_id r"
  "rf_peers (record_match f n r) = rf_peers r"
  "rf_cfg (record_match f n r) = rf_cfg r"
  "rf_current_term (record_match f n r) = rf_current_term r"
  "rf_voted_for (record_match f n r) = rf_voted_for r"
  "rf_log (record_match f n r) = rf_log r"
  "rf_base_index (record_match f n r) = rf_base_index r"
  "rf_base_term (record_match f n r) = rf_base_term r"
  "rf_snapshot (record_match f n r) = rf_snapshot r"
  "rf_role (record_match f n r) = rf_role r"
  "rf_last_applied (record_match f n r) = rf_last_applied r"
  "rf_leader_id (record_match f n r) = rf_leader_id r"
  "rf_pending_restore (record_match f n r) = rf_pending_restore r"
  "rf_votes (record_match f n r) = rf_votes r"
  "rf_acked_since_check (record_match f n r) = rf_acked_since_check r"
  "rf_election_elapsed (record_match f n r) = rf_election_elapsed r"
  "rf_heartbeat_elapsed (record_match f n r) = rf_heartbeat_elapsed r"
  "rf_randomized_election_timeout (record_match f n r) = rf_randomized_election_timeout r"
  "rf_rng (record_match f n r) = rf_rng r"
  by (simp_all add: record_match_def Let_def case_prod_beta)

lemma raft_ready_frame [frames, simp]:
  "rf_id (snd (raft_ready r)) = rf_id r"
  "rf_peers (snd (raft_ready r)) = rf_peers r"
  "rf_cfg (snd (raft_ready r)) = rf_cfg r"
  "rf_current_term (snd (raft_ready r)) = rf_current_term r"
  "rf_voted_for (snd (raft_ready r)) = rf_voted_for r"
  "rf_log (snd (raft_ready r)) = rf_log r"
  "rf_base_index (snd (raft_ready r)) = rf_base_index r"
  "rf_base_term (snd (raft_ready r)) = rf_base_term r"
  "rf_snapshot (snd (raft_ready r)) = rf_snapshot r"
  "rf_role (snd (raft_ready r)) = rf_role r"
  "rf_commit_index (snd (raft_ready r)) = rf_commit_index r"
  "rf_leader_id (snd (raft_ready r)) = rf_leader_id r"
  "rf_votes (snd (raft_ready r)) = rf_votes r"
  "rf_acked_since_check (snd (raft_ready r)) = rf_acked_since_check r"
  "rf_next_index (snd (raft_ready r)) = rf_next_index r"
  "rf_match_index (snd (raft_ready r)) = rf_match_index r"
  "rf_snapshot_inflight (snd (raft_ready r)) = rf_snapshot_inflight r"
  "rf_election_elapsed (snd (raft_ready r)) = rf_election_elapsed r"
  "rf_heartbeat_elapsed (snd (raft_ready r)) = rf_heartbeat_elapsed r"
  "rf_randomized_election_timeout (snd (raft_ready r)) = rf_randomized_election_timeout r"
  "rf_rng (snd (raft_ready r)) = rf_rng r"
  by (simp_all add: raft_ready_def Let_def)

lemma compact_frame [frames, simp]:
  "rf_id (compact i data r) = rf_id r"
  "rf_peers (compact i data r) = rf_peers r"
  "rf_cfg (compact i data r) = rf_cfg r"
  "rf_current_term (compact i data r) = rf_current_term r"
  "rf_voted_for (compact i data r) = rf_voted_for r"
  "rf_role (compact i data r) = rf_role r"
  "rf_commit_index (compact i data r) = rf_commit_index r"
  "rf_last_applied (compact i data r) = rf_last_applied r"
  "rf_leader_id (compact i data r) = rf_leader_id r"
  "rf_pending_restore (compact i data r) = rf_pending_restore r"
  "rf_votes (compact i data r) = rf_votes r"
  "rf_acked_since_check (compact i data r) = rf_acked_since_check r"
  "rf_next_index (compact i data r) = rf_next_index r"
  "rf_match_index (compact i data r) = rf_match_index r"
  "rf_snapshot_inflight (compact i data r) = rf_snapshot_inflight r"
  "rf_election_elapsed (compact i data r) = rf_election_elapsed r"
  "rf_heartbeat_elapsed (compact i data r) = rf_heartbeat_elapsed r"
  "rf_randomized_election_timeout (compact i data r) = rf_randomized_election_timeout r"
  "rf_rng (compact i data r) = rf_rng r"
  "rf_out (compact i data r) = rf_out r"
  by (simp_all add: compact_def Let_def)

lemma install_snapshot_frame [frames, simp]:
  "rf_id (install_snapshot req r) = rf_id r"
  "rf_peers (install_snapshot req r) = rf_peers r"
  "rf_cfg (install_snapshot req r) = rf_cfg r"
  "rf_current_term (install_snapshot req r) = rf_current_term r"
  "rf_voted_for (install_snapshot req r) = rf_voted_for r"
  "rf_role (install_snapshot req r) = rf_role r"
  "rf_leader_id (install_snapshot req r) = rf_leader_id r"
  "rf_votes (install_snapshot req r) = rf_votes r"
  "rf_acked_since_check (install_snapshot req r) = rf_acked_since_check r"
  "rf_next_index (install_snapshot req r) = rf_next_index r"
  "rf_match_index (install_snapshot req r) = rf_match_index r"
  "rf_snapshot_inflight (install_snapshot req r) = rf_snapshot_inflight r"
  "rf_election_elapsed (install_snapshot req r) = rf_election_elapsed r"
  "rf_heartbeat_elapsed (install_snapshot req r) = rf_heartbeat_elapsed r"
  "rf_randomized_election_timeout (install_snapshot req r) = rf_randomized_election_timeout r"
  "rf_rng (install_snapshot req r) = rf_rng r"
  "rf_out (install_snapshot req r) = rf_out r"
  by (simp_all add: install_snapshot_def Let_def)

text \<open>Everything but the log and the dirty flag.\<close>

definition blank :: "raft \<Rightarrow> raft" where
  "blank r = r\<lparr>rf_log := [], rf_dirty := False\<rparr>"

lemma blank_eqD:
  assumes "blank q = blank r"
  shows "rf_current_term q = rf_current_term r" "rf_voted_for q = rf_voted_for r" "rf_role q = rf_role r"
    "rf_votes q = rf_votes r" "rf_id q = rf_id r" "rf_peers q = rf_peers r" "rf_cfg q = rf_cfg r"
    "rf_out q = rf_out r" "rf_base_index q = rf_base_index r" "rf_snapshot q = rf_snapshot r"
  using arg_cong [OF assms, of rf_current_term] arg_cong [OF assms, of rf_voted_for]
    arg_cong [OF assms, of rf_role] arg_cong [OF assms, of rf_votes] arg_cong [OF assms, of rf_id]
    arg_cong [OF assms, of rf_peers] arg_cong [OF assms, of rf_cfg] arg_cong [OF assms, of rf_out]
    arg_cong [OF assms, of rf_base_index] arg_cong [OF assms, of rf_snapshot]
  by (simp_all add: blank_def)

lemma blank_push [simp]: "blank (push_entry e r) = blank r"
  by (simp add: blank_def push_entry_def)

lemma truncate_from_blank:
  assumes "truncate_from i r = (b, r1)"
  shows "blank r1 = blank r \<and> (rf_dirty r \<longrightarrow> rf_dirty r1)"
  using assms by (auto simp: truncate_from_def blank_def split: if_splits option.splits)

lemma splice_blank:
  assumes "splice_entries es c r = (ok, c', r')"
  shows "blank r' = blank r \<and> (rf_dirty r \<longrightarrow> rf_dirty r')"
  using assms
proof (induction es c r arbitrary: ok c' r' rule: splice_entries.induct)
  case (2 e es c r)
  show ?case
  proof (cases "le_index e \<le> last_index r \<and> term_at r (le_index e) \<noteq> le_term e")
    case True
    obtain b r1 where t: "truncate_from (le_index e) r = (b, r1)" by fastforce
    note r1 = truncate_from_blank [OF t]
    show ?thesis
    proof (cases b)
      case False
      with "2.prems" True t r1 show ?thesis by auto
    next
      case b: True
      with "2.prems" True t have "splice_entries es (le_index e) (push_entry e r1) = (ok, c', r')" by simp
      from "2.IH"(1) [OF _ _ t [symmetric] _ this] True b r1 show ?thesis by auto
    qed
  next
    case False
    then consider "le_index e \<le> last_index r" "splice_entries es (le_index e) r = (ok, c', r')"
      | "\<not> le_index e \<le> last_index r" "splice_entries es (le_index e) (push_entry e r) = (ok, c', r')"
      using "2.prems" by (auto split: if_splits)
    then show ?thesis
    proof cases
      case 1
      with "2.IH"(2) False show ?thesis by auto
    next
      case 2
      from "2.IH"(3) [OF this] show ?thesis by auto
    qed
  qed
qed simp

lemma accept_entries_vote [frames, simp]:
  "rf_current_term (accept_entries from_node req r) = rf_current_term r"
  "rf_voted_for (accept_entries from_node req r) = rf_voted_for r"
  "rf_role (accept_entries from_node req r) = rf_role r"
  "rf_votes (accept_entries from_node req r) = rf_votes r"
  "rf_id (accept_entries from_node req r) = rf_id r"
  "rf_peers (accept_entries from_node req r) = rf_peers r"
  "rf_cfg (accept_entries from_node req r) = rf_cfg r"
proof -
  obtain ok c q where s: "splice_entries (ae_entries req) (ae_prev_log_index req) r = (ok, c, q)"
    by (metis prod_cases3)
  then have "blank q = blank r" using splice_blank by blast
  note q = blank_eqD [OF this]
  show "rf_current_term (accept_entries from_node req r) = rf_current_term r"
    "rf_voted_for (accept_entries from_node req r) = rf_voted_for r"
    "rf_role (accept_entries from_node req r) = rf_role r"
    "rf_votes (accept_entries from_node req r) = rf_votes r"
    "rf_id (accept_entries from_node req r) = rf_id r"
    "rf_peers (accept_entries from_node req r) = rf_peers r"
    "rf_cfg (accept_entries from_node req r) = rf_cfg r"
    by (simp_all add: accept_entries_def s Let_def q)
qed

definition vote_mono :: "raft \<Rightarrow> raft \<Rightarrow> bool" where
  "vote_mono r r' \<longleftrightarrow>
     rf_current_term r \<le> rf_current_term r' \<and>
     (rf_current_term r' = rf_current_term r \<and> rf_voted_for r \<noteq> None \<longrightarrow> rf_voted_for r' = rf_voted_for r)"

lemma vote_mono_refl [simp]:
  "rf_current_term r' = rf_current_term r \<Longrightarrow> rf_voted_for r' = rf_voted_for r \<Longrightarrow> vote_mono r r'"
  by (simp add: vote_mono_def)

lemma vote_mono_trans: "vote_mono r s \<Longrightarrow> vote_mono s t \<Longrightarrow> vote_mono r t"
  by (auto simp: vote_mono_def)

lemma maybe_win_election_vote [frames, simp]:
  "rf_current_term (maybe_win_election r) = rf_current_term r"
  "rf_voted_for (maybe_win_election r) = rf_voted_for r"
  "rf_id (maybe_win_election r) = rf_id r"
  "rf_peers (maybe_win_election r) = rf_peers r"
  "rf_cfg (maybe_win_election r) = rf_cfg r"
  by (simp_all add: maybe_win_election_def)

lemma start_election_vote [frames, simp]:
  "rf_current_term (start_election r) = add64 (rf_current_term r) 1"
  "rf_voted_for (start_election r) = Some (rf_id r)"
  "rf_id (start_election r) = rf_id r"
  "rf_peers (start_election r) = rf_peers r"
  "rf_cfg (start_election r) = rf_cfg r"
  by (simp_all add: start_election_eq)

lemma vote_mono_elections:
  assumes "rf_current_term r < u64_max"
  shows "vote_mono r (start_election r)" and "vote_mono r (maybe_win_pre_election r)"
    and "vote_mono r (start_pre_election r)"
proof -
  have "add64 (rf_current_term r) 1 = rf_current_term r + 1" using assms by (simp add: add64_small)
  then show "vote_mono r (start_election r)" "vote_mono r (maybe_win_pre_election r)"
    "vote_mono r (start_pre_election r)"
    by (auto simp: vote_mono_def maybe_win_pre_election_def start_pre_election_eq)
qed

lemma vote_mono_become_follower: "vote_mono r (become_follower t l r)"
  by (auto simp: vote_mono_def)

lemma vote_mono_request_vote: "vote_mono r (handle_request_vote from_node req r)"
  by (auto simp: vote_mono_def handle_request_vote_def Let_def)

lemma vote_mono_handlers:
  "vote_mono r (handle_append from_node req r)"
  "vote_mono r (handle_append_resp from_node aresp r)"
  "vote_mono r (handle_install_snapshot from_node sreq r)"
  "vote_mono r (handle_install_snapshot_resp from_node sresp r)"
proof -
  show "vote_mono r (handle_append from_node req r)"
    by (auto simp: handle_append_eq vote_mono_def Let_def)
  show "vote_mono r (handle_append_resp from_node aresp r)"
    by (auto simp: handle_append_resp_def vote_mono_def Let_def)
  show "vote_mono r (handle_install_snapshot from_node sreq r)"
    by (auto simp: handle_install_snapshot_eq vote_mono_def Let_def)
  show "vote_mono r (handle_install_snapshot_resp from_node sresp r)"
    by (auto simp: handle_install_snapshot_resp_def vote_mono_def Let_def)
qed

lemma vote_mono_tick:
  assumes "rf_current_term r < u64_max"
  shows "vote_mono r (raft_tick r)"
proof (cases "rf_role r = Leader")
  case True
  then show ?thesis by (auto simp: raft_tick_def Let_def vote_mono_def)
next
  case False
  let ?q = "r\<lparr>rf_election_elapsed := add64 (rf_election_elapsed r) 1\<rparr>"
  have "vote_mono r ?q" by simp
  moreover have "vote_mono ?q (start_pre_election ?q)" using assms by (intro vote_mono_elections) simp
  ultimately have "vote_mono r (start_pre_election ?q)" by (rule vote_mono_trans)
  then show ?thesis using False by (auto simp: raft_tick_def Let_def)
qed

lemma vote_mono_vote_resp:
  assumes "rf_current_term r < u64_max"
  shows "vote_mono r (handle_vote_resp from_node resp r)"
proof -
  let ?q = "r\<lparr>rf_votes := insert from_node (rf_votes r)\<rparr>"
  have "vote_mono r ?q" by simp
  moreover have "vote_mono ?q (maybe_win_pre_election ?q)" using assms by (intro vote_mono_elections) simp
  ultimately have "vote_mono r (maybe_win_pre_election ?q)" by (rule vote_mono_trans)
  then show ?thesis by (auto simp: handle_vote_resp_def vote_mono_become_follower)
qed

lemma vote_mono_op:
  assumes "has_room r"
  shows "vote_mono r (apply_raft_op op r)"
proof -
  have t: "rf_current_term r < u64_max" using assms by (simp add: has_room_def)
  have "vote_mono r (raft_step from_node msg r)" for from_node msg
    using vote_mono_request_vote vote_mono_handlers vote_mono_vote_resp [OF t]
    by (cases msg) (simp_all add: raft_step_def)
  moreover have "vote_mono r (snd (raft_propose cmd r))" for cmd
    by (simp add: raft_propose_def Let_def case_prod_beta)
  ultimately show ?thesis using vote_mono_tick [OF t] by (cases op) simp_all
qed

subsection \<open>Restart\<close>

text \<open>What recovery from durable state needs; \<open>src/raft_store.rs\<close> checks it when it opens the files.\<close>

definition persisted_wf :: "node_id \<Rightarrow> node_id list \<Rightarrow> persisted \<Rightarrow> bool" where
  "persisted_wf nid peers p \<longleftrightarrow>
     wf_log (ps_base_index p) (ps_base_term p) (ps_log p) (ps_current_term p) \<and>
     ps_base_index p \<le> ps_commit_index p \<and> ps_commit_index p \<le> ps_base_index p + length (ps_log p) \<and>
     (0 < ps_base_index p \<longleftrightarrow> ps_snapshot p \<noteq> None) \<and>
     (ps_voted_for p \<noteq> None \<longrightarrow> 0 < ps_current_term p)"

lemma raft_new_sel [simp]:
  "rf_id (raft_new nid peers cfg seed p) = nid"
  "rf_peers (raft_new nid peers cfg seed p) = peers"
  "rf_cfg (raft_new nid peers cfg seed p) = cfg"
  "rf_current_term (raft_new nid peers cfg seed p) = ps_current_term p"
  "rf_voted_for (raft_new nid peers cfg seed p) = ps_voted_for p"
  "rf_log (raft_new nid peers cfg seed p) = ps_log p"
  "rf_base_index (raft_new nid peers cfg seed p) = ps_base_index p"
  "rf_base_term (raft_new nid peers cfg seed p) = ps_base_term p"
  "rf_snapshot (raft_new nid peers cfg seed p) = ps_snapshot p"
  "rf_role (raft_new nid peers cfg seed p) = Follower"
  "rf_commit_index (raft_new nid peers cfg seed p) = ps_commit_index p"
  "rf_last_applied (raft_new nid peers cfg seed p) = ps_base_index p"
  "rf_leader_id (raft_new nid peers cfg seed p) = None"
  "rf_votes (raft_new nid peers cfg seed p) = {}"
  "rf_out (raft_new nid peers cfg seed p) = []"
  "rf_dirty (raft_new nid peers cfg seed p) = False"
  by (simp_all add: raft_new_def)

lemma raft_wf_new: "persisted_wf nid peers p \<Longrightarrow> raft_wf (raft_new nid peers cfg seed p)"
  by (auto simp: persisted_wf_def raft_wf_def wf_index_def wf_vote_def wf_leader_def)

lemma persisted_wf_snapshot: "raft_wf r \<Longrightarrow> persisted_wf nid peers (persisted_snapshot r)"
  by (auto simp: persisted_wf_def raft_wf_def wf_index_def wf_vote_def persisted_snapshot_def)

lemma persisted_wf_default: "persisted_wf nid peers default_persisted"
  by (simp add: persisted_wf_def default_persisted_def wf_log_def)

subsection \<open>Draining the side effects\<close>

text \<open>The commands at the indices after \<open>from\<close> and up to \<open>to\<close>, read off the log.\<close>

definition commands_between :: "raft \<Rightarrow> nat \<Rightarrow> nat \<Rightarrow> (nat \<times> command) list" where
  "commands_between r lo hi =
     concat (map (\<lambda>i. case entry_at r i of
        Some e \<Rightarrow> (case le_command e of Some cmd \<Rightarrow> [(i, cmd)] | None \<Rightarrow> [])
      | None \<Rightarrow> []) [Suc lo..<Suc hi])"

lemma collect_committed_eq:
  assumes "raft_wf r"
  shows "collect_committed r is =
    concat (map (\<lambda>i. case entry_at r i of
        Some e \<Rightarrow> (case le_command e of Some cmd \<Rightarrow> [(i, cmd)] | None \<Rightarrow> [])
      | None \<Rightarrow> []) is)"
proof (induction "is")
  case (Cons i "is")
  have "log_slot r i = (if rf_base_index r < i \<and> i \<le> rf_base_index r + length (rf_log r)
      then Some (i - rf_base_index r - 1) else None)"
    using raft_wf_last_index [OF assms] by (auto simp: log_slot_def)
  with Cons show ?case
    by (auto simp: collect_committed_def List.map_filter_simps entry_at_def split: option.splits)
qed (simp add: collect_committed_def List.map_filter_simps)

lemma entry_at_applied:
  assumes "raft_wf r" and "rf_last_applied r < i" and "i \<le> rf_commit_index r"
  shows "\<exists>e. entry_at r i = Some e"
  using assms by (auto simp: raft_wf_def wf_index_def entry_at_def)

subsection \<open>Quorums\<close>

lemma quorum_majority: "length (rf_peers r) + 1 < 2 * quorum r"
  by (simp add: quorum_def)

lemma quorum_reachable: "quorum r \<le> length (rf_peers r) + 1"
  by (simp add: quorum_def)

subsection \<open>Timers\<close>

definition timer_lo :: "raft_config \<Rightarrow> nat" where
  "timer_lo cfg = max (election_min_ticks cfg) 1"

definition timer_hi :: "raft_config \<Rightarrow> nat" where
  "timer_hi cfg = max (election_max_ticks cfg) (timer_lo cfg)"

lemma reset_timer_range:
  "timer_lo (rf_cfg r) \<le> rf_randomized_election_timeout (reset_election_timer r)"
  "rf_randomized_election_timeout (reset_election_timer r) \<le> timer_hi (rf_cfg r)"
  "rf_election_elapsed (reset_election_timer r) = 0"
proof -
  let ?lo = "timer_lo (rf_cfg r)" and ?hi = "timer_hi (rf_cfg r)"
  obtain x where x: "rf_randomized_election_timeout (reset_election_timer r) = ?lo + x mod (?hi - ?lo + 1)"
    by (auto simp: reset_election_timer_def next_rand_def Let_def timer_lo_def timer_hi_def)
  have "x mod (?hi - ?lo + 1) < ?hi - ?lo + 1" by simp
  moreover have "?lo \<le> ?hi" by (simp add: timer_hi_def)
  ultimately show "?lo \<le> rf_randomized_election_timeout (reset_election_timer r)"
    "rf_randomized_election_timeout (reset_election_timer r) \<le> ?hi"
    unfolding x by linarith+
  show "rf_election_elapsed (reset_election_timer r) = 0"
    by (simp add: reset_election_timer_def next_rand_def Let_def)
qed

text \<open>A shift-xor step is injective at zero, so the generator never gets stuck.\<close>

lemma xor_push_bit_zero:
  fixes x :: "64 word"
  assumes "x XOR push_bit n x = 0" and "0 < n"
  shows "x = 0"
proof (rule ccontr)
  assume "x \<noteq> 0"
  then obtain k where "bit x k" by (auto simp: bit_eq_iff)
  then obtain k where k: "bit x k" and least: "\<And>j. j < k \<Longrightarrow> \<not> bit x j"
    using exists_least_iff [of "bit x"] by blast
  have "bit (x XOR push_bit n x) k"
    using k least [of "k - n"] assms(2) by (auto simp: bit_xor_iff bit_push_bit_iff)
  with assms show False by simp
qed

lemma xor_drop_bit_zero:
  fixes x :: "64 word"
  assumes "x XOR drop_bit n x = 0" and "0 < n"
  shows "x = 0"
proof (rule ccontr)
  assume "x \<noteq> 0"
  then obtain k where "bit x k" by (auto simp: bit_eq_iff)
  moreover have "bit x j \<Longrightarrow> j < 64" for j using bit_imp_le_length [of x j] by simp
  ultimately obtain k where k: "bit x k" and most: "\<And>j. bit x j \<Longrightarrow> j \<le> k"
    using Greatest_le_nat [of "bit x" _ 64] GreatestI_nat [of "bit x" _ 64] by (metis less_imp_le)
  have "\<not> bit x (k + n)" using most [of "k + n"] assms(2) by auto
  then have "bit (x XOR drop_bit n x) k"
    using k by (simp add: bit_xor_iff bit_drop_bit_eq add.commute)
  with assms show False by simp
qed

lemma rng_nonzero:
  assumes "rf_rng r \<noteq> 0"
  shows "rf_rng (reset_election_timer r) \<noteq> 0"
proof -
  define a where "a = rf_rng r XOR push_bit 13 (rf_rng r)"
  define b where "b = a XOR drop_bit 7 a"
  have "rf_rng (reset_election_timer r) = b XOR push_bit 17 b"
    by (simp add: reset_election_timer_def next_rand_def Let_def a_def b_def)
  moreover have "a \<noteq> 0" using assms xor_push_bit_zero [of "rf_rng r" 13] by (auto simp: a_def)
  then have "b \<noteq> 0" using xor_drop_bit_zero [of a 7] by (auto simp: b_def)
  then have "b XOR push_bit 17 b \<noteq> 0" using xor_push_bit_zero [of b 17] by auto
  ultimately show ?thesis by simp
qed

end
