(* ===== verification/Raft_Votes.thy ===== *)
theory Raft_Votes
  imports Raft_Invariants
begin

section \<open>Votes on the wire\<close>

text \<open>
  What an operation of one engine tells the others about its vote. A granted vote and a vote request
  are votes of the sender; every operation that puts one into the outbox has that vote in its term
  and vote fields afterwards and has marked them dirty. The second part says how an engine becomes a
  candidate and a leader.
\<close>

text \<open>The votes (term and candidate) that a message of the member \<open>m\<close> carries.\<close>

definition msg_votes :: "node_id \<Rightarrow> addressed \<Rightarrow> (nat \<times> node_id) set" where
  "msg_votes m a =
     (case ad_msg a of
        RequestVoteResp resp \<Rightarrow>
          if rvr_granted resp \<and> \<not> rvr_pre_vote resp then {(rvr_term resp, ad_to a)} else {}
      | RequestVote req \<Rightarrow> if \<not> rv_pre_vote req then {(rv_term req, m)} else {}
      | _ \<Rightarrow> {})"

definition vote_free :: "addressed \<Rightarrow> bool" where
  "vote_free a \<longleftrightarrow> (\<forall>m. msg_votes m a = {})"

lemma msg_votes_simps [simp]:
  "msg_votes m \<lparr>ad_to = to, ad_msg = RequestVoteResp resp\<rparr> =
     (if rvr_granted resp \<and> \<not> rvr_pre_vote resp then {(rvr_term resp, to)} else {})"
  "msg_votes m \<lparr>ad_to = to, ad_msg = RequestVote req\<rparr> = (if \<not> rv_pre_vote req then {(rv_term req, m)} else {})"
  "msg_votes m \<lparr>ad_to = to, ad_msg = AppendEntries areq\<rparr> = {}"
  "msg_votes m \<lparr>ad_to = to, ad_msg = AppendEntriesResp aresp\<rparr> = {}"
  "msg_votes m \<lparr>ad_to = to, ad_msg = InstallSnapshot sreq\<rparr> = {}"
  "msg_votes m \<lparr>ad_to = to, ad_msg = InstallSnapshotResp sresp\<rparr> = {}"
  by (simp_all add: msg_votes_def)

subsection \<open>Growth of the outbox\<close>

definition sends :: "raft \<Rightarrow> raft \<Rightarrow> (addressed \<Rightarrow> bool) \<Rightarrow> bool" where
  "sends r r' P \<longleftrightarrow> (\<exists>fresh. rf_out r' = rf_out r @ fresh \<and> (\<forall>a \<in> set fresh. P a))"

lemma sends_same: "rf_out r' = rf_out r \<Longrightarrow> sends r r' P"
  by (simp add: sends_def)

lemma sends_trans: "sends r s P \<Longrightarrow> sends s t P \<Longrightarrow> sends r t P"
  unfolding sends_def by (metis Un_iff append_assoc set_append)

lemma sends_mono: "sends r s P \<Longrightarrow> (\<And>a. P a \<Longrightarrow> Q a) \<Longrightarrow> sends r s Q"
  unfolding sends_def by blast

lemma sends_send: "rf_out s = rf_out r \<Longrightarrow> P \<lparr>ad_to = to, ad_msg = msg\<rparr> \<Longrightarrow> sends r (send to msg s) P"
  by (simp add: sends_def)

lemma sends_cong: "rf_out r = rf_out s \<Longrightarrow> sends r t P \<longleftrightarrow> sends s t P"
  by (simp add: sends_def)

lemma sends_foldl:
  assumes "\<And>s p. p \<in> set ps \<Longrightarrow> sends s (f s p) P"
  shows "sends r (foldl f r ps) P"
  using assms
proof (induction ps arbitrary: r)
  case Nil
  then show ?case by (simp add: sends_same)
next
  case (Cons p ps)
  have "sends r (f r p) P" using Cons.prems by simp
  moreover have "sends (f r p) (foldl f (f r p) ps) P" using Cons by simp
  ultimately show ?case by (simp add: sends_trans)
qed

lemma sends_send_append: "sends r (send_append p r) vote_free"
proof -
  have "sends r (send_snapshot p r) vote_free"
    by (auto simp: send_snapshot_def Let_def vote_free_def split: option.splits intro!: sends_send intro: sends_same)
  then show ?thesis by (auto simp: send_append_def Let_def vote_free_def intro!: sends_send)
qed

lemma sends_broadcast: "sends r (broadcast_append r) vote_free"
  unfolding broadcast_append_def by (rule sends_foldl) (rule sends_send_append)

lemma sends_send_all: "(\<And>p. P \<lparr>ad_to = p, ad_msg = msg\<rparr>) \<Longrightarrow> sends r (send_all msg r) P"
  unfolding send_all_def by (rule sends_foldl) (auto intro: sends_send)

lemma sends_become_leader: "sends r (become_leader r) vote_free"
  unfolding become_leader_def Let_def
  by (rule iffD2 [OF sends_cong sends_broadcast]) simp

lemma sends_maybe_win_election: "sends r (maybe_win_election r) vote_free"
  by (simp add: maybe_win_election_def sends_become_leader sends_same)

subsection \<open>Every vote that leaves is the engine's own vote\<close>

text \<open>
  A message of an engine in the state \<open>r\<close>: its votes are for the current term and the current choice,
  marked for persisting, and for the engine itself or for the candidate \<open>src\<close> whose request it answers.
\<close>

definition vote_ok :: "(node_id \<times> nat) option \<Rightarrow> raft \<Rightarrow> addressed \<Rightarrow> bool" where
  "vote_ok src r a \<longleftrightarrow>
     (\<forall>(t, c) \<in> msg_votes (rf_id r) a.
        t = rf_current_term r \<and> rf_voted_for r = Some c \<and> rf_dirty r \<and> (c = rf_id r \<or> src = Some (c, t)))"

lemma vote_free_ok: "vote_free a \<Longrightarrow> vote_ok src r a"
  by (simp add: vote_free_def vote_ok_def)

lemma maybe_win_election_dirty: "rf_dirty r \<Longrightarrow> rf_dirty (maybe_win_election r)"
  by (simp add: maybe_win_election_def)

lemma sends_start_election: "sends r (start_election r) (vote_ok None (start_election r))"
proof -
  let ?msg = "RequestVote (vote_request (candidate_of r) (rf_current_term (candidate_of r)) False)"
  have "sends (candidate_of r) (send_all ?msg (candidate_of r)) (vote_ok None (start_election r))"
  proof (rule sends_send_all)
    fix p
    have "rf_dirty (start_election r)" by (simp add: start_election_eq maybe_win_election_dirty)
    then show "vote_ok None (start_election r) \<lparr>ad_to = p, ad_msg = ?msg\<rparr>"
      by (simp add: vote_ok_def vote_request_def)
  qed
  moreover have "sends (send_all ?msg (candidate_of r)) (start_election r) (vote_ok None (start_election r))"
    unfolding start_election_eq by (rule sends_mono [OF sends_maybe_win_election vote_free_ok])
  ultimately have "sends (candidate_of r) (start_election r) (vote_ok None (start_election r))"
    by (rule sends_trans)
  then show ?thesis by (simp add: sends_cong [of r "candidate_of r"])
qed

lemma sends_maybe_win_pre_election:
  "sends r (maybe_win_pre_election r) (vote_ok None (maybe_win_pre_election r))"
  by (simp add: maybe_win_pre_election_def sends_start_election sends_same)

lemma sends_start_pre_election: "sends r (start_pre_election r) (vote_ok None (start_pre_election r))"
proof -
  let ?msg = "RequestVote (vote_request (pre_candidate_of r) (add64 (rf_current_term r) 1) True)"
  have "sends (pre_candidate_of r) (send_all ?msg (pre_candidate_of r)) (vote_ok None (start_pre_election r))"
    by (rule sends_send_all) (simp add: vote_ok_def vote_request_def)
  moreover have "sends (send_all ?msg (pre_candidate_of r)) (start_pre_election r) (vote_ok None (start_pre_election r))"
    unfolding start_pre_election_eq by (rule sends_maybe_win_pre_election)
  ultimately have "sends (pre_candidate_of r) (start_pre_election r) (vote_ok None (start_pre_election r))"
    by (rule sends_trans)
  then show ?thesis by (simp add: sends_cong [of r "pre_candidate_of r"])
qed

lemma sends_tick: "sends r (raft_tick r) (vote_ok None (raft_tick r))"
proof (cases "rf_role r = Leader")
  case True
  have b: "sends (r\<lparr>rf_heartbeat_elapsed := 0\<rparr>) (broadcast_append (r\<lparr>rf_heartbeat_elapsed := 0\<rparr>)) vote_free"
    by (rule sends_broadcast)
  then obtain fresh where "rf_out (broadcast_append (r\<lparr>rf_heartbeat_elapsed := 0\<rparr>)) = rf_out r @ fresh"
    "\<forall>a \<in> set fresh. vote_free a"
    by (auto simp: sends_def)
  then have "sends r (raft_tick r) vote_free"
    using True by (auto simp: raft_tick_def Let_def sends_def)
  then show ?thesis by (rule sends_mono) (rule vote_free_ok)
next
  case False
  let ?q = "r\<lparr>rf_election_elapsed := add64 (rf_election_elapsed r) 1\<rparr>"
  have "sends r (start_pre_election ?q) (vote_ok None (start_pre_election ?q))"
    using sends_start_pre_election [of ?q] by (simp add: sends_cong [of r ?q])
  with False show ?thesis by (auto simp: raft_tick_def Let_def sends_same)
qed

lemma sends_request_vote:
  "sends r (handle_request_vote from_node req r)
     (vote_ok (if rv_pre_vote req then None else Some (from_node, rv_term req)) (handle_request_vote from_node req r))"
  by (auto simp: handle_request_vote_def Let_def vote_ok_def intro!: sends_send)

lemma sends_vote_resp: "sends r (handle_vote_resp from_node resp r) (vote_ok None (handle_vote_resp from_node resp r))"
proof -
  let ?q = "r\<lparr>rf_votes := insert from_node (rf_votes r)\<rparr>"
  have "sends r (maybe_win_pre_election ?q) (vote_ok None (maybe_win_pre_election ?q))"
    using sends_maybe_win_pre_election [of ?q] by (simp add: sends_cong [of r ?q])
  moreover have "sends r (maybe_win_election ?q) (vote_ok None (maybe_win_election ?q))"
    using sends_mono [OF sends_maybe_win_election [of ?q] vote_free_ok] by (simp add: sends_cong [of r ?q])
  ultimately show ?thesis by (auto simp: handle_vote_resp_def sends_same)
qed

lemma sends_accept_entries:
  assumes "\<And>resp. P \<lparr>ad_to = from_node, ad_msg = AppendEntriesResp resp\<rparr>"
  shows "sends q (accept_entries from_node req q) P"
proof -
  obtain ok c s where s: "splice_entries (ae_entries req) (ae_prev_log_index req) q = (ok, c, s)"
    by (metis prod_cases3)
  then have "rf_out s = rf_out q" using blank_eqD(8) splice_blank by blast
  then show ?thesis
    using assms by (auto simp: accept_entries_def s Let_def append_resp_def intro!: sends_send)
qed

lemma sends_append:
  assumes P: "\<And>resp. P \<lparr>ad_to = from_node, ad_msg = AppendEntriesResp resp\<rparr>"
  shows "sends r (handle_append from_node req r) P"
proof -
  let ?q = "become_follower (ae_term req) (Some from_node) (adopt_term (ae_term req) r)"
  have "sends r (accept_entries from_node req ?q) P"
    using sends_accept_entries [of P from_node ?q req] P by (simp add: sends_cong [of r ?q])
  moreover have "sends r (append_resp from_node ok m s) P" if "rf_out s = rf_out r" for ok m s
    using that P by (auto simp: append_resp_def intro!: sends_send)
  ultimately show ?thesis by (simp add: handle_append_eq Let_def)
qed

lemma sends_record_match: "sends r (record_match from_node n r) vote_free"
proof -
  have b: "sends r (broadcast_append q) vote_free" if "rf_out q = rf_out r" for q
    using sends_broadcast [of q] that by (simp add: sends_cong [of r q])
  show ?thesis
    by (auto simp: record_match_def Let_def case_prod_beta intro!: b intro: sends_same)
qed

lemma sends_append_resp: "sends r (handle_append_resp from_node resp r) vote_free"
proof -
  have a: "sends r (send_append p q) vote_free" if "rf_out q = rf_out r" for p q
    using sends_send_append [of q p] that by (simp add: sends_cong [of r q])
  have m: "sends r (record_match f n q) vote_free" if "rf_out q = rf_out r" for f n q
    using sends_record_match [of q f n] that by (simp add: sends_cong [of r q])
  show ?thesis by (auto simp: handle_append_resp_def Let_def intro!: a m intro: sends_same)
qed

lemma sends_install:
  assumes "\<And>resp. P \<lparr>ad_to = from_node, ad_msg = InstallSnapshotResp resp\<rparr>"
  shows "sends r (handle_install_snapshot from_node req r) P"
proof -
  have "sends r (snapshot_resp from_node ok m s) P" if "rf_out s = rf_out r" for ok m s
    using that assms by (auto simp: snapshot_resp_def intro!: sends_send)
  then show ?thesis by (simp add: handle_install_snapshot_eq Let_def)
qed

lemma sends_install_resp: "sends r (handle_install_snapshot_resp from_node resp r) vote_free"
proof -
  have m: "sends r (record_match f n q) vote_free" if "rf_out q = rf_out r" for f n q
    using sends_record_match [of q f n] that by (simp add: sends_cong [of r q])
  show ?thesis by (auto simp: handle_install_snapshot_resp_def Let_def intro!: m intro: sends_same)
qed

lemma sends_propose: "sends r (snd (raft_propose cmd r)) vote_free"
proof -
  have b: "sends r (broadcast_append q) vote_free" if "rf_out q = rf_out r" for q
    using sends_broadcast [of q] that by (simp add: sends_cong [of r q])
  show ?thesis by (auto simp: raft_propose_def Let_def case_prod_beta intro!: b intro: sends_same)
qed

text \<open>The vote request that an operation answers.\<close>

definition op_source :: "raft_op \<Rightarrow> (node_id \<times> nat) option" where
  "op_source op =
     (case op of
        Step from_node (RequestVote req) \<Rightarrow> if rv_pre_vote req then None else Some (from_node, rv_term req)
      | _ \<Rightarrow> None)"

lemma sends_step: "sends r (raft_step from_node msg r) (vote_ok (op_source (Step from_node msg)) (raft_step from_node msg r))"
proof (cases "from_node \<in> set (rf_peers r) \<and> body_identity_matches from_node msg")
  case True
  show ?thesis
  proof (cases msg)
    case (RequestVote req)
    with True sends_request_vote [of r from_node req] show ?thesis by (simp add: raft_step_def op_source_def)
  next
    case (RequestVoteResp resp)
    with True sends_vote_resp [of r from_node resp] show ?thesis by (simp add: raft_step_def op_source_def)
  qed (use True in \<open>auto simp: raft_step_def vote_ok_def intro!: sends_append sends_install
      intro: sends_mono [OF sends_append_resp vote_free_ok] sends_mono [OF sends_install_resp vote_free_ok]\<close>)
qed (auto simp: raft_step_def sends_same)

lemma op_sends:
  assumes "op \<noteq> Drain_Ready"
  shows "sends r (apply_raft_op op r) (vote_ok (op_source op) (apply_raft_op op r))"
  using assms sends_tick sends_step sends_mono [OF sends_propose vote_free_ok]
  by (cases op) (auto simp: op_source_def sends_same)

subsection \<open>How an engine becomes a candidate and a leader\<close>

definition role_ok :: "node_id set \<Rightarrow> raft \<Rightarrow> raft \<Rightarrow> bool" where
  "role_ok V r r' \<longleftrightarrow>
     (rf_role r' = Candidate \<longrightarrow>
        rf_votes r' \<subseteq> {rf_id r} \<or>
        (rf_role r = Candidate \<and> rf_current_term r' = rf_current_term r \<and> rf_votes r' \<subseteq> rf_votes r \<union> V)) \<and>
     (rf_role r' = Leader \<longrightarrow>
        (rf_role r = Leader \<and> rf_current_term r' = rf_current_term r) \<or>
        (\<exists>W. quorum r \<le> card W \<and>
           (W \<subseteq> {rf_id r} \<or>
            (rf_role r = Candidate \<and> rf_current_term r' = rf_current_term r \<and> W \<subseteq> rf_votes r \<union> V))))"

lemma role_ok_same:
  assumes "rf_role r' = Follower \<or> rf_role r' = PreCandidate \<or>
    (rf_role r' = rf_role r \<and> rf_votes r' = rf_votes r \<and> rf_current_term r' = rf_current_term r)"
  shows "role_ok V r r'"
  using assms by (auto simp: role_ok_def)

lemma maybe_win_election_role:
  "rf_role (maybe_win_election q) = rf_role q \<and> maybe_win_election q = q \<or>
   rf_role (maybe_win_election q) = Leader \<and> rf_role q = Candidate \<and> quorum q \<le> card (rf_votes q)"
  by (simp add: maybe_win_election_def)

lemma role_ok_start_election: "role_ok V r (start_election r)"
proof -
  let ?q = "send_all (RequestVote (vote_request (candidate_of r) (rf_current_term (candidate_of r)) False)) (candidate_of r)"
  have "quorum ?q = quorum r" by (simp add: quorum_def)
  then show ?thesis
    using maybe_win_election_role [of ?q] unfolding start_election_eq
    by (auto simp: role_ok_def intro: exI [of _ "{rf_id r}"])
qed

lemma role_ok_pre_election:
  "rf_role q = PreCandidate \<Longrightarrow> rf_id q = rf_id r \<Longrightarrow> rf_peers q = rf_peers r \<Longrightarrow>
   role_ok V r (maybe_win_pre_election q)"
  using role_ok_start_election [of V q]
  by (cases "quorum q \<le> card (rf_votes q)") (auto simp: maybe_win_pre_election_def role_ok_def quorum_def)

lemma role_ok_tick: "role_ok V r (raft_tick r)"
proof (cases "rf_role r = Leader")
  case True
  have "rf_role (raft_tick r) = Follower \<or> rf_role (raft_tick r) = Leader \<and> rf_votes (raft_tick r) = rf_votes r"
    "rf_current_term (raft_tick r) = rf_current_term r"
    using True by (simp_all add: raft_tick_def Let_def)
  then show ?thesis unfolding True [symmetric] by (intro role_ok_same) blast
next
  case False
  let ?q = "r\<lparr>rf_election_elapsed := add64 (rf_election_elapsed r) 1\<rparr>"
  have "role_ok V r (start_pre_election ?q)"
    unfolding start_pre_election_eq by (rule role_ok_pre_election) simp_all
  with False show ?thesis by (auto simp: raft_tick_def Let_def role_ok_same)
qed

text \<open>The member whose granted vote an operation counts.\<close>

definition op_voter :: "raft_op \<Rightarrow> raft \<Rightarrow> node_id set" where
  "op_voter op r =
     (case op of
        Step from_node (RequestVoteResp resp) \<Rightarrow>
          if rvr_granted resp \<and> \<not> rvr_pre_vote resp \<and> rvr_term resp = rf_current_term r then {from_node} else {}
      | _ \<Rightarrow> {})"

lemma role_ok_vote_resp:
  "role_ok (op_voter (Step from_node (RequestVoteResp resp)) r) r (handle_vote_resp from_node resp r)"
proof -
  let ?q = "r\<lparr>rf_votes := insert from_node (rf_votes r)\<rparr>"
  let ?V = "op_voter (Step from_node (RequestVoteResp resp)) r"
  have "handle_vote_resp from_node resp r = become_follower (rvr_term resp) None r
    \<or> handle_vote_resp from_node resp r = r
    \<or> rf_role r = PreCandidate \<and> handle_vote_resp from_node resp r = maybe_win_pre_election ?q
    \<or> rf_role r = Candidate \<and> ?V = {from_node} \<and> handle_vote_resp from_node resp r = maybe_win_election ?q"
    by (simp add: handle_vote_resp_def op_voter_def)
  then consider (down) "handle_vote_resp from_node resp r = become_follower (rvr_term resp) None r"
    | (none) "handle_vote_resp from_node resp r = r"
    | (pre) "rf_role r = PreCandidate" "handle_vote_resp from_node resp r = maybe_win_pre_election ?q"
    | (vote) "rf_role r = Candidate" "?V = {from_node}" "handle_vote_resp from_node resp r = maybe_win_election ?q"
    by blast
  then show ?thesis
  proof cases
    case vote
    have q: "quorum ?q = quorum r" by (simp add: quorum_def)
    show ?thesis
    proof (cases "quorum r \<le> card (insert from_node (rf_votes r))")
      case True
      then have "rf_role (maybe_win_election ?q) = Leader" using vote(1) q by (simp add: maybe_win_election_def)
      with True vote show ?thesis by (auto simp: role_ok_def)
    next
      case False
      then have "maybe_win_election ?q = ?q" using q by (simp add: maybe_win_election_def)
      with vote show ?thesis by (auto simp: role_ok_def)
    qed
  next
    case down
    then show ?thesis by (intro role_ok_same) simp
  next
    case none
    then show ?thesis by (intro role_ok_same) simp
  next
    case pre
    then show ?thesis by (simp add: role_ok_pre_election)
  qed
qed

lemma role_ok_others:
  "role_ok V r (handle_request_vote from_node vreq r)"
  "role_ok V r (handle_append from_node req r)"
  "role_ok V r (handle_append_resp from_node aresp r)"
  "role_ok V r (handle_install_snapshot from_node sreq r)"
  "role_ok V r (handle_install_snapshot_resp from_node sresp r)"
  "role_ok V r (snd (raft_propose cmd r))"
proof -
  show "role_ok V r (handle_request_vote from_node vreq r)"
    by (rule role_ok_same) (auto simp: handle_request_vote_def Let_def split: if_splits)
  show "role_ok V r (handle_append from_node req r)"
    by (rule role_ok_same) (auto simp: handle_append_eq Let_def adopt_term_def split: if_splits)
  show "role_ok V r (handle_append_resp from_node aresp r)"
    by (rule role_ok_same) (auto simp: handle_append_resp_def Let_def split: if_splits)
  show "role_ok V r (handle_install_snapshot from_node sreq r)"
    by (rule role_ok_same) (auto simp: handle_install_snapshot_eq Let_def adopt_term_def split: if_splits)
  show "role_ok V r (handle_install_snapshot_resp from_node sresp r)"
    by (rule role_ok_same) (auto simp: handle_install_snapshot_resp_def Let_def split: if_splits)
  show "role_ok V r (snd (raft_propose cmd r))"
    by (rule role_ok_same) (auto simp: raft_propose_def Let_def case_prod_beta)
qed

lemma op_role: "role_ok (op_voter op r) r (apply_raft_op op r)"
proof (cases op)
  case (Step from_node msg)
  show ?thesis
  proof (cases "from_node \<in> set (rf_peers r) \<and> body_identity_matches from_node msg")
    case True
    with Step role_ok_vote_resp role_ok_others show ?thesis
      by (cases msg) (auto simp: raft_step_def)
  qed (auto simp: raft_step_def Step role_ok_same)
qed (auto simp: role_ok_tick role_ok_others role_ok_same)

subsection \<open>Identity and the dirty flag\<close>

lemma start_pre_election_ident [frames, simp]:
  "rf_id (start_pre_election r) = rf_id r" "rf_peers (start_pre_election r) = rf_peers r"
  "rf_cfg (start_pre_election r) = rf_cfg r"
  by (simp_all add: start_pre_election_eq maybe_win_pre_election_def)

lemma maybe_win_pre_election_ident [frames, simp]:
  "rf_id (maybe_win_pre_election r) = rf_id r" "rf_peers (maybe_win_pre_election r) = rf_peers r"
  "rf_cfg (maybe_win_pre_election r) = rf_cfg r"
  by (simp_all add: maybe_win_pre_election_def)

lemma step_ident [frames, simp]:
  "rf_id (raft_step from_node msg r) = rf_id r"
  "rf_peers (raft_step from_node msg r) = rf_peers r"
  "rf_cfg (raft_step from_node msg r) = rf_cfg r"
proof -
  have "rf_id (raft_step from_node msg r) = rf_id r \<and> rf_peers (raft_step from_node msg r) = rf_peers r \<and>
    rf_cfg (raft_step from_node msg r) = rf_cfg r"
    by (cases msg)
      (simp_all add: raft_step_def handle_request_vote_def handle_vote_resp_def handle_append_eq
        handle_append_resp_def handle_install_snapshot_eq handle_install_snapshot_resp_def Let_def)
  then show "rf_id (raft_step from_node msg r) = rf_id r" "rf_peers (raft_step from_node msg r) = rf_peers r"
    "rf_cfg (raft_step from_node msg r) = rf_cfg r" by simp_all
qed

lemma op_ident [frames, simp]:
  "rf_id (apply_raft_op op r) = rf_id r" "rf_peers (apply_raft_op op r) = rf_peers r"
  "rf_cfg (apply_raft_op op r) = rf_cfg r"
  by (cases op; simp add: raft_tick_def raft_propose_def Let_def case_prod_beta)+

text \<open>A state change since the last drain stays marked until the next one.\<close>

lemma start_election_dirty [simp]: "rf_dirty (start_election r)"
  by (simp add: start_election_eq maybe_win_election_dirty)

lemma maybe_win_pre_election_dirty: "rf_dirty r \<Longrightarrow> rf_dirty (maybe_win_pre_election r)"
  by (simp add: maybe_win_pre_election_def)

lemma accept_entries_dirty: "rf_dirty r \<Longrightarrow> rf_dirty (accept_entries from_node req r)"
proof -
  assume d: "rf_dirty r"
  obtain ok c s where s: "splice_entries (ae_entries req) (ae_prev_log_index req) r = (ok, c, s)"
    by (metis prod_cases3)
  with d splice_blank [OF s] show ?thesis by (simp add: accept_entries_def Let_def)
qed

lemma record_match_dirty: "rf_dirty r \<Longrightarrow> rf_dirty (record_match f n r)"
  by (simp add: record_match_def maybe_advance_commit_def Let_def case_prod_beta)

lemma step_dirty: "rf_dirty r \<Longrightarrow> rf_dirty (raft_step from_node msg r)"
  by (cases msg)
    (simp_all add: raft_step_def handle_request_vote_def handle_vote_resp_def handle_append_eq
      handle_append_resp_def handle_install_snapshot_eq handle_install_snapshot_resp_def Let_def
      install_snapshot_def maybe_win_election_dirty maybe_win_pre_election_dirty accept_entries_dirty
      record_match_dirty)

lemma op_dirty: "rf_dirty r \<Longrightarrow> op \<noteq> Drain_Ready \<Longrightarrow> rf_dirty (apply_raft_op op r)"
proof (cases op)
  case (Propose cmd)
  assume "rf_dirty r"
  then have "rf_dirty (snd (maybe_advance_commit q))" if "rf_dirty q" for q
    using that by (simp add: maybe_advance_commit_def Let_def)
  with \<open>rf_dirty r\<close> Propose show ?thesis by (simp add: raft_propose_def Let_def case_prod_beta)
qed (auto simp: step_dirty raft_tick_def Let_def compact_def start_pre_election_eq maybe_win_pre_election_dirty)

end
