(* ===== verification/Raft_Network.thy ===== *)
theory Raft_Network
  imports Raft_Votes
begin

section \<open>A group of brain members\<close>

text \<open>
  The engines of a fixed group, each with its durable state, exchanging messages over a network that
  may lose, delay, reorder and duplicate them, with crashes and restarts at any point. A member's
  driver drains its engine (\<open>Drain\<close>), persists the latest state before the drained messages may leave
  (\<open>Persist\<close>, then \<open>Transmit\<close>), as \<open>src/raft_driver.rs\<close> does; batches without a state to persist
  leave at once. The result is election safety: no two members ever lead in the same term.
\<close>

subsection \<open>Majorities\<close>

locale majority =
  fixes members :: "'a set" and threshold :: nat
  assumes finite_members: "finite members" and more_than_half: "card members < 2 * threshold"
begin

lemma intersect:
  assumes "A \<subseteq> members" "B \<subseteq> members" "threshold \<le> card A" "threshold \<le> card B"
  obtains x where "x \<in> A" "x \<in> B"
proof -
  have "A \<inter> B \<noteq> {}"
  proof
    assume "A \<inter> B = {}"
    then have "card (A \<union> B) = card A + card B"
      using assms(1,2) finite_members by (intro card_Un_disjoint) (auto intro: finite_subset)
    moreover have "card (A \<union> B) \<le> card members"
      using assms(1,2) finite_members by (intro card_mono) auto
    ultimately show False using assms(3,4) more_than_half by linarith
  qed
  then show ?thesis using that by auto
qed

lemma not_alone:
  assumes "A \<subseteq> members" "threshold \<le> card A" "x \<in> members" "y \<in> members" "x \<noteq> y"
  obtains z where "z \<in> A" "z \<noteq> x"
proof -
  have "2 \<le> card members"
    using assms(3-5) finite_members card_mono [of members "{x, y}"] by auto
  then have "2 \<le> card A" using assms(2) more_than_half by linarith
  then have "\<not> A \<subseteq> {x}" using card_mono [of "{x}" A] by auto
  then show ?thesis using that by auto
qed

end

interpretation grp: majority "set ms" "card (set ms) div 2 + 1" for ms :: "node_id list"
  by unfold_locales simp_all

definition peers_of :: "node_id list \<Rightarrow> node_id \<Rightarrow> node_id list" where
  "peers_of ms n = filter (\<lambda>p. p \<noteq> n) ms"

lemma quorum_of_group:
  assumes "distinct ms" and "n \<in> set ms" and "rf_peers r = peers_of ms n"
  shows "quorum r = card (set ms) div 2 + 1"
proof -
  have "distinct (peers_of ms n)" using assms(1) by (simp add: peers_of_def)
  moreover have "set (peers_of ms n) = set ms - {n}" by (auto simp: peers_of_def)
  ultimately have "length (peers_of ms n) = card (set ms - {n})" by (metis distinct_card)
  moreover have "Suc (card (set ms - {n})) = card (set ms)"
    using assms(2) by (metis List.finite_set card_Suc_Diff1)
  ultimately show ?thesis using assms(3) by (simp add: quorum_def)
qed

subsection \<open>States and steps\<close>

record network =
  nw_mem :: "node_id \<Rightarrow> raft"
  nw_disk :: "node_id \<Rightarrow> persisted"
  nw_unsaved :: "node_id \<Rightarrow> ready list"
  nw_saved :: "node_id \<Rightarrow> ready list"
  nw_sent :: "(node_id \<times> node_id \<times> raft_message) set"
  nw_elected :: "(nat \<times> node_id) set"

definition init_network :: "node_id list \<Rightarrow> raft_config \<Rightarrow> (node_id \<Rightarrow> 64 word) \<Rightarrow> network" where
  "init_network ms cfg seed =
     \<lparr>nw_mem = (\<lambda>n. raft_new n (peers_of ms n) cfg (seed n) default_persisted),
      nw_disk = (\<lambda>_. default_persisted), nw_unsaved = (\<lambda>_. []), nw_saved = (\<lambda>_. []),
      nw_sent = {}, nw_elected = {}\<rparr>"

text \<open>Which operations may happen at a member: a message must have been sent to it.\<close>

fun allowed :: "network \<Rightarrow> node_id \<Rightarrow> raft_op \<Rightarrow> bool" where
  "allowed s n (Step from_node msg) \<longleftrightarrow> (from_node, n, msg) \<in> nw_sent s"
| "allowed s n Drain_Ready \<longleftrightarrow> False"
| "allowed s n op \<longleftrightarrow> True"

definition after_op :: "node_id \<Rightarrow> raft_op \<Rightarrow> network \<Rightarrow> network" where
  "after_op n op s =
     (let r = apply_raft_op op (nw_mem s n) in
      s\<lparr>nw_mem := (nw_mem s)(n := r),
        nw_elected := nw_elected s \<union> (if rf_role r = Leader then {(rf_current_term r, n)} else {})\<rparr>)"

definition after_drain :: "node_id \<Rightarrow> network \<Rightarrow> network" where
  "after_drain n s =
     (let (rd, r) = raft_ready (nw_mem s n);
          s = s\<lparr>nw_mem := (nw_mem s)(n := r)\<rparr>
      in case rd_persist rd of
           None \<Rightarrow> s\<lparr>nw_saved := (nw_saved s)(n := nw_saved s n @ [rd])\<rparr>
         | Some _ \<Rightarrow> s\<lparr>nw_unsaved := (nw_unsaved s)(n := nw_unsaved s n @ [rd])\<rparr>)"

definition after_persist :: "node_id \<Rightarrow> network \<Rightarrow> network" where
  "after_persist n s =
     s\<lparr>nw_disk := (nw_disk s)(n := persisted_snapshot (nw_mem s n)),
       nw_saved := (nw_saved s)(n := nw_saved s n @ nw_unsaved s n),
       nw_unsaved := (nw_unsaved s)(n := [])\<rparr>"

definition after_transmit :: "node_id \<Rightarrow> ready \<Rightarrow> network \<Rightarrow> network" where
  "after_transmit n rd s =
     s\<lparr>nw_sent := nw_sent s \<union> (\<lambda>a. (n, ad_to a, ad_msg a)) ` set (rd_messages rd)\<rparr>"

definition after_restart :: "node_id list \<Rightarrow> raft_config \<Rightarrow> node_id \<Rightarrow> 64 word \<Rightarrow> network \<Rightarrow> network" where
  "after_restart ms cfg n seed s =
     s\<lparr>nw_mem := (nw_mem s)(n := raft_new n (peers_of ms n) cfg seed (nw_disk s n)),
       nw_unsaved := (nw_unsaved s)(n := []), nw_saved := (nw_saved s)(n := [])\<rparr>"

inductive net_step :: "node_id list \<Rightarrow> raft_config \<Rightarrow> network \<Rightarrow> network \<Rightarrow> bool" for ms cfg where
  Operate: "n \<in> set ms \<Longrightarrow> allowed s n op \<Longrightarrow> op_ok op (nw_mem s n) \<Longrightarrow> net_step ms cfg s (after_op n op s)"
| Drain: "n \<in> set ms \<Longrightarrow> net_step ms cfg s (after_drain n s)"
| Persist: "n \<in> set ms \<Longrightarrow> net_step ms cfg s (after_persist n s)"
| Transmit: "n \<in> set ms \<Longrightarrow> rd \<in> set (nw_saved s n) \<Longrightarrow> net_step ms cfg s (after_transmit n rd s)"
| Restart: "n \<in> set ms \<Longrightarrow> net_step ms cfg s (after_restart ms cfg n seed s)"

inductive reachable :: "node_id list \<Rightarrow> raft_config \<Rightarrow> network \<Rightarrow> bool" for ms cfg where
  Init: "reachable ms cfg (init_network ms cfg seed)"
| Step: "reachable ms cfg s \<Longrightarrow> net_step ms cfg s s' \<Longrightarrow> reachable ms cfg s'"

text \<open>
  Orderly runs: a member drains a batch without changes only when no earlier batch of it is still to be
  persisted. The driver does not make sure of it, so this is an assumption on its timing; what needs it
  is what the properties of logs across terms rest on.
\<close>

inductive orderly :: "node_id list \<Rightarrow> raft_config \<Rightarrow> network \<Rightarrow> bool" for ms cfg where
  Init: "orderly ms cfg (init_network ms cfg seed)"
| Operate: "orderly ms cfg s \<Longrightarrow> n \<in> set ms \<Longrightarrow> allowed s n op \<Longrightarrow> op_ok op (nw_mem s n) \<Longrightarrow> orderly ms cfg (after_op n op s)"
| Drain: "orderly ms cfg s \<Longrightarrow> n \<in> set ms \<Longrightarrow> nw_unsaved s n = [] \<or> rf_dirty (nw_mem s n) \<Longrightarrow> orderly ms cfg (after_drain n s)"
| Persist: "orderly ms cfg s \<Longrightarrow> n \<in> set ms \<Longrightarrow> orderly ms cfg (after_persist n s)"
| Transmit: "orderly ms cfg s \<Longrightarrow> n \<in> set ms \<Longrightarrow> rd \<in> set (nw_saved s n) \<Longrightarrow> orderly ms cfg (after_transmit n rd s)"
| Restart: "orderly ms cfg s \<Longrightarrow> n \<in> set ms \<Longrightarrow> orderly ms cfg (after_restart ms cfg n seed s)"

lemma orderly_reachable: "orderly ms cfg s \<Longrightarrow> reachable ms cfg s"
  by (induction rule: orderly.induct)
    (auto intro: reachable.Init reachable.Step [OF _ net_step.Operate] reachable.Step [OF _ net_step.Drain]
      reachable.Step [OF _ net_step.Persist] reachable.Step [OF _ net_step.Transmit] reachable.Step [OF _ net_step.Restart])

inductive_cases net_stepE: "net_step ms cfg s s'"

subsection \<open>The votes of a member\<close>

definition votes_in :: "node_id \<Rightarrow> addressed set \<Rightarrow> (nat \<times> node_id) set" where
  "votes_in m X = (\<Union>a \<in> X. msg_votes m a)"

definition votes_sent :: "network \<Rightarrow> node_id \<Rightarrow> (nat \<times> node_id) set" where
  "votes_sent s m = votes_in m {a. (m, ad_to a, ad_msg a) \<in> nw_sent s}"

definition batch_votes :: "node_id \<Rightarrow> ready list \<Rightarrow> (nat \<times> node_id) set" where
  "batch_votes m bs = (\<Union>b \<in> set bs. votes_in m (set (rd_messages b)))"

definition votes_saved :: "network \<Rightarrow> node_id \<Rightarrow> (nat \<times> node_id) set" where
  "votes_saved s m = votes_sent s m \<union> batch_votes m (nw_saved s m)"

definition votes_all :: "network \<Rightarrow> node_id \<Rightarrow> (nat \<times> node_id) set" where
  "votes_all s m =
     votes_saved s m \<union> batch_votes m (nw_unsaved s m) \<union> votes_in m (set (rf_out (nw_mem s m)))"

lemma votes_sentI:
  assumes "(m, to, msg) \<in> nw_sent s" and "v \<in> msg_votes m \<lparr>ad_to = to, ad_msg = msg\<rparr>"
  shows "v \<in> votes_sent s m"
  unfolding votes_sent_def votes_in_def
  using assms by (intro UN_I [of "\<lparr>ad_to = to, ad_msg = msg\<rparr>"]) simp_all

lemma votes_in_simps [simp]:
  "votes_in m {} = {}" "votes_in m (X \<union> Y) = votes_in m X \<union> votes_in m Y"
  by (auto simp: votes_in_def)

lemma batch_votes_simps [simp]:
  "batch_votes m [] = {}" "batch_votes m (bs @ cs) = batch_votes m bs \<union> batch_votes m cs"
  "batch_votes m [b] = votes_in m (set (rd_messages b))"
  by (auto simp: batch_votes_def)

text \<open>A vote agrees with a term and a choice: not of a later term, and if of this term, this choice.\<close>

definition backs :: "nat \<Rightarrow> node_id option \<Rightarrow> (nat \<times> node_id) set \<Rightarrow> bool" where
  "backs t v V \<longleftrightarrow> (\<forall>(t', c) \<in> V. t' \<le> t \<and> (t' = t \<longrightarrow> v = Some c))"

definition one_per_term :: "(nat \<times> node_id) set \<Rightarrow> bool" where
  "one_per_term V \<longleftrightarrow> (\<forall>t c c'. (t, c) \<in> V \<and> (t, c') \<in> V \<longrightarrow> c = c')"

lemma backs_mono:
  assumes "backs (rf_current_term r) (rf_voted_for r) V" and "vote_mono r r'"
  shows "backs (rf_current_term r') (rf_voted_for r') V"
  using assms unfolding backs_def vote_mono_def by (fastforce dest: le_antisym)

text \<open>The invariant of one member, and what a candidate and a leader rest on.\<close>

definition member_inv :: "node_id list \<Rightarrow> network \<Rightarrow> node_id \<Rightarrow> bool" where
  "member_inv ms s m \<longleftrightarrow>
     rf_id (nw_mem s m) = m \<and> rf_peers (nw_mem s m) = peers_of ms m \<and>
     backs (rf_current_term (nw_mem s m)) (rf_voted_for (nw_mem s m)) (votes_all s m) \<and>
     one_per_term (votes_all s m) \<and>
     backs (ps_current_term (nw_disk s m)) (ps_voted_for (nw_disk s m)) (votes_saved s m) \<and>
     (votes_in m (set (rf_out (nw_mem s m))) \<noteq> {} \<longrightarrow> rf_dirty (nw_mem s m)) \<and>
     (\<forall>(t, c) \<in> votes_all s m. c \<noteq> m \<longrightarrow> (t, c) \<in> votes_sent s c)"

definition supported :: "network \<Rightarrow> nat \<Rightarrow> node_id \<Rightarrow> node_id set \<Rightarrow> bool" where
  "supported s t n Q \<longleftrightarrow> (\<forall>v \<in> Q. v = n \<or> (t, n) \<in> votes_sent s v)"

definition tally_inv :: "network \<Rightarrow> node_id \<Rightarrow> bool" where
  "tally_inv s n \<longleftrightarrow>
     (rf_role (nw_mem s n) = Candidate \<longrightarrow> supported s (rf_current_term (nw_mem s n)) n (rf_votes (nw_mem s n))) \<and>
     (rf_role (nw_mem s n) = Leader \<longrightarrow> (rf_current_term (nw_mem s n), n) \<in> nw_elected s)"

definition elected_inv :: "node_id list \<Rightarrow> network \<Rightarrow> bool" where
  "elected_inv ms s \<longleftrightarrow>
     (\<forall>(t, n) \<in> nw_elected s. n \<in> set ms \<and>
        (\<exists>Q. card (set ms) div 2 + 1 \<le> card Q \<and> supported s t n Q))"

definition net_inv :: "node_id list \<Rightarrow> network \<Rightarrow> bool" where
  "net_inv ms s \<longleftrightarrow>
     (\<forall>m \<in> set ms. member_inv ms s m \<and> tally_inv s m) \<and> elected_inv ms s \<and>
     (\<forall>(f, n, m) \<in> nw_sent s. f \<in> set ms)"

lemma supported_mono:
  "supported s t n Q \<Longrightarrow> nw_sent s \<subseteq> nw_sent s' \<Longrightarrow> supported s' t n Q"
  unfolding supported_def votes_sent_def votes_in_def by blast

lemma votes_sent_mono: "nw_sent s \<subseteq> nw_sent s' \<Longrightarrow> votes_sent s m \<subseteq> votes_sent s' m"
  unfolding votes_sent_def votes_in_def by blast

subsection \<open>An operation of a member\<close>

lemma after_op_sel [simp]:
  "nw_disk (after_op n op s) = nw_disk s" "nw_unsaved (after_op n op s) = nw_unsaved s"
  "nw_saved (after_op n op s) = nw_saved s" "nw_sent (after_op n op s) = nw_sent s"
  "nw_mem (after_op n op s) = (nw_mem s)(n := apply_raft_op op (nw_mem s n))"
  by (simp_all add: after_op_def Let_def)

lemma votes_after_op [simp]:
  "votes_sent (after_op n op s) m = votes_sent s m"
  "votes_saved (after_op n op s) m = votes_saved s m"
  "m \<noteq> n \<Longrightarrow> votes_all (after_op n op s) m = votes_all s m"
  by (simp_all add: votes_sent_def votes_saved_def votes_all_def)

lemma op_source_sent:
  assumes "allowed s n op" and "op_source op = Some (c, t)"
  shows "(t, c) \<in> votes_sent s c"
proof -
  obtain req where req: "op = raft_op.Step c (RequestVote req)" "\<not> rv_pre_vote req" "rv_term req = t"
    using assms(2) by (auto simp: op_source_def split: raft_op.splits raft_message.splits if_splits)
  with assms(1) have sent: "(c, n, RequestVote req) \<in> nw_sent s" by simp
  show ?thesis by (rule votes_sentI [OF sent]) (use req in simp)
qed

lemma op_voter_sent:
  assumes "allowed s n op" and "v \<in> op_voter op r"
  shows "(rf_current_term r, n) \<in> votes_sent s v"
proof -
  obtain resp where resp: "op = raft_op.Step v (RequestVoteResp resp)" "rvr_granted resp" "\<not> rvr_pre_vote resp"
    "rvr_term resp = rf_current_term r"
    using assms(2) by (auto simp: op_voter_def split: raft_op.splits raft_message.splits if_splits)
  with assms(1) have sent: "(v, n, RequestVoteResp resp) \<in> nw_sent s" by simp
  show ?thesis by (rule votes_sentI [OF sent]) (use resp in simp)
qed

lemma member_inv_op:
  assumes inv: "member_inv ms s n" and al: "allowed s n op" and room: "has_room (nw_mem s n)"
  shows "member_inv ms (after_op n op s) n"
proof -
  let ?r = "nw_mem s n" and ?r' = "apply_raft_op op (nw_mem s n)" and ?s' = "after_op n op s"
  have nd: "op \<noteq> Drain_Ready" using al by auto
  obtain fresh where out: "rf_out ?r' = rf_out ?r @ fresh"
    and ok: "\<forall>a \<in> set fresh. vote_ok (op_source op) ?r' a"
    using op_sends [OF nd, of ?r] by (auto simp: sends_def)
  define N where "N = votes_in n (set fresh)"
  have all: "votes_all ?s' n = votes_all s n \<union> N"
    by (auto simp: votes_all_def out N_def)
  have id: "rf_id ?r' = n" using inv by (simp add: member_inv_def)
  have N: "t = rf_current_term ?r' \<and> rf_voted_for ?r' = Some c \<and> rf_dirty ?r' \<and>
      (c = n \<or> op_source op = Some (c, t))" if vote: "(t, c) \<in> N" for t c
  proof -
    obtain a where a: "a \<in> set fresh" "(t, c) \<in> msg_votes n a"
      using vote unfolding N_def votes_in_def by blast
    have "vote_ok (op_source op) ?r' a" using ok a(1) by blast
    then show ?thesis using a(2) unfolding vote_ok_def id by (auto dest: bspec)
  qed
  have "backs (rf_current_term ?r') (rf_voted_for ?r') (votes_all s n)"
    using inv backs_mono vote_mono_op [OF room] by (auto simp: member_inv_def)
  then have b: "backs (rf_current_term ?r') (rf_voted_for ?r') (votes_all ?s' n)"
    using N unfolding all backs_def by blast
  have "one_per_term (votes_all ?s' n)"
    unfolding one_per_term_def
  proof (intro allI impI)
    fix t c c' assume cc: "(t, c) \<in> votes_all ?s' n \<and> (t, c') \<in> votes_all ?s' n"
    show "c = c'"
    proof (cases "t = rf_current_term ?r'")
      case True
      with b cc have "rf_voted_for ?r' = Some c" "rf_voted_for ?r' = Some c'" by (auto simp: backs_def)
      then show ?thesis by simp
    next
      case False
      then have "(t, c) \<in> votes_all s n" "(t, c') \<in> votes_all s n" using cc N all by auto
      with inv show ?thesis by (auto simp: member_inv_def one_per_term_def)
    qed
  qed
  moreover have "rf_dirty ?r'" if "votes_in n (set (rf_out ?r')) \<noteq> {}"
  proof (cases "N = {}")
    case True
    with that out inv show ?thesis using op_dirty [OF _ nd] by (auto simp: N_def member_inv_def)
  next
    case False
    with N show ?thesis by force
  qed
  moreover have "(t, c) \<in> votes_sent s c" if "(t, c) \<in> votes_all ?s' n" "c \<noteq> n" for t c
    using that inv N all op_source_sent [OF al] by (fastforce simp: member_inv_def)
  ultimately show ?thesis
    using inv b by (auto simp: member_inv_def)
qed

lemma tally_inv_op:
  assumes inv: "tally_inv s n" and al: "allowed s n op" and id: "rf_id (nw_mem s n) = n"
  shows "tally_inv (after_op n op s) n"
proof -
  let ?r = "nw_mem s n" and ?r' = "apply_raft_op op (nw_mem s n)"
  have "supported s (rf_current_term ?r') n (rf_votes ?r')" if "rf_role ?r' = Candidate"
    using op_role [of op ?r] that inv id op_voter_sent [OF al, of _ ?r]
    by (fastforce simp: role_ok_def tally_inv_def supported_def)
  then show ?thesis
    by (auto simp: tally_inv_def supported_def after_op_def Let_def votes_sent_def)
qed

lemma elected_inv_op:
  assumes inv: "elected_inv ms s" and tally: "tally_inv s n" and al: "allowed s n op"
    and id: "rf_id (nw_mem s n) = n" and peers: "rf_peers (nw_mem s n) = peers_of ms n"
    and ms: "distinct ms" "n \<in> set ms"
  shows "elected_inv ms (after_op n op s)"
proof -
  let ?r = "nw_mem s n" and ?r' = "apply_raft_op op (nw_mem s n)"
  have sup: "supported (after_op n op s) t m Q \<longleftrightarrow> supported s t m Q" for t m Q
    by (simp add: supported_def)
  have "\<exists>Q. card (set ms) div 2 + 1 \<le> card Q \<and> supported s (rf_current_term ?r') n Q"
    if "rf_role ?r' = Leader"
  proof -
    have "rf_role ?r = Leader \<and> rf_current_term ?r' = rf_current_term ?r \<or>
      (\<exists>W. quorum ?r \<le> card W \<and> (W \<subseteq> {n} \<or>
        (rf_role ?r = Candidate \<and> rf_current_term ?r' = rf_current_term ?r \<and> W \<subseteq> rf_votes ?r \<union> op_voter op ?r)))"
      using op_role [of op ?r] that unfolding role_ok_def id by simp
    then consider "rf_role ?r = Leader" "rf_current_term ?r' = rf_current_term ?r"
      | W where "quorum ?r \<le> card W" "W \<subseteq> {n}"
      | W where "quorum ?r \<le> card W" "rf_role ?r = Candidate" "rf_current_term ?r' = rf_current_term ?r"
        "W \<subseteq> rf_votes ?r \<union> op_voter op ?r"
      by blast
    then show ?thesis
    proof cases
      case 1
      then have "(rf_current_term ?r', n) \<in> nw_elected s" using tally by (simp add: tally_inv_def)
      with inv show ?thesis by (auto simp: elected_inv_def)
    next
      case (2 W)
      then have "supported s (rf_current_term ?r') n W" by (auto simp: supported_def)
      with 2 quorum_of_group [OF ms peers] show ?thesis by auto
    next
      case (3 W)
      then have "supported s (rf_current_term ?r') n W"
        using tally op_voter_sent [OF al, of _ ?r] by (fastforce simp: tally_inv_def supported_def)
      with 3 quorum_of_group [OF ms peers] show ?thesis by auto
    qed
  qed
  moreover have "nw_elected (after_op n op s) = nw_elected s" if "rf_role ?r' \<noteq> Leader"
    using that by (auto simp: after_op_def Let_def)
  moreover have "nw_elected (after_op n op s) = insert (rf_current_term ?r', n) (nw_elected s)" if "rf_role ?r' = Leader"
    using that by (auto simp: after_op_def Let_def)
  ultimately show ?thesis
    using inv ms(2) by (cases "rf_role ?r' = Leader") (auto simp: elected_inv_def sup)
qed

text \<open>The other members are not concerned.\<close>

lemma other_member_inv:
  assumes "member_inv ms s m" and "m \<noteq> n"
    and "nw_mem s' m = nw_mem s m" "nw_disk s' m = nw_disk s m" "nw_saved s' m = nw_saved s m"
      "nw_unsaved s' m = nw_unsaved s m"
    and "\<And>to msg. (m, to, msg) \<in> nw_sent s' \<longleftrightarrow> (m, to, msg) \<in> nw_sent s"
    and "nw_sent s \<subseteq> nw_sent s'"
  shows "member_inv ms s' m"
proof -
  have "votes_sent s' m = votes_sent s m" using assms(7) by (simp add: votes_sent_def)
  then have "votes_saved s' m = votes_saved s m" "votes_all s' m = votes_all s m"
    using assms(3-6) by (simp_all add: votes_saved_def votes_all_def)
  with assms(1,3,4) votes_sent_mono [OF assms(8)] show ?thesis
    by (fastforce simp: member_inv_def)
qed

lemma other_tally_inv:
  assumes "tally_inv s m" and "nw_mem s' m = nw_mem s m"
    and "nw_sent s \<subseteq> nw_sent s'" and "nw_elected s \<subseteq> nw_elected s'"
  shows "tally_inv s' m"
  using assms supported_mono [OF _ assms(3)] by (auto simp: tally_inv_def)

lemma net_inv_op:
  assumes inv: "net_inv ms s" and n: "n \<in> set ms" and al: "allowed s n op"
    and ok: "op_ok op (nw_mem s n)" and ms: "distinct ms"
  shows "net_inv ms (after_op n op s)"
proof -
  have m: "member_inv ms s n" "tally_inv s n" using inv n by (simp_all add: net_inv_def)
  then have id: "rf_id (nw_mem s n) = n" "rf_peers (nw_mem s n) = peers_of ms n"
    by (simp_all add: member_inv_def)
  have el: "nw_elected s \<subseteq> nw_elected (after_op n op s)" by (auto simp: after_op_def Let_def)
  have "member_inv ms (after_op n op s) k \<and> tally_inv (after_op n op s) k" if "k \<in> set ms" for k
  proof (cases "k = n")
    case True
    with member_inv_op [OF m(1) al op_ok_room [OF ok]] tally_inv_op [OF m(2) al id(1)] show ?thesis by simp
  next
    case False
    with that inv el show ?thesis
      by (auto simp: net_inv_def intro: other_member_inv [of ms s k n] other_tally_inv [of s k])
  qed
  moreover have "elected_inv ms (after_op n op s)"
    using elected_inv_op [OF _ m(2) al id ms n] inv by (simp add: net_inv_def)
  ultimately show ?thesis using inv by (simp add: net_inv_def)
qed

subsection \<open>Draining, persisting, transmitting, restarting\<close>

lemma elected_inv_mono:
  assumes "elected_inv ms s" and "nw_elected s' = nw_elected s" and "nw_sent s \<subseteq> nw_sent s'"
  shows "elected_inv ms s'"
  unfolding elected_inv_def assms(2)
proof clarify
  fix t n assume "(t, n) \<in> nw_elected s"
  then obtain Q where "n \<in> set ms" "card (set ms) div 2 + 1 \<le> card Q" "supported s t n Q"
    using assms(1) by (auto simp: elected_inv_def)
  then show "n \<in> set ms \<and> (\<exists>Q. card (set ms) div 2 + 1 \<le> card Q \<and> supported s' t n Q)"
    using supported_mono [OF _ assms(3)] by blast
qed

lemma net_inv_local:
  assumes inv: "net_inv ms s" and sent: "nw_sent s' = nw_sent s" and el: "nw_elected s' = nw_elected s"
    and other: "\<And>k. k \<noteq> n \<Longrightarrow> nw_mem s' k = nw_mem s k \<and> nw_disk s' k = nw_disk s k \<and>
      nw_saved s' k = nw_saved s k \<and> nw_unsaved s' k = nw_unsaved s k"
    and here: "member_inv ms s' n" "tally_inv s' n"
  shows "net_inv ms s'"
proof -
  have "member_inv ms s' k \<and> tally_inv s' k" if "k \<in> set ms" for k
  proof (cases "k = n")
    case False
    have "member_inv ms s k" "tally_inv s k" using inv that by (simp_all add: net_inv_def)
    with False other [OF False] sent el show ?thesis
      by (auto intro: other_member_inv [of ms s k n] other_tally_inv [of s k])
  qed (use here in simp)
  with inv sent el elected_inv_mono [of ms s s'] show ?thesis by (auto simp: net_inv_def)
qed

lemma drain_sel:
  "rf_out (snd (raft_ready r)) = []" "rd_messages (fst (raft_ready r)) = rf_out r"
  "rd_persist (fst (raft_ready r)) = None \<longleftrightarrow> \<not> rf_dirty r"
  by (simp_all add: raft_ready_def Let_def)

lemma net_inv_drain:
  assumes inv: "net_inv ms s" and n: "n \<in> set ms"
  shows "net_inv ms (after_drain n s)"
proof -
  let ?rd = "fst (raft_ready (nw_mem s n))" and ?r = "snd (raft_ready (nw_mem s n))"
  have m: "member_inv ms s n" "tally_inv s n" using inv n by (simp_all add: net_inv_def)
  have eq: "after_drain n s =
    (let s1 = s\<lparr>nw_mem := (nw_mem s)(n := ?r)\<rparr> in
     if rf_dirty (nw_mem s n) then s1\<lparr>nw_unsaved := (nw_unsaved s)(n := nw_unsaved s n @ [?rd])\<rparr>
     else s1\<lparr>nw_saved := (nw_saved s)(n := nw_saved s n @ [?rd])\<rparr>)"
    using drain_sel(3) [of "nw_mem s n"]
    by (auto simp: after_drain_def Let_def case_prod_beta split: option.splits)
  have sent: "votes_sent (after_drain n s) k = votes_sent s k" for k
    by (simp add: eq Let_def votes_sent_def)
  have saved: "votes_saved (after_drain n s) n = votes_saved s n"
    using m(1) sent drain_sel(2) [of "nw_mem s n"]
    by (auto simp: votes_saved_def eq Let_def member_inv_def)
  have all: "votes_all (after_drain n s) n = votes_all s n"
    using m(1) sent drain_sel [of "nw_mem s n"]
    by (auto simp: votes_all_def votes_saved_def eq Let_def member_inv_def)
  have mem: "nw_mem (after_drain n s) n = ?r" "nw_disk (after_drain n s) = nw_disk s"
    "nw_elected (after_drain n s) = nw_elected s"
    by (simp_all add: eq Let_def)
  have "member_inv ms (after_drain n s) n"
    using m(1) drain_sel(1) [of "nw_mem s n"] by (simp add: member_inv_def mem saved all sent)
  moreover have "tally_inv (after_drain n s) n"
    using m(2) by (simp add: tally_inv_def supported_def sent mem)
  ultimately show ?thesis
    by (intro net_inv_local [OF inv, of _ n]) (simp_all add: eq Let_def)
qed

lemma net_inv_persist:
  assumes inv: "net_inv ms s" and n: "n \<in> set ms"
  shows "net_inv ms (after_persist n s)"
proof -
  have m: "member_inv ms s n" "tally_inv s n" using inv n by (simp_all add: net_inv_def)
  have sent: "votes_sent (after_persist n s) k = votes_sent s k" for k
    by (simp add: after_persist_def votes_sent_def)
  have all: "votes_all (after_persist n s) n = votes_all s n"
    by (auto simp: votes_all_def votes_saved_def sent) (auto simp: after_persist_def)
  have sub: "votes_saved (after_persist n s) n \<subseteq> votes_all s n"
    by (auto simp: votes_all_def votes_saved_def sent) (auto simp: after_persist_def)
  have "member_inv ms (after_persist n s) n"
    using m(1) sub
    by (auto simp: member_inv_def all sent backs_def)
      (auto simp: after_persist_def persisted_snapshot_def)
  moreover have "tally_inv (after_persist n s) n"
    using m(2) by (auto simp: tally_inv_def supported_def sent) (auto simp: after_persist_def)
  ultimately show ?thesis
    by (intro net_inv_local [OF inv, of _ n]) (simp_all add: after_persist_def)
qed

lemma net_inv_restart:
  assumes inv: "net_inv ms s" and n: "n \<in> set ms"
  shows "net_inv ms (after_restart ms cfg n seed s)"
proof -
  let ?s' = "after_restart ms cfg n seed s"
  have m: "member_inv ms s n" using inv n by (simp add: net_inv_def)
  have mem: "nw_mem ?s' n = raft_new n (peers_of ms n) cfg seed (nw_disk s n)" "nw_disk ?s' = nw_disk s"
    "nw_saved ?s' n = []" "nw_unsaved ?s' n = []" "rf_out (nw_mem ?s' n) = []"
    by (simp_all add: after_restart_def raft_new_def)
  have sent: "votes_sent ?s' k = votes_sent s k" for k by (simp add: after_restart_def votes_sent_def)
  have saved: "votes_saved ?s' n = votes_sent s n" "votes_all ?s' n = votes_sent s n"
    by (simp_all add: votes_saved_def votes_all_def sent mem)
  have sub: "votes_sent s n \<subseteq> votes_saved s n" "votes_sent s n \<subseteq> votes_all s n"
    by (auto simp: votes_saved_def votes_all_def)
  have "one_per_term (votes_sent s n)"
    using m sub(2) unfolding member_inv_def one_per_term_def by blast
  moreover have "backs (ps_current_term (nw_disk s n)) (ps_voted_for (nw_disk s n)) (votes_sent s n)"
    using m sub(1) unfolding member_inv_def backs_def by blast
  moreover have "\<forall>(t, c) \<in> votes_sent s n. c \<noteq> n \<longrightarrow> (t, c) \<in> votes_sent s c"
    using m sub(2) unfolding member_inv_def by blast
  ultimately have "member_inv ms ?s' n"
    by (simp add: member_inv_def saved sent mem raft_new_def)
  moreover have "tally_inv ?s' n" by (simp add: tally_inv_def mem)
  ultimately show ?thesis
    by (intro net_inv_local [OF inv, of _ n]) (simp_all add: after_restart_def)
qed

lemma net_inv_transmit:
  assumes inv: "net_inv ms s" and n: "n \<in> set ms" and rd: "rd \<in> set (nw_saved s n)"
  shows "net_inv ms (after_transmit n rd s)"
proof -
  let ?s' = "after_transmit n rd s"
  have m: "member_inv ms s n" using inv n by (simp add: net_inv_def)
  have fr: "nw_mem ?s' = nw_mem s" "nw_disk ?s' = nw_disk s" "nw_saved ?s' = nw_saved s"
    "nw_unsaved ?s' = nw_unsaved s" "nw_elected ?s' = nw_elected s" "nw_sent s \<subseteq> nw_sent ?s'"
    by (auto simp: after_transmit_def)
  have new: "votes_sent ?s' n \<subseteq> votes_sent s n \<union> votes_in n (set (rd_messages rd))"
  proof
    fix v assume "v \<in> votes_sent ?s' n"
    then obtain a where a: "(n, ad_to a, ad_msg a) \<in> nw_sent ?s'" "v \<in> msg_votes n a"
      by (auto simp: votes_sent_def votes_in_def)
    then consider "(n, ad_to a, ad_msg a) \<in> nw_sent s" | b where "b \<in> set (rd_messages rd)" "ad_to b = ad_to a" "ad_msg b = ad_msg a"
      by (auto simp: after_transmit_def)
    then show "v \<in> votes_sent s n \<union> votes_in n (set (rd_messages rd))"
    proof cases
      case 2
      have "v \<in> msg_votes n b" using a(2) unfolding msg_votes_def 2(2,3) .
      with 2(1) show ?thesis by (auto simp: votes_in_def)
    qed (use a in \<open>auto simp: votes_sent_def votes_in_def\<close>)
  qed
  have batch: "votes_in n (set (rd_messages rd)) \<subseteq> batch_votes n (nw_saved s n)"
    using rd by (auto simp: batch_votes_def)
  have saved: "votes_saved ?s' n = votes_saved s n"
    using new batch votes_sent_mono [OF fr(6), of n] by (auto simp: votes_saved_def fr)
  then have all: "votes_all ?s' n = votes_all s n" by (simp add: votes_all_def fr)
  have "member_inv ms ?s' n"
    using m votes_sent_mono [OF fr(6)] by (fastforce simp: member_inv_def fr saved all)
  moreover have "member_inv ms ?s' k" if "k \<in> set ms" "k \<noteq> n" for k
  proof (rule other_member_inv [of ms s k n])
    show "member_inv ms s k" using inv that(1) by (simp add: net_inv_def)
    show "(k, to, msg) \<in> nw_sent ?s' \<longleftrightarrow> (k, to, msg) \<in> nw_sent s" for to msg
      using that(2) by (auto simp: after_transmit_def)
  qed (simp_all add: fr that)
  moreover have "tally_inv ?s' k" if "k \<in> set ms" for k
  proof (rule other_tally_inv [of s k])
    show "tally_inv s k" using inv that by (simp add: net_inv_def)
  qed (simp_all add: fr)
  moreover have "elected_inv ms ?s'"
    using inv elected_inv_mono [OF _ fr(5,6)] by (simp add: net_inv_def)
  moreover have "\<forall>(f, k, msg) \<in> nw_sent ?s'. f \<in> set ms"
    using inv n by (auto simp: net_inv_def after_transmit_def)
  ultimately show ?thesis unfolding net_inv_def by blast
qed

subsection \<open>Reachable networks\<close>

lemma net_inv_init: "net_inv ms (init_network ms cfg seed)"
  by (auto simp: net_inv_def member_inv_def tally_inv_def elected_inv_def init_network_def votes_all_def
      votes_saved_def votes_sent_def backs_def one_per_term_def)

lemma net_inv_step: "net_step ms cfg s s' \<Longrightarrow> net_inv ms s \<Longrightarrow> distinct ms \<Longrightarrow> net_inv ms s'"
  by (erule net_stepE)
    (auto intro: net_inv_op net_inv_drain net_inv_persist net_inv_transmit net_inv_restart)

lemma net_inv_reachable: "reachable ms cfg s \<Longrightarrow> distinct ms \<Longrightarrow> net_inv ms s"
  by (induction rule: reachable.induct) (auto intro: net_inv_init net_inv_step)

lemma supported_vote:
  assumes inv: "net_inv ms s" and sup: "supported s t n Q" and x: "x \<in> Q" "z \<in> Q" "z \<noteq> n" and "z \<in> set ms"
  shows "(t, n) \<in> votes_sent s x"
proof (cases "x = n")
  case True
  have "(t, n) \<in> votes_sent s z" using sup x by (auto simp: supported_def)
  moreover have "votes_sent s z \<subseteq> votes_all s z" by (auto simp: votes_all_def votes_saved_def)
  moreover have "member_inv ms s z" using inv \<open>z \<in> set ms\<close> by (simp add: net_inv_def)
  ultimately have "(t, n) \<in> votes_sent s n" using x(3) by (fastforce simp: member_inv_def)
  with True show ?thesis by simp
qed (use sup x in \<open>auto simp: supported_def\<close>)

lemma supporters_are_members:
  assumes "net_inv ms s" and "supported s t n Q" and "n \<in> set ms"
  shows "Q \<subseteq> set ms"
proof
  fix v assume "v \<in> Q"
  with assms(2) have "v = n \<or> votes_sent s v \<noteq> {}" by (auto simp: supported_def)
  moreover have "\<exists>to msg. (v, to, msg) \<in> nw_sent s" if "votes_sent s v \<noteq> {}"
    using that by (auto simp: votes_sent_def votes_in_def)
  ultimately show "v \<in> set ms" using assms(1,3) by (auto simp: net_inv_def)
qed

lemma elected_unique:
  assumes inv: "net_inv ms s" and a: "(t, a) \<in> nw_elected s" and b: "(t, b) \<in> nw_elected s"
  shows "a = b"
proof (rule ccontr)
  assume ne: "a \<noteq> b"
  obtain A where A: "a \<in> set ms" "card (set ms) div 2 + 1 \<le> card A" "supported s t a A"
    using inv a by (auto simp: net_inv_def elected_inv_def)
  obtain B where B: "b \<in> set ms" "card (set ms) div 2 + 1 \<le> card B" "supported s t b B"
    using inv b by (auto simp: net_inv_def elected_inv_def)
  have sub: "A \<subseteq> set ms" "B \<subseteq> set ms"
    using supporters_are_members [OF inv] A(1,3) B(1,3) by auto
  obtain x where x: "x \<in> A" "x \<in> B" using grp.intersect [OF sub A(2) B(2)] .
  obtain za where za: "za \<in> A" "za \<noteq> a" using grp.not_alone [OF sub(1) A(2) A(1) B(1) ne] .
  obtain zb where zb: "zb \<in> B" "zb \<noteq> b" using grp.not_alone [OF sub(2) B(2) B(1) A(1)] ne by metis
  have "(t, a) \<in> votes_sent s x" using supported_vote [OF inv A(3) x(1) za] za(1) sub(1) by blast
  moreover have "(t, b) \<in> votes_sent s x" using supported_vote [OF inv B(3) x(2) zb] zb(1) sub(2) by blast
  moreover have "member_inv ms s x" using inv x(1) sub(1) by (auto simp: net_inv_def)
  ultimately have "a = b" by (auto simp: member_inv_def one_per_term_def votes_all_def votes_saved_def)
  with ne show False by simp
qed

definition lone_config :: raft_config where
  "lone_config = \<lparr>heartbeat_ticks = 1, election_min_ticks = 1, election_max_ticks = 1\<rparr>"

definition lone_leader :: network where
  "lone_leader = after_op ''a'' Tick (init_network [''a''] lone_config (\<lambda>_. 7))"

lemma lone_leader_elected:
  "nw_elected lone_leader = {(1, ''a'')}" "rf_role (nw_mem lone_leader ''a'') = Leader"
  "rf_current_term (nw_mem lone_leader ''a'') = 1"
proof -
  let ?r = "raft_new ''a'' [] lone_config 7 default_persisted"
  let ?t = "?r\<lparr>rf_election_elapsed := add64 (rf_election_elapsed ?r) 1\<rparr>"
  have "rf_randomized_election_timeout ?r = 1" "rf_election_elapsed ?r = 0"
    by (simp_all add: raft_new_def reset_election_timer_def next_rand_def Let_def lone_config_def)
  then have "raft_tick ?r = start_pre_election ?t" by (simp add: raft_tick_def add64_def)
  then have "rf_role (raft_tick ?r) = Leader" "rf_current_term (raft_tick ?r) = 1"
    by (simp_all add: start_pre_election_eq maybe_win_pre_election_def start_election_eq maybe_win_election_def
        send_all_def quorum_def default_persisted_def add64_def)
  then show "nw_elected lone_leader = {(1, ''a'')}" "rf_role (nw_mem lone_leader ''a'') = Leader"
    "rf_current_term (nw_mem lone_leader ''a'') = 1"
    by (simp_all add: lone_leader_def after_op_def init_network_def peers_of_def Let_def)
qed

lemma lone_leader_reachable: "reachable [''a''] lone_config lone_leader"
  unfolding lone_leader_def
proof (rule reachable.Step [OF reachable.Init net_step.Operate])
  show "op_ok Tick (nw_mem (init_network [''a''] lone_config (\<lambda>_. 7)) ''a'')"
    by (simp add: init_network_def has_room_def log_room_def last_index_def default_persisted_def add64_def u64_max_def)
qed simp_all

text \<open>
  C1. Election safety of the replicated brain. In every execution of a group of distinct members, with
  messages lost, delayed, reordered or duplicated and members crashing and restarting from their
  durable state at any point, at most one member ever becomes leader in a term; in particular no two
  members lead in the same term at the same time.
\<close>

theorem election_safety:
  assumes "reachable ms cfg s" and "distinct ms"
  shows "((t, a) \<in> nw_elected s \<longrightarrow> (t, b) \<in> nw_elected s \<longrightarrow> a = b) \<and>
    (a \<in> set ms \<and> b \<in> set ms \<and> rf_role (nw_mem s a) = Leader \<and> rf_role (nw_mem s b) = Leader \<and>
      rf_current_term (nw_mem s a) = rf_current_term (nw_mem s b) \<longrightarrow> a = b)"
proof -
  have inv: "net_inv ms s" by (rule net_inv_reachable [OF assms])
  have "(rf_current_term (nw_mem s m), m) \<in> nw_elected s" if "m \<in> set ms" "rf_role (nw_mem s m) = Leader" for m
    using inv that by (simp add: net_inv_def tally_inv_def)
  with elected_unique [OF inv] show ?thesis by metis
qed

theorem election_safety_witness:
  "{b. (1, b) \<in> nw_elected lone_leader} = {''a''}"
  using election_safety [OF lone_leader_reachable, of 1 _ "''a''"] lone_leader_elected(1) by auto

text \<open>
  C7. A vote that has left a member is durable: in every execution of the group, whatever term and
  candidate the messages a member ever sent vote for, its durable state knows a term at least as late
  and, in that very term, exactly that candidate. A member therefore sends votes for one candidate per
  term only, however often it crashes and restarts.
\<close>

theorem sent_votes_are_durable:
  assumes "reachable ms cfg s" and "distinct ms" and "m \<in> set ms"
  shows "backs (ps_current_term (nw_disk s m)) (ps_voted_for (nw_disk s m)) (votes_sent s m) \<and>
    one_per_term (votes_sent s m)"
proof -
  have inv: "member_inv ms s m" using net_inv_reachable [OF assms(1,2)] assms(3) by (simp add: net_inv_def)
  have sub: "votes_sent s m \<subseteq> votes_saved s m" "votes_sent s m \<subseteq> votes_all s m"
    by (auto simp: votes_saved_def votes_all_def)
  show ?thesis using inv sub unfolding member_inv_def backs_def one_per_term_def by blast
qed

theorem sent_votes_are_durable_witness:
  "one_per_term (votes_sent lone_leader ''a'') \<and> rf_role (nw_mem lone_leader ''a'') = Leader"
  using sent_votes_are_durable [OF lone_leader_reachable, of "''a''"] lone_leader_elected(2) by simp

end
