(* ===== verification/Log_Matching.thy ===== *)
theory Log_Matching
  imports Raft_Network
begin

section \<open>Agreement of the logs of a group\<close>

text \<open>
  Two logs of a group that hold an entry of the same term at the same index agree on everything before
  it. A log is read as the set of its cells: an entry together with the term of its predecessor. Every
  operation of an engine takes its cells from its own log and from the request it handles, but for the one
  entry that a leader appends; since a term has one leader, a cell is determined by its index and term
  in the whole group.
\<close>

subsection \<open>Cells\<close>

type_synonym cell = "nat \<times> nat \<times> nat \<times> command option"

primrec cells :: "nat \<Rightarrow> log_entry list \<Rightarrow> cell set" where
  "cells p [] = {}"
| "cells p (e # es) = insert (le_index e, le_term e, p, le_command e) (cells (le_term e) es)"

definition log_cells :: "raft \<Rightarrow> cell set" where
  "log_cells r = cells (rf_base_term r) (rf_log r)"

fun msg_cells :: "raft_message \<Rightarrow> cell set" where
  "msg_cells (AppendEntries req) = cells (ae_prev_log_term req) (ae_entries req)"
| "msg_cells msg = {}"

definition carries :: "raft \<Rightarrow> addressed \<Rightarrow> bool" where
  "carries r a \<longleftrightarrow> msg_cells (ad_msg a) \<subseteq> log_cells r"

lemma cells_append: "cells p (xs @ ys) = cells p xs \<union> cells (last_slab_term p xs) ys"
  by (induction xs arbitrary: p) (auto simp: last_slab_term_def)

lemma cells_take: "cells p (take k es) \<subseteq> cells p es"
  by (metis append_take_drop_id cells_append Un_upper1)

lemma cells_drop: "cells (last_slab_term p (take k es)) (drop k es) \<subseteq> cells p es"
  by (metis append_take_drop_id cells_append Un_upper2)

lemma log_cells_cong:
  "rf_base_term r' = rf_base_term r \<Longrightarrow> rf_log r' = rf_log r \<Longrightarrow> log_cells r' = log_cells r"
  by (simp add: log_cells_def)

lemma carries_cong: "log_cells r' = log_cells r \<Longrightarrow> carries r' = carries r"
  by (simp add: fun_eq_iff carries_def)

lemma slab_term_take:
  assumes "b \<le> i" and "i \<le> b + length es"
  shows "slab_term b bt es i = last_slab_term bt (take (i - b) es)"
proof (cases "i = b")
  case False
  then have "take (i - b) es \<noteq> []" "length (take (i - b) es) = i - b" using assms by auto
  with False assms show ?thesis
    by (simp add: slab_term_def last_slab_term_def last_conv_nth)
qed (simp add: slab_term_def last_slab_term_def)

text \<open>The last index of the log fits its \<open>u64\<close>.\<close>

abbreviation fits :: "raft \<Rightarrow> bool" where
  "fits r \<equiv> rf_base_index r + length (rf_log r) \<le> u64_max"

lemma raft_wf_fits: "raft_wf r \<Longrightarrow> fits r"
  by (simp add: raft_wf_def wf_log_def)

lemma append_request_cells:
  assumes "fits r" and "rf_base_index r < next"
  shows "msg_cells (AppendEntries (append_request r next)) \<subseteq> log_cells r"
proof (cases "next \<le> last_index r")
  case True
  have len: "last_index r = rf_base_index r + length (rf_log r)" by (rule last_index_eq [OF assms(1)])
  have "log_slot r next = Some (next - rf_base_index r - 1)"
    using True assms(2) by (simp add: log_slot_def)
  moreover have "term_at r (next - 1) = last_slab_term (rf_base_term r) (take (next - 1 - rf_base_index r) (rf_log r))"
    using True assms(2) len by (simp add: term_at_eq [OF assms(1)] slab_term_take)
  ultimately show ?thesis
    using cells_drop [of "rf_base_term r" "next - rf_base_index r - 1" "rf_log r"]
    by (simp add: append_request_def log_cells_def)
qed (simp add: append_request_def log_slot_def)

subsection \<open>What an engine sends\<close>

lemma sends_foldl_inv:
  assumes "\<And>s p. I s \<Longrightarrow> sends s (f s p) P \<and> I (f s p)" and "I r"
  shows "sends r (foldl f r ps) P"
  using assms(2)
proof (induction ps arbitrary: r)
  case (Cons p ps)
  then have "sends r (f r p) P" "sends (f r p) (foldl f (f r p) ps) P" using assms(1) by blast+
  then show ?case by (simp add: sends_trans)
qed (simp add: sends_same)

text \<open>Only append requests carry cells, and these are cells of the sender's log.\<close>

lemma sends_send_append_cells:
  assumes "fits r" and "log_cells r = log_cells q"
  shows "sends r (send_append p r) (carries q)"
proof -
  have "carries q \<lparr>ad_to = p, ad_msg = AppendEntries (append_request r n)\<rparr>" if "rf_base_index r < n" for n
    using append_request_cells [OF assms(1) that] assms(2) by (auto simp: carries_def)
  then show ?thesis
    by (auto simp: send_append_def send_snapshot_def Let_def carries_def split: option.splits
        intro!: sends_send intro: sends_same)
qed

lemma sends_broadcast_cells:
  assumes "fits r" and "log_cells r = log_cells q"
  shows "sends r (broadcast_append r) (carries q)"
  unfolding broadcast_append_def
proof (rule sends_foldl_inv [of "\<lambda>s. fits s \<and> log_cells s = log_cells q"])
  fix s p assume s: "fits s \<and> log_cells s = log_cells q"
  moreover have "log_cells (send_append p s) = log_cells s" by (rule log_cells_cong) simp_all
  ultimately show "sends s (send_append p s) (carries q) \<and> fits (send_append p s) \<and> log_cells (send_append p s) = log_cells q"
    by (simp add: sends_send_append_cells)
qed (use assms in simp)

lemma sends_broadcast_from:
  assumes "fits r" and "log_cells r = log_cells q" and "rf_out p = rf_out r"
  shows "sends p (broadcast_append r) (carries q)"
  using sends_broadcast_cells [OF assms(1,2)] assms(3) by (simp add: sends_cong [of p r])

subsection \<open>What an operation does to the log\<close>

text \<open>
  The cells after an operation are cells of the log before it or of \<open>X\<close>, what the request brought; or the
  member leads and has appended one entry. A member that leads without appending led before.
\<close>

definition log_step :: "cell set \<Rightarrow> raft \<Rightarrow> raft \<Rightarrow> bool" where
  "log_step X r r' \<longleftrightarrow>
     sends r r' (carries r') \<and>
     (log_cells r' \<subseteq> log_cells r \<union> X \<and>
        (rf_role r' = Leader \<longrightarrow>
           rf_role r = Leader \<and> rf_current_term r' = rf_current_term r \<and> last_index r' = last_index r) \<or>
      rf_role r' = Leader \<and> last_index r' = last_index r + 1 \<and>
        (\<exists>c. log_cells r' \<subseteq> insert (last_index r', rf_current_term r', last_term r, c) (log_cells r)))"

lemma log_step_same:
  assumes "rf_log r' = rf_log r" "rf_base_term r' = rf_base_term r" "rf_base_index r' = rf_base_index r"
    and "rf_role r' = Leader \<Longrightarrow> rf_role r = Leader \<and> rf_current_term r' = rf_current_term r"
    and "sends r r' (carries r')"
  shows "log_step X r r'"
  using assms by (simp add: log_step_def log_cells_def last_index_def)

lemma log_step_quiet:
  assumes "rf_log r' = rf_log r" "rf_base_term r' = rf_base_term r" "rf_base_index r' = rf_base_index r"
    and "rf_role r' = rf_role r" "rf_current_term r' = rf_current_term r" "rf_out r' = rf_out r"
  shows "log_step X r r'"
  using assms by (intro log_step_same) (simp_all add: sends_same)

lemma log_step_cong:
  assumes "log_step X q r'" and "sends r q (carries r')"
    and "rf_log q = rf_log r" "rf_base_term q = rf_base_term r" "rf_base_index q = rf_base_index r"
    and "rf_role q = Leader \<Longrightarrow> rf_role r = Leader \<and> rf_current_term q = rf_current_term r"
  shows "log_step X r r'"
proof -
  have "log_cells q = log_cells r" "last_index q = last_index r" "last_term q = last_term r"
    using assms(3-5) by (simp_all add: log_cells_def last_index_def last_term_def)
  with assms(1,6) sends_trans [OF assms(2)] show ?thesis unfolding log_step_def by metis
qed

lemma log_step_grow:
  assumes "fits r" and "last_index r < u64_max" and "rf_role r' = Leader"
    and "rf_log r' = rf_log r @ [\<lparr>le_term = rf_current_term r', le_index = add64 (last_index r) 1, le_command = c\<rparr>]"
    and "rf_base_term r' = rf_base_term r" "rf_base_index r' = rf_base_index r" and "sends r r' (carries r')"
  shows "log_step X r r'"
proof -
  have len: "last_index r = rf_base_index r + length (rf_log r)" by (rule last_index_eq [OF assms(1)])
  then have "add64 (last_index r) 1 = last_index r + 1" "last_index r' = last_index r + 1"
    using assms(2,4,6) last_index_eq [of r'] by (simp_all add: add64_small)
  then show ?thesis
    using assms(3-) by (auto simp: log_step_def log_cells_def cells_append last_term_eq)
qed

lemma become_leader_log_step:
  assumes wf: "fits r" and room: "last_index r < u64_max"
  shows "log_step X r (become_leader r)"
proof (rule log_step_grow [OF assms])
  show "sends r (become_leader r) (carries (become_leader r))"
    unfolding become_leader_def Let_def
    using room last_index_eq [OF wf] by (intro sends_broadcast_from log_cells_cong) simp_all
qed simp_all

lemma maybe_win_log_step:
  assumes "fits r" and "last_index r < u64_max" and "rf_role r \<noteq> Leader"
  shows "log_step X r (maybe_win_election r)"
  using assms become_leader_log_step [OF assms(1,2)]
  by (auto simp: maybe_win_election_def intro!: log_step_same sends_same)

lemma start_election_log_step:
  assumes "fits r" and "last_index r < u64_max"
  shows "log_step X r (start_election r)"
proof -
  let ?q = "send_all (RequestVote (vote_request (candidate_of r) (rf_current_term (candidate_of r)) False)) (candidate_of r)"
  have "log_step X ?q (start_election r)"
    unfolding start_election_eq using assms by (intro maybe_win_log_step) (simp_all add: last_index_def)
  moreover have "sends r ?q (carries (start_election r))"
    using sends_send_all [of "carries (start_election r)" _ "candidate_of r"]
    by (simp add: sends_cong [of r "candidate_of r"] carries_def)
  ultimately show ?thesis by (rule log_step_cong) simp_all
qed

lemma maybe_win_pre_log_step:
  assumes "fits r" and "last_index r < u64_max"
  shows "log_step X r (maybe_win_pre_election r)"
  using start_election_log_step [OF assms]
  by (auto simp: maybe_win_pre_election_def intro!: log_step_same sends_same)

lemma start_pre_election_log_step:
  assumes "fits r" and "last_index r < u64_max"
  shows "log_step X r (start_pre_election r)"
proof -
  let ?q = "send_all (RequestVote (vote_request (pre_candidate_of r) (add64 (rf_current_term r) 1) True)) (pre_candidate_of r)"
  have "log_step X ?q (start_pre_election r)"
    unfolding start_pre_election_eq using assms by (intro maybe_win_pre_log_step) (simp_all add: last_index_def)
  moreover have "sends r ?q (carries (start_pre_election r))"
    using sends_send_all [of "carries (start_pre_election r)" _ "pre_candidate_of r"]
    by (simp add: sends_cong [of r "pre_candidate_of r"] carries_def)
  ultimately show ?thesis by (rule log_step_cong) simp_all
qed

lemma tick_log_step:
  assumes "fits r" and "last_index r < u64_max"
  shows "log_step X r (raft_tick r)"
proof (cases "rf_role r = Leader")
  case True
  let ?b = "r\<lparr>rf_heartbeat_elapsed := 0\<rparr>"
  have same: "log_cells (raft_tick r) = log_cells r"
    using True by (intro log_cells_cong) (simp_all add: raft_tick_def Let_def)
  have "sends r (broadcast_append ?b) (carries r)"
    using assms(1) by (intro sends_broadcast_from log_cells_cong) simp_all
  then have "sends r (raft_tick r) (carries r)"
    using True by (auto simp: raft_tick_def Let_def sends_def)
  then have "sends r (raft_tick r) (carries (raft_tick r))" by (simp add: carries_cong [OF same])
  with True show ?thesis by (intro log_step_same) (simp_all add: raft_tick_def Let_def)
next
  case False
  let ?q = "r\<lparr>rf_election_elapsed := add64 (rf_election_elapsed r) 1\<rparr>"
  have "log_step X ?q (start_pre_election ?q)"
    using assms by (intro start_pre_election_log_step) (simp_all add: last_index_def)
  then have "log_step X r (start_pre_election ?q)" by (rule log_step_cong) (simp_all add: sends_same)
  moreover have "log_step X r ?q" by (rule log_step_quiet) simp_all
  ultimately show ?thesis using False by (simp add: raft_tick_def Let_def)
qed

lemma request_vote_log_step: "log_step X r (handle_request_vote from_node req r)"
proof (rule log_step_same)
  show "sends r (handle_request_vote from_node req r) (carries (handle_request_vote from_node req r))"
    by (auto simp: handle_request_vote_def Let_def carries_def intro!: sends_send)
qed (auto simp: handle_request_vote_def Let_def split: if_splits)

lemma become_follower_log_step: "log_step X r (become_follower t l r)"
  by (rule log_step_same) (simp_all add: sends_same)

lemma vote_resp_log_step:
  assumes "fits r" and "last_index r < u64_max"
  shows "log_step X r (handle_vote_resp from_node resp r)"
proof -
  let ?q = "r\<lparr>rf_votes := insert from_node (rf_votes r)\<rparr>"
  have room: "fits ?q" "last_index ?q < u64_max" using assms by (simp_all add: last_index_def)
  have "log_step X r (maybe_win_pre_election ?q)"
    by (rule log_step_cong [OF maybe_win_pre_log_step [OF room]]) (simp_all add: sends_same)
  moreover have "log_step X r (maybe_win_election ?q)" if "rf_role r = Candidate"
    by (rule log_step_cong [OF maybe_win_log_step [OF room]]) (simp_all add: sends_same that)
  moreover have "log_step X r r" by (rule log_step_quiet) simp_all
  ultimately show ?thesis by (simp add: handle_vote_resp_def become_follower_log_step)
qed

text \<open>
  The splice only adds cells of the request: an entry is pushed onto the entry before it in the request,
  or onto the one whose term the request names.
\<close>

lemma push_cells:
  assumes "raft_wf q" and "last_index q = c" and "spliced_upto c pt q" and "c = 0 \<Longrightarrow> pt = 0"
  shows "log_cells (push_entry e q) = insert (le_index e, le_term e, pt, le_command e) (log_cells q)"
proof -
  have len: "last_index q = rf_base_index q + length (rf_log q)" by (rule raft_wf_last_index [OF assms(1)])
  have "last_slab_term (rf_base_term q) (rf_log q) = term_at q c"
    using assms(2) len slab_term_last [of "rf_base_index q" "rf_base_term q" "rf_log q"]
    by (simp add: raft_wf_term_at [OF assms(1)])
  also have "\<dots> = pt"
  proof (cases "c = 0")
    case True
    then have "rf_base_index q = 0" using assms(2) len by simp
    moreover from this have "rf_base_term q = 0" using assms(1) by (simp add: raft_wf_def wf_log_def)
    ultimately show ?thesis using True assms(4) by (simp add: term_at_def)
  qed (use assms(3) in \<open>simp add: spliced_upto_def\<close>)
  finally show ?thesis by (auto simp: log_cells_def cells_append)
qed

lemma splice_cells:
  assumes "splice_entries es c r = (ok, c', r')" and "raft_wf r" and "rf_role r \<noteq> Leader"
    and "entry_run t c pt es" and "t \<le> rf_current_term r" and "spliced_upto c pt r" and "c = 0 \<Longrightarrow> pt = 0"
  shows "log_cells r' \<subseteq> log_cells r \<union> cells pt es"
  using assms
proof (induction es c r arbitrary: pt ok c' r' rule: splice_entries.induct)
  case (2 e es c r)
  note wf = "2.prems"(2) and role = "2.prems"(3) and sp = "2.prems"(6) and z = "2.prems"(7)
  have e: "le_index e = c + 1" "c + 1 \<le> u64_max" "0 < le_term e" "pt \<le> le_term e"
    "le_term e \<le> rf_current_term r" and run': "entry_run t (le_index e) (le_term e) es"
    using "2.prems"(4,5) by auto
  consider (skip) "le_index e \<le> last_index r" "term_at r (le_index e) = le_term e"
    | (refuse) "le_index e \<le> last_index r" "term_at r (le_index e) \<noteq> le_term e" "le_index e \<le> rf_commit_index r"
    | (cut) "le_index e \<le> last_index r" "term_at r (le_index e) \<noteq> le_term e" "rf_commit_index r < le_index e"
    | (grow) "last_index r < le_index e"
    by linarith
  then show ?case
  proof cases
    case skip
    then have "splice_entries es (le_index e) r = (ok, c', r')" using "2.prems"(1) by simp
    moreover have "spliced_upto (le_index e) (le_term e) r" using skip by (simp add: spliced_upto_def)
    ultimately have "log_cells r' \<subseteq> log_cells r \<union> cells (le_term e) es"
      using "2.IH"(2) [OF skip(1)] skip(2) wf role run' "2.prems"(5) e(1) by simp
    then show ?thesis by auto
  next
    case refuse
    then show ?thesis using "2.prems"(1) by (auto simp: truncate_from_def)
  next
    case cut
    obtain r1 where r1: "truncate_from (le_index e) r = (True, r1)"
      "r1 = r\<lparr>rf_log := take (le_index e - rf_base_index r - 1) (rf_log r), rf_dirty := True\<rparr>"
      "raft_wf r1" "last_index r1 = le_index e - 1" "\<And>k. k < le_index e \<Longrightarrow> entry_at r1 k = entry_at r k"
      using truncate_from_spec [OF wf role cut(3,1)] by blast
    have push: "raft_wf (push_entry e r1)" "spliced_upto (le_index e) (le_term e) (push_entry e r1)"
      using splice_push [OF wf r1(3) _ _ _ _ _ sp e(1-4)] r1 role e by (auto simp: less_Suc_eq_le)
    have "spliced_upto c pt r1"
      using sp r1 e(1) by (auto simp: spliced_upto_def term_at_entry wf)
    then have "log_cells (push_entry e r1) = insert (le_index e, le_term e, pt, le_command e) (log_cells r1)"
      using push_cells [OF r1(3) _ _ z] r1(4) e(1) by simp
    moreover have "log_cells r1 \<subseteq> log_cells r" by (simp add: r1(2) log_cells_def cells_take)
    moreover have "splice_entries es (le_index e) (push_entry e r1) = (ok, c', r')"
      using "2.prems"(1) cut(1,2) r1(1) by simp
    then have "log_cells r' \<subseteq> log_cells (push_entry e r1) \<union> cells (le_term e) es"
      using "2.IH"(1) [OF cut(1,2) r1(1) [symmetric] refl] push r1(2) role run' "2.prems"(5) e(1) by simp
    ultimately show ?thesis by auto
  next
    case grow
    with sp e(1) have c: "last_index r = c" by (simp add: spliced_upto_def)
    have push: "raft_wf (push_entry e r)" "spliced_upto (le_index e) (le_term e) (push_entry e r)"
      using splice_push [OF wf wf role c _ _ _ sp e(1-4)] e(5) by auto
    have "splice_entries es (le_index e) (push_entry e r) = (ok, c', r')" using "2.prems"(1) grow by simp
    then have "log_cells r' \<subseteq> log_cells (push_entry e r) \<union> cells (le_term e) es"
      using "2.IH"(3) grow push role run' "2.prems"(5) e(1) by simp
    with push_cells [OF wf c sp z] show ?thesis by auto
  qed
qed simp

lemma append_log_step:
  assumes "raft_wf r" and "from_node \<in> set (rf_peers r)"
  shows "log_step (msg_cells (AppendEntries req)) r (handle_append from_node req r)"
proof -
  let ?a = "adopt_term (ae_term req) r" and ?r' = "handle_append from_node req r"
  let ?q = "become_follower (ae_term req) (Some from_node) ?a"
  have sends: "sends r ?r' (carries ?r')" by (rule sends_append) (simp add: carries_def)
  have wf: "raft_wf ?q" using assms raft_wf_adopt_term by (intro raft_wf_become_follower) simp_all
  have same: "log_cells ?q = log_cells r" "log_cells ?a = log_cells r" by (rule log_cells_cong; simp)+
  have acc: "log_cells (accept_entries from_node req ?q) \<subseteq> log_cells r \<union> msg_cells (AppendEntries req)"
    if run: "entries_are_contiguous req" and prev: "\<not> last_index ?q < ae_prev_log_index req"
      "\<not> (0 < ae_prev_log_index req \<and> term_at ?q (ae_prev_log_index req) \<noteq> ae_prev_log_term req)"
  proof -
    obtain ok c s where s: "splice_entries (ae_entries req) (ae_prev_log_index req) ?q = (ok, c, s)"
      by (metis prod_cases3)
    have "log_cells s \<subseteq> log_cells ?q \<union> cells (ae_prev_log_term req) (ae_entries req)"
      using run prev by (intro splice_cells [OF s wf]) (auto simp: entries_are_contiguous_run spliced_upto_def)
    moreover have "log_cells (accept_entries from_node req ?q) = log_cells s"
      by (rule log_cells_cong) (simp_all add: accept_entries_def s Let_def)
    ultimately show ?thesis by (simp add: same)
  qed
  have resp: "log_cells (append_resp to ok m s) = log_cells s" for to ok m s by (rule log_cells_cong) simp_all
  have "log_cells ?r' \<subseteq> log_cells r \<union> msg_cells (AppendEntries req)"
    unfolding handle_append_eq Let_def using acc by (simp add: resp same split: if_split)
  moreover have "rf_role ?r' = Leader \<longrightarrow>
      rf_role r = Leader \<and> rf_current_term ?r' = rf_current_term r \<and> last_index ?r' = last_index r"
    by (auto simp: handle_append_eq Let_def adopt_term_def last_index_def split: if_splits)
  ultimately show ?thesis using sends by (simp add: log_step_def)
qed

text \<open>The leader's bookkeeping sends the log as it is.\<close>

lemma record_match_log_step:
  assumes "fits r" and "rf_role r = Leader"
  shows "log_step X r (record_match from_node n r)"
proof -
  have "sends r (broadcast_append q) (carries r)" if "rf_out q = rf_out r" "rf_log q = rf_log r"
      "rf_base_term q = rf_base_term r" "rf_base_index q = rf_base_index r" for q
    using assms(1) that by (intro sends_broadcast_from log_cells_cong) simp_all
  then have "sends r (record_match from_node n r) (carries r)"
    by (auto simp: record_match_def Let_def case_prod_beta intro: sends_same)
  moreover have "carries (record_match from_node n r) = carries r"
    by (intro carries_cong log_cells_cong) simp_all
  ultimately show ?thesis using assms(2) by (intro log_step_same) simp_all
qed

lemma append_resp_log_step:
  assumes "fits r"
  shows "log_step X r (handle_append_resp from_node resp r)"
proof -
  have m: "log_step X r (record_match f n q)" if "rf_out q = rf_out r" "rf_log q = rf_log r" "rf_base_term q = rf_base_term r"
      "rf_base_index q = rf_base_index r" "rf_role q = rf_role r" "rf_role r = Leader" "rf_current_term q = rf_current_term r" for f n q
    using that assms by (intro log_step_cong [OF record_match_log_step]) (simp_all add: sends_same)
  have a: "log_step X r (send_append f q)" if "rf_out q = rf_out r" "rf_log q = rf_log r" "rf_base_term q = rf_base_term r"
      "rf_base_index q = rf_base_index r" "rf_role q = rf_role r" "rf_current_term q = rf_current_term r" for f q
  proof (rule log_step_same)
    have "log_cells q = log_cells (send_append f q)" by (rule log_cells_cong) simp_all
    then have "sends q (send_append f q) (carries (send_append f q))"
      using assms that by (intro sends_send_append_cells) simp_all
    with that(1) show "sends r (send_append f q) (carries (send_append f q))" by (simp add: sends_cong [of r q])
  qed (use that in simp_all)
  show ?thesis
    by (auto simp: handle_append_resp_def Let_def intro!: m a become_follower_log_step
        intro: log_step_quiet)
qed

lemma install_resp_log_step:
  assumes "fits r"
  shows "log_step X r (handle_install_snapshot_resp from_node resp r)"
proof -
  have m: "log_step X r (record_match f n q)" if "rf_out q = rf_out r" "rf_log q = rf_log r" "rf_base_term q = rf_base_term r"
      "rf_base_index q = rf_base_index r" "rf_role q = rf_role r" "rf_role r = Leader" "rf_current_term q = rf_current_term r" for f n q
    using that assms by (intro log_step_cong [OF record_match_log_step]) (simp_all add: sends_same)
  show ?thesis
    by (auto simp: handle_install_snapshot_resp_def Let_def intro!: m become_follower_log_step
        intro: log_step_quiet)
qed

text \<open>A log that is cut at its front keeps the cells of what is left.\<close>

lemma drop_cells:
  assumes "raft_wf r" and "rf_base_index r < i" and "i \<le> last_index r"
  shows "cells (term_at r i) (drop (i - rf_base_index r) (rf_log r)) \<subseteq> log_cells r"
proof -
  have "last_index r = rf_base_index r + length (rf_log r)" by (rule raft_wf_last_index [OF assms(1)])
  then have "term_at r i = last_slab_term (rf_base_term r) (take (i - rf_base_index r) (rf_log r))"
    using assms by (simp add: raft_wf_term_at slab_term_take)
  then show ?thesis by (simp add: log_cells_def cells_drop)
qed

lemma install_log_step:
  assumes "raft_wf r" and "from_node \<in> set (rf_peers r)"
  shows "log_step X r (handle_install_snapshot from_node req r)"
proof -
  let ?a = "adopt_term (is_term req) r" and ?r' = "handle_install_snapshot from_node req r"
  let ?q = "become_follower (is_term req) (Some from_node) ?a"
  have sends: "sends r ?r' (carries ?r')" by (rule sends_install) (simp add: carries_def)
  have wf: "raft_wf ?q" using assms raft_wf_adopt_term by (intro raft_wf_become_follower) simp_all
  have same: "log_cells ?q = log_cells r" "log_cells ?a = log_cells r" by (rule log_cells_cong; simp)+
  have inst: "log_cells (install_snapshot req ?q) \<subseteq> log_cells r" if "rf_base_index r < is_last_included_index req"
    using drop_cells [OF wf, of "is_last_included_index req"] that
    by (auto simp: install_snapshot_def Let_def log_cells_def same [unfolded log_cells_def])
  have resp: "log_cells (snapshot_resp to ok m s) = log_cells s" for to ok m s by (rule log_cells_cong) simp_all
  have "log_cells ?r' \<subseteq> log_cells r \<union> X"
    unfolding handle_install_snapshot_eq Let_def using inst by (auto simp: resp same split: if_split)
  moreover have "rf_role ?r' = Leader \<longrightarrow>
      rf_role r = Leader \<and> rf_current_term ?r' = rf_current_term r \<and> last_index ?r' = last_index r"
    by (auto simp: handle_install_snapshot_eq Let_def adopt_term_def last_index_def split: if_splits)
  ultimately show ?thesis using sends by (simp add: log_step_def)
qed

lemma compact_log_step:
  assumes "raft_wf r" and "i \<le> rf_last_applied r"
  shows "log_step X r (compact i data r)"
proof (cases "i \<le> rf_base_index r \<or> rf_commit_index r < i")
  case True
  then show ?thesis by (simp add: compact_def log_step_quiet)
next
  case False
  have len: "last_index r = rf_base_index r + length (rf_log r)" by (rule raft_wf_last_index [OF assms(1)])
  have wf: "raft_wf (compact i data r)" by (rule compact_ok [OF assms])
  have "i \<le> last_index r" using False assms(1) len by (simp add: raft_wf_def wf_index_def)
  then have "log_cells (compact i data r) \<subseteq> log_cells r" "last_index (compact i data r) = last_index r"
    using False drop_cells [OF assms(1), of i] len raft_wf_last_index [OF wf]
    by (auto simp: compact_def Let_def log_cells_def)
  moreover have "sends r (compact i data r) P" for P by (rule sends_same) (simp add: compact_def Let_def)
  ultimately show ?thesis by (auto simp: log_step_def)
qed

lemma propose_log_step:
  assumes "fits r" and "last_index r < u64_max"
  shows "log_step X r (snd (raft_propose cmd r))"
proof (cases "rf_role r = Leader")
  case True
  show ?thesis
  proof (rule log_step_grow [OF assms])
    show "sends r (snd (raft_propose cmd r)) (carries (snd (raft_propose cmd r)))"
      using assms True last_index_eq [OF assms(1)]
      by (auto simp: raft_propose_def Let_def case_prod_beta intro!: sends_broadcast_from log_cells_cong)
  qed (use True in \<open>simp_all add: raft_propose_def Let_def case_prod_beta\<close>)
qed (simp add: raft_propose_def log_step_quiet)

text \<open>What a message brings along.\<close>

fun op_cells :: "raft_op \<Rightarrow> cell set" where
  "op_cells (Step from_node msg) = msg_cells msg"
| "op_cells op = {}"

lemma op_log_step:
  assumes "raft_wf r" and "op_ok op r" and "op \<noteq> Drain_Ready"
  shows "log_step (op_cells op) r (apply_raft_op op r)"
proof -
  have room: "fits r" "last_index r < u64_max"
    using assms(1) raft_wf_fits op_ok_room [OF assms(2)] by (simp_all add: has_room_def log_room_def)
  have "log_step (msg_cells msg) r (raft_step from_node msg r)" for from_node msg
  proof (cases "from_node \<in> set (rf_peers r) \<and> body_identity_matches from_node msg")
    case True
    with room show ?thesis
      by (cases msg) (auto simp: raft_step_def request_vote_log_step vote_resp_log_step append_resp_log_step
          install_resp_log_step install_log_step [OF assms(1)] append_log_step [OF assms(1), unfolded msg_cells.simps(1)])
  qed (auto simp: raft_step_def log_step_quiet)
  then show ?thesis
    using assms room by (cases op) (auto simp: tick_log_step propose_log_step compact_log_step)
qed

text \<open>A member that becomes a candidate has just moved to a new term.\<close>

lemma start_election_candidate:
  assumes "rf_current_term r < u64_max"
  shows "rf_current_term r < rf_current_term (start_election r)"
  using assms by (simp add: add64_small)

lemma pre_election_candidate:
  assumes "rf_current_term r < u64_max" and "rf_role (maybe_win_pre_election q) = Candidate"
    and "rf_role q \<noteq> Candidate" and "rf_current_term q = rf_current_term r"
  shows "rf_current_term r < rf_current_term (maybe_win_pre_election q)"
  using assms start_election_candidate [of q] by (simp add: maybe_win_pre_election_def split: if_splits)

lemma op_candidate:
  assumes "has_room r" and "rf_role (apply_raft_op op r) = Candidate"
  shows "rf_role r = Candidate \<and> rf_current_term (apply_raft_op op r) = rf_current_term r \<or>
    rf_current_term r < rf_current_term (apply_raft_op op r)"
proof -
  have t: "rf_current_term r < u64_max" using assms(1) by (simp add: has_room_def)
  show ?thesis
  proof (cases op)
    case Tick
    let ?q = "r\<lparr>rf_election_elapsed := add64 (rf_election_elapsed r) 1\<rparr>"
    have "rf_current_term r < rf_current_term (start_pre_election ?q)" if "rf_role (start_pre_election ?q) = Candidate"
      using that t unfolding start_pre_election_eq by (intro pre_election_candidate) simp_all
    with Tick assms(2) show ?thesis by (auto simp: raft_tick_def Let_def split: if_splits)
  next
    case (Step from_node msg)
    let ?q = "r\<lparr>rf_votes := insert from_node (rf_votes r)\<rparr>"
    have "rf_current_term r < rf_current_term (maybe_win_pre_election ?q)"
      if "rf_role (maybe_win_pre_election ?q) = Candidate" "rf_role r = PreCandidate"
      using that t by (intro pre_election_candidate) simp_all
    moreover have "rf_role r = Candidate" if "rf_role (maybe_win_election ?q) = Candidate"
      using that maybe_win_election_role [of ?q] by auto
    ultimately show ?thesis
      using assms(2) Step
      by (cases msg) (auto simp: raft_step_def handle_request_vote_def handle_vote_resp_def handle_append_eq
          handle_append_resp_def handle_install_snapshot_eq handle_install_snapshot_resp_def adopt_term_def Let_def
          split: if_splits)
  qed (use assms(2) in \<open>auto simp: raft_propose_def Let_def case_prod_beta compact_def split: if_splits\<close>)
qed

subsection \<open>The cells of a network\<close>

definition batch_cells :: "ready list \<Rightarrow> cell set" where
  "batch_cells bs = (\<Union>b \<in> set bs. \<Union>a \<in> set (rd_messages b). msg_cells (ad_msg a))"

definition held_cells :: "network \<Rightarrow> node_id \<Rightarrow> cell set" where
  "held_cells s n =
     log_cells (nw_mem s n) \<union> cells (ps_base_term (nw_disk s n)) (ps_log (nw_disk s n)) \<union>
     (\<Union>a \<in> set (rf_out (nw_mem s n)). msg_cells (ad_msg a)) \<union>
     batch_cells (nw_unsaved s n) \<union> batch_cells (nw_saved s n)"

definition sent_cells :: "network \<Rightarrow> cell set" where
  "sent_cells s = (\<Union>(f, n, msg) \<in> nw_sent s. msg_cells msg)"

text \<open>In a set of cells, index and term determine the cell.\<close>

definition determined :: "cell set \<Rightarrow> bool" where
  "determined E \<longleftrightarrow> (\<forall>i t p p' c c'. (i, t, p, c) \<in> E \<and> (i, t, p', c') \<in> E \<longrightarrow> p = p' \<and> c = c')"

definition top_of_term :: "cell set \<Rightarrow> raft \<Rightarrow> bool" where
  "top_of_term E r \<longleftrightarrow> (\<forall>(i, t, p, c) \<in> E. t = rf_current_term r \<longrightarrow> i \<le> last_index r)"

lemma determined_mono: "determined E' \<Longrightarrow> E \<subseteq> E' \<Longrightarrow> determined E"
  unfolding determined_def by (metis subsetD)

lemma top_of_term_mono: "top_of_term E' r \<Longrightarrow> E \<subseteq> E' \<Longrightarrow> top_of_term E r"
  unfolding top_of_term_def by (meson subsetD)

definition engine_inv :: "node_id list \<Rightarrow> cell set \<Rightarrow> network \<Rightarrow> node_id \<Rightarrow> bool" where
  "engine_inv ms E s n \<longleftrightarrow>
     raft_wf (nw_mem s n) \<and> persisted_wf n (peers_of ms n) (nw_disk s n) \<and> held_cells s n \<subseteq> E \<and>
     (rf_role (nw_mem s n) = Leader \<longrightarrow> top_of_term E (nw_mem s n)) \<and>
     (rf_role (nw_mem s n) = Candidate \<longrightarrow> (rf_current_term (nw_mem s n), n) \<notin> nw_elected s)"

definition cell_inv :: "node_id list \<Rightarrow> cell set \<Rightarrow> network \<Rightarrow> bool" where
  "cell_inv ms E s \<longleftrightarrow>
     determined E \<and> sent_cells s \<subseteq> E \<and> (\<forall>(i, t, p, c) \<in> E. \<exists>a. (t, a) \<in> nw_elected s) \<and>
     (\<forall>n \<in> set ms. engine_inv ms E s n)"

text \<open>In a group of two or more, whoever was elected has asked for votes, and so has saved its term.\<close>

lemma elected_term_saved:
  assumes inv: "net_inv ms s" and el: "(t, n) \<in> nw_elected s" and two: "x \<in> set ms" "y \<in> set ms" "x \<noteq> y"
  shows "t \<le> rf_current_term (nw_mem s n)" and "t \<le> ps_current_term (nw_disk s n)" and "n \<in> set ms"
proof -
  obtain Q where Q: "n \<in> set ms" "card (set ms) div 2 + 1 \<le> card Q" "supported s t n Q"
    using inv el by (auto simp: net_inv_def elected_inv_def)
  have sub: "Q \<subseteq> set ms" by (rule supporters_are_members [OF inv Q(3,1)])
  obtain w where w: "w \<in> set ms" "w \<noteq> n" using two by metis
  obtain z where z: "z \<in> Q" "z \<noteq> n" using grp.not_alone [OF sub Q(2) Q(1) w(1)] w(2) by metis
  then have "(t, n) \<in> votes_all s z" using Q(3) by (auto simp: supported_def votes_all_def votes_saved_def)
  moreover have "member_inv ms s z" using inv z(1) sub by (auto simp: net_inv_def)
  ultimately have "(t, n) \<in> votes_sent s n" using z(2) by (fastforce simp: member_inv_def)
  then have "(t, n) \<in> votes_all s n" "(t, n) \<in> votes_saved s n" by (auto simp: votes_all_def votes_saved_def)
  moreover have "member_inv ms s n" using inv Q(1) by (simp add: net_inv_def)
  ultimately show "t \<le> rf_current_term (nw_mem s n)" and "t \<le> ps_current_term (nw_disk s n)"
    by (auto simp: member_inv_def backs_def)
  show "n \<in> set ms" by (rule Q(1))
qed

subsection \<open>Steps of the network\<close>

text \<open>A member that leads after an operation: nobody has written its term beyond its log before.\<close>

lemma leader_was_top:
  assumes inv: "net_inv ms s" "net_inv ms (after_op n op s)" and cells: "cell_inv ms E s"
    and n: "n \<in> set ms" and ms: "distinct ms" and two: "x \<in> set ms" "y \<in> set ms" "x \<noteq> y"
    and lead: "rf_role (apply_raft_op op (nw_mem s n)) = Leader"
    and cell: "(i, rf_current_term (apply_raft_op op (nw_mem s n)), p, c) \<in> E"
  shows "i \<le> last_index (nw_mem s n)"
proof -
  let ?r = "nw_mem s n" and ?r' = "apply_raft_op op (nw_mem s n)"
  have m: "rf_id ?r = n" "rf_peers ?r = peers_of ms n" and e: "engine_inv ms E s n"
    using inv(1) cells n by (simp_all add: net_inv_def member_inv_def cell_inv_def)
  have "card {x, y} \<le> card (set ms)" using two by (intro card_mono) auto
  then have "2 \<le> quorum ?r" using two quorum_of_group [OF ms n m(2)] by simp
  then have "card W < quorum ?r" if "W \<subseteq> {n}" for W using that card_mono [of "{n}" W] by simp
  then have "rf_role ?r = Leader \<and> rf_current_term ?r' = rf_current_term ?r \<or>
      rf_role ?r = Candidate \<and> rf_current_term ?r' = rf_current_term ?r"
    using op_role [of op ?r] lead unfolding role_ok_def m(1) by (meson leD)
  then consider (old) "rf_role ?r = Leader" "rf_current_term ?r' = rf_current_term ?r"
    | (new) "rf_role ?r = Candidate" "rf_current_term ?r' = rf_current_term ?r" by blast
  then show ?thesis
  proof cases
    case old
    with e cell show ?thesis by (auto simp: engine_inv_def top_of_term_def)
  next
    case new
    obtain a where "(rf_current_term ?r', a) \<in> nw_elected s" using cells cell by (fastforce simp: cell_inv_def)
    moreover from this have "a = n"
      using elected_unique [OF inv(2), of "rf_current_term ?r'" a n] lead by (simp add: after_op_def Let_def)
    ultimately show ?thesis using new e by (simp add: engine_inv_def)
  qed
qed

lemma cell_inv_op:
  assumes inv: "net_inv ms s" "net_inv ms (after_op n op s)" and cells: "cell_inv ms E s"
    and n: "n \<in> set ms" and ms: "distinct ms" and two: "x \<in> set ms" "y \<in> set ms" "x \<noteq> y"
    and al: "allowed s n op" and ok: "op_ok op (nw_mem s n)"
  shows "cell_inv ms (E \<union> log_cells (apply_raft_op op (nw_mem s n))) (after_op n op s)"
proof -
  let ?r = "nw_mem s n" and ?r' = "apply_raft_op op (nw_mem s n)" and ?s' = "after_op n op s"
  have e: "engine_inv ms E s n" using cells n by (simp add: cell_inv_def)
  then have wf: "raft_wf ?r" "log_cells ?r \<subseteq> E" by (simp_all add: engine_inv_def held_cells_def)
  have nd: "op \<noteq> Drain_Ready" using al by auto
  have "op_cells op \<subseteq> sent_cells s"
    using al by (cases op) (auto simp: sent_cells_def)
  then have brought: "op_cells op \<subseteq> E" using cells by (auto simp: cell_inv_def)
  note step = op_log_step [OF wf(1) ok nd]
  note top = leader_was_top [OF inv cells n ms two]
  have el: "nw_elected ?s' = nw_elected s \<union> (if rf_role ?r' = Leader then {(rf_current_term ?r', n)} else {})"
    by (simp add: after_op_def Let_def)
  define E' where "E' = E \<union> log_cells ?r'"
  have E': "E \<subseteq> E'" "log_cells ?r' \<subseteq> E'" by (auto simp: E'_def)
  have new: "determined E' \<and> (rf_role ?r' = Leader \<longrightarrow> top_of_term E' ?r') \<and>
    E' - E \<subseteq> {(i, t, p, c). t = rf_current_term ?r'} \<and> (rf_role ?r' \<noteq> Leader \<longrightarrow> E' = E)"
  proof (cases "log_cells ?r' \<subseteq> log_cells ?r \<union> op_cells op \<and> (rf_role ?r' = Leader \<longrightarrow> last_index ?r' = last_index ?r)")
    case True
    then have "E' = E" using wf(2) brought by (auto simp: E'_def)
    moreover have "determined E" using cells by (simp add: cell_inv_def)
    moreover have "top_of_term E ?r'" if "rf_role ?r' = Leader"
      using top [OF that] that True by (auto simp: top_of_term_def)
    ultimately show ?thesis by simp
  next
    case False
    then obtain c where lead: "rf_role ?r' = Leader" "last_index ?r' = last_index ?r + 1"
      and log: "log_cells ?r' \<subseteq> insert (last_index ?r', rf_current_term ?r', last_term ?r, c) (log_cells ?r)"
      using step by (auto simp: log_step_def)
    let ?c = "(last_index ?r', rf_current_term ?r', last_term ?r, c)"
    have sub: "E' \<subseteq> insert ?c E" using log wf(2) by (auto simp: E'_def)
    have old: "i \<le> last_index ?r" if "(i, rf_current_term ?r', p, d) \<in> E" for i p d using top [OF lead(1) that] .
    then have "(last_index ?r', rf_current_term ?r', p, d) \<notin> E" for p d using lead(2) by fastforce
    moreover have "determined E" using cells by (simp add: cell_inv_def)
    ultimately have "determined (insert ?c E)" unfolding determined_def by blast
    then have "determined E'" using determined_mono [OF _ sub] by simp
    moreover have "top_of_term (insert ?c E) ?r'" using old lead(2) by (fastforce simp: top_of_term_def)
    then have "top_of_term E' ?r'" using top_of_term_mono [OF _ sub] by simp
    ultimately show ?thesis using sub lead(1) by auto
  qed
  note E' = E' new [THEN conjunct1] new [THEN conjunct2, THEN conjunct1, THEN mp]
    new [THEN conjunct2, THEN conjunct2, THEN conjunct1] new [THEN conjunct2, THEN conjunct2, THEN conjunct2, THEN mp]
  have held: "held_cells ?s' n \<subseteq> E'"
  proof -
    obtain fresh where "rf_out ?r' = rf_out ?r @ fresh" "\<forall>a \<in> set fresh. msg_cells (ad_msg a) \<subseteq> log_cells ?r'"
      using step by (auto simp: log_step_def sends_def carries_def)
    then have "(\<Union>a \<in> set (rf_out ?r'). msg_cells (ad_msg a)) \<subseteq> held_cells s n \<union> log_cells ?r'"
      by (auto simp: held_cells_def)
    moreover have sub: "held_cells s n \<subseteq> E'" using e E'(1) by (auto simp: engine_inv_def)
    ultimately have "(\<Union>a \<in> set (rf_out ?r'). msg_cells (ad_msg a)) \<subseteq> E'" using E'(2) by blast
    with sub E'(2) show ?thesis by (simp add: held_cells_def)
  qed
  have "engine_inv ms E' ?s' k" if k: "k \<in> set ms" for k
  proof (cases "k = n")
    case True
    have "(rf_current_term ?r', n) \<notin> nw_elected s" if "rf_role ?r' = Candidate"
      using op_candidate [OF op_ok_room [OF ok] that] e elected_term_saved(1) [OF inv(1) _ two, of "rf_current_term ?r'" n]
      by (auto simp: engine_inv_def)
    with True e held raft_op_ok [OF wf(1) ok] E'(4) show ?thesis by (auto simp: engine_inv_def el)
  next
    case False
    have ek: "engine_inv ms E s k" using cells k by (simp add: cell_inv_def)
    have "top_of_term E' (nw_mem s k)" if lead: "rf_role (nw_mem s k) = Leader"
    proof -
      have "(rf_current_term (nw_mem s k), k) \<in> nw_elected ?s'"
        using inv(1) k lead el by (simp add: net_inv_def tally_inv_def)
      then have "rf_role ?r' = Leader \<Longrightarrow> rf_current_term ?r' \<noteq> rf_current_term (nw_mem s k)"
        using elected_unique [OF inv(2), of "rf_current_term ?r'" k n] el False by auto
      with E'(5,6) have "(i, t, p, c) \<in> E" if "(i, t, p, c) \<in> E'" "t = rf_current_term (nw_mem s k)" for i t p c
        using that by (cases "rf_role ?r' = Leader") auto
      with ek lead show ?thesis by (fastforce simp: engine_inv_def top_of_term_def)
    qed
    then show ?thesis using ek False E'(1) by (auto simp: engine_inv_def el held_cells_def)
  qed
  moreover have "\<exists>a. (t, a) \<in> nw_elected ?s'" if "(i, t, p, c) \<in> E'" for i t p c
    using that cells E'(5,6) unfolding el cell_inv_def by (cases "(i, t, p, c) \<in> E") fastforce+
  moreover have "sent_cells ?s' \<subseteq> E'" using cells E'(1) by (auto simp: cell_inv_def sent_cells_def)
  ultimately show ?thesis using E'(3) unfolding cell_inv_def E'_def by blast
qed

lemma cell_inv_local:
  assumes cells: "cell_inv ms E s" and same: "nw_elected s' = nw_elected s" "sent_cells s' \<subseteq> E"
    and other: "\<And>k. k \<noteq> n \<Longrightarrow> nw_mem s' k = nw_mem s k \<and> nw_disk s' k = nw_disk s k \<and>
      nw_saved s' k = nw_saved s k \<and> nw_unsaved s' k = nw_unsaved s k"
    and here: "engine_inv ms E s' n"
  shows "cell_inv ms E s'"
proof -
  have "engine_inv ms E s' k" if k: "k \<in> set ms" for k
  proof (cases "k = n")
    case False
    have "engine_inv ms E s k" using cells k by (simp add: cell_inv_def)
    with other [OF False] same(1) show ?thesis by (simp add: engine_inv_def held_cells_def)
  qed (use here in simp)
  with cells same show ?thesis by (simp add: cell_inv_def)
qed

lemma batch_cells_simps [simp]:
  "batch_cells [] = {}" "batch_cells (bs @ cs) = batch_cells bs \<union> batch_cells cs"
  "batch_cells [b] = (\<Union>a \<in> set (rd_messages b). msg_cells (ad_msg a))"
  by (auto simp: batch_cells_def)

lemma cell_inv_drain:
  assumes "cell_inv ms E s" and n: "n \<in> set ms"
  shows "cell_inv ms E (after_drain n s)"
proof (rule cell_inv_local [OF assms(1), of _ n])
  let ?r = "nw_mem s n"
  have e: "engine_inv ms E s n" using assms by (simp add: cell_inv_def)
  have mem: "nw_mem (after_drain n s) n = snd (raft_ready ?r)" "nw_disk (after_drain n s) = nw_disk s"
    "nw_elected (after_drain n s) = nw_elected s" "nw_sent (after_drain n s) = nw_sent s"
    "batch_cells (nw_unsaved (after_drain n s) n) \<union> batch_cells (nw_saved (after_drain n s) n) =
      batch_cells (nw_unsaved s n) \<union> batch_cells (nw_saved s n) \<union> (\<Union>a \<in> set (rf_out ?r). msg_cells (ad_msg a))"
    by (auto simp: after_drain_def Let_def case_prod_beta drain_sel split: option.splits)
  have "log_cells (snd (raft_ready ?r)) = log_cells ?r" by (rule log_cells_cong) simp_all
  then have "held_cells (after_drain n s) n = held_cells s n"
    using mem(5) by (auto simp: held_cells_def mem(1,2) drain_sel)
  with e ready_ok(1) show "engine_inv ms E (after_drain n s) n"
    by (simp add: engine_inv_def mem top_of_term_def last_index_def)
  show "nw_elected (after_drain n s) = nw_elected s" by (rule mem(3))
  show "sent_cells (after_drain n s) \<subseteq> E" using assms(1) by (simp add: sent_cells_def mem(4) cell_inv_def)
qed (auto simp: after_drain_def Let_def case_prod_beta split: option.splits)

lemma cell_inv_persist:
  assumes "cell_inv ms E s" and n: "n \<in> set ms"
  shows "cell_inv ms E (after_persist n s)"
proof (rule cell_inv_local [OF assms(1), of _ n])
  have "engine_inv ms E s n" using assms by (simp add: cell_inv_def)
  moreover from this have "persisted_wf n (peers_of ms n) (persisted_snapshot (nw_mem s n))"
    by (simp add: engine_inv_def persisted_wf_snapshot)
  ultimately show "engine_inv ms E (after_persist n s) n"
    by (auto simp: engine_inv_def after_persist_def held_cells_def log_cells_def persisted_snapshot_def)
qed (use assms(1) in \<open>auto simp: after_persist_def sent_cells_def cell_inv_def\<close>)

lemma cell_inv_restart:
  assumes "cell_inv ms E s" and n: "n \<in> set ms"
  shows "cell_inv ms E (after_restart ms cfg n seed s)"
proof (rule cell_inv_local [OF assms(1), of _ n])
  have "engine_inv ms E s n" using assms by (simp add: cell_inv_def)
  then show "engine_inv ms E (after_restart ms cfg n seed s) n"
    by (auto simp: engine_inv_def after_restart_def held_cells_def log_cells_def raft_wf_new)
qed (use assms(1) in \<open>auto simp: after_restart_def sent_cells_def cell_inv_def\<close>)

lemma cell_inv_transmit:
  assumes cells: "cell_inv ms E s" and n: "n \<in> set ms" and rd: "rd \<in> set (nw_saved s n)"
  shows "cell_inv ms E (after_transmit n rd s)"
proof -
  have "batch_cells (nw_saved s n) \<subseteq> E" using cells n by (auto simp: cell_inv_def engine_inv_def held_cells_def)
  with rd have "(\<Union>a \<in> set (rd_messages rd). msg_cells (ad_msg a)) \<subseteq> E" unfolding batch_cells_def by blast
  then have "sent_cells (after_transmit n rd s) \<subseteq> E"
    using cells by (auto simp: sent_cells_def after_transmit_def cell_inv_def)
  then show ?thesis
    using cells by (simp add: cell_inv_def engine_inv_def held_cells_def after_transmit_def)
qed

lemma cell_inv_init: "cell_inv ms {} (init_network ms cfg seed)"
  by (simp add: cell_inv_def engine_inv_def held_cells_def init_network_def sent_cells_def determined_def log_cells_def
      raft_wf_new persisted_wf_default top_of_term_def)
    (simp add: default_persisted_def)

lemma cells_reachable:
  assumes "reachable ms cfg s" and "distinct ms" and two: "x \<in> set ms" "y \<in> set ms" "x \<noteq> y"
  shows "\<exists>E. cell_inv ms E s"
  using assms(1)
proof (induction rule: reachable.induct)
  case (Init seed)
  show ?case using cell_inv_init by blast
next
  case (Step s s')
  then obtain E where E: "cell_inv ms E s" by blast
  have inv: "net_inv ms s" "net_inv ms s'"
    using net_inv_reachable [OF Step.hyps(1) assms(2)] net_inv_step [OF Step.hyps(2) _ assms(2)] by auto
  from Step.hyps(2) show ?case
    using inv E assms(2) two cell_inv_op [OF inv(1) _ E _ assms(2) two]
    by (cases rule: net_step.cases)
      (auto intro: exI [of _ E] cell_inv_drain cell_inv_persist cell_inv_transmit cell_inv_restart)
qed

subsection \<open>Agreement of two logs\<close>

lemma nth_cells:
  assumes "k < length es"
  shows "(le_index (es ! k), le_term (es ! k), last_slab_term p (take k es), le_command (es ! k)) \<in> cells p es"
proof -
  have "es = take k es @ es ! k # drop (Suc k) es" using assms by (rule id_take_nth_drop)
  then have "cells p es = cells p (take k es) \<union> cells (last_slab_term p (take k es)) (es ! k # drop (Suc k) es)"
    by (metis cells_append)
  then show ?thesis by simp
qed

lemma entry_cell:
  assumes wf: "raft_wf r" and "entry_at r i = Some e"
  shows "le_index e = i" and "(i, le_term e, term_at r (i - 1), le_command e) \<in> log_cells r"
proof -
  have i: "rf_base_index r < i" "i \<le> rf_base_index r + length (rf_log r)" and e: "e = rf_log r ! (i - rf_base_index r - 1)"
    using assms(2) by (auto simp: entry_at_def split: if_splits)
  then show "le_index e = i" using wf by (auto simp: raft_wf_def wf_log_def)
  moreover have "term_at r (i - 1) = last_slab_term (rf_base_term r) (take (i - rf_base_index r - 1) (rf_log r))"
    using i by (simp add: raft_wf_term_at [OF wf] slab_term_take)
  ultimately show "(i, le_term e, term_at r (i - 1), le_command e) \<in> log_cells r"
    using nth_cells [of "i - rf_base_index r - 1" "rf_log r" "rf_base_term r"] i by (simp add: log_cells_def e)
qed

lemma cells_agree:
  assumes E: "determined E" "log_cells q \<subseteq> E" "log_cells r \<subseteq> E" and wf: "raft_wf q" "raft_wf r"
    and "entry_at q i = Some e" "entry_at r i = Some f" "le_term e = le_term f"
  shows "e = f" and "term_at q (i - 1) = term_at r (i - 1)"
proof -
  have "le_index e = le_index f" "(i, le_term f, term_at q (i - 1), le_command e) \<in> E"
    "(i, le_term f, term_at r (i - 1), le_command f) \<in> E"
    using entry_cell [OF wf(1) assms(6)] entry_cell [OF wf(2) assms(7)] assms(8) E(2,3) by auto
  with E(1) have "term_at q (i - 1) = term_at r (i - 1) \<and> le_command e = le_command f"
    unfolding determined_def by blast
  with \<open>le_index e = le_index f\<close> assms(8) show "e = f" and "term_at q (i - 1) = term_at r (i - 1)"
    by (simp_all add: log_entry.equality)
qed

lemma entry_at_earlier:
  "entry_at r i = Some e \<Longrightarrow> rf_base_index r < j \<Longrightarrow> j \<le> i \<Longrightarrow> \<exists>e'. entry_at r j = Some e'"
  by (auto simp: entry_at_def split: if_splits)

lemma logs_agree:
  assumes E: "determined E" "log_cells q \<subseteq> E" "log_cells r \<subseteq> E" and wf: "raft_wf q" "raft_wf r"
    and "entry_at q i = Some e" "entry_at r i = Some f" "le_term e = le_term f"
    and "j \<le> i" and "rf_base_index q \<le> j" "rf_base_index r \<le> j"
  shows "term_at q j = term_at r j \<and> (rf_base_index q < j \<and> rf_base_index r < j \<longrightarrow> entry_at q j = entry_at r j)"
  using assms(6-9)
proof (induction "i - j" arbitrary: i e f)
  case 0
  with cells_agree [OF E wf] show ?case using wf by (auto simp: term_at_entry dest: entry_at_base)
next
  case (Suc d)
  note prev = cells_agree [OF E wf Suc.prems(1-3)]
  have bound: "j \<le> i - 1" "i - 1 < i" using Suc.hyps(2) by simp_all
  show ?case
  proof (cases "rf_base_index q < i - 1 \<and> rf_base_index r < i - 1")
    case True
    then obtain e' f' where e': "entry_at q (i - 1) = Some e'" "entry_at r (i - 1) = Some f'"
      using entry_at_earlier Suc.prems(1,2) bound(2) by (metis less_imp_le)
    then have "le_term e' = le_term f'" using prev(2) wf True by (simp add: term_at_entry)
    moreover have "d = i - 1 - j" using Suc.hyps(2) by simp
    ultimately show ?thesis using Suc.hyps(1) [OF _ e'] bound by simp
  next
    case False
    then have "j = i - 1" using bound assms(10,11) by auto
    with prev(2) False show ?thesis by auto
  qed
qed

subsection \<open>A group of two in which an entry is replicated\<close>

text \<open>An operation of a member whose drain is persisted and sent at once.\<close>

definition exchange :: "node_id \<Rightarrow> raft_op \<Rightarrow> network \<Rightarrow> network" where
  "exchange n op s =
     after_transmit n (fst (raft_ready (apply_raft_op op (nw_mem s n)))) (after_persist n (after_drain n (after_op n op s)))"

lemma exchange_sel:
  "nw_mem (exchange n op s) = (nw_mem s)(n := snd (raft_ready (apply_raft_op op (nw_mem s n))))"
  "nw_sent (exchange n op s) = nw_sent s \<union> (\<lambda>a. (n, ad_to a, ad_msg a)) ` set (rf_out (apply_raft_op op (nw_mem s n)))"
  by (auto simp: exchange_def after_transmit_def after_persist_def after_drain_def drain_sel Let_def case_prod_beta fun_eq_iff
      split: option.splits)

lemma exchange_unsaved: "nw_unsaved s = (\<lambda>_. []) \<Longrightarrow> nw_unsaved (exchange n op s) = (\<lambda>_. [])"
  by (simp add: exchange_def after_transmit_def after_persist_def after_drain_def Let_def case_prod_beta fun_eq_iff
      split: option.split)

text \<open>A network that an orderly run reaches with nothing left to persist.\<close>

definition rested :: "node_id list \<Rightarrow> raft_config \<Rightarrow> network \<Rightarrow> bool" where
  "rested ms cfg s \<longleftrightarrow> orderly ms cfg s \<and> nw_unsaved s = (\<lambda>_. [])"

lemma rested_exchange:
  assumes s: "rested ms cfg s" and n: "n \<in> set ms" and "allowed s n op" and "op_ok op (nw_mem s n)"
  shows "rested ms cfg (exchange n op s)"
proof -
  let ?s = "after_persist n (after_drain n (after_op n op s))" and ?rd = "fst (raft_ready (apply_raft_op op (nw_mem s n)))"
  have "orderly ms cfg (after_op n op s)" "nw_unsaved (after_op n op s) n = []"
    using assms orderly.Operate by (simp_all add: rested_def)
  then have "orderly ms cfg ?s" using n by (blast intro: orderly.Drain orderly.Persist)
  moreover have "?rd \<in> set (nw_saved ?s n)"
    by (simp add: after_persist_def after_drain_def Let_def case_prod_beta split: option.splits)
  ultimately show ?thesis
    using s n exchange_unsaved orderly.Transmit by (simp add: rested_def exchange_def)
qed

definition pair :: "node_id list" where
  "pair = [''a'', ''b'']"

lemma pair_peers [simp]: "peers_of pair ''a'' = [''b'']" "peers_of pair ''b'' = [''a'']" "set pair = {''a'', ''b''}"
  by (simp_all add: peers_of_def pair_def)

definition a_asks :: raft where
  "a_asks = raft_tick (raft_new ''a'' [''b''] lone_config 7 default_persisted)"

lemma a_asks_sel:
  "rf_out a_asks = [\<lparr>ad_to = ''b'', ad_msg = RequestVote \<lparr>rv_term = 1, rv_candidate_id = ''a'', rv_last_log_index = 0,
     rv_last_log_term = 0, rv_pre_vote = True\<rparr>\<rparr>]"
  "rf_role a_asks = PreCandidate" "rf_current_term a_asks = 0" "rf_votes a_asks = {''a''}" "rf_log a_asks = []"
  "rf_base_index a_asks = 0" "rf_base_term a_asks = 0" "rf_id a_asks = ''a''" "rf_peers a_asks = [''b'']"
proof -
  let ?r = "raft_new ''a'' [''b''] lone_config 7 default_persisted"
  let ?t = "?r\<lparr>rf_election_elapsed := add64 (rf_election_elapsed ?r) 1\<rparr>"
  have "rf_randomized_election_timeout ?r = 1" "rf_election_elapsed ?r = 0"
    by (simp_all add: raft_new_def reset_election_timer_def next_rand_def Let_def lone_config_def)
  then have eq: "raft_tick ?r = start_pre_election ?t" by (simp add: raft_tick_def add64_def)
  have q: "quorum (pre_candidate_of ?t) = 2" by (simp add: quorum_def)
  show "rf_out a_asks = [\<lparr>ad_to = ''b'', ad_msg = RequestVote \<lparr>rv_term = 1, rv_candidate_id = ''a'', rv_last_log_index = 0,
     rv_last_log_term = 0, rv_pre_vote = True\<rparr>\<rparr>]"
  "rf_role a_asks = PreCandidate" "rf_current_term a_asks = 0" "rf_votes a_asks = {''a''}" "rf_log a_asks = []"
  "rf_base_index a_asks = 0" "rf_base_term a_asks = 0" "rf_id a_asks = ''a''" "rf_peers a_asks = [''b'']"
    unfolding a_asks_def eq
    by (simp_all add: start_pre_election_eq maybe_win_pre_election_def send_all_def send_def quorum_def vote_request_def
      default_persisted_def add64_def last_index_def last_term_def)
qed

lemmas run_simps = raft_step_def body_identity_matches_def Let_def last_index_def last_term_def add64_def raft_ready_def

text \<open>The engines of the two members while the first is elected and its first entry is replicated.\<close>

definition b_pre_votes :: raft where
  "b_pre_votes = raft_step ''a'' (ad_msg (hd (rf_out a_asks))) (raft_new ''b'' [''a''] lone_config 7 default_persisted)"

definition a_stands :: raft where
  "a_stands = raft_step ''b'' (ad_msg (hd (rf_out b_pre_votes))) (snd (raft_ready a_asks))"

definition b_votes :: raft where
  "b_votes = raft_step ''a'' (ad_msg (hd (rf_out a_stands))) (snd (raft_ready b_pre_votes))"

definition a_leads :: raft where
  "a_leads = raft_step ''b'' (ad_msg (hd (rf_out b_votes))) (snd (raft_ready a_stands))"

definition b_follows :: raft where
  "b_follows = raft_step ''a'' (ad_msg (hd (rf_out a_leads))) (snd (raft_ready b_votes))"

lemma b_pre_votes_sel:
  "rf_out b_pre_votes = [\<lparr>ad_to = ''a'', ad_msg = RequestVoteResp \<lparr>rvr_term = 0, rvr_granted = True, rvr_pre_vote = True\<rparr>\<rparr>]"
  "rf_current_term b_pre_votes = 0" "rf_voted_for b_pre_votes = None" "rf_log b_pre_votes = []" "rf_base_index b_pre_votes = 0"
  "rf_base_term b_pre_votes = 0" "rf_peers b_pre_votes = [''a'']" "rf_commit_index b_pre_votes = 0" "rf_role b_pre_votes = Follower"
  by (simp_all add: b_pre_votes_def a_asks_sel run_simps handle_request_vote_def default_persisted_def log_ok_def)

lemma a_stands_sel:
  "rf_out a_stands = [\<lparr>ad_to = ''b'', ad_msg = RequestVote \<lparr>rv_term = 1, rv_candidate_id = ''a'', rv_last_log_index = 0,
     rv_last_log_term = 0, rv_pre_vote = False\<rparr>\<rparr>]"
  "rf_role a_stands = Candidate" "rf_current_term a_stands = 1" "rf_votes a_stands = {''a''}" "rf_log a_stands = []"
  "rf_base_index a_stands = 0" "rf_base_term a_stands = 0" "rf_id a_stands = ''a''" "rf_peers a_stands = [''b'']"
  by (simp_all add: a_stands_def b_pre_votes_sel a_asks_sel run_simps handle_vote_resp_def maybe_win_pre_election_def
      quorum_def start_election_eq maybe_win_election_def send_all_def send_def vote_request_def)

lemma b_votes_sel:
  "rf_out b_votes = [\<lparr>ad_to = ''a'', ad_msg = RequestVoteResp \<lparr>rvr_term = 1, rvr_granted = True, rvr_pre_vote = False\<rparr>\<rparr>]"
  "rf_current_term b_votes = 1" "rf_log b_votes = []" "rf_base_index b_votes = 0" "rf_role b_votes = Follower"
  "rf_base_term b_votes = 0" "rf_peers b_votes = [''a'']" "rf_commit_index b_votes = 0"
  by (simp_all add: b_votes_def b_pre_votes_sel a_stands_sel run_simps handle_request_vote_def log_ok_def)

lemma a_leads_sel:
  "rf_out a_leads = [\<lparr>ad_to = ''b'', ad_msg = AppendEntries \<lparr>ae_term = 1, ae_leader_id = ''a'', ae_prev_log_index = 0,
     ae_prev_log_term = 0, ae_entries = [\<lparr>le_term = 1, le_index = 1, le_command = None\<rparr>], ae_leader_commit = rf_commit_index a_leads\<rparr>\<rparr>]"
  "rf_role a_leads = Leader" "rf_current_term a_leads = 1" "rf_log a_leads = [\<lparr>le_term = 1, le_index = 1, le_command = None\<rparr>]"
  "rf_base_index a_leads = 0" "rf_base_term a_leads = 0" "rf_peers a_leads = [''b'']" "rf_id a_leads = ''a''"
  "rf_match_index a_leads ''b'' = Some 0"
  by (simp_all add: a_leads_def b_votes_sel a_stands_sel run_simps handle_vote_resp_def maybe_win_election_def quorum_def
      become_leader_def broadcast_append_def send_append_def append_request_def send_def term_at_def log_slot_def)

lemma b_follows_sel:
  "rf_log b_follows = [\<lparr>le_term = 1, le_index = 1, le_command = None\<rparr>]" "rf_base_index b_follows = 0"
  "rf_out b_follows = [\<lparr>ad_to = ''a'', ad_msg = AppendEntriesResp \<lparr>aer_term = 1, aer_success = True, aer_match_index = 1\<rparr>\<rparr>]"
  "rf_current_term b_follows = 1" "rf_base_term b_follows = 0" "rf_role b_follows = Follower" "rf_peers b_follows = [''a'']"
  by (simp_all add: b_follows_def b_votes_sel a_leads_sel run_simps handle_append_eq entries_are_contiguous_run u64_max_def
      accept_entries_def append_resp_def)

definition pair_network :: network where
  "pair_network =
     (let message = (\<lambda>r. ad_msg (hd (rf_out r)));
          s = init_network pair lone_config (\<lambda>_. 7);
          s = exchange ''a'' Tick s;
          s = exchange ''b'' (raft_op.Step ''a'' (message a_asks)) s;
          s = exchange ''a'' (raft_op.Step ''b'' (message b_pre_votes)) s;
          s = exchange ''b'' (raft_op.Step ''a'' (message a_stands)) s;
          s = exchange ''a'' (raft_op.Step ''b'' (message b_votes)) s
      in exchange ''b'' (raft_op.Step ''a'' (message a_leads)) s)"

lemma pair_network_rested:
  "rested pair lone_config pair_network" "nw_mem pair_network ''a'' = snd (raft_ready a_leads)"
  "nw_mem pair_network ''b'' = snd (raft_ready b_follows)"
  "(\<lambda>a. (''b'', ad_to a, ad_msg a)) ` set (rf_out b_follows) \<subseteq> nw_sent pair_network"
proof -
  define s0 where "s0 = init_network pair lone_config (\<lambda>_. 7)"
  define s1 where "s1 = exchange ''a'' Tick s0"
  define s2 where "s2 = exchange ''b'' (raft_op.Step ''a'' (ad_msg (hd (rf_out a_asks)))) s1"
  define s3 where "s3 = exchange ''a'' (raft_op.Step ''b'' (ad_msg (hd (rf_out b_pre_votes)))) s2"
  define s4 where "s4 = exchange ''b'' (raft_op.Step ''a'' (ad_msg (hd (rf_out a_stands)))) s3"
  define s5 where "s5 = exchange ''a'' (raft_op.Step ''b'' (ad_msg (hd (rf_out b_votes)))) s4"
  define s6 where "s6 = exchange ''b'' (raft_op.Step ''a'' (ad_msg (hd (rf_out a_leads)))) s5"
  note room = has_room_def log_room_def last_index_def add64_def u64_max_def
  have def: "ps_current_term default_persisted = 0" "ps_log default_persisted = []" "ps_base_index default_persisted = 0"
    by (simp_all add: default_persisted_def)
  have m0: "nw_mem s0 ''a'' = raft_new ''a'' [''b''] lone_config 7 default_persisted"
    "nw_mem s0 ''b'' = raft_new ''b'' [''a''] lone_config 7 default_persisted"
    by (simp_all add: s0_def init_network_def)
  have m1: "nw_mem s1 ''a'' = snd (raft_ready a_asks)" "nw_mem s1 ''b'' = nw_mem s0 ''b''"
    by (simp_all add: s1_def exchange_sel m0 a_asks_def)
  have m2: "nw_mem s2 ''a'' = snd (raft_ready a_asks)" "nw_mem s2 ''b'' = snd (raft_ready b_pre_votes)"
    by (simp_all add: s2_def exchange_sel m1 m0 b_pre_votes_def)
  have m3: "nw_mem s3 ''a'' = snd (raft_ready a_stands)" "nw_mem s3 ''b'' = snd (raft_ready b_pre_votes)"
    by (simp_all add: s3_def exchange_sel m2 a_stands_def)
  have m4: "nw_mem s4 ''a'' = snd (raft_ready a_stands)" "nw_mem s4 ''b'' = snd (raft_ready b_votes)"
    by (simp_all add: s4_def exchange_sel m3 b_votes_def)
  have m5: "nw_mem s5 ''a'' = snd (raft_ready a_leads)" "nw_mem s5 ''b'' = snd (raft_ready b_votes)"
    by (simp_all add: s5_def exchange_sel m4 a_leads_def)
  have m6: "nw_mem s6 ''a'' = snd (raft_ready a_leads)" "nw_mem s6 ''b'' = snd (raft_ready b_follows)"
    by (simp_all add: s6_def exchange_sel m5 b_follows_def)
  have t1: "(\<lambda>a. (''a'', ad_to a, ad_msg a)) ` set (rf_out a_asks) \<subseteq> nw_sent s1"
    by (auto simp: s1_def exchange_sel m0 a_asks_def)
  have t2: "(\<lambda>a. (''b'', ad_to a, ad_msg a)) ` set (rf_out b_pre_votes) \<subseteq> nw_sent s2"
    by (auto simp: s2_def exchange_sel m1 m0 b_pre_votes_def)
  have t3: "(\<lambda>a. (''a'', ad_to a, ad_msg a)) ` set (rf_out a_stands) \<subseteq> nw_sent s3"
    by (auto simp: s3_def exchange_sel m2 a_stands_def)
  have t4: "(\<lambda>a. (''b'', ad_to a, ad_msg a)) ` set (rf_out b_votes) \<subseteq> nw_sent s4"
    by (auto simp: s4_def exchange_sel m3 b_votes_def)
  have t5: "(\<lambda>a. (''a'', ad_to a, ad_msg a)) ` set (rf_out a_leads) \<subseteq> nw_sent s5"
    by (auto simp: s5_def exchange_sel m4 a_leads_def)
  have t6: "(\<lambda>a. (''b'', ad_to a, ad_msg a)) ` set (rf_out b_follows) \<subseteq> nw_sent s6"
    by (auto simp: s6_def exchange_sel m5 b_follows_def)
  have "rested pair lone_config s0" by (simp add: s0_def rested_def orderly.Init) (simp add: init_network_def)
  then have "rested pair lone_config s1" unfolding s1_def
    by (rule rested_exchange) (simp_all add: m0 room def)
  then have "rested pair lone_config s2" unfolding s2_def
    by (rule rested_exchange) (use t1 in \<open>simp_all add: m1 a_asks_sel m0 def room\<close>)
  then have "rested pair lone_config s3" unfolding s3_def
    by (rule rested_exchange) (use t2 in \<open>simp_all add: m2 b_pre_votes_sel a_asks_sel room\<close>)
  then have "rested pair lone_config s4" unfolding s4_def
    by (rule rested_exchange) (use t3 in \<open>simp_all add: m3 a_stands_sel b_pre_votes_sel room\<close>)
  then have "rested pair lone_config s5" unfolding s5_def
    by (rule rested_exchange) (use t4 in \<open>simp_all add: m4 b_votes_sel a_stands_sel room\<close>)
  then have "rested pair lone_config s6" unfolding s6_def
    by (rule rested_exchange) (use t5 in \<open>simp_all add: m5 a_leads_sel b_votes_sel room\<close>)
  moreover have "pair_network = s6"
    by (simp add: pair_network_def Let_def s6_def s5_def s4_def s3_def s2_def s1_def s0_def)
  ultimately show "rested pair lone_config pair_network" "nw_mem pair_network ''a'' = snd (raft_ready a_leads)"
    "nw_mem pair_network ''b'' = snd (raft_ready b_follows)"
    "(\<lambda>a. (''b'', ad_to a, ad_msg a)) ` set (rf_out b_follows) \<subseteq> nw_sent pair_network"
    using m6 t6 by simp_all
qed

lemma pair_network_reachable: "reachable pair lone_config pair_network"
  using pair_network_rested(1) orderly_reachable by (simp add: rested_def)

subsection \<open>Properties\<close>

text \<open>
  C2. Log matching. In every execution of a group of distinct members, with messages lost, delayed, reordered
  or duplicated and members crashing at any point: whenever two members hold an entry of the same
  term at the same index, then at every earlier index that both still hold they have the same entry, and
  where one of them has compacted, the term its snapshot ends in is the term of the other's entry.
\<close>

theorem log_matching:
  assumes "reachable ms cfg s" and "distinct ms" and "a \<in> set ms" and "b \<in> set ms"
    and "entry_at (nw_mem s a) i = Some e" and "entry_at (nw_mem s b) i = Some f" and "le_term e = le_term f"
    and "j \<le> i" and "rf_base_index (nw_mem s a) \<le> j" and "rf_base_index (nw_mem s b) \<le> j"
  shows "term_at (nw_mem s a) j = term_at (nw_mem s b) j \<and>
    (rf_base_index (nw_mem s a) < j \<and> rf_base_index (nw_mem s b) < j \<longrightarrow>
      entry_at (nw_mem s a) j = entry_at (nw_mem s b) j)"
proof (cases "a = b")
  case False
  obtain E where E: "cell_inv ms E s" using cells_reachable [OF assms(1-4) False] by blast
  have "log_cells (nw_mem s n) \<subseteq> E \<and> raft_wf (nw_mem s n)" if "n \<in> set ms" for n
    using E that by (auto simp: cell_inv_def engine_inv_def held_cells_def)
  with E assms(3,4) show ?thesis
    by (intro logs_agree [OF _ _ _ _ _ assms(5-10), of E]) (auto simp: cell_inv_def)
qed simp

theorem log_matching_witness:
  "entry_at (nw_mem pair_network ''a'') 1 = entry_at (nw_mem pair_network ''b'') 1 \<and>
   rf_role (nw_mem pair_network ''a'') = Leader \<and> entry_at (nw_mem pair_network ''b'') 1 \<noteq> None"
  using log_matching [OF pair_network_reachable, of "''a''" "''b''" 1 _ _ 1]
  by (simp add: pair_network_rested(2,3) a_leads_sel b_follows_sel entry_at_def pair_def)

end
