(* ===== verification/Log_Tree.thy ===== *)
theory Log_Tree
  imports Log_Matching
begin

section \<open>The logs of a group as a tree\<close>

text \<open>
  All cells that the members of a group ever wrote form a tree: a position is an index with a term, and
  a cell names the term of the position before it. A log is the path to its last position, a leader
  extends the path that it had when it was elected, its start. This theory has the order
  \<open>below\<close> of that tree, and the argument of leader completeness on it: if what a member accepted in a
  term is either still below the last position of every later candidate it votes for or was dropped by a
  leader in between, then whatever a majority accepted is below the start of every later leader.
\<close>

type_synonym pos = "nat \<times> nat"

subsection \<open>The order of the tree\<close>

inductive below :: "cell set \<Rightarrow> pos \<Rightarrow> pos \<Rightarrow> bool" for E where
  below_refl: "below E x x"
| below_up: "below E x (i, p) \<Longrightarrow> (Suc i, t, p, c) \<in> E \<Longrightarrow> below E x (Suc i, t)"

declare below_refl [simp, intro]

definition cell_at :: "cell set \<Rightarrow> pos \<Rightarrow> bool" where
  "cell_at E x \<longleftrightarrow> (\<exists>p c. (fst x, snd x, p, c) \<in> E)"

definition known :: "cell set \<Rightarrow> pos \<Rightarrow> bool" where
  "known E x \<longleftrightarrow> x = (0, 0) \<or> cell_at E x"

definition closed :: "cell set \<Rightarrow> bool" where
  "closed E \<longleftrightarrow> (\<forall>(i, t, p, c) \<in> E. 0 < i \<and> 0 < t \<and> p \<le> t \<and> known E (i - 1, p))"

lemma closedD:
  assumes "closed E" and "(i, t, p, c) \<in> E"
  shows "0 < i \<and> 0 < t \<and> p \<le> t \<and> known E (i - 1, p)"
  using bspec [OF assms(1) [unfolded closed_def] assms(2)] by simp

lemma below_trans: "below E y z \<Longrightarrow> below E x y \<Longrightarrow> below E x z"
  by (induction rule: below.induct) (auto intro: below_up)

lemma below_mono: "below E x y \<Longrightarrow> E \<subseteq> E' \<Longrightarrow> below E' x y"
  by (induction rule: below.induct) (auto intro: below_up)

lemma below_index: "below E x y \<Longrightarrow> fst x \<le> fst y"
  by (induction rule: below.induct) auto

lemma below_same: "below E x y \<Longrightarrow> fst y \<le> fst x \<Longrightarrow> x = y"
  by (induction rule: below.induct) (auto dest: below_index)

lemma below_term: "below E x y \<Longrightarrow> closed E \<Longrightarrow> snd x \<le> snd y"
  by (induction rule: below.induct) (auto simp: closed_def)

lemma below_linear:
  assumes "below E x z" and "below E y z" and "determined E" and "fst x \<le> fst y"
  shows "below E x y"
  using assms
proof (induction rule: below.induct)
  case (below_refl x)
  then show ?case using below_same [OF below_refl(1)] by auto
next
  case (below_up x i p t c)
  consider "y = (Suc i, t)" | p' c' where "below E y (i, p')" "(Suc i, t, p', c') \<in> E"
    using below_up.prems(1) by (cases rule: below.cases) auto
  then show ?case
  proof cases
    case 1
    then show ?thesis using below.below_up [OF below_up.hyps] by simp
  next
    case (2 p' c')
    then have "p' = p" using below_up.hyps(2) below_up.prems(2) by (auto simp: determined_def)
    with 2(1) below_up.IH below_up.prems(2,3) show ?thesis by simp
  qed
qed

lemma below_unique: "below E (i, t) z \<Longrightarrow> below E (i, t') z \<Longrightarrow> determined E \<Longrightarrow> t = t'"
  using below_linear [of E "(i, t)" z "(i, t')"] below_same [of E "(i, t)" "(i, t')"] by simp

lemma known_cell: "known E x \<Longrightarrow> 0 < fst x \<or> 0 < snd x \<Longrightarrow> cell_at E x"
  by (auto simp: known_def)

lemma cell_known: "cell_at E x \<Longrightarrow> known E x"
  by (simp add: known_def)

lemma known_mono: "known E x \<Longrightarrow> E \<subseteq> E' \<Longrightarrow> known E' x"
  by (auto simp: known_def cell_at_def)

lemma cell_at_mono: "cell_at E x \<Longrightarrow> E \<subseteq> E' \<Longrightarrow> cell_at E' x"
  by (auto simp: cell_at_def)

lemma known_index: "closed E \<Longrightarrow> known E x \<Longrightarrow> fst x = 0 \<longleftrightarrow> snd x = 0"
  by (auto simp: known_def cell_at_def closed_def)

text \<open>Every known position has its path to the root, and later cells do not change it.\<close>

lemma known_rooted: "closed E \<Longrightarrow> known E (i, t) \<Longrightarrow> below E (0, 0) (i, t)"
proof (induction i arbitrary: t)
  case 0
  then show ?case using known_index [of E "(0, t)"] by simp
next
  case (Suc i)
  then obtain p c where "(Suc i, t, p, c) \<in> E" by (auto simp: known_def cell_at_def)
  moreover from this Suc.prems have "known E (i, p)" by (auto simp: closed_def)
  ultimately show ?case using Suc by (blast intro: below_up)
qed

lemma known_below: "below E x y \<Longrightarrow> closed E \<Longrightarrow> known E y \<Longrightarrow> known E x"
proof (induction rule: below.induct)
  case (below_up x i p t c)
  then have "known E (i, p)" by (auto simp: closed_def)
  with below_up show ?case by simp
qed simp

lemma below_stable:
  assumes "below E' x y" and "E \<subseteq> E'" and "determined E'" and "closed E" and "known E y"
  shows "below E x y"
  using assms
proof (induction rule: below.induct)
  case (below_up x i p t c)
  then obtain p' c' where cell: "(Suc i, t, p', c') \<in> E" by (auto simp: known_def cell_at_def)
  then have "p' = p" using below_up by (auto simp: determined_def)
  moreover have "known E (i, p')" using cell below_up.prems by (auto simp: closed_def)
  ultimately show ?case using cell below_up by (blast intro: below.below_up)
qed simp

subsection \<open>Starts of terms\<close>

text \<open>The cells of a term extend its start one by one, and a term has one start.\<close>

definition starts :: "cell set \<Rightarrow> (nat \<times> pos) set \<Rightarrow> bool" where
  "starts E L \<longleftrightarrow>
     (\<forall>(i, t, p, c) \<in> E. \<exists>i0 p0. (t, i0, p0) \<in> L \<and> i0 < i \<and> (if i = Suc i0 then p = p0 else p = t)) \<and>
     (\<forall>t y y'. (t, y) \<in> L \<and> (t, y') \<in> L \<longrightarrow> y = y') \<and>
     (\<forall>(t, y) \<in> L. known E y \<and> snd y < t)"

lemma startsD:
  assumes "starts E L"
  shows "(i, t, p, c) \<in> E \<Longrightarrow> \<exists>i0 p0. (t, i0, p0) \<in> L \<and> i0 < i \<and> (if i = Suc i0 then p = p0 else p = t)"
    and "(t, y) \<in> L \<Longrightarrow> (t, y') \<in> L \<Longrightarrow> y = y'" and "(t, y) \<in> L \<Longrightarrow> known E y" and "(t, y) \<in> L \<Longrightarrow> snd y < t"
proof -
  note a = assms [unfolded starts_def, THEN conjunct1] and b = assms [unfolded starts_def, THEN conjunct2, THEN conjunct1]
    and c = assms [unfolded starts_def, THEN conjunct2, THEN conjunct2]
  show "(i, t, p, c) \<in> E \<Longrightarrow> \<exists>i0 p0. (t, i0, p0) \<in> L \<and> i0 < i \<and> (if i = Suc i0 then p = p0 else p = t)"
    using bspec [OF a] by fast
  show "(t, y) \<in> L \<Longrightarrow> (t, y') \<in> L \<Longrightarrow> y = y'" using b by blast
  show "(t, y) \<in> L \<Longrightarrow> known E y" "(t, y) \<in> L \<Longrightarrow> snd y < t" using bspec [OF c, of "(t, y)"] by simp_all
qed

lemma startsI:
  assumes "\<And>i t p c. (i, t, p, c) \<in> E \<Longrightarrow> \<exists>i0 p0. (t, i0, p0) \<in> L \<and> i0 < i \<and> (if i = Suc i0 then p = p0 else p = t)"
    and "\<And>t y y'. (t, y) \<in> L \<Longrightarrow> (t, y') \<in> L \<Longrightarrow> y = y'" and "\<And>t y. (t, y) \<in> L \<Longrightarrow> known E y \<and> snd y < t"
  shows "starts E L"
proof -
  have "\<forall>(i, t, p, c) \<in> E. \<exists>i0 p0. (t, i0, p0) \<in> L \<and> i0 < i \<and> (if i = Suc i0 then p = p0 else p = t)"
    using assms(1) by fast
  moreover have "\<forall>(t, y) \<in> L. known E y \<and> snd y < t" using assms(3) by auto
  ultimately show ?thesis using assms(2) unfolding starts_def by blast
qed

definition tree :: "cell set \<Rightarrow> (nat \<times> pos) set \<Rightarrow> bool" where
  "tree E L \<longleftrightarrow> determined E \<and> closed E \<and> starts E L"

definition on_line :: "cell set \<Rightarrow> nat \<Rightarrow> pos \<Rightarrow> bool" where
  "on_line E t x \<longleftrightarrow> (\<exists>k. cell_at E (k, t) \<and> below E x (k, t))"

lemma tree_sel: "tree E L \<Longrightarrow> determined E" "tree E L \<Longrightarrow> closed E" "tree E L \<Longrightarrow> starts E L"
  by (simp_all add: tree_def)

lemma start_of_cell:
  assumes "tree E L" and "cell_at E (Suc k, t)"
  obtains i0 p0 p c where "(t, i0, p0) \<in> L" "(Suc k, t, p, c) \<in> E" "i0 \<le> k"
    "k = i0 \<and> p = p0 \<or> i0 < k \<and> p = t \<and> cell_at E (k, t)"
proof -
  obtain p c where cell: "(Suc k, t, p, c) \<in> E" using assms(2) by (auto simp: cell_at_def)
  then obtain i0 p0 where i0: "(t, i0, p0) \<in> L" "i0 < Suc k" "if Suc k = Suc i0 then p = p0 else p = t"
    using tree_sel(3) [OF assms(1)] by (fastforce simp: starts_def)
  have "known E (k, p)" "0 < t" using cell tree_sel(2) [OF assms(1)] by (auto simp: closed_def)
  then have "cell_at E (k, t)" if "p = t" using that by (auto simp: known_def)
  with that [OF i0(1) cell] i0(2,3) show ?thesis by (auto split: if_splits)
qed

lemma start_below:
  assumes "tree E L" and "(t, y) \<in> L" and "cell_at E (k, t)"
  shows "below E y (k, t)"
  using assms(3)
proof (induction k)
  case 0
  then show ?case using tree_sel(2) [OF assms(1)] by (auto simp: cell_at_def closed_def)
next
  case (Suc k)
  obtain i0 p0 p c where c: "(t, i0, p0) \<in> L" "(Suc k, t, p, c) \<in> E"
    "k = i0 \<and> p = p0 \<or> i0 < k \<and> p = t \<and> cell_at E (k, t)"
    using start_of_cell [OF assms(1) Suc.prems] by metis
  have "y = (i0, p0)" using tree_sel(3) [OF assms(1)] assms(2) c(1) unfolding starts_def by blast
  with c Suc.IH have "below E y (k, p)" by auto
  then show ?case using c(2) by (rule below_up)
qed

lemma line_chain:
  assumes "tree E L" and "cell_at E (i, t)" and "cell_at E (k, t)" and "i \<le> k"
  shows "below E (i, t) (k, t)"
  using assms(3,4)
proof (induction k)
  case (Suc k)
  show ?case
  proof (cases "i = Suc k")
    case False
    obtain i0 p0 p c where c: "(t, i0, p0) \<in> L" "(Suc k, t, p, c) \<in> E"
      "k = i0 \<and> p = p0 \<or> i0 < k \<and> p = t \<and> cell_at E (k, t)"
      using start_of_cell [OF assms(1) Suc.prems(1)] by metis
    have "i0 < i" if "k = i0"
    proof -
      have "below E (i0, p0) (i, t)" using start_below [OF assms(1) c(1) assms(2)] .
      moreover have "p0 < t" using tree_sel(3) [OF assms(1)] c(1) by (auto simp: starts_def)
      ultimately show ?thesis using below_index [of E "(i0, p0)" "(i, t)"] below_same [of E "(i0, p0)" "(i, t)"] by fastforce
    qed
    with c(3) False Suc.prems(2) have "p = t" "cell_at E (k, t)" by auto
    with Suc c(2) False show ?thesis by (auto intro: below_up)
  qed simp
qed simp

lemma line_comparable:
  assumes "tree E L" and "on_line E t x" and "on_line E t y" and "fst x \<le> fst y"
  shows "below E x y"
proof -
  obtain i k where ik: "cell_at E (i, t)" "below E x (i, t)" "cell_at E (k, t)" "below E y (k, t)"
    using assms(2,3) by (auto simp: on_line_def)
  have "below E x (max i k, t)" "below E y (max i k, t)"
    using ik line_chain [OF assms(1) ik(1,3)] line_chain [OF assms(1) ik(3,1)]
    by (auto simp: max_def intro: below_trans)
  then show ?thesis using below_linear tree_sel(1) [OF assms(1)] assms(4) by blast
qed

lemma on_line_mono: "on_line E t x \<Longrightarrow> E \<subseteq> E' \<Longrightarrow> on_line E' t x"
  by (auto simp: on_line_def intro: cell_at_mono below_mono)

lemma on_line_cell: "cell_at E (k, t) \<Longrightarrow> on_line E t (k, t)"
  by (auto simp: on_line_def)

lemma on_line_below: "on_line E t y \<Longrightarrow> below E x y \<Longrightarrow> on_line E t x"
  by (auto simp: on_line_def intro: below_trans)

lemma on_line_known: "closed E \<Longrightarrow> on_line E t x \<Longrightarrow> known E x"
  by (auto simp: on_line_def intro: known_below cell_known)

lemma start_on_line:
  assumes "tree E L" and "(u, y) \<in> L" and "on_line E u x" and "below E z y"
  shows "on_line E u z"
  using assms start_below [OF assms(1,2)] by (auto simp: on_line_def intro: below_trans)

subsection \<open>Positions that later leaders dropped\<close>

definition superseded :: "cell set \<Rightarrow> (nat \<times> pos) set \<Rightarrow> nat \<Rightarrow> nat \<Rightarrow> pos \<Rightarrow> bool" where
  "superseded E L t u x \<longleftrightarrow> (\<exists>v y. (v, y) \<in> L \<and> t < v \<and> v < u \<and> \<not> below E x y)"

text \<open>
  A log that is replaced by one on the line of the current term: what it loses of a position on the line
  of \<open>t\<close> was dropped by the leader of the current term.
\<close>

lemma replaced_superseded:
  assumes tree: "tree E L" and z: "on_line E t z" "below E x z" and "t \<le> u" and w: "on_line E u w"
    and old: "below E x old" "\<not> below E w old"
  shows "below E x w \<or> superseded E L t (Suc u) x"
proof (rule ccontr)
  assume neg: "\<not> (below E x w \<or> superseded E L t (Suc u) x)"
  obtain k where k: "cell_at E (k, u)" "below E w (k, u)" using w by (auto simp: on_line_def)
  have off: "\<not> on_line E u x"
  proof
    assume "on_line E u x"
    then have "below E w x" using line_comparable [OF tree _ w] line_comparable [OF tree w] neg by (meson nle_le)
    with old show False using below_trans by blast
  qed
  then have "t \<noteq> u" using on_line_below [OF z] by auto
  obtain j where j: "k = Suc j" using k(1) tree_sel(2) [OF tree] by (cases k) (auto simp: cell_at_def closed_def)
  obtain y where y: "(u, y) \<in> L" using start_of_cell [OF tree k(1) [unfolded j]] by metis
  have "\<not> below E x y" using off start_on_line [OF tree y w] by blast
  moreover have "t < u" using \<open>t \<le> u\<close> \<open>t \<noteq> u\<close> by simp
  ultimately have "superseded E L t (Suc u) x" using y unfolding superseded_def by blast
  with neg show False by blast
qed

subsection \<open>What a majority accepted is below every later start\<close>

text \<open>The order in which a voter compares logs.\<close>

definition no_later :: "pos \<Rightarrow> pos \<Rightarrow> bool" where
  "no_later x y \<longleftrightarrow> snd x < snd y \<or> snd x = snd y \<and> fst x \<le> fst y"

text \<open>
  What a member accepted up to index \<open>m\<close> in term \<open>t\<close> satisfies \<open>R\<close>; and what it still has for a
  candidate of term \<open>u\<close> whose log ends at \<open>w\<close>.
\<close>

definition accepted :: "cell set \<Rightarrow> nat \<Rightarrow> nat \<Rightarrow> (pos \<Rightarrow> bool) \<Rightarrow> bool" where
  "accepted E t m R \<longleftrightarrow> (\<exists>z. on_line E t z \<and> fst z = m \<and> (\<forall>x. below E x z \<longrightarrow> R x))"

definition kept_for :: "cell set \<Rightarrow> (nat \<times> pos) set \<Rightarrow> nat \<Rightarrow> nat \<Rightarrow> pos \<Rightarrow> pos \<Rightarrow> bool" where
  "kept_for E L t u w x \<longleftrightarrow> (\<exists>y. no_later y w \<and> below E x y) \<or> superseded E L t u x"

lemma accepted_mono: "accepted E t m R \<Longrightarrow> (\<And>x. R x \<Longrightarrow> R' x) \<Longrightarrow> accepted E t m R'"
  by (auto simp: accepted_def)

lemma accepted_at:
  assumes "tree E L" and "accepted E t m R" and "cell_at E (i, t)" and "i \<le> m"
  shows "R (i, t)"
proof -
  obtain z where z: "on_line E t z" "fst z = m" "\<And>x. below E x z \<Longrightarrow> R x"
    using assms(2) by (auto simp: accepted_def)
  show ?thesis
    by (rule z(3), rule line_comparable [OF assms(1) on_line_cell [OF assms(3)] z(1)]) (use z(2) assms(4) in simp)
qed

lemma accepted_below_starts:
  assumes tree: "tree E L" and x: "cell_at E (i, t)"
    and voter: "\<And>u y. (u, y) \<in> L \<Longrightarrow> t < u \<Longrightarrow> \<exists>m \<ge> i. accepted E t m (kept_for E L t u y)"
    and start: "(u, y) \<in> L" and "t < u"
  shows "below E (i, t) y"
  using start \<open>t < u\<close>
proof (induction u arbitrary: y rule: less_induct)
  case (less u)
  obtain m where m: "i \<le> m" "accepted E t m (kept_for E L t u y)" using voter less.prems by blast
  have "kept_for E L t u y (i, t)" using accepted_at [OF tree m(2) x m(1)] .
  moreover have "\<not> superseded E L t u (i, t)" using less.IH by (auto simp: superseded_def)
  ultimately obtain w where w: "no_later w y" "below E (i, t) w" by (auto simp: kept_for_def)
  have y: "known E y" "snd y < u" using tree_sel(3) [OF tree] less.prems by (auto simp: starts_def)
  have closed: "closed E" by (rule tree_sel(2) [OF tree])
  have t: "0 < t" using x closed by (auto simp: cell_at_def closed_def)
  have tw: "t \<le> snd w" using below_term [OF w(2) closed] by simp
  have w': "cell_at E w"
  proof (cases "w = (i, t)")
    case False
    with w(2) show ?thesis by (cases rule: below.cases) (auto simp: cell_at_def)
  qed (use x in simp)
  have "snd w \<le> snd y" using w(1) by (auto simp: no_later_def)
  then have cy: "cell_at E y" using known_cell [OF y(1)] t tw by linarith
  show ?case
  proof (cases "snd w = snd y")
    case True
    then have "below E w y"
      using line_chain [OF tree, of "fst w" "snd y" "fst y"] w(1) w' cy by (cases w; cases y) (auto simp: no_later_def)
    then show ?thesis using w(2) by (rule below_trans)
  next
    case False
    then have lt: "t < snd y" using w(1) tw by (auto simp: no_later_def)
    obtain j where j: "fst y = Suc j" using cy closed by (cases "fst y") (auto simp: cell_at_def closed_def)
    have cy': "cell_at E (Suc j, snd y)" using cy j by (metis prod.collapse)
    obtain v where v: "(snd y, v) \<in> L" using start_of_cell [OF tree cy'] by metis
    then have "below E (i, t) v" using less.IH [OF y(2) _ lt] by blast
    moreover have "below E v y" using start_below [OF tree v cy'] j by (metis prod.collapse)
    ultimately show ?thesis using below_trans by blast
  qed
qed

text \<open>Two positions that a majority accepted lie on one path.\<close>

lemma accepted_comparable:
  assumes tree: "tree E L" and cells: "cell_at E (i, t)" "cell_at E (j, u)"
    and later: "\<And>y. t < u \<Longrightarrow> (u, y) \<in> L \<Longrightarrow> below E (i, t) y" "\<And>y. u < t \<Longrightarrow> (t, y) \<in> L \<Longrightarrow> below E (j, u) y"
  shows "below E (i, t) (j, u) \<or> below E (j, u) (i, t)"
proof -
  have via: "below E x (k, v)" if cell: "cell_at E (k, v)" and b: "\<And>y. (v, y) \<in> L \<Longrightarrow> below E x y" for x k v
  proof -
    obtain l where l: "k = Suc l" using cell tree_sel(2) [OF tree] by (cases k) (auto simp: cell_at_def closed_def)
    obtain y where "(v, y) \<in> L" using start_of_cell [OF tree cell [unfolded l]] by metis
    then show ?thesis using start_below [OF tree _ cell] b below_trans by blast
  qed
  consider "t < u" | "u < t" | "t = u" by linarith
  then show ?thesis
  proof cases
    case 3
    then show ?thesis
      using line_chain [OF tree cells(1)] line_chain [OF tree cells(2), of i] cells by (metis nle_le)
  qed (use via cells later in blast)+
qed

end
