(* ===== verification/Raft_Effects.thy ===== *)
theory Raft_Effects
  imports Log_Tree
begin

section \<open>What an operation does to the log and tells the others\<close>

text \<open>
  Every operation of an engine, read on the tree of log positions: how the last position, the base and
  the commit index move (\<open>log_effect\<close>), what the messages it adds to the outbox say about the log
  (\<open>fresh_ok\<close>), where the match indices of a leader come from, and that a change of what is persisted
  is marked dirty.
\<close>

subsection \<open>Positions of a log\<close>

definition tip :: "raft \<Rightarrow> pos" where
  "tip r = (last_index r, last_term r)"

definition base :: "raft \<Rightarrow> pos" where
  "base r = (rf_base_index r, rf_base_term r)"

definition holds :: "raft \<Rightarrow> pos \<Rightarrow> bool" where
  "holds r x \<longleftrightarrow> rf_base_index r \<le> fst x \<and> fst x \<le> last_index r \<and> term_at r (fst x) = snd x"

text \<open>The position after the last entry of an append request, and the one a vote request names.\<close>

definition ae_end :: "append_entries_req \<Rightarrow> pos" where
  "ae_end req = (ae_prev_log_index req + length (ae_entries req), last_slab_term (ae_prev_log_term req) (ae_entries req))"

definition rv_tip :: "request_vote_req \<Rightarrow> pos" where
  "rv_tip req = (rv_last_log_index req, rv_last_log_term req)"

definition snap_end :: "install_snapshot_req \<Rightarrow> pos" where
  "snap_end req = (is_last_included_index req, is_last_included_term req)"

lemma log_ok_iff: "log_ok r req \<longleftrightarrow> no_later (tip r) (rv_tip req)"
  by (auto simp: log_ok_def no_later_def tip_def rv_tip_def)

lemma tip_cong:
  "rf_log q = rf_log r \<Longrightarrow> rf_base_index q = rf_base_index r \<Longrightarrow> rf_base_term q = rf_base_term r \<Longrightarrow> tip q = tip r"
  by (simp add: tip_def last_index_def last_term_def)

lemma holds_cong:
  "rf_log q = rf_log r \<Longrightarrow> rf_base_index q = rf_base_index r \<Longrightarrow> rf_base_term q = rf_base_term r \<Longrightarrow> holds q = holds r"
  by (simp add: fun_eq_iff holds_def last_index_def term_at_def log_slot_def)

lemma term_at_last: "raft_wf r \<Longrightarrow> term_at r (last_index r) = last_term r"
  by (metis last_term_eq raft_wf_last_index raft_wf_term_at slab_term_last)

lemma holds_tip: "raft_wf r \<Longrightarrow> holds r (tip r)"
  using term_at_last [of r] raft_wf_last_index [of r] by (simp add: holds_def tip_def)

lemma holds_base: "raft_wf r \<Longrightarrow> holds r (base r)"
  by (simp add: holds_def base_def term_at_def raft_wf_last_index)

lemma holds_pushed:
  assumes "raft_wf r" and "raft_wf r'" and "rf_log r' = rf_log r @ [e]"
    and "rf_base_index r' = rf_base_index r" "rf_base_term r' = rf_base_term r" and "holds r x"
  shows "holds r' x"
  using assms raft_wf_last_index [OF assms(1)] raft_wf_last_index [OF assms(2)]
  by (auto simp: holds_def raft_wf_term_at slab_term_def nth_append split: if_splits)

subsection \<open>What a leader sends\<close>

definition lead_msg :: "raft \<Rightarrow> addressed \<Rightarrow> bool" where
  "lead_msg r a \<longleftrightarrow>
     (case ad_msg a of
        AppendEntries req \<Rightarrow>
          ae_term req = rf_current_term r \<and> ae_leader_commit req = rf_commit_index r \<and>
          (entries_are_contiguous req \<longrightarrow> ae_end req = tip r)
      | InstallSnapshot req \<Rightarrow> is_term req = rf_current_term r \<and> snap_end req = base r
      | _ \<Rightarrow> False)"

lemma lead_msg_cong:
  assumes "rf_log q = rf_log r" "rf_base_index q = rf_base_index r" "rf_base_term q = rf_base_term r"
    and "rf_current_term q = rf_current_term r" "rf_commit_index q = rf_commit_index r"
  shows "lead_msg q = lead_msg r"
  using assms tip_cong [OF assms(1-3)] by (simp add: fun_eq_iff lead_msg_def base_def split: raft_message.split)

lemma append_request_end:
  assumes "fits r" and "rf_base_index r < next" and "entries_are_contiguous (append_request r next)"
  shows "ae_end (append_request r next) = tip r"
proof -
  have len: "last_index r = rf_base_index r + length (rf_log r)" by (rule last_index_eq [OF assms(1)])
  consider "next \<le> last_index r" | "next = last_index r + 1" | "last_index r + 1 < next" by linarith
  then show ?thesis
  proof cases
    case 1
    then have "log_slot r next = Some (next - rf_base_index r - 1)" using assms(2) by (simp add: log_slot_def)
    moreover have "next - rf_base_index r - 1 < length (rf_log r)" "rf_log r \<noteq> []" using 1 assms(2) len by auto
    ultimately show ?thesis
      using assms(2) len by (simp add: ae_end_def append_request_def tip_def last_slab_term_def last_term_def)
  next
    case 2
    then show ?thesis
      using len slab_term_last [of "rf_base_index r" "rf_base_term r" "rf_log r"]
      by (simp add: ae_end_def append_request_def tip_def last_term_eq log_slot_def term_at_eq [OF assms(1)])
        (simp add: last_slab_term_def)
  next
    case 3
    then have "rf_base_index r \<noteq> next - 1" "\<not> next - 1 \<le> rf_base_index r + length (rf_log r)" "next - 1 \<noteq> 0"
      using len by auto
    then have "term_at r (next - 1) = 0" "next - 1 \<noteq> 0" by (auto simp: term_at_eq [OF assms(1)] slab_term_def)
    then show ?thesis using assms(3) by (simp add: entries_are_contiguous_def append_request_def)
  qed
qed

lemma sends_send_append_lead:
  assumes "fits r" and "lead_msg r = lead_msg q"
  shows "sends r (send_append p r) (lead_msg q)"
proof -
  have "lead_msg r \<lparr>ad_to = p, ad_msg = AppendEntries (append_request r n)\<rparr>" if "rf_base_index r < n" for n
    using append_request_end [OF assms(1) that] by (auto simp: lead_msg_def append_request_def)
  then show ?thesis unfolding assms(2) [symmetric]
    by (auto simp: send_append_def send_snapshot_def Let_def lead_msg_def snap_end_def base_def split: option.splits
        intro!: sends_send intro: sends_same)
qed

lemma sends_broadcast_lead:
  assumes "fits r" and "lead_msg r = lead_msg q" and "rf_out p = rf_out r"
  shows "sends p (broadcast_append r) (lead_msg q)"
proof -
  have "sends r (broadcast_append r) (lead_msg q)"
    unfolding broadcast_append_def
  proof (rule sends_foldl_inv [of "\<lambda>s. fits s \<and> lead_msg s = lead_msg q"])
    fix s p assume s: "fits s \<and> lead_msg s = lead_msg q"
    moreover have "lead_msg (send_append p s) = lead_msg s" by (rule lead_msg_cong) simp_all
    ultimately show "sends s (send_append p s) (lead_msg q) \<and> fits (send_append p s) \<and> lead_msg (send_append p s) = lead_msg q"
      by (simp add: sends_send_append_lead)
  qed (use assms in simp)
  then show ?thesis using assms(3) by (simp add: sends_cong [of p r])
qed

subsection \<open>Effects\<close>

definition commit_effect :: "raft \<Rightarrow> raft \<Rightarrow> bool" where
  "commit_effect r r' \<longleftrightarrow>
     rf_commit_index r' = rf_commit_index r \<or>
     0 < rf_commit_index r' \<and> rf_commit_index r' \<le> last_index r' \<and>
     term_at r' (rf_commit_index r') = rf_current_term r' \<and> quorum r' \<le> replicas_at r' (rf_commit_index r')"

inductive log_effect :: "raft_op \<Rightarrow> raft \<Rightarrow> raft \<Rightarrow> bool" where
  Keep: "tip r' = tip r \<Longrightarrow> rf_commit_index r' = rf_commit_index r \<Longrightarrow> holds r (base r') \<Longrightarrow>
    (rf_role r' = Leader \<Longrightarrow> rf_role r = Leader \<and> rf_current_term r' = rf_current_term r) \<Longrightarrow> log_effect op r r'"
| Lead: "rf_role r = Leader \<Longrightarrow> rf_role r' = Leader \<Longrightarrow> rf_current_term r' = rf_current_term r \<Longrightarrow>
    tip r' = tip r \<Longrightarrow> base r' = base r \<Longrightarrow> commit_effect r r' \<Longrightarrow> log_effect op r r'"
| Grow: "rf_role r' = Leader \<Longrightarrow> tip r' = (last_index r + 1, rf_current_term r') \<Longrightarrow> holds r' (tip r) \<Longrightarrow>
    base r' = base r \<Longrightarrow> commit_effect r r' \<Longrightarrow> log_effect op r r'"
| Append: "rf_role r' = Follower \<Longrightarrow> rf_current_term r' = ae_term req \<Longrightarrow> entries_are_contiguous req \<Longrightarrow> base r' = base r \<Longrightarrow>
    term_at r' (rf_commit_index r) = term_at r (rf_commit_index r) \<Longrightarrow>
    tip r' = tip r \<or> tip r' = ae_end req \<and>
      (last_index r < last_index r' \<or> (\<exists>j. rf_base_index r \<le> j \<and> j \<le> last_index r \<and> j \<le> last_index r' \<and> term_at r j \<noteq> term_at r' j)) \<Longrightarrow>
    rf_commit_index r' = rf_commit_index r \<or>
      rf_commit_index r' = min (ae_leader_commit req) (fst (ae_end req)) \<and> (holds r' (ae_end req) \<or> ae_end req = (0, 0)) \<Longrightarrow>
    log_effect (raft_op.Step from_node (AppendEntries req)) r r'"
| Restore: "rf_role r' = Follower \<Longrightarrow> rf_current_term r' = is_term req \<Longrightarrow> base r' = snap_end req \<Longrightarrow>
    rf_commit_index r < is_last_included_index req \<Longrightarrow> rf_commit_index r' = is_last_included_index req \<Longrightarrow>
    holds r (snap_end req) \<and> tip r' = tip r \<or> \<not> holds r (snap_end req) \<and> tip r' = snap_end req \<Longrightarrow>
    log_effect (raft_op.Step from_node (InstallSnapshot req)) r r'"

text \<open>A member that leads, or led and has not changed its log since.\<close>

definition leads :: "raft \<Rightarrow> raft \<Rightarrow> bool" where
  "leads r r' \<longleftrightarrow> rf_role r' = Leader \<or> rf_role r = Leader \<and> rf_current_term r' = rf_current_term r \<and> tip r' = tip r"

definition fresh_ok :: "raft_op \<Rightarrow> raft \<Rightarrow> raft \<Rightarrow> addressed \<Rightarrow> bool" where
  "fresh_ok op r r' a \<longleftrightarrow>
     (case ad_msg a of
        AppendEntries req \<Rightarrow> lead_msg r' a \<and> leads r r'
      | InstallSnapshot req \<Rightarrow> lead_msg r' a \<and> leads r r'
      | RequestVote req \<Rightarrow>
          \<not> rv_pre_vote req \<longrightarrow>
            rf_current_term r < rf_current_term r' \<and> rv_term req = rf_current_term r' \<and>
            (rf_role r' = Candidate \<longrightarrow> rv_tip req = tip r')
      | RequestVoteResp resp \<Rightarrow>
          rvr_granted resp \<and> \<not> rvr_pre_vote resp \<longrightarrow>
            (\<exists>req. op = raft_op.Step (ad_to a) (RequestVote req) \<and> \<not> rv_pre_vote req \<and> rv_term req = rf_current_term r' \<and>
               rvr_term resp = rf_current_term r' \<and> no_later (tip r) (rv_tip req))
      | AppendEntriesResp resp \<Rightarrow>
          aer_success resp \<longrightarrow>
            (\<exists>req. op = raft_op.Step (ad_to a) (AppendEntries req) \<and> entries_are_contiguous req \<and> ae_term req = rf_current_term r' \<and>
               aer_term resp = rf_current_term r' \<and> aer_match_index resp = fst (ae_end req) \<and>
               (holds r' (ae_end req) \<or> ae_end req = (0, 0)))
      | InstallSnapshotResp resp \<Rightarrow>
          isr_success resp \<longrightarrow>
            (\<exists>req. op = raft_op.Step (ad_to a) (InstallSnapshot req) \<and> is_term req = rf_current_term r' \<and>
               isr_term resp = rf_current_term r' \<and> isr_last_included_index resp = is_last_included_index req \<and>
               (is_last_included_index req \<le> rf_commit_index r \<and> tip r' = tip r \<or> holds r' (snap_end req))))"

definition effect :: "raft_op \<Rightarrow> raft \<Rightarrow> raft \<Rightarrow> bool" where
  "effect op r r' \<longleftrightarrow> log_effect op r r' \<and> sends r r' (fresh_ok op r r')"

lemma fresh_lead: "lead_msg r' a \<Longrightarrow> leads r r' \<Longrightarrow> fresh_ok op r r' a"
  by (cases "ad_msg a") (auto simp: fresh_ok_def lead_msg_def)

lemma effect_lead: "log_effect op r r' \<Longrightarrow> leads r r' \<Longrightarrow> sends r r' (lead_msg r') \<Longrightarrow> effect op r r'"
  unfolding effect_def by (auto intro: sends_mono fresh_lead)

lemma effect_quiet:
  assumes "raft_wf r" and "rf_log r' = rf_log r" "rf_base_term r' = rf_base_term r" "rf_base_index r' = rf_base_index r"
    and "rf_commit_index r' = rf_commit_index r"
    and "rf_role r' = Leader \<Longrightarrow> rf_role r = Leader \<and> rf_current_term r' = rf_current_term r"
    and "sends r r' (fresh_ok op r r')"
  shows "effect op r r'"
  unfolding effect_def
proof
  show "log_effect op r r'"
    using assms holds_base [OF assms(1)] tip_cong [OF assms(2,4,3)]
    by (intro Keep) (simp_all add: base_def)
qed (rule assms(7))

subsection \<open>Elections\<close>

lemma become_leader_effect:
  assumes wf: "fits r" and room: "last_index r < u64_max"
  shows "sends r (become_leader r) (lead_msg (become_leader r))"
    and "tip (become_leader r) = (last_index r + 1, rf_current_term r)"
    and "fits (become_leader r)"
proof -
  have len: "last_index r = rf_base_index r + length (rf_log r)" by (rule last_index_eq [OF wf])
  show "sends r (become_leader r) (lead_msg (become_leader r))"
    unfolding become_leader_def Let_def
    using room len by (intro sends_broadcast_lead lead_msg_cong) simp_all
  show "fits (become_leader r)" using room len by simp
  then show "tip (become_leader r) = (last_index r + 1, rf_current_term r)"
    using len room last_index_eq [of "become_leader r"] by (simp add: tip_def last_term_def)
qed

lemma win_effect:
  assumes "raft_wf q" and "last_index q < u64_max" and "rf_role q \<noteq> Leader" and "raft_wf r"
    and same: "rf_log q = rf_log r" "rf_base_term q = rf_base_term r" "rf_base_index q = rf_base_index r"
      "rf_commit_index q = rf_commit_index r"
    and sent: "sends r q (fresh_ok op r (maybe_win_election q))"
  shows "effect op r (maybe_win_election q)"
proof (cases "rf_role q = Candidate \<and> quorum q \<le> card (rf_votes q)")
  case True
  have fits: "fits q" by (rule raft_wf_fits [OF assms(1)])
  have tip: "tip r = tip q" using same by (intro tip_cong) simp_all
  let ?q' = "become_leader q"
  have eq: "maybe_win_election q = ?q'" using True by (simp add: maybe_win_election_def)
  note lead = become_leader_effect [OF fits assms(2)]
  have wf': "raft_wf ?q'" using raft_wf_maybe_win_election [OF assms(1)] assms(2) eq by (simp add: log_room_def)
  show ?thesis
    unfolding effect_def eq
  proof
    have "holds ?q' (tip q)" by (rule holds_pushed [OF assms(1) wf' _ _ _ holds_tip [OF assms(1)]]) simp_all
    with lead(2) same tip show "log_effect op r ?q'"
      by (intro Grow) (simp_all add: base_def commit_effect_def tip_def)
    have "leads r ?q'" by (simp add: leads_def)
    then have "sends q ?q' (fresh_ok op r ?q')" by (intro sends_mono [OF lead(1)] fresh_lead)
    with sent show "sends r ?q' (fresh_ok op r ?q')" unfolding eq by (rule sends_trans)
  qed
next
  case False
  then have "maybe_win_election q = q" by (auto simp: maybe_win_election_def)
  with assms show ?thesis by (intro effect_quiet) simp_all
qed

lemma start_election_effect:
  assumes wf: "raft_wf r" and room: "has_room r"
  shows "effect op r (start_election r)"
proof -
  let ?msg = "RequestVote (vote_request (candidate_of r) (rf_current_term (candidate_of r)) False)"
  let ?q = "send_all ?msg (candidate_of r)"
  have t: "rf_current_term r < rf_current_term (candidate_of r)" using room by (simp add: has_room_def add64_small)
  have tip: "tip (candidate_of r) = tip r" "tip ?q = tip r" by (rule tip_cong; simp)+
  have "fresh_ok op r (maybe_win_election ?q) \<lparr>ad_to = p, ad_msg = ?msg\<rparr>" for p
    using t tip maybe_win_election_role [of ?q]
    by (auto simp: fresh_ok_def vote_request_def rv_tip_def tip_def)
  then have "sends r ?q (fresh_ok op r (maybe_win_election ?q))"
    using sends_send_all [of _ ?msg "candidate_of r"] by (simp add: sends_cong [of r "candidate_of r"])
  then show ?thesis
    unfolding start_election_eq using wf room raft_wf_candidate_of [OF wf]
    by (intro win_effect) (simp_all add: has_room_def log_room_def last_index_def)
qed

text \<open>An operation that starts with a change of nothing that matters here.\<close>

lemma effect_cong:
  assumes "effect op q r'" and "rf_log q = rf_log r" "rf_base_term q = rf_base_term r" "rf_base_index q = rf_base_index r"
    and "rf_commit_index q = rf_commit_index r" "rf_current_term r \<le> rf_current_term q"
    and "rf_role q = Leader \<Longrightarrow> rf_role r = Leader \<and> rf_current_term q = rf_current_term r"
    and sent: "sends r q (fresh_ok op r r')"
  shows "effect op r r'"
proof -
  have same: "tip q = tip r" "holds q = holds r" "base q = base r" "last_index q = last_index r" "term_at q = term_at r"
    using assms(2-4) tip_cong [OF assms(2,4,3)] holds_cong [OF assms(2,4,3)]
    by (simp_all add: base_def last_index_def term_at_def log_slot_def fun_eq_iff)
  have "fresh_ok op q r' a \<Longrightarrow> fresh_ok op r r' a" for a
    using assms(5-7) same by (cases "ad_msg a") (auto simp: fresh_ok_def leads_def)
  then have "sends r r' (fresh_ok op r r')" using assms(1) sent unfolding effect_def by (meson sends_mono sends_trans)
  moreover have "log_effect op q r'" using assms(1) by (simp add: effect_def)
  then have "log_effect op r r'"
  proof cases
    case Keep
    then show ?thesis using assms same by (intro log_effect.Keep) auto
  next
    case Lead
    then show ?thesis using assms same by (intro log_effect.Lead) (auto simp: commit_effect_def)
  next
    case Grow
    then show ?thesis using assms same by (intro log_effect.Grow) (auto simp: commit_effect_def)
  next
    case (Append req from_node)
    then show ?thesis using assms same by (auto intro!: log_effect.Append)
  next
    case (Restore req from_node)
    then show ?thesis using assms same by (auto intro!: log_effect.Restore)
  qed
  ultimately show ?thesis by (simp add: effect_def)
qed

lemma pre_win_effect:
  assumes "raft_wf q" and "has_room q" and "rf_role q \<noteq> Leader" and "raft_wf r"
    and same: "rf_log q = rf_log r" "rf_base_term q = rf_base_term r" "rf_base_index q = rf_base_index r"
      "rf_commit_index q = rf_commit_index r" "rf_current_term q = rf_current_term r"
    and sent: "sends r q (fresh_ok op r (maybe_win_pre_election q))"
  shows "effect op r (maybe_win_pre_election q)"
proof (cases "rf_role q = PreCandidate \<and> quorum q \<le> card (rf_votes q)")
  case True
  then have "maybe_win_pre_election q = start_election q" by (simp add: maybe_win_pre_election_def)
  then show ?thesis
    using start_election_effect [OF assms(1,2), of op] assms(3) same sent by - (rule effect_cong [of op q], simp_all)
next
  case False
  then have "maybe_win_pre_election q = q" by (auto simp: maybe_win_pre_election_def)
  with assms show ?thesis by (intro effect_quiet) simp_all
qed

lemma start_pre_election_effect:
  assumes wf: "raft_wf r" and room: "has_room r"
  shows "effect op r (start_pre_election r)"
proof -
  let ?msg = "RequestVote (vote_request (pre_candidate_of r) (add64 (rf_current_term r) 1) True)"
  have "sends (pre_candidate_of r) (send_all ?msg (pre_candidate_of r)) P" if "\<And>p. P \<lparr>ad_to = p, ad_msg = ?msg\<rparr>" for P
    using that by (rule sends_send_all)
  then have "sends r (send_all ?msg (pre_candidate_of r)) (fresh_ok op r r')" for r'
    by (simp add: sends_cong [of r "pre_candidate_of r"] fresh_ok_def vote_request_def)
  then show ?thesis
    unfolding start_pre_election_eq using wf room raft_wf_pre_candidate_of [OF wf]
    by (intro pre_win_effect) (simp_all add: has_room_def log_room_def last_index_def)
qed

lemma tick_effect:
  assumes wf: "raft_wf r" and room: "has_room r"
  shows "effect Tick r (raft_tick r)"
proof (cases "rf_role r = Leader")
  case True
  let ?b = "r\<lparr>rf_heartbeat_elapsed := 0\<rparr>"
  have same: "rf_log (raft_tick r) = rf_log r" "rf_base_term (raft_tick r) = rf_base_term r"
    "rf_base_index (raft_tick r) = rf_base_index r" "rf_commit_index (raft_tick r) = rf_commit_index r"
    "rf_current_term (raft_tick r) = rf_current_term r"
    using True by (simp_all add: raft_tick_def Let_def)
  have "sends r (broadcast_append ?b) (lead_msg r)"
    using raft_wf_fits [OF wf] by (intro sends_broadcast_lead lead_msg_cong) simp_all
  then have "sends r (raft_tick r) (lead_msg r)"
    using True by (auto simp: raft_tick_def Let_def sends_def)
  then have "sends r (raft_tick r) (lead_msg (raft_tick r))" using lead_msg_cong [of "raft_tick r" r] same by simp
  moreover have "leads r (raft_tick r)" using True same tip_cong [of "raft_tick r" r] by (simp add: leads_def)
  ultimately have "sends r (raft_tick r) (fresh_ok Tick r (raft_tick r))" by (metis sends_mono fresh_lead)
  then show ?thesis using True same by (intro effect_quiet [OF wf]) simp_all
next
  case False
  let ?q = "r\<lparr>rf_election_elapsed := add64 (rf_election_elapsed r) 1\<rparr>"
  have "effect Tick ?q (start_pre_election ?q)" using wf room by (intro start_pre_election_effect) simp_all
  then have "effect Tick r (start_pre_election ?q)" by (rule effect_cong) (simp_all add: sends_same)
  moreover have "effect Tick r ?q" by (intro effect_quiet [OF wf] sends_same) simp_all
  ultimately show ?thesis using False by (simp add: raft_tick_def Let_def)
qed

subsection \<open>Votes\<close>

lemma request_vote_effect:
  assumes wf: "raft_wf r"
  shows "effect (raft_op.Step from_node (RequestVote req)) r (handle_request_vote from_node req r)"
proof (rule effect_quiet [OF wf])
  let ?r' = "handle_request_vote from_node req r"
  have "log_ok (become_follower t l r) req = log_ok r req" for t l
    by (simp add: log_ok_def last_index_def last_term_def)
  then show "sends r ?r' (fresh_ok (raft_op.Step from_node (RequestVote req)) r ?r')"
    by (auto simp: handle_request_vote_def Let_def fresh_ok_def log_ok_iff intro!: sends_send)
qed (auto simp: handle_request_vote_def Let_def split: if_splits)

lemma step_down_effect: "raft_wf r \<Longrightarrow> effect op r (become_follower t l r)"
  by (rule effect_quiet) (simp_all add: sends_same)

lemma no_effect: "raft_wf r \<Longrightarrow> effect op r r"
  by (rule effect_quiet) (simp_all add: sends_same)

lemma vote_resp_effect:
  assumes wf: "raft_wf r" and room: "has_room r" and peer: "from_node \<in> set (rf_peers r)"
  shows "effect op r (handle_vote_resp from_node resp r)"
proof -
  let ?q = "r\<lparr>rf_votes := insert from_node (rf_votes r)\<rparr>"
  have q: "raft_wf ?q" "has_room ?q" using wf room peer by (auto simp: raft_wf_def has_room_def log_room_def last_index_def)
  have "effect op r (maybe_win_pre_election ?q)" if "rf_role r = PreCandidate"
    using that q wf by (intro pre_win_effect sends_same) simp_all
  moreover have "effect op r (maybe_win_election ?q)" if "rf_role r = Candidate"
    using that q wf by (intro win_effect sends_same) (simp_all add: has_room_def log_room_def)
  ultimately show ?thesis using wf by (simp add: handle_vote_resp_def step_down_effect no_effect)
qed

subsection \<open>Replication\<close>

text \<open>Past the end of the log the splice appends everything.\<close>

lemma splice_grow:
  assumes "splice_entries es c r = (ok, c', r')" and "last_index r = c" and "entry_run t c pt es" and "fits r"
  shows "ok \<and> last_index r' = c + length es"
  using assms
proof (induction es c r arbitrary: pt ok c' r' rule: splice_entries.induct)
  case (2 e es c r)
  have e: "le_index e = c + 1" "c + 1 \<le> u64_max" "entry_run t (le_index e) (le_term e) es" using "2.prems"(3) by auto
  have len: "last_index r = rf_base_index r + length (rf_log r)" by (rule last_index_eq [OF "2.prems"(4)])
  then have fits: "fits (push_entry e r)" using e "2.prems"(2) by simp
  then have "last_index (push_entry e r) = le_index e" using last_index_eq [of "push_entry e r"] e(1) "2.prems"(2) len by simp
  moreover have "splice_entries es (le_index e) (push_entry e r) = (ok, c', r')" "\<not> le_index e \<le> last_index r"
    using "2.prems"(1,2) e(1) by simp_all
  ultimately show ?case using "2.IH"(3) [OF _ _ _ e(3) fits] e(1) by simp
qed simp

text \<open>The splice leaves the log alone, or the log ends with the request and has lost or gained something.\<close>

definition splice_moved :: "raft \<Rightarrow> raft \<Rightarrow> bool" where
  "splice_moved r r' \<longleftrightarrow>
     last_index r < last_index r' \<or>
     (\<exists>j. rf_base_index r \<le> j \<and> j \<le> last_index r \<and> j \<le> last_index r' \<and> term_at r j \<noteq> term_at r' j)"

lemma splice_shape:
  assumes "splice_entries es c r = (ok, c', r')" and "raft_wf r" and "rf_role r \<noteq> Leader"
    and "entry_run t c pt es" and "t \<le> rf_current_term r" and "spliced_upto c pt r"
  shows "r' = r \<or> ok \<and> es \<noteq> [] \<and> last_index r' = c + length es \<and> splice_moved r r'"
  using assms
proof (induction es c r arbitrary: pt ok c' r' rule: splice_entries.induct)
  case (2 e es c r)
  note wf = "2.prems"(2) and role = "2.prems"(3) and sp = "2.prems"(6)
  have e: "le_index e = c + 1" "c + 1 \<le> u64_max" "0 < le_term e" "pt \<le> le_term e"
    "le_term e \<le> rf_current_term r" and run': "entry_run t (le_index e) (le_term e) es"
    using "2.prems"(4,5) by auto
  consider (skip) "le_index e \<le> last_index r" "term_at r (le_index e) = le_term e"
    | (refuse) "le_index e \<le> last_index r" "term_at r (le_index e) \<noteq> le_term e" "le_index e \<le> rf_commit_index r"
    | (cut) "le_index e \<le> last_index r" "term_at r (le_index e) \<noteq> le_term e" "rf_commit_index r < le_index e"
    | (grow) "last_index r < le_index e"
    by linarith
  then show ?case
  proof cases
    case skip
    then have s: "splice_entries es (le_index e) r = (ok, c', r')" using "2.prems"(1) by simp
    have "spliced_upto (le_index e) (le_term e) r" using skip by (simp add: spliced_upto_def)
    from "2.IH"(2) [OF skip(1) _ s wf role run' "2.prems"(5) this] skip(2) e(1) show ?thesis by auto
  next
    case refuse
    then show ?thesis using "2.prems"(1) by (auto simp: truncate_from_def)
  next
    case cut
    obtain r1 where r1: "truncate_from (le_index e) r = (True, r1)"
      "r1 = r\<lparr>rf_log := take (le_index e - rf_base_index r - 1) (rf_log r), rf_dirty := True\<rparr>"
      "raft_wf r1" "last_index r1 = le_index e - 1" "\<And>k. k < le_index e \<Longrightarrow> entry_at r1 k = entry_at r k"
      using truncate_from_spec [OF wf role cut(3,1)] by blast
    have push: "raft_wf (push_entry e r1)" "spliced_upto (le_index e) (le_term e) (push_entry e r1)"
      using splice_push [OF wf r1(3) _ _ _ _ _ sp e(1-4)] r1 role e by (auto simp: less_Suc_eq_le)
    have s: "splice_entries es (le_index e) (push_entry e r1) = (ok, c', r')"
      using "2.prems"(1) cut(1,2) r1(1) by simp
    have "last_index (push_entry e r1) = le_index e"
      using raft_wf_last_index [OF r1(3)] raft_wf_last_index [OF push(1)] r1(4) e(1) by simp
    then have g: "ok" "last_index r' = le_index e + length es"
      using splice_grow [OF s _ run' raft_wf_fits [OF push(1)]] by auto
    have role1: "rf_role (push_entry e r1) \<noteq> Leader" "t \<le> rf_current_term (push_entry e r1)"
      using role "2.prems"(5) by (simp_all add: r1(2))
    have res: "splice_result (le_index e) es (push_entry e r1) ok c' r'"
      using splice_spec [OF s push(1) role1(1) run' role1(2) push(2)] .
    then have "entry_at r' (le_index e) = entry_at (push_entry e r1) (le_index e)" "rf_base_index r' = rf_base_index (push_entry e r1)"
      "rf_base_term r' = rf_base_term (push_entry e r1)" "raft_wf r'"
      by (auto simp: splice_result_def)
    then have "term_at r' (le_index e) = term_at (push_entry e r1) (le_index e)"
      by (simp add: term_at_entry push(1))
    also have "\<dots> = le_term e" using push(2) e(1) by (simp add: spliced_upto_def)
    finally have "term_at r' (le_index e) = le_term e" .
    moreover have "rf_base_index r \<le> le_index e" using wf cut(3) by (simp add: raft_wf_def wf_index_def)
    ultimately have "splice_moved r r'" using cut(1,2) g(2) unfolding splice_moved_def by (metis le_add1)
    with g e(1) show ?thesis by simp
  next
    case grow
    with sp e(1) have c: "last_index r = c" by (simp add: spliced_upto_def)
    then have g: "ok" "last_index r' = c + length (e # es)"
      using splice_grow [OF "2.prems"(1) _ "2.prems"(4) raft_wf_fits [OF wf]] by auto
    then show ?thesis using c by (simp add: splice_moved_def)
  qed
qed simp

lemma entry_run_last:
  "entry_run t c pt es \<Longrightarrow> es \<noteq> [] \<Longrightarrow> le_index (last es) = c + length es \<and> 0 < le_term (last es)"
proof (induction es arbitrary: c pt)
  case (Cons e es)
  then show ?case by (cases "es = []") auto
qed simp

lemma term_at_pos: "raft_wf r \<Longrightarrow> 0 < term_at r i \<Longrightarrow> rf_base_index r \<le> i \<and> i \<le> last_index r"
  by (auto simp: raft_wf_term_at raft_wf_last_index slab_term_def split: if_splits)

lemma accept_entries_effect:
  assumes wf: "raft_wf q" and role: "rf_role q = Follower" and run: "entries_are_contiguous req"
    and t: "rf_current_term q = ae_term req" and prev: "ae_prev_log_index req \<le> last_index q"
      "ae_prev_log_index req = 0 \<or> term_at q (ae_prev_log_index req) = ae_prev_log_term req"
  shows "effect (raft_op.Step from_node (AppendEntries req)) q (accept_entries from_node req q)"
proof -
  let ?r' = "accept_entries from_node req q" and ?e = "ae_end req"
  obtain ok c s where s: "splice_entries (ae_entries req) (ae_prev_log_index req) q = (ok, c, s)"
    by (metis prod_cases3)
  have run': "entry_run (ae_term req) (ae_prev_log_index req) (ae_prev_log_term req) (ae_entries req)"
    "ae_prev_log_index req = 0 \<longleftrightarrow> ae_prev_log_term req = 0"
    using run by (auto simp: entries_are_contiguous_run)
  have sp: "spliced_upto (ae_prev_log_index req) (ae_prev_log_term req) q" using prev by (auto simp: spliced_upto_def)
  have nl: "rf_role q \<noteq> Leader" "ae_term req \<le> rf_current_term q" using role t by simp_all
  note res = splice_spec [OF s wf nl(1) run'(1) nl(2) sp] and shape = splice_shape [OF s wf nl(1) run'(1) nl(2) sp]
  have wf': "raft_wf s" and base: "rf_base_index s = rf_base_index q" "rf_base_term s = rf_base_term q"
    and commit: "rf_commit_index s = rf_commit_index q" and bl: "rf_out s = rf_out q" "rf_current_term s = rf_current_term q"
    "rf_role s = rf_role q"
    using res by (auto simp: splice_result_def)
  have confirmed: "c = fst ?e" if ok using res that by (simp add: splice_result_def ae_end_def)
  have same: "tip ?r' = tip s" "holds ?r' = holds s" "base ?r' = base s" "last_index ?r' = last_index s" "term_at ?r' = term_at s"
    by (auto simp: accept_entries_def s Let_def tip_def base_def holds_def last_index_def last_term_def term_at_def log_slot_def fun_eq_iff)
  have at_end: "holds s ?e \<or> ?e = (0, 0)" if ok
  proof (cases "ae_entries req = []")
    case True
    then have "s = q" using s by simp
    moreover have "holds q ?e" if "ae_prev_log_index req \<noteq> 0"
      using that True prev run' term_at_pos [OF wf, of "ae_prev_log_index req"]
      by (auto simp: holds_def ae_end_def last_slab_term_def)
    ultimately show ?thesis using True run'(2) by (auto simp: ae_end_def last_slab_term_def)
  next
    case False
    have "\<forall>e \<in> set (ae_entries req). term_at s (le_index e) = le_term e" using res \<open>ok\<close> unfolding splice_result_def by blast
    then have "term_at s (le_index (last (ae_entries req))) = le_term (last (ae_entries req))" using False by simp
    then have "term_at s (fst ?e) = snd ?e" "0 < snd ?e"
      using False entry_run_last [OF run'(1) False] by (simp_all add: ae_end_def last_slab_term_def)
    then show ?thesis using term_at_pos [OF wf', of "fst ?e"] by (simp add: holds_def)
  qed
  have moved: "tip s = tip q \<or> tip s = ?e \<and> splice_moved q s"
  proof (cases "s = q")
    case False
    with shape have m: "ok" "ae_entries req \<noteq> []" "last_index s = fst ?e" "splice_moved q s" by (auto simp: ae_end_def)
    moreover have "last_term s = snd ?e"
      using at_end [OF m(1)] m(2,3) entry_run_last [OF run'(1) m(2)] term_at_last [OF wf']
      by (auto simp: holds_def ae_end_def last_slab_term_def)
    ultimately show ?thesis by (auto simp: tip_def)
  qed simp
  have "rf_commit_index q \<le> last_index q" "rf_base_index q \<le> rf_commit_index q"
    using wf raft_wf_last_index [OF wf] by (auto simp: raft_wf_def wf_index_def)
  have old: "term_at s (rf_commit_index q) = term_at q (rf_commit_index q)"
    using res by (simp add: term_at_entry [OF wf] term_at_entry [OF wf'] base splice_result_def)
  have ci: "rf_commit_index ?r' = rf_commit_index q \<or> ok \<and> rf_commit_index ?r' = min (ae_leader_commit req) c"
    by (simp add: accept_entries_def s Let_def commit)
  show ?thesis
    unfolding effect_def
  proof
    show "log_effect (raft_op.Step from_node (AppendEntries req)) q ?r'"
    proof (rule Append)
      show "tip ?r' = tip q \<or> tip ?r' = ?e \<and> (last_index q < last_index ?r' \<or>
          (\<exists>j. rf_base_index q \<le> j \<and> j \<le> last_index q \<and> j \<le> last_index ?r' \<and> term_at q j \<noteq> term_at ?r' j))"
        using moved unfolding same splice_moved_def .
      show "rf_commit_index ?r' = rf_commit_index q \<or>
          rf_commit_index ?r' = min (ae_leader_commit req) (fst ?e) \<and> (holds ?r' ?e \<or> ?e = (0, 0))"
        using ci confirmed at_end unfolding same by blast
      show "base ?r' = base q" by (simp only: same) (simp add: base base_def)
    qed (use role t run old in \<open>simp_all add: same\<close>)
    have "aer_match_index resp = fst ?e \<and> (holds ?r' ?e \<or> ?e = (0, 0)) \<and> aer_term resp = ae_term req" 
      if "resp = \<lparr>aer_term = rf_current_term s, aer_success = ok, aer_match_index = c\<rparr>" "ok" for resp
      using that confirmed at_end bl t by (simp add: same)
    then have "fresh_ok (raft_op.Step from_node (AppendEntries req)) q ?r'
        \<lparr>ad_to = from_node, ad_msg = AppendEntriesResp \<lparr>aer_term = rf_current_term s, aer_success = ok, aer_match_index = c\<rparr>\<rparr>"
      using t run by (auto simp: fresh_ok_def)
    then show "sends q ?r' (fresh_ok (raft_op.Step from_node (AppendEntries req)) q ?r')"
      by (auto simp: accept_entries_def s Let_def append_resp_def bl intro!: sends_send)
  qed
qed

text \<open>An answer that refuses leaves the log as it is.\<close>

lemma refuse_effect:
  assumes "raft_wf r" and "rf_log q = rf_log r" "rf_base_term q = rf_base_term r" "rf_base_index q = rf_base_index r"
    and "rf_commit_index q = rf_commit_index r" "rf_out q = rf_out r"
    and "rf_role q = Leader \<Longrightarrow> rf_role r = Leader \<and> rf_current_term q = rf_current_term r"
  shows "effect op r (append_resp to False m q)" and "effect op r (snapshot_resp to False m q)"
  using assms by (auto intro!: effect_quiet sends_send simp: append_resp_def snapshot_resp_def fresh_ok_def)

lemma append_effect:
  assumes wf: "raft_wf r" and peer: "from_node \<in> set (rf_peers r)"
  shows "effect (raft_op.Step from_node (AppendEntries req)) r (handle_append from_node req r)"
proof -
  let ?a = "adopt_term (ae_term req) r" and ?op = "raft_op.Step from_node (AppendEntries req)"
  let ?q = "become_follower (ae_term req) (Some from_node) ?a"
  have wf': "raft_wf ?q" using wf peer raft_wf_adopt_term by (intro raft_wf_become_follower) simp_all
  have acc: "effect ?op r (accept_entries from_node req ?q)"
    if "\<not> ae_term req < rf_current_term r" "entries_are_contiguous req" "\<not> last_index ?q < ae_prev_log_index req"
      "\<not> (0 < ae_prev_log_index req \<and> term_at ?q (ae_prev_log_index req) \<noteq> ae_prev_log_term req)"
  proof (rule effect_cong [of ?op ?q])
    show "effect ?op ?q (accept_entries from_node req ?q)"
      using that by (intro accept_entries_effect [OF wf']) auto
  qed (use that in \<open>simp_all add: sends_same\<close>)
  have a: "rf_role ?a = Leader \<Longrightarrow> rf_role r = Leader \<and> rf_current_term ?a = rf_current_term r"
    by (simp add: adopt_term_def split: if_splits)
  show ?thesis
    unfolding handle_append_eq Let_def using acc a by (auto intro!: refuse_effect [OF wf] split: if_split)
qed

subsection \<open>The leader's bookkeeping\<close>

lemma advance_commit_effect:
  assumes wf: "raft_wf q" and "rf_commit_index q = rf_commit_index r"
  shows "commit_effect r (snd (maybe_advance_commit q))" and "commit_effect r (broadcast_append (snd (maybe_advance_commit q)))"
proof -
  let ?m = "snd (maybe_advance_commit q)"
  have "rf_commit_index ?m = rf_commit_index r \<or> committable q (rf_commit_index ?m)"
    using assms(2) by (cases rule: maybe_advance_commit_cases [OF wf]) auto
  moreover have "replicas_at ?m k = replicas_at q k" "quorum ?m = quorum q" "last_index ?m = last_index q" "term_at ?m k = term_at q k" for k
    by (simp_all add: replicas_at_def quorum_def last_index_def term_at_def log_slot_def)
  ultimately show "commit_effect r ?m" by (auto simp: commit_effect_def committable_def)
  moreover have "replicas_at (broadcast_append ?m) k = replicas_at ?m k" "quorum (broadcast_append ?m) = quorum ?m"
    "last_index (broadcast_append ?m) = last_index ?m" "term_at (broadcast_append ?m) k = term_at ?m k" for k
    by (simp_all add: replicas_at_def quorum_def last_index_def term_at_def log_slot_def)
  ultimately show "commit_effect r (broadcast_append ?m)" by (simp add: commit_effect_def)
qed

lemma record_match_effect:
  assumes wf: "raft_wf r" and role: "rf_role r = Leader" and n: "n \<le> last_index r"
  shows "effect op r (record_match from_node n r)"
proof -
  define m where "m = max n (case rf_match_index r from_node of Some m \<Rightarrow> m | None \<Rightarrow> 0)"
  define q where "q = r\<lparr>rf_match_index := (rf_match_index r)(from_node \<mapsto> m),
      rf_next_index := (rf_next_index r)(from_node \<mapsto> sat_add64 m 1)\<rparr>"
  have eq: "record_match from_node n r =
      (if fst (maybe_advance_commit q) then broadcast_append (snd (maybe_advance_commit q)) else snd (maybe_advance_commit q))"
    by (simp add: record_match_def Let_def m_def q_def case_prod_beta)
  have fits: "fits r" by (rule raft_wf_fits [OF wf])
  let ?r' = "record_match from_node n r"
  have wfq: "raft_wf q"
    using wf n raft_wf_last_index [OF wf] by (auto simp: q_def m_def raft_wf_def wf_leader_def ran_def split: option.splits)
  have "rf_commit_index q = rf_commit_index r" by (simp add: q_def)
  then have commit: "commit_effect r ?r'" unfolding eq by (simp add: advance_commit_effect [OF wfq])
  have same: "tip ?r' = tip r" "base ?r' = base r" by (simp_all add: tip_def base_def last_index_def last_term_def)
  have "sends r ?r' (lead_msg ?r')"
  proof (cases "fst (maybe_advance_commit q)")
    case True
    then show ?thesis unfolding eq
      using fits by (simp, intro sends_broadcast_lead lead_msg_cong) (simp_all add: q_def)
  next
    case False
    then show ?thesis by (intro sends_same) (simp add: eq q_def)
  qed
  with role commit same show ?thesis by (intro effect_lead Lead) (simp_all add: leads_def)
qed

lemma append_resp_effect:
  assumes wf: "raft_wf r"
  shows "effect op r (handle_append_resp from_node resp r)"
proof -
  let ?r = "r\<lparr>rf_acked_since_check := insert from_node (rf_acked_since_check r)\<rparr>"
  have "effect op r (record_match from_node (min (aer_match_index resp) (last_index ?r)) ?r)" if "rf_role r = Leader"
  proof (rule effect_cong)
    show "effect op ?r (record_match from_node (min (aer_match_index resp) (last_index ?r)) ?r)"
      using wf that by (intro record_match_effect) simp_all
  qed (simp_all add: sends_same)
  moreover have "effect op r (send_append from_node q)" if "rf_role r = Leader" "rf_out q = rf_out r" "rf_log q = rf_log r"
    "rf_base_term q = rf_base_term r" "rf_base_index q = rf_base_index r" "rf_role q = rf_role r"
    "rf_current_term q = rf_current_term r" "rf_commit_index q = rf_commit_index r" for q
  proof (intro effect_lead)
    have tip: "tip (send_append from_node q) = tip r" using that by (intro tip_cong) simp_all
    then show "leads r (send_append from_node q)" using that by (simp add: leads_def)
    have "lead_msg q = lead_msg (send_append from_node q)" by (intro lead_msg_cong) simp_all
    moreover have "fits q" using that raft_wf_fits [OF wf] by simp
    ultimately have "sends q (send_append from_node q) (lead_msg (send_append from_node q))" by (rule sends_send_append_lead [rotated])
    with that(2) show "sends r (send_append from_node q) (lead_msg (send_append from_node q))" by (simp add: sends_cong [of r q])
    show "log_effect op r (send_append from_node q)"
      using that tip by (intro Lead) (simp_all add: base_def commit_effect_def)
  qed
  moreover have "effect op r q" if "rf_out q = rf_out r" "rf_log q = rf_log r" "rf_base_term q = rf_base_term r"
    "rf_base_index q = rf_base_index r" "rf_role q = rf_role r" "rf_current_term q = rf_current_term r"
    "rf_commit_index q = rf_commit_index r" for q
    using that by (intro effect_quiet [OF wf] sends_same) simp_all
  ultimately show ?thesis
    using step_down_effect [OF wf] by (simp add: handle_append_resp_def Let_def)
qed

lemma install_resp_effect:
  assumes wf: "raft_wf r"
  shows "effect op r (handle_install_snapshot_resp from_node resp r)"
proof -
  let ?q = "r\<lparr>rf_acked_since_check := insert from_node (rf_acked_since_check r),
    rf_snapshot_inflight := (rf_snapshot_inflight r)(from_node := None)\<rparr>"
  let ?sent = "case rf_snapshot_inflight r from_node of Some n \<Rightarrow> n | None \<Rightarrow> 0"
  have "effect op r (record_match from_node (min (isr_last_included_index resp) ?sent) ?q)" if role: "rf_role r = Leader"
  proof (rule effect_cong)
    have "?sent \<le> rf_base_index r"
      using wf role by (auto simp: raft_wf_def wf_leader_def ranI split: option.splits)
    then have "min (isr_last_included_index resp) ?sent \<le> last_index ?q"
      using raft_wf_last_index [OF wf] by (simp add: last_index_def)
    moreover have "raft_wf ?q" using wf by (auto simp: raft_wf_def wf_leader_def ran_def)
    ultimately show "effect op ?q (record_match from_node (min (isr_last_included_index resp) ?sent) ?q)"
      using role by (intro record_match_effect) simp_all
  qed (simp_all add: sends_same)
  moreover have "effect op r (r\<lparr>rf_acked_since_check := X\<rparr>)" for X
    by (intro effect_quiet [OF wf] sends_same) simp_all
  ultimately show ?thesis
    using step_down_effect [OF wf] no_effect [OF wf] by (simp add: handle_install_snapshot_resp_def Let_def)
qed

lemma propose_effect:
  assumes wf: "raft_wf r" and room: "log_room r"
  shows "effect op r (snd (raft_propose cmd r))"
proof (cases "rf_role r = Leader")
  case True
  let ?e = "\<lparr>le_term = rf_current_term r, le_index = add64 (last_index r) 1, le_command = Some cmd\<rparr>"
  let ?q = "push_entry ?e r" and ?r' = "snd (raft_propose cmd r)"
  have eq: "?r' = broadcast_append (snd (maybe_advance_commit ?q))"
    using True by (simp add: raft_propose_def Let_def case_prod_beta)
  have "0 < rf_current_term r" using wf True by (auto simp: raft_wf_def wf_vote_def)
  from wf_log_push_current [OF wf room this] wf have wfq: "raft_wf ?q"
    by (auto simp: raft_wf_def wf_index_def wf_leader_def)
  have wf': "raft_wf ?r'" by (rule propose_ok(1) [OF assms])
  have len: "last_index r = rf_base_index r + length (rf_log r)" "last_index ?r' = rf_base_index r + length (rf_log r) + 1"
    using raft_wf_last_index [OF wf] raft_wf_last_index [OF wf'] by (simp_all add: eq)
  show ?thesis
  proof (intro effect_lead Grow)
    show "tip ?r' = (last_index r + 1, rf_current_term ?r')" using len by (simp add: tip_def eq last_term_def)
    show "holds ?r' (tip r)"
      by (rule holds_pushed [OF wf wf' _ _ _ holds_tip [OF wf]]) (simp_all add: eq)
    show "commit_effect r ?r'" unfolding eq by (intro advance_commit_effect wfq) simp
    show "sends r ?r' (lead_msg ?r')"
      unfolding eq using raft_wf_fits [OF wfq] by (intro sends_broadcast_lead lead_msg_cong) simp_all
  qed (use True in \<open>simp_all add: eq base_def leads_def\<close>)
qed (use no_effect [OF wf] in \<open>simp add: raft_propose_def\<close>)

subsection \<open>Snapshots\<close>

lemma drop_tip:
  assumes wf: "raft_wf r" "raft_wf r'" and i: "rf_base_index r < i" "i \<le> last_index r"
    and r': "rf_log r' = drop (i - rf_base_index r) (rf_log r)" "rf_base_index r' = i" "rf_base_term r' = term_at r i"
  shows "tip r' = tip r" and "holds r (base r')"
proof -
  have len: "last_index r = rf_base_index r + length (rf_log r)" by (rule raft_wf_last_index [OF wf(1)])
  then have "last_index r' = last_index r" using raft_wf_last_index [OF wf(2)] i r' by simp
  moreover have "last_term r' = last_term r"
  proof (cases "rf_log r' = []")
    case True
    then have "i = last_index r" using i len r'(1) by simp
    then show ?thesis using True r'(3) term_at_last [OF wf(1)] by (simp add: last_term_def)
  qed (use i r'(1) in \<open>auto simp: last_term_def last_drop\<close>)
  ultimately show "tip r' = tip r" by (simp add: tip_def)
  show "holds r (base r')" using i r' by (simp add: holds_def base_def)
qed

lemma compact_effect:
  assumes wf: "raft_wf r" and "i \<le> rf_last_applied r"
  shows "effect op r (compact i data r)"
proof (cases "i \<le> rf_base_index r \<or> rf_commit_index r < i")
  case True
  then show ?thesis using no_effect [OF wf] by (simp add: compact_def)
next
  case False
  let ?r' = "compact i data r"
  have len: "last_index r = rf_base_index r + length (rf_log r)" by (rule raft_wf_last_index [OF wf])
  have "i \<le> last_index r" using False wf len by (simp add: raft_wf_def wf_index_def)
  moreover from this have "rf_log ?r' = drop (i - rf_base_index r) (rf_log r)" "rf_base_index ?r' = i" "rf_base_term ?r' = term_at r i"
    using False len by (auto simp: compact_def Let_def)
  ultimately have "tip ?r' = tip r" "holds r (base ?r')"
    using False drop_tip [OF wf compact_ok(1) [OF assms], of i] by simp_all
  moreover have "rf_commit_index ?r' = rf_commit_index r" "rf_out ?r' = rf_out r" by simp_all
  ultimately show ?thesis by (auto simp: effect_def intro!: Keep sends_same)
qed

lemma install_effect:
  assumes wf: "raft_wf r" and peer: "from_node \<in> set (rf_peers r)" and fit: "is_last_included_index req \<le> u64_max"
  shows "effect (raft_op.Step from_node (InstallSnapshot req)) r (handle_install_snapshot from_node req r)"
proof -
  let ?a = "adopt_term (is_term req) r" and ?op = "raft_op.Step from_node (InstallSnapshot req)"
  let ?q = "become_follower (is_term req) (Some from_node) ?a" and ?i = "is_last_included_index req"
  have wf': "raft_wf ?q" using wf peer raft_wf_adopt_term by (intro raft_wf_become_follower) simp_all
  have a: "rf_role ?a = Leader \<Longrightarrow> rf_role r = Leader \<and> rf_current_term ?a = rf_current_term r"
    by (simp add: adopt_term_def split: if_splits)
  have tipq: "tip ?q = tip r" "holds ?q = holds r" by (intro tip_cong holds_cong; simp)+
  have here: "effect ?op r (snapshot_resp from_node True ?i ?q)"
    if "\<not> is_term req < rf_current_term r" "?i \<le> rf_base_index r \<or> ?i \<le> rf_commit_index r"
  proof (rule effect_quiet [OF wf])
    have "?i \<le> rf_commit_index r" using that(2) wf by (auto simp: raft_wf_def wf_index_def)
    moreover have "tip (snapshot_resp from_node True ?i ?q) = tip r" by (intro tip_cong) simp_all
    ultimately show "sends r (snapshot_resp from_node True ?i ?q) (fresh_ok ?op r (snapshot_resp from_node True ?i ?q))"
      using that(1) unfolding snapshot_resp_def by (intro sends_send) (auto simp: fresh_ok_def)
  qed simp_all
  have inst: "effect ?op r (snapshot_resp from_node True (rf_base_index s) s)"
    if s: "s = install_snapshot req ?q" and "\<not> is_term req < rf_current_term r" "snapshot_metadata_is_valid req"
      "rf_base_index r < ?i" "rf_commit_index r < ?i" for s
  proof -
    let ?r' = "snapshot_resp from_node True (rf_base_index s) s"
    have trm: "is_last_included_term req \<le> rf_current_term ?q" using that(2,3) by (auto simp: snapshot_metadata_is_valid_def)
    have wfs: "raft_wf s" unfolding s using raft_wf_install(1) [OF wf' that(3) fit _ _ trm] that(4,5) by simp
    have sel: "base s = snap_end req" "rf_commit_index s = ?i" "rf_out s = rf_out r" "rf_current_term s = is_term req" "rf_role s = Follower"
      using that by (simp_all add: install_snapshot_def Let_def base_def snap_end_def max_def)
    have keep: "term_at ?q ?i = is_last_included_term req \<and> ?i \<le> last_index ?q \<longleftrightarrow> holds r (snap_end req)"
      using that(4) by (auto simp: holds_def snap_end_def term_at_def log_slot_def last_index_def)
    have "tip s = (if holds r (snap_end req) then tip r else snap_end req)"
    proof (cases "holds r (snap_end req)")
      case True
      then have "tip s = tip ?q"
        using that(4) keep by (intro drop_tip [OF wf' wfs, of ?i]) (simp_all add: s install_snapshot_def Let_def)
      with True tipq show ?thesis by simp
    next
      case False
      then have "rf_log s = []" using keep by (auto simp: s install_snapshot_def Let_def)
      then show ?thesis using False sel(1) raft_wf_last_index [OF wfs] by (simp add: tip_def base_def last_term_def)
    qed
    moreover have same: "tip ?r' = tip s" "holds ?r' = holds s" "base ?r' = base s"
      by (intro tip_cong holds_cong; simp)+ (simp add: base_def)
    ultimately have "log_effect ?op r ?r'" using sel that(5) by (intro Restore) (auto simp: same)
    moreover have "fresh_ok ?op r ?r' \<lparr>ad_to = from_node, ad_msg = InstallSnapshotResp \<lparr>isr_term = rf_current_term s,
        isr_success = True, isr_last_included_index = rf_base_index s\<rparr>\<rparr>"
      using sel holds_base [OF wfs] by (auto simp: fresh_ok_def same) (auto simp: base_def snap_end_def)
    then have "sends r ?r' (fresh_ok ?op r ?r')" unfolding snapshot_resp_def by (intro sends_send sel(3))
    ultimately show ?thesis by (simp add: effect_def)
  qed
  show ?thesis
    unfolding handle_install_snapshot_eq Let_def using a here inst [OF refl]
    by (auto intro!: refuse_effect [OF wf] split: if_split)
qed

subsection \<open>All operations\<close>

theorem op_effect:
  assumes "raft_wf r" and "op_ok op r" and "op \<noteq> Drain_Ready"
  shows "effect op r (apply_raft_op op r)"
proof -
  have room: "has_room r" "log_room r" using op_ok_room [OF assms(2)] by (simp_all add: has_room_def)
  have "effect (raft_op.Step from_node msg) r (raft_step from_node msg r)" if "op = raft_op.Step from_node msg" for from_node msg
  proof (cases "from_node \<in> set (rf_peers r) \<and> body_identity_matches from_node msg")
    case True
    with assms that room show ?thesis
      by (cases msg) (auto simp: raft_step_def intro: request_vote_effect vote_resp_effect append_effect
          append_resp_effect install_effect install_resp_effect)
  qed (auto simp: raft_step_def no_effect assms(1))
  then show ?thesis
    using assms room tick_effect propose_effect compact_effect by (cases op) auto
qed

subsection \<open>Match indices\<close>

text \<open>A match index above zero was there before or is what the peer has just reported.\<close>

definition reported :: "raft_op \<Rightarrow> node_id \<Rightarrow> nat \<Rightarrow> nat \<Rightarrow> bool" where
  "reported op p t k \<longleftrightarrow>
     (\<exists>resp. op = raft_op.Step p (AppendEntriesResp resp) \<and> aer_success resp \<and> aer_term resp = t \<and> k \<le> aer_match_index resp) \<or>
     (\<exists>resp. op = raft_op.Step p (InstallSnapshotResp resp) \<and> isr_success resp \<and> isr_term resp = t \<and>
        k \<le> isr_last_included_index resp)"

definition match_effect :: "raft_op \<Rightarrow> raft \<Rightarrow> raft \<Rightarrow> bool" where
  "match_effect op r r' \<longleftrightarrow>
     (\<forall>p k. rf_role r' = Leader \<and> rf_match_index r' p = Some k \<and> 0 < k \<longrightarrow>
        rf_role r = Leader \<and> rf_current_term r' = rf_current_term r \<and>
        (rf_match_index r p = Some k \<or> reported op p (rf_current_term r) k))"

lemma match_effect_same:
  assumes "rf_role r' = Leader \<Longrightarrow> rf_role r = Leader \<and> rf_current_term r' = rf_current_term r"
    and "rf_match_index r' = rf_match_index r"
  shows "match_effect op r r'"
  using assms by (simp add: match_effect_def)

lemma map_of_const: "map_of (map (\<lambda>p. (p, c)) ps) x = Some k \<Longrightarrow> k = c"
  by (auto dest: map_of_SomeD)

lemma match_win: "rf_role q \<noteq> Leader \<Longrightarrow> match_effect op r (maybe_win_election q)"
  using maybe_win_election_role [of q]
  by (auto simp: match_effect_def maybe_win_election_def dest: map_of_const split: if_splits)

lemma match_pre_win: "rf_role q \<noteq> Leader \<Longrightarrow> match_effect op r (maybe_win_pre_election q)"
  by (auto simp: maybe_win_pre_election_def start_election_eq intro!: match_win) (simp_all add: match_effect_def)

lemma match_tick: "match_effect op r (raft_tick r)"
proof (cases "rf_role r = Leader")
  case True
  then show ?thesis by (intro match_effect_same) (auto simp: raft_tick_def Let_def)
next
  case False
  let ?q = "r\<lparr>rf_election_elapsed := add64 (rf_election_elapsed r) 1\<rparr>"
  have "match_effect op r (start_pre_election ?q)" unfolding start_pre_election_eq by (intro match_pre_win) simp
  with False show ?thesis by (auto simp: raft_tick_def Let_def match_effect_def)
qed

lemma match_record:
  assumes "rf_role q = rf_role r" "rf_current_term q = rf_current_term r" "rf_match_index q = rf_match_index r"
    and "rf_role r = Leader" and "\<And>k. k \<le> n \<Longrightarrow> reported op from_node (rf_current_term r) k"
  shows "match_effect op r (record_match from_node n q)"
  using assms
  by (auto simp: match_effect_def record_match_def Let_def case_prod_beta max_def split: if_splits option.splits)

lemma match_follow:
  "match_effect op r (handle_append from_node req r)" "match_effect op r (handle_install_snapshot from_node sreq r)"
proof -
  have a: "match_effect op r q" if "rf_role q \<noteq> Leader" for q using that by (simp add: match_effect_def)
  have b: "match_effect op r (append_resp to ok m r)" "match_effect op r (snapshot_resp to ok m r)"
    "match_effect op r (append_resp to ok m (adopt_term t r))" "match_effect op r (snapshot_resp to ok m (adopt_term t r))" for to ok m t
    by (simp_all add: match_effect_def adopt_term_def)
  show "match_effect op r (handle_append from_node req r)"
    unfolding handle_append_eq Let_def using b by (auto intro!: a split: if_split)
  show "match_effect op r (handle_install_snapshot from_node sreq r)"
    unfolding handle_install_snapshot_eq Let_def using b by (auto intro!: a split: if_split)
qed

lemma op_match: "match_effect op r (apply_raft_op op r)"
proof -
  have quiet: "match_effect op r r" by (rule match_effect_same) simp_all
  have "match_effect op r (raft_step from_node msg r)" if op: "op = raft_op.Step from_node msg" for from_node msg
  proof (cases "from_node \<in> set (rf_peers r) \<and> body_identity_matches from_node msg")
    case True
    show ?thesis
    proof (cases msg)
      case (RequestVote req)
      then show ?thesis using True
        by (intro match_effect_same) (auto simp: raft_step_def handle_request_vote_def Let_def split: if_splits)
    next
      case (RequestVoteResp resp)
      let ?q = "r\<lparr>rf_votes := insert from_node (rf_votes r)\<rparr>"
      have "match_effect op r (maybe_win_election ?q)" "match_effect op r (maybe_win_pre_election ?q)" if "rf_role r \<noteq> Leader"
        using that by (auto intro: match_win match_pre_win)
      then show ?thesis
        using True RequestVoteResp quiet by (auto simp: raft_step_def handle_vote_resp_def intro: match_effect_same)
    next
      case (AppendEntriesResp resp)
      let ?q = "r\<lparr>rf_acked_since_check := insert from_node (rf_acked_since_check r)\<rparr>"
      have "match_effect op r (record_match from_node (min (aer_match_index resp) (last_index ?q)) ?q)"
        if "rf_role r = Leader" "aer_success resp" "aer_term resp = rf_current_term r"
        by (rule match_record) (use that op AppendEntriesResp in \<open>auto simp: reported_def\<close>)
      then show ?thesis
        using True AppendEntriesResp quiet
        by (auto simp: raft_step_def handle_append_resp_def Let_def intro: match_effect_same)
    next
      case (InstallSnapshotResp resp)
      let ?q = "r\<lparr>rf_acked_since_check := insert from_node (rf_acked_since_check r),
        rf_snapshot_inflight := (rf_snapshot_inflight r)(from_node := None)\<rparr>"
      have "match_effect op r (record_match from_node (min (isr_last_included_index resp) m) ?q)"
        if "rf_role r = Leader" "isr_success resp" "isr_term resp = rf_current_term r" for m
        by (rule match_record) (use that op InstallSnapshotResp in \<open>auto simp: reported_def\<close>)
      then show ?thesis
        using True InstallSnapshotResp quiet
        by (auto simp: raft_step_def handle_install_snapshot_resp_def Let_def intro: match_effect_same)
    qed (use True match_follow in \<open>auto simp: raft_step_def\<close>)
  qed (auto simp: raft_step_def quiet)
  moreover have "match_effect op r (snd (raft_propose cmd r))" for cmd
    by (cases "rf_role r = Leader") (auto simp: match_effect_def raft_propose_def Let_def case_prod_beta)
  moreover have "match_effect op r (compact i data r)" "match_effect op r (snd (raft_ready r))" for i data
    by (simp_all add: match_effect_def)
  ultimately show ?thesis using match_tick by (cases op) auto
qed

subsection \<open>The dirty flag\<close>

text \<open>An operation that changes what is persisted leaves the engine dirty.\<close>

definition clean_effect :: "raft \<Rightarrow> raft \<Rightarrow> bool" where
  "clean_effect r r' \<longleftrightarrow> \<not> rf_dirty r' \<longrightarrow> persisted_snapshot r' = persisted_snapshot r"

lemma clean_same:
  assumes "rf_log r' = rf_log r" "rf_base_term r' = rf_base_term r" "rf_base_index r' = rf_base_index r" "rf_snapshot r' = rf_snapshot r"
    and "rf_commit_index r' = rf_commit_index r" "rf_current_term r' = rf_current_term r" "rf_voted_for r' = rf_voted_for r"
  shows "clean_effect r r'"
  using assms by (simp add: clean_effect_def persisted_snapshot_def)

lemma clean_dirty: "rf_dirty r' \<Longrightarrow> clean_effect r r'"
  by (simp add: clean_effect_def)

lemma clean_step_down: "clean_effect r (become_follower t l r)"
  by (simp add: clean_effect_def persisted_snapshot_def)

lemma splice_dirty: "splice_entries es c r = (ok, c', r') \<Longrightarrow> r' = r \<or> rf_dirty r'"
proof (induction es c r arbitrary: ok c' r' rule: splice_entries.induct)
  case (2 e es c r)
  have "rf_dirty r'" if "splice_entries es (le_index e) (push_entry e q) = (ok, c', r')" for q
    using splice_blank [OF that] by simp
  with 2 show ?case by (auto split: if_splits prod.splits bool.splits simp: truncate_from_def)
qed simp

lemma clean_accept: "clean_effect r q \<Longrightarrow> (rf_dirty q \<Longrightarrow> rf_dirty (accept_entries f req q)) \<Longrightarrow> clean_effect r (accept_entries f req q)"
proof -
  assume a: "clean_effect r q" "rf_dirty q \<Longrightarrow> rf_dirty (accept_entries f req q)"
  obtain ok c s where s: "splice_entries (ae_entries req) (ae_prev_log_index req) q = (ok, c, s)" by (metis prod_cases3)
  from splice_dirty [OF s] a show ?thesis
    by (auto simp: clean_effect_def accept_entries_def s Let_def persisted_snapshot_def)
qed

lemma clean_handlers:
  "clean_effect r (handle_request_vote from_node vreq r)" "clean_effect r (handle_append from_node req r)"
  "clean_effect r (handle_install_snapshot from_node sreq r)"
proof -
  show "clean_effect r (handle_request_vote from_node vreq r)"
    by (auto simp: clean_effect_def handle_request_vote_def Let_def persisted_snapshot_def)
  let ?q = "become_follower (ae_term req) (Some from_node) (adopt_term (ae_term req) r)"
  have "clean_effect r ?q" by (simp add: clean_effect_def persisted_snapshot_def adopt_term_def)
  then have "clean_effect r (accept_entries from_node req ?q)" by (rule clean_accept) (rule accept_entries_dirty)
  then show "clean_effect r (handle_append from_node req r)"
    unfolding handle_append_eq Let_def
    by (auto simp: clean_effect_def persisted_snapshot_def adopt_term_def split: if_split)
  show "clean_effect r (handle_install_snapshot from_node sreq r)"
    unfolding handle_install_snapshot_eq Let_def
    by (auto simp: clean_effect_def persisted_snapshot_def adopt_term_def install_snapshot_def Let_def)
qed

lemma clean_win: "clean_effect r q \<Longrightarrow> clean_effect r (maybe_win_election q)"
  by (simp add: maybe_win_election_def clean_dirty)

lemma clean_pre_win: "clean_effect r q \<Longrightarrow> clean_effect r (maybe_win_pre_election q)"
  by (simp add: maybe_win_pre_election_def clean_dirty)

lemma clean_tick: "clean_effect r (raft_tick r)"
proof (cases "rf_role r = Leader")
  case True
  then show ?thesis by (intro clean_same) (simp_all add: raft_tick_def Let_def)
next
  case False
  let ?q = "r\<lparr>rf_election_elapsed := add64 (rf_election_elapsed r) 1\<rparr>"
  have "clean_effect r (start_pre_election ?q)"
    unfolding start_pre_election_eq by (intro clean_pre_win clean_same) simp_all
  moreover have "clean_effect r ?q" by (rule clean_same) simp_all
  ultimately show ?thesis using False by (simp add: raft_tick_def Let_def)
qed

lemma clean_record:
  assumes "rf_log q = rf_log r" "rf_base_term q = rf_base_term r" "rf_base_index q = rf_base_index r" "rf_snapshot q = rf_snapshot r"
    and "rf_commit_index q = rf_commit_index r" "rf_current_term q = rf_current_term r" "rf_voted_for q = rf_voted_for r"
  shows "clean_effect r (record_match f n q)"
  using assms
  by (simp add: clean_effect_def record_match_def maybe_advance_commit_def Let_def case_prod_beta persisted_snapshot_def)

lemma op_clean:
  assumes "op \<noteq> Drain_Ready"
  shows "clean_effect r (apply_raft_op op r)"
proof -
  let ?v = "\<lambda>f. r\<lparr>rf_votes := insert f (rf_votes r)\<rparr>"
  have "clean_effect r (handle_vote_resp f resp r)" for f resp
    by (auto simp: handle_vote_resp_def intro!: clean_win clean_pre_win clean_step_down clean_same)
  moreover have "clean_effect r (handle_append_resp f resp r)" for f resp
    by (auto simp: handle_append_resp_def Let_def intro!: clean_record clean_step_down intro: clean_same)
  moreover have "clean_effect r (handle_install_snapshot_resp f resp r)" for f resp
    by (auto simp: handle_install_snapshot_resp_def Let_def intro!: clean_record clean_step_down intro: clean_same)
  ultimately have "clean_effect r (raft_step f msg r)" for f msg
    using clean_handlers by (cases msg) (auto simp: raft_step_def intro: clean_same)
  moreover have "clean_effect r (snd (raft_propose cmd r))" for cmd
    by (auto simp: raft_propose_def Let_def case_prod_beta maybe_advance_commit_def intro: clean_same clean_dirty)
  moreover have "clean_effect r (compact i data r)" for i data
    by (auto simp: compact_def Let_def intro: clean_same clean_dirty)
  ultimately show ?thesis using assms clean_tick by (cases op) auto
qed

end
