(* ===== verification/Member_Views.thy ===== *)
theory Member_Views
  imports Raft_Effects
begin

section \<open>What a member has promised\<close>

text \<open>
  The durable state of a member with the messages that may rest on it, its views: the state in memory with
  every message the member ever made and not lost, and the state on disk with the messages that may leave.
  Only an operation makes a view; draining, persisting, transmitting and restarting pass views on. This
  holds of orderly runs, in which a member does not drain a batch without changes while an earlier batch is
  still to be persisted.
\<close>

subsection \<open>Messages of a member\<close>

definition msgs_sent :: "network \<Rightarrow> node_id \<Rightarrow> addressed set" where
  "msgs_sent s n = {a. (n, ad_to a, ad_msg a) \<in> nw_sent s}"

definition batch_msgs :: "ready list \<Rightarrow> addressed set" where
  "batch_msgs bs = (\<Union>b \<in> set bs. set (rd_messages b))"

definition msgs_saved :: "network \<Rightarrow> node_id \<Rightarrow> addressed set" where
  "msgs_saved s n = msgs_sent s n \<union> batch_msgs (nw_saved s n)"

definition msgs_all :: "network \<Rightarrow> node_id \<Rightarrow> addressed set" where
  "msgs_all s n = msgs_saved s n \<union> batch_msgs (nw_unsaved s n) \<union> set (rf_out (nw_mem s n))"

definition views :: "network \<Rightarrow> node_id \<Rightarrow> (persisted \<times> addressed set) set" where
  "views s n = {(persisted_snapshot (nw_mem s n), msgs_all s n), (nw_disk s n, msgs_saved s n)}"

lemma batch_msgs_simps [simp]:
  "batch_msgs [] = {}" "batch_msgs (bs @ cs) = batch_msgs bs \<union> batch_msgs cs" "batch_msgs [b] = set (rd_messages b)"
  by (auto simp: batch_msgs_def)

lemma msgs_sub: "msgs_sent s n \<subseteq> msgs_saved s n" "msgs_saved s n \<subseteq> msgs_all s n" "msgs_sent s n \<subseteq> msgs_all s n"
  by (auto simp: msgs_saved_def msgs_all_def)

lemma votes_of_msgs:
  "votes_sent s n = votes_in n (msgs_sent s n)" "votes_saved s n = votes_in n (msgs_saved s n)"
  "votes_all s n = votes_in n (msgs_all s n)"
  by (auto simp: votes_sent_def votes_saved_def votes_all_def msgs_sent_def msgs_saved_def msgs_all_def votes_in_def
      batch_votes_def batch_msgs_def)

lemma msgs_sent_iff: "\<lparr>ad_to = to, ad_msg = msg\<rparr> \<in> msgs_sent s n \<longleftrightarrow> (n, to, msg) \<in> nw_sent s"
  by (simp add: msgs_sent_def)

text \<open>Which views a step can bring, other than an operation.\<close>

definition views_from :: "network \<Rightarrow> network \<Rightarrow> bool" where
  "views_from s s' \<longleftrightarrow> (\<forall>k. \<forall>(p, M) \<in> views s' k. \<exists>M'. (p, M') \<in> views s k \<and> M \<subseteq> M')"

definition clean :: "network \<Rightarrow> node_id \<Rightarrow> bool" where
  "clean s n \<longleftrightarrow> rf_dirty (nw_mem s n) \<or> nw_unsaved s n \<noteq> [] \<or> nw_disk s n = persisted_snapshot (nw_mem s n)"

lemma views_from_local:
  assumes "\<And>k. k \<noteq> n \<Longrightarrow> nw_mem s' k = nw_mem s k \<and> nw_disk s' k = nw_disk s k \<and>
      nw_saved s' k = nw_saved s k \<and> nw_unsaved s' k = nw_unsaved s k"
    and "\<And>k. k \<noteq> n \<Longrightarrow> msgs_sent s' k = msgs_sent s k"
    and "\<And>p M. (p, M) \<in> views s' n \<Longrightarrow> \<exists>M'. (p, M') \<in> views s n \<and> M \<subseteq> M'"
  shows "views_from s s'"
  unfolding views_from_def
proof (clarify, goal_cases)
  case (1 k p M)
  then show ?case
  proof (cases "k = n")
    case False
    then have "views s' k = views s k" using assms(1,2) by (simp add: views_def msgs_all_def msgs_saved_def)
    with 1 show ?thesis by blast
  qed (use assms(3) in blast)
qed

lemma snapshot_ready: "persisted_snapshot (snd (raft_ready r)) = persisted_snapshot r"
  by (simp add: persisted_snapshot_def)

lemma drain_eq:
  "after_drain n s =
    (let s1 = s\<lparr>nw_mem := (nw_mem s)(n := snd (raft_ready (nw_mem s n)))\<rparr> in
     if rf_dirty (nw_mem s n) then s1\<lparr>nw_unsaved := (nw_unsaved s)(n := nw_unsaved s n @ [fst (raft_ready (nw_mem s n))])\<rparr>
     else s1\<lparr>nw_saved := (nw_saved s)(n := nw_saved s n @ [fst (raft_ready (nw_mem s n))])\<rparr>)"
  using drain_sel(3) [of "nw_mem s n"] by (auto simp: after_drain_def Let_def case_prod_beta split: option.splits)

lemma drain_frames:
  "nw_mem (after_drain n s) n = snd (raft_ready (nw_mem s n))" "nw_disk (after_drain n s) = nw_disk s"
  "nw_sent (after_drain n s) = nw_sent s"
  "rf_dirty (nw_mem s n) \<Longrightarrow> nw_saved (after_drain n s) n = nw_saved s n"
  "rf_dirty (nw_mem s n) \<Longrightarrow> nw_unsaved (after_drain n s) n = nw_unsaved s n @ [fst (raft_ready (nw_mem s n))]"
  "\<not> rf_dirty (nw_mem s n) \<Longrightarrow> nw_saved (after_drain n s) n = nw_saved s n @ [fst (raft_ready (nw_mem s n))]"
  "\<not> rf_dirty (nw_mem s n) \<Longrightarrow> nw_unsaved (after_drain n s) n = nw_unsaved s n"
  by (simp_all add: drain_eq Let_def)

lemma views_drain:
  assumes "clean s n" and "nw_unsaved s n = [] \<or> rf_dirty (nw_mem s n)"
  shows "views_from s (after_drain n s)"
proof (rule views_from_local [of n])
  show sent: "msgs_sent (after_drain n s) k = msgs_sent s k" for k by (simp add: drain_frames msgs_sent_def)
  show "\<exists>M'. (p, M') \<in> views s n \<and> M \<subseteq> M'" if v: "(p, M) \<in> views (after_drain n s) n" for p M
  proof (cases "rf_dirty (nw_mem s n)")
    case True
    then have "msgs_saved (after_drain n s) n = msgs_saved s n" by (simp add: msgs_saved_def sent drain_frames)
    moreover from this have "msgs_all (after_drain n s) n = msgs_all s n"
      using True by (auto simp: msgs_all_def drain_frames drain_sel)
    ultimately show ?thesis using v by (auto simp: views_def drain_frames snapshot_ready)
  next
    case False
    then have un: "nw_unsaved s n = []" and disk: "nw_disk s n = persisted_snapshot (nw_mem s n)"
      using assms by (auto simp: clean_def)
    have saved: "msgs_saved (after_drain n s) n = msgs_all s n"
      using False un by (auto simp: msgs_all_def msgs_saved_def sent drain_frames drain_sel)
    then have "msgs_all (after_drain n s) n = msgs_all s n"
      using False un by (simp add: msgs_all_def drain_frames drain_sel)
    with v saved disk show ?thesis by (auto simp: views_def drain_frames snapshot_ready)
  qed
qed (simp add: drain_eq Let_def)

lemma views_persist: "views_from s (after_persist n s)"
proof (rule views_from_local [of n])
  show "msgs_sent (after_persist n s) k = msgs_sent s k" for k by (simp add: after_persist_def msgs_sent_def)
  then have same: "msgs_all (after_persist n s) n = msgs_all s n" "msgs_saved (after_persist n s) n \<subseteq> msgs_all s n"
    by (auto simp: msgs_all_def msgs_saved_def) (auto simp: after_persist_def)
  show "\<exists>M'. (p, M') \<in> views s n \<and> M \<subseteq> M'" if "(p, M) \<in> views (after_persist n s) n" for p M
    using that same(2) by (auto simp: views_def same(1)) (auto simp: after_persist_def)
qed (simp_all add: after_persist_def)

lemma views_restart: "views_from s (after_restart ms cfg n seed s)"
proof (rule views_from_local [of n])
  let ?s' = "after_restart ms cfg n seed s"
  show sent: "msgs_sent ?s' k = msgs_sent s k" for k by (simp add: after_restart_def msgs_sent_def)
  have "msgs_all ?s' n = msgs_sent s n" "msgs_saved ?s' n = msgs_sent s n"
    by (simp_all add: msgs_all_def msgs_saved_def sent) (simp_all add: after_restart_def)
  moreover have "persisted_snapshot (nw_mem ?s' n) = nw_disk s n" "nw_disk ?s' n = nw_disk s n"
    by (simp_all add: after_restart_def persisted_snapshot_def)
  ultimately show "\<exists>M'. (p, M') \<in> views s n \<and> M \<subseteq> M'" if "(p, M) \<in> views ?s' n" for p M
    using that msgs_sub [of s n] by (auto simp: views_def)
qed (simp_all add: after_restart_def)

lemma transmit_msgs:
  assumes "rd \<in> set (nw_saved s n)"
  shows "msgs_saved (after_transmit n rd s) k \<subseteq> msgs_saved s k" and "msgs_all (after_transmit n rd s) k \<subseteq> msgs_all s k"
proof -
  let ?s' = "after_transmit n rd s"
  have "a \<in> msgs_saved s k" if a: "a \<in> msgs_sent ?s' k" for a
  proof -
    consider "(k, ad_to a, ad_msg a) \<in> nw_sent s" | b where "k = n" "b \<in> set (rd_messages rd)" "ad_to a = ad_to b" "ad_msg a = ad_msg b"
      using a by (auto simp: msgs_sent_def after_transmit_def)
    then show ?thesis
    proof cases
      case (2 b)
      then have "a = b" by (simp add: addressed.equality)
      with 2(1,2) assms show ?thesis by (auto simp: msgs_saved_def batch_msgs_def)
    qed (simp add: msgs_saved_def msgs_sent_def)
  qed
  then show "msgs_saved ?s' k \<subseteq> msgs_saved s k" "msgs_all ?s' k \<subseteq> msgs_all s k"
    by (auto simp: msgs_saved_def msgs_all_def) (auto simp: after_transmit_def)
qed

lemma views_transmit:
  assumes "rd \<in> set (nw_saved s n)"
  shows "views_from s (after_transmit n rd s)"
proof (rule views_from_local [of n])
  let ?s' = "after_transmit n rd s"
  show "msgs_sent ?s' k = msgs_sent s k" if "k \<noteq> n" for k using that by (auto simp: after_transmit_def msgs_sent_def)
  show "\<exists>M'. (p, M') \<in> views s n \<and> M \<subseteq> M'" if "(p, M) \<in> views ?s' n" for p M
    using that transmit_msgs [OF assms, of n] by (auto simp: views_def) (auto simp: after_transmit_def)
qed (simp_all add: after_transmit_def)

lemma clean_steps:
  "clean (after_persist n s) n" "clean (after_restart ms cfg n seed s) n"
  "clean s n \<Longrightarrow> nw_unsaved s n = [] \<or> rf_dirty (nw_mem s n) \<Longrightarrow> clean (after_drain n s) n"
  by (simp_all add: clean_def after_persist_def after_restart_def persisted_snapshot_def)
    (cases "rf_dirty (nw_mem s n)"; simp add: drain_frames)

lemma clean_op:
  assumes "clean s n" and "op \<noteq> Drain_Ready"
  shows "clean (after_op n op s) n"
  using assms op_dirty [of "nw_mem s n" op] op_clean [OF assms(2), of "nw_mem s n"]
  by (auto simp: clean_def clean_effect_def)

text \<open>What an operation adds to the messages of its member.\<close>

lemma msgs_after_op:
  "msgs_sent (after_op n op s) k = msgs_sent s k" "msgs_saved (after_op n op s) k = msgs_saved s k"
  "k \<noteq> n \<Longrightarrow> msgs_all (after_op n op s) k = msgs_all s k"
  "rf_out (apply_raft_op op (nw_mem s n)) = rf_out (nw_mem s n) @ fresh \<Longrightarrow>
    msgs_all (after_op n op s) n = msgs_all s n \<union> set fresh"
  by (auto simp: msgs_sent_def msgs_saved_def msgs_all_def)

lemma views_after_op:
  "k \<noteq> n \<Longrightarrow> views (after_op n op s) k = views s k"
  "views (after_op n op s) n =
    {(persisted_snapshot (apply_raft_op op (nw_mem s n)), msgs_all (after_op n op s) n), (nw_disk s n, msgs_saved s n)}"
  by (simp_all add: views_def msgs_after_op)

end
