(* ===== verification/Leader_Completeness.thy ===== *)
theory Leader_Completeness
  imports Member_Views
begin

section \<open>Leader completeness and state machine safety\<close>

text \<open>
  What is committed anywhere is in the log of every later leader, and no two members commit different
  entries at an index. The invariant \<open>history\<close> relates the network to the tree of all cells and to the
  starts of all elected leaders: what a member acknowledged is below its last position unless a later
  leader dropped it, a granted vote keeps for its candidate what the voter had acknowledged, a
  commit index is covered by the acknowledgements of a majority.
\<close>

subsection \<open>Acknowledgements\<close>

text \<open>What a message says its sender holds: up to which index of the log of which term's leader.\<close>

definition acks_of :: "addressed \<Rightarrow> (nat \<times> nat) set" where
  "acks_of a =
     (case ad_msg a of
        AppendEntries req \<Rightarrow> if entries_are_contiguous req then {(ae_term req, fst (ae_end req))} else {}
      | InstallSnapshot req \<Rightarrow> {(is_term req, is_last_included_index req)}
      | AppendEntriesResp resp \<Rightarrow> if aer_success resp then {(aer_term resp, aer_match_index resp)} else {}
      | InstallSnapshotResp resp \<Rightarrow> if isr_success resp then {(isr_term resp, isr_last_included_index resp)} else {}
      | _ \<Rightarrow> {})"

definition acks_in :: "addressed set \<Rightarrow> (nat \<times> nat) set" where
  "acks_in M = (\<Union>a \<in> M. acks_of a)"

definition acks_sent :: "network \<Rightarrow> node_id \<Rightarrow> (nat \<times> nat) set" where
  "acks_sent s n = acks_in (msgs_sent s n)"

lemma acks_in_simps [simp]: "acks_in (M \<union> N) = acks_in M \<union> acks_in N" "acks_in {} = {}"
  by (auto simp: acks_in_def)

lemma acks_in_mono: "M \<subseteq> N \<Longrightarrow> acks_in M \<subseteq> acks_in N"
  by (auto simp: acks_in_def)

lemma acks_sentI: "(n, to, msg) \<in> nw_sent s \<Longrightarrow> x \<in> acks_of \<lparr>ad_to = to, ad_msg = msg\<rparr> \<Longrightarrow> x \<in> acks_sent s n"
  by (auto simp: acks_sent_def acks_in_def msgs_sent_def intro!: exI [of _ "\<lparr>ad_to = to, ad_msg = msg\<rparr>"])

lemma acks_sent_mono: "nw_sent s \<subseteq> nw_sent s' \<Longrightarrow> acks_sent s n \<subseteq> acks_sent s' n"
  by (auto simp: acks_sent_def acks_in_def msgs_sent_def)

text \<open>Positions that a majority acknowledged, and those below one of term \<open>u\<close> or earlier.\<close>

definition chosen :: "node_id list \<Rightarrow> cell set \<Rightarrow> network \<Rightarrow> pos \<Rightarrow> bool" where
  "chosen ms E s x \<longleftrightarrow>
     cell_at E x \<and> (\<exists>Q. Q \<subseteq> set ms \<and> card (set ms) div 2 + 1 \<le> card Q \<and>
       (\<forall>q \<in> Q. \<exists>m \<ge> fst x. (snd x, m) \<in> acks_sent s q))"

definition settled :: "node_id list \<Rightarrow> cell set \<Rightarrow> network \<Rightarrow> nat \<Rightarrow> pos \<Rightarrow> bool" where
  "settled ms E s u x \<longleftrightarrow> x = (0, 0) \<or> (\<exists>y. chosen ms E s y \<and> snd y \<le> u \<and> below E x y)"

subsection \<open>The invariant\<close>

definition ps_tip :: "persisted \<Rightarrow> pos" where
  "ps_tip p = (ps_base_index p + length (ps_log p), last_slab_term (ps_base_term p) (ps_log p))"

definition ps_base :: "persisted \<Rightarrow> pos" where
  "ps_base p = (ps_base_index p, ps_base_term p)"

text \<open>What a message promises about the log of its sender.\<close>

definition claim_ok :: "node_id list \<Rightarrow> cell set \<Rightarrow> network \<Rightarrow> node_id \<Rightarrow> addressed \<Rightarrow> bool" where
  "claim_ok ms E s n a \<longleftrightarrow>
     (case ad_msg a of
        AppendEntries req \<Rightarrow>
          (ae_term req, n) \<in> nw_elected s \<and>
          (entries_are_contiguous req \<longrightarrow>
             cell_at E (ae_end req) \<and> snd (ae_end req) = ae_term req \<and>
             (\<exists>t. settled ms E s (ae_term req) (ae_leader_commit req, t) \<and> below E (ae_leader_commit req, t) (ae_end req)))
      | InstallSnapshot req \<Rightarrow>
          (is_term req, n) \<in> nw_elected s \<and> on_line E (is_term req) (snap_end req) \<and>
          settled ms E s (is_term req) (snap_end req)
      | AppendEntriesResp resp \<Rightarrow>
          aer_success resp \<longrightarrow> (\<exists>l. (aer_term resp, l) \<in> nw_elected s \<and> (aer_term resp, aer_match_index resp) \<in> acks_sent s l)
      | InstallSnapshotResp resp \<Rightarrow>
          isr_success resp \<longrightarrow>
            (\<exists>l. (isr_term resp, l) \<in> nw_elected s \<and> (isr_term resp, isr_last_included_index resp) \<in> acks_sent s l)
      | _ \<Rightarrow> True)"

definition ack_ok :: "cell set \<Rightarrow> (nat \<times> pos) set \<Rightarrow> persisted \<Rightarrow> nat \<times> nat \<Rightarrow> bool" where
  "ack_ok E L p tm \<longleftrightarrow>
     fst tm \<le> ps_current_term p \<and>
     accepted E (fst tm) (snd tm) (\<lambda>x. below E x (ps_tip p) \<or> superseded E L (fst tm) (Suc (ps_current_term p)) x)"

definition ballot :: "cell set \<Rightarrow> (nat \<times> pos) set \<Rightarrow> addressed set \<Rightarrow> nat \<Rightarrow> nat \<Rightarrow> pos \<Rightarrow> bool" where
  "ballot E L M u v w \<longleftrightarrow> (\<forall>(t, m) \<in> acks_in M. t < u \<longrightarrow> accepted E t m (kept_for E L t v w))"

definition vote_kept :: "cell set \<Rightarrow> (nat \<times> pos) set \<Rightarrow> network \<Rightarrow> node_id \<Rightarrow> addressed set \<Rightarrow> addressed \<Rightarrow> bool" where
  "vote_kept E L s n M a \<longleftrightarrow>
     (\<forall>resp. ad_msg a = RequestVoteResp resp \<and> rvr_granted resp \<and> \<not> rvr_pre_vote resp \<longrightarrow>
        (\<exists>req. (ad_to a, n, RequestVote req) \<in> nw_sent s \<and> \<not> rv_pre_vote req \<and> rv_term req = rvr_term resp \<and>
           ballot E L M (rvr_term resp) (Suc (rvr_term resp)) (rv_tip req)))"

definition commit_ok :: "node_id list \<Rightarrow> cell set \<Rightarrow> network \<Rightarrow> persisted \<Rightarrow> bool" where
  "commit_ok ms E s p \<longleftrightarrow>
     (\<exists>t. settled ms E s (ps_current_term p) (ps_commit_index p, t) \<and> below E (ps_commit_index p, t) (ps_tip p))"

definition view_ok :: "node_id list \<Rightarrow> cell set \<Rightarrow> (nat \<times> pos) set \<Rightarrow> network \<Rightarrow> node_id \<Rightarrow> persisted \<times> addressed set \<Rightarrow> bool" where
  "view_ok ms E L s n v \<longleftrightarrow>
     known E (ps_base (fst v)) \<and> commit_ok ms E s (fst v) \<and> (\<forall>tm \<in> acks_in (snd v). ack_ok E L (fst v) tm) \<and>
     (\<forall>a \<in> snd v. claim_ok ms E s n a \<and> vote_kept E L s n (snd v) a)"

text \<open>A leader's last entry is of its term, and what it counts has been sent to it; a candidate keeps its log.\<close>

definition office_ok :: "network \<Rightarrow> node_id \<Rightarrow> bool" where
  "office_ok s n \<longleftrightarrow>
     (rf_role (nw_mem s n) = Leader \<longrightarrow>
        last_term (nw_mem s n) = rf_current_term (nw_mem s n) \<and>
        (\<forall>p k. rf_match_index (nw_mem s n) p = Some k \<and> 0 < k \<longrightarrow>
           (\<exists>m \<ge> k. (rf_current_term (nw_mem s n), m) \<in> acks_sent s p))) \<and>
     (rf_role (nw_mem s n) = Candidate \<longrightarrow>
        (\<forall>a \<in> msgs_all s n. \<forall>req. ad_msg a = RequestVote req \<and> \<not> rv_pre_vote req \<and> rv_term req = rf_current_term (nw_mem s n) \<longrightarrow>
           rv_tip req = tip (nw_mem s n)))"

text \<open>A start has a majority behind it whose earlier acknowledgements are below it or were dropped.\<close>

definition won_ok :: "node_id list \<Rightarrow> cell set \<Rightarrow> (nat \<times> pos) set \<Rightarrow> network \<Rightarrow> nat \<Rightarrow> pos \<Rightarrow> bool" where
  "won_ok ms E L s u y \<longleftrightarrow>
     (\<exists>c Q. (u, c) \<in> nw_elected s \<and> Q \<subseteq> set ms \<and> card (set ms) div 2 + 1 \<le> card Q \<and>
        (\<forall>q \<in> Q. \<forall>(p, M) \<in> views s q. u \<le> ps_current_term p \<and> ballot E L M u u y))"

lemma won_okI:
  assumes "(u, c) \<in> nw_elected s" and "Q \<subseteq> set ms" and "card (set ms) div 2 + 1 \<le> card Q"
    and "\<And>q p M. q \<in> Q \<Longrightarrow> (p, M) \<in> views s q \<Longrightarrow> u \<le> ps_current_term p \<and> ballot E L M u u y"
  shows "won_ok ms E L s u y"
proof -
  have "\<forall>q \<in> Q. \<forall>(p, M) \<in> views s q. u \<le> ps_current_term p \<and> ballot E L M u u y" using assms(4) by auto
  then show ?thesis unfolding won_ok_def using assms(1-3) by (intro exI [of _ c] exI [of _ Q] conjI)
qed

lemma won_okE:
  assumes "won_ok ms E L s u y"
  obtains c Q where "(u, c) \<in> nw_elected s" "Q \<subseteq> set ms" "card (set ms) div 2 + 1 \<le> card Q"
    "\<And>q p M. q \<in> Q \<Longrightarrow> (p, M) \<in> views s q \<Longrightarrow> u \<le> ps_current_term p \<and> ballot E L M u u y"
  using assms unfolding won_ok_def by (elim exE conjE) (rule that, assumption+, fast)

definition history :: "node_id list \<Rightarrow> cell set \<Rightarrow> (nat \<times> pos) set \<Rightarrow> network \<Rightarrow> bool" where
  "history ms E L s \<longleftrightarrow>
     cell_inv ms E s \<and> tree E L \<and> (\<forall>(u, y) \<in> L. won_ok ms E L s u y) \<and>
     (\<forall>n \<in> set ms. (\<forall>v \<in> views s n. view_ok ms E L s n v) \<and> office_ok s n \<and> clean s n)"

subsection \<open>Growth\<close>

definition grows :: "cell set \<Rightarrow> (nat \<times> pos) set \<Rightarrow> network \<Rightarrow> cell set \<Rightarrow> (nat \<times> pos) set \<Rightarrow> network \<Rightarrow> bool" where
  "grows E L s E' L' s' \<longleftrightarrow>
     E \<subseteq> E' \<and> determined E' \<and> tree E L \<and> L \<subseteq> L' \<and> nw_sent s \<subseteq> nw_sent s' \<and> nw_elected s \<subseteq> nw_elected s'"

lemma grows_sel:
  assumes "grows E L s E' L' s'"
  shows "E \<subseteq> E'" "determined E'" "tree E L" "L \<subseteq> L'" "nw_sent s \<subseteq> nw_sent s'" "nw_elected s \<subseteq> nw_elected s'"
  using assms by (simp_all add: grows_def)

lemma grows_below:
  assumes "grows E L s E' L' s'" and "known E y"
  shows "below E' x y \<longleftrightarrow> below E x y"
  using below_stable [of E' x y E] below_mono [of E x y E'] grows_sel [OF assms(1)] assms(2) tree_sel(2) by blast

lemma superseded_grows: "grows E L s E' L' s' \<Longrightarrow> superseded E L t u x \<Longrightarrow> superseded E' L' t u x"
  unfolding superseded_def starts_def
  by (metis (no_types, lifting) grows_below grows_sel(3,4) starts_def subsetD tree_sel(3) case_prodD)

lemma superseded_later: "superseded E L t u x \<Longrightarrow> u \<le> v \<Longrightarrow> superseded E L t v x"
  by (auto simp: superseded_def intro: less_le_trans)

lemma accepted_grows:
  assumes "grows E L s E' L' s'" and "accepted E t m R" and "\<And>x. R x \<Longrightarrow> R' x"
  shows "accepted E' t m R'"
proof -
  obtain z where z: "on_line E t z" "fst z = m" "\<And>x. below E x z \<Longrightarrow> R x" using assms(2) by (auto simp: accepted_def)
  have "known E z" using on_line_known [OF tree_sel(2) [OF grows_sel(3) [OF assms(1)]] z(1)] .
  then have "\<forall>x. below E' x z \<longrightarrow> R' x" using z(3) assms(3) grows_below [OF assms(1)] by blast
  then show ?thesis
    unfolding accepted_def using on_line_mono [OF z(1) grows_sel(1) [OF assms(1)]] z(2) by blast
qed

lemma kept_for_grows: "grows E L s E' L' s' \<Longrightarrow> kept_for E L t u w x \<Longrightarrow> kept_for E' L' t u w x"
  unfolding kept_for_def using superseded_grows below_mono grows_sel(1) by metis

lemma ballot_grows:
  assumes "grows E L s E' L' s'" and "ballot E L M u v w" and "M' \<subseteq> M"
  shows "ballot E' L' M' u v w"
  unfolding ballot_def
proof clarify
  fix t m assume "(t, m) \<in> acks_in M'" "t < u"
  then have "accepted E t m (kept_for E L t v w)" using assms(2) acks_in_mono [OF assms(3)] unfolding ballot_def by blast
  then show "accepted E' t m (kept_for E' L' t v w)" by (rule accepted_grows [OF assms(1)]) (rule kept_for_grows [OF assms(1)])
qed

lemma settled_grows:
  assumes "grows E L s E' L' s'" and "settled ms E s u x" and "u \<le> v"
  shows "settled ms E' s' v x"
proof -
  have "chosen ms E' s' y" if c: "chosen ms E s y" for y
  proof -
    obtain Q where Q: "Q \<subseteq> set ms" "card (set ms) div 2 + 1 \<le> card Q" "\<And>q. q \<in> Q \<Longrightarrow> \<exists>m \<ge> fst y. (snd y, m) \<in> acks_sent s q"
      using c unfolding chosen_def by blast
    have "\<exists>m \<ge> fst y. (snd y, m) \<in> acks_sent s' q" if "q \<in> Q" for q
      using Q(3) [OF that] acks_sent_mono [OF grows_sel(5) [OF assms(1)], of q] by blast
    moreover have "cell_at E' y" using c cell_at_mono [OF _ grows_sel(1) [OF assms(1)]] by (simp add: chosen_def)
    ultimately show ?thesis using Q(1,2) unfolding chosen_def by blast
  qed
  then show ?thesis
    using assms(2,3) below_mono [OF _ grows_sel(1) [OF assms(1)]] unfolding settled_def by (meson le_trans)
qed

lemma claim_grows:
  assumes g: "grows E L s E' L' s'" and "claim_ok ms E s n a"
  shows "claim_ok ms E' s' n a"
proof -
  note mono = settled_grows [OF g _ order_refl] below_mono [OF _ grows_sel(1) [OF g]] cell_at_mono [OF _ grows_sel(1) [OF g]]
    on_line_mono [OF _ grows_sel(1) [OF g]] subsetD [OF grows_sel(6) [OF g]] subsetD [OF acks_sent_mono [OF grows_sel(5) [OF g]]]
  show ?thesis
    using assms(2) by (cases "ad_msg a") (auto simp: claim_ok_def intro: mono)
qed

lemma view_grows:
  assumes g: "grows E L s E' L' s'" and v: "view_ok ms E L s n (p, M)" and "M' \<subseteq> M"
  shows "view_ok ms E' L' s' n (p, M')"
proof -
  have "commit_ok ms E' s' p"
    using v settled_grows [OF g _ order_refl] below_mono [OF _ grows_sel(1) [OF g]]
    unfolding view_ok_def commit_ok_def fst_conv by blast
  moreover have "ack_ok E' L' p tm" if "ack_ok E L p tm" for tm
    using that accepted_grows [OF g] superseded_grows [OF g] below_mono [OF _ grows_sel(1) [OF g]]
    unfolding ack_ok_def by (metis (no_types, lifting))
  moreover have "vote_kept E' L' s' n M' a" if "vote_kept E L s n M a" for a
    using that ballot_grows [OF g _ assms(3)] grows_sel(5) [OF g] unfolding vote_kept_def by (meson subsetD)
  ultimately show ?thesis
    using v assms(3) acks_in_mono [OF assms(3)] known_mono [OF _ grows_sel(1) [OF g]] claim_grows [OF g]
    unfolding view_ok_def fst_conv snd_conv by blast
qed

subsection \<open>What the invariant gives\<close>

lemma history_sel:
  assumes "history ms E L s"
  shows "cell_inv ms E s" "tree E L" "(u, y) \<in> L \<Longrightarrow> won_ok ms E L s u y"
    "n \<in> set ms \<Longrightarrow> v \<in> views s n \<Longrightarrow> view_ok ms E L s n v" "n \<in> set ms \<Longrightarrow> office_ok s n" "n \<in> set ms \<Longrightarrow> clean s n"
  using assms by (auto simp: history_def)

lemma memory_view: "(persisted_snapshot (nw_mem s n), msgs_all s n) \<in> views s n"
  by (simp add: views_def)

lemma chosen_below_start:
  assumes h: "history ms E L s" and x: "chosen ms E s x" and start: "(u, y) \<in> L" and "snd x < u"
  shows "below E x y"
proof -
  obtain Q where Q: "Q \<subseteq> set ms" "card (set ms) div 2 + 1 \<le> card Q" "\<And>q. q \<in> Q \<Longrightarrow> \<exists>m \<ge> fst x. (snd x, m) \<in> acks_sent s q"
    and cell: "cell_at E (fst x, snd x)" using x unfolding chosen_def by auto
  have "\<exists>m \<ge> fst x. accepted E (snd x) m (kept_for E L (snd x) v z)" if vz: "(v, z) \<in> L" "snd x < v" for v z
  proof -
    obtain W where W: "W \<subseteq> set ms" "card (set ms) div 2 + 1 \<le> card W"
      "\<And>q p M. q \<in> W \<Longrightarrow> (p, M) \<in> views s q \<Longrightarrow> ballot E L M v v z"
      by (rule won_okE [OF history_sel(3) [OF h vz(1)]]) blast
    obtain q where q: "q \<in> Q" "q \<in> W" using grp.intersect [OF Q(1) W(1) Q(2) W(2)] .
    obtain m where m: "fst x \<le> m" "(snd x, m) \<in> acks_sent s q" using Q(3) [OF q(1)] by blast
    then have "(snd x, m) \<in> acks_in (msgs_all s q)"
      using acks_in_mono [OF msgs_sub(3)] unfolding acks_sent_def by blast
    with W(3) [OF q(2) memory_view] vz(2) m(1) show ?thesis unfolding ballot_def by blast
  qed
  then have "below E (fst x, snd x) y"
    using accepted_below_starts [OF history_sel(2) [OF h] cell _ start] \<open>snd x < u\<close> by blast
  then show ?thesis by simp
qed

lemma settled_comparable:
  assumes h: "history ms E L s" and x: "settled ms E s u x" and y: "settled ms E s v y" and i: "fst x \<le> fst y"
    and known: "known E x" "known E y"
  shows "below E x y"
proof -
  have t: "tree E L" "closed E" "determined E" using history_sel(2) [OF h] by (simp_all add: tree_def)
  have root: "x = (0, 0)" if "fst x = 0" using that known_index [OF t(2) known(1)] by (cases x) simp
  consider "x = (0, 0)" | "y = (0, 0)"
    | a b where "chosen ms E s a" "below E x a" "chosen ms E s b" "below E y b"
    using x y unfolding settled_def by blast
  then show ?thesis
  proof cases
    case 1
    with known_rooted [OF t(2), of "fst y" "snd y"] known(2) show ?thesis by simp
  next
    case 2
    with i root show ?thesis by simp
  next
    case (3 a b)
    have "cell_at E (fst a, snd a)" "cell_at E (fst b, snd b)" using 3 by (simp_all add: chosen_def)
    from accepted_comparable [OF t(1) this] chosen_below_start [OF h 3(1)] chosen_below_start [OF h 3(3)]
    have "below E a b \<or> below E b a" by simp
    then obtain c where "below E x c" "below E y c" using 3(2,4) below_trans by blast
    then show ?thesis using below_linear t(3) i by blast
  qed
qed

lemma settled_below: "settled ms E s u y \<Longrightarrow> below E x y \<Longrightarrow> x = (0, 0) \<or> y \<noteq> (0, 0) \<Longrightarrow> settled ms E s u x"
  unfolding settled_def using below_trans by blast

lemma below_root: "below E x (0, 0) \<Longrightarrow> x = (0, 0)"
  using below_index [of E x "(0, 0)"] below_same [of E x "(0, 0)"] by simp

lemma settled_down: "settled ms E s u y \<Longrightarrow> below E x y \<Longrightarrow> settled ms E s u x"
  using settled_below below_root by (metis (no_types))

subsection \<open>Steps other than operations\<close>

lemma history_quiet:
  assumes h: "history ms E L s" and cells: "cell_inv ms E s'" and from_views: "views_from s s'"
    and sent: "nw_sent s \<subseteq> nw_sent s'" and el: "nw_elected s' = nw_elected s"
    and keep: "\<And>n. n \<in> set ms \<Longrightarrow> office_ok s' n \<and> clean s' n"
  shows "history ms E L s'"
proof -
  have g: "grows E L s E L s'" using h sent el by (simp add: grows_def history_def tree_def)
  have old: "\<exists>M'. (p, M') \<in> views s k \<and> M \<subseteq> M'" if "(p, M) \<in> views s' k" for k p M
    using from_views that unfolding views_from_def by blast
  have "view_ok ms E L s' n (p, M)" if "n \<in> set ms" "(p, M) \<in> views s' n" for n p M
    using old [OF that(2)] history_sel(4) [OF h that(1)] view_grows [OF g] by blast
  moreover have "won_ok ms E L s' u y" if uy: "(u, y) \<in> L" for u y
  proof -
    obtain c Q where Q: "(u, c) \<in> nw_elected s" "Q \<subseteq> set ms" "card (set ms) div 2 + 1 \<le> card Q"
      "\<And>q p M. q \<in> Q \<Longrightarrow> (p, M) \<in> views s q \<Longrightarrow> u \<le> ps_current_term p \<and> ballot E L M u u y"
      by (rule won_okE [OF history_sel(3) [OF h uy]]) blast
    show ?thesis
    proof (rule won_okI)
      show "u \<le> ps_current_term p \<and> ballot E L M u u y" if "q \<in> Q" "(p, M) \<in> views s' q" for q p M
        using old [OF that(2)] Q(4) [OF that(1)] ballot_grows [OF g] by blast
    qed (use Q(1-3) el in simp_all)
  qed
  ultimately show ?thesis
    using cells keep history_sel(2) [OF h] unfolding history_def by fast
qed

lemma office_quiet:
  assumes "office_ok s n" and "acks_sent s = acks_sent s' \<or> nw_sent s \<subseteq> nw_sent s'" and "msgs_all s' n \<subseteq> msgs_all s n"
    and "rf_role (nw_mem s' n) = rf_role (nw_mem s n)" "rf_current_term (nw_mem s' n) = rf_current_term (nw_mem s n)"
      "rf_match_index (nw_mem s' n) = rf_match_index (nw_mem s n)" "tip (nw_mem s' n) = tip (nw_mem s n)"
  shows "office_ok s' n"
proof -
  have "acks_sent s p \<subseteq> acks_sent s' p" for p using assms(2) acks_sent_mono by auto
  with assms(1,3-) show ?thesis unfolding office_ok_def tip_def by (auto; blast)
qed

end
