(* ===== verification/History_Tree.thy ===== *)
theory History_Tree
  imports Leader_Completeness
begin

section \<open>An operation extends the tree\<close>

text \<open>
  One operation of one member of a network with a history (\<open>op_step\<close>): the tree gains at most the entry
  that a leader appends, the starts gain the last position of a member that has just been elected.
\<close>

subsection \<open>Positions of a log in the tree\<close>

lemma holds_below:
  assumes wf: "raft_wf r" and cells: "log_cells r \<subseteq> E" and "holds r (i, t)"
  shows "below E (i, t) (tip r)"
  using assms(3)
proof (induction "last_index r - i" arbitrary: i t)
  case 0
  then have "i = last_index r" "t = last_term r" using term_at_last [OF wf] by (auto simp: holds_def)
  then show ?case by (simp add: tip_def)
next
  case (Suc d)
  note len = raft_wf_last_index [OF wf]
  have i: "rf_base_index r \<le> i" "i < last_index r" "term_at r i = t" using Suc by (auto simp: holds_def)
  then obtain e where e: "entry_at r (Suc i) = Some e" using len by (auto simp: entry_at_def)
  have "holds r (Suc i, le_term e)" using i e len by (auto simp: holds_def term_at_entry [OF wf])
  moreover have "d = last_index r - Suc i" using Suc.hyps(2) by simp
  ultimately have "below E (Suc i, le_term e) (tip r)" using Suc.hyps(1) by blast
  moreover have "(Suc i, le_term e, t, le_command e) \<in> E" using entry_cell(2) [OF wf e] i(3) cells by auto
  then have "below E (i, t) (Suc i, le_term e)" by (rule below_up [OF below_refl])
  ultimately show ?case by (rule below_trans)
qed

lemma below_holds:
  assumes wf: "raft_wf r" and cells: "log_cells r \<subseteq> E" and det: "determined E"
    and x: "below E x (tip r)" "rf_base_index r \<le> fst x"
  shows "holds r x"
proof -
  have i: "fst x \<le> last_index r" using below_index [OF x(1)] by (simp add: tip_def)
  then have "holds r (fst x, term_at r (fst x))" using x(2) by (simp add: holds_def)
  from below_unique [OF holds_below [OF wf cells this] _ det, of "snd x"] x(1) have "term_at r (fst x) = snd x" by simp
  with i x(2) show ?thesis by (simp add: holds_def)
qed

lemma tip_known:
  assumes wf: "raft_wf r" and cells: "log_cells r \<subseteq> E" and "known E (base r)"
  shows "known E (tip r)"
proof (cases "rf_log r = []")
  case True
  then show ?thesis using assms(3) raft_wf_last_index [OF wf] by (simp add: tip_def base_def last_term_def)
next
  case False
  note len = raft_wf_last_index [OF wf]
  then have e: "entry_at r (last_index r) = Some (last (rf_log r))"
    using False by (simp add: entry_at_def last_conv_nth)
  from entry_cell(2) [OF wf e] cells False show ?thesis
    by (auto simp: known_def cell_at_def tip_def last_term_def)
qed

lemma ps_of_mem:
  assumes "raft_wf r"
  shows "ps_tip (persisted_snapshot r) = tip r" and "ps_base (persisted_snapshot r) = base r"
  using raft_wf_last_index [OF assms]
  by (simp_all add: ps_tip_def ps_base_def persisted_snapshot_def tip_def base_def last_term_eq)

lemma ps_of_mem_sel [simp]:
  "ps_current_term (persisted_snapshot r) = rf_current_term r" "ps_commit_index (persisted_snapshot r) = rf_commit_index r"
  by (simp_all add: persisted_snapshot_def)

subsection \<open>The step\<close>

definition cells_after :: "node_id \<Rightarrow> raft_op \<Rightarrow> network \<Rightarrow> cell set \<Rightarrow> cell set" where
  "cells_after n op s E = E \<union> log_cells (apply_raft_op op (nw_mem s n))"

definition starts_after :: "node_id \<Rightarrow> raft_op \<Rightarrow> network \<Rightarrow> (nat \<times> pos) set \<Rightarrow> (nat \<times> pos) set" where
  "starts_after n op s L =
     (let r = nw_mem s n; r' = apply_raft_op op r in
      L \<union> (if rf_role r' = Leader \<and> rf_role r \<noteq> Leader then {(rf_current_term r', tip r)} else {}))"

definition op_step :: "node_id list \<Rightarrow> cell set \<Rightarrow> (nat \<times> pos) set \<Rightarrow> network \<Rightarrow> node_id \<Rightarrow> raft_op \<Rightarrow> bool" where
  "op_step ms E L s n op \<longleftrightarrow>
     history ms E L s \<and> net_inv ms s \<and> net_inv ms (after_op n op s) \<and> distinct ms \<and> 2 \<le> card (set ms) \<and>
     n \<in> set ms \<and> allowed s n op \<and> op_ok op (nw_mem s n)"

lemma another_member:
  assumes "2 \<le> card (set ms)"
  obtains y where "y \<in> set ms" "y \<noteq> n"
proof -
  have "\<not> set ms \<subseteq> {n}" using assms card_mono [of "{n}" "set ms"] by auto
  then show ?thesis using that by auto
qed

lemma op_step_sel:
  assumes st: "op_step ms E L s n op"
  shows "history ms E L s" "net_inv ms s" "net_inv ms (after_op n op s)" "distinct ms" "2 \<le> card (set ms)"
    "n \<in> set ms" "allowed s n op" "op_ok op (nw_mem s n)" "op \<noteq> Drain_Ready"
  using st by (auto simp: op_step_def)

lemma op_step_wf:
  assumes st: "op_step ms E L s n op"
  shows "raft_wf (nw_mem s n)" "raft_wf (apply_raft_op op (nw_mem s n))" "log_cells (nw_mem s n) \<subseteq> E"
    "known E (base (nw_mem s n))" "known E (tip (nw_mem s n))" "rf_id (nw_mem s n) = n" "rf_peers (nw_mem s n) = peers_of ms n"
    "vote_mono (nw_mem s n) (apply_raft_op op (nw_mem s n))" "tree E L" "closed E" "determined E"
proof -
  let ?r = "nw_mem s n"
  note sel = op_step_sel [OF st]
  note h = sel(1)
  have e: "engine_inv ms E s n" using history_sel(1) [OF h] sel(6) by (simp add: cell_inv_def)
  then show wf: "raft_wf ?r" and cells: "log_cells ?r \<subseteq> E" by (simp_all add: engine_inv_def held_cells_def)
  show "raft_wf (apply_raft_op op ?r)" using raft_op_ok [OF wf sel(8)] by simp
  show b: "known E (base ?r)"
    using history_sel(4) [OF h sel(6) memory_view] ps_of_mem(2) [OF wf] by (simp add: view_ok_def)
  show "known E (tip ?r)" by (rule tip_known [OF wf cells b])
  show "rf_id ?r = n" "rf_peers ?r = peers_of ms n" using sel(2,6) by (simp_all add: net_inv_def member_inv_def)
  show "vote_mono ?r (apply_raft_op op ?r)" by (rule vote_mono_op [OF op_ok_room [OF sel(8)]])
  show "tree E L" by (rule history_sel(2) [OF h])
  then show "closed E" "determined E" by (simp_all add: tree_def)
qed

lemma op_step_effect:
  assumes st: "op_step ms E L s n op"
  shows "log_effect op (nw_mem s n) (apply_raft_op op (nw_mem s n))"
    and "\<exists>fresh. msgs_all (after_op n op s) n = msgs_all s n \<union> fresh \<and>
      (\<forall>a \<in> fresh. fresh_ok op (nw_mem s n) (apply_raft_op op (nw_mem s n)) a)"
proof -
  let ?r = "nw_mem s n"
  have eff: "effect op ?r (apply_raft_op op ?r)"
    by (rule op_effect [OF op_step_wf(1) [OF st] op_step_sel(8,9) [OF st]])
  then show "log_effect op ?r (apply_raft_op op ?r)" by (simp add: effect_def)
  obtain fresh where fresh: "rf_out (apply_raft_op op ?r) = rf_out ?r @ fresh" "\<forall>a \<in> set fresh. fresh_ok op ?r (apply_raft_op op ?r) a"
    using eff by (auto simp: effect_def sends_def)
  then show "\<exists>fresh. msgs_all (after_op n op s) n = msgs_all s n \<union> fresh \<and> (\<forall>a \<in> fresh. fresh_ok op ?r (apply_raft_op op ?r) a)"
    using msgs_after_op(4) [OF fresh(1)] fresh(2) by (intro exI [of _ "set fresh"] conjI)
qed

text \<open>How the member came to lead.\<close>

lemma op_step_leader:
  assumes st: "op_step ms E L s n op" and lead: "rf_role (apply_raft_op op (nw_mem s n)) = Leader"
  shows "rf_current_term (apply_raft_op op (nw_mem s n)) = rf_current_term (nw_mem s n)"
    and "rf_role (nw_mem s n) = Leader \<or> rf_role (nw_mem s n) = Candidate \<and>
      (\<exists>W. W \<subseteq> set ms \<and> card (set ms) div 2 + 1 \<le> card W \<and> supported s (rf_current_term (nw_mem s n)) n W)"
proof -
  let ?r = "nw_mem s n" and ?r' = "apply_raft_op op (nw_mem s n)"
  note sel = op_step_sel [OF st] and wf = op_step_wf [OF st]
  have q: "quorum ?r = card (set ms) div 2 + 1" by (rule quorum_of_group [OF sel(4,6) wf(7)])
  then have "card W < quorum ?r" if "W \<subseteq> {n}" for W using that sel(5) card_mono [of "{n}" W] by simp
  then consider "rf_role ?r = Leader" "rf_current_term ?r' = rf_current_term ?r"
    | W where "quorum ?r \<le> card W" "rf_role ?r = Candidate" "rf_current_term ?r' = rf_current_term ?r" "W \<subseteq> rf_votes ?r \<union> op_voter op ?r"
    using op_role [of op ?r] lead unfolding role_ok_def wf(6) by (meson leD)
  then have "rf_current_term ?r' = rf_current_term ?r \<and> (rf_role ?r = Leader \<or> rf_role ?r = Candidate \<and>
      (\<exists>W. W \<subseteq> set ms \<and> card (set ms) div 2 + 1 \<le> card W \<and> supported s (rf_current_term ?r) n W))"
  proof cases
    case (2 W)
    have "tally_inv s n" using sel(2,6) by (simp add: net_inv_def)
    then have sup: "supported s (rf_current_term ?r) n W"
      using 2 op_voter_sent [OF sel(7), of _ ?r] by (fastforce simp: tally_inv_def supported_def)
    with supporters_are_members [OF sel(2) sup sel(6)] 2 q show ?thesis by auto
  qed simp
  then show "rf_current_term ?r' = rf_current_term ?r" and "rf_role ?r = Leader \<or> rf_role ?r = Candidate \<and>
      (\<exists>W. W \<subseteq> set ms \<and> card (set ms) div 2 + 1 \<le> card W \<and> supported s (rf_current_term ?r) n W)" by simp_all
qed

lemma op_step_elected:
  assumes st: "op_step ms E L s n op"
  shows "nw_elected s \<subseteq> nw_elected (after_op n op s)"
    and "leads (nw_mem s n) (apply_raft_op op (nw_mem s n)) \<Longrightarrow>
      (rf_current_term (apply_raft_op op (nw_mem s n)), n) \<in> nw_elected (after_op n op s)"
proof -
  show sub: "nw_elected s \<subseteq> nw_elected (after_op n op s)" by (auto simp: after_op_def Let_def)
  have "tally_inv s n" using op_step_sel(2,6) [OF st] by (simp add: net_inv_def)
  then show "leads (nw_mem s n) (apply_raft_op op (nw_mem s n)) \<Longrightarrow>
      (rf_current_term (apply_raft_op op (nw_mem s n)), n) \<in> nw_elected (after_op n op s)"
    using sub by (auto simp: leads_def tally_inv_def after_op_def Let_def)
qed

text \<open>Nobody has written in the term of a member that is about to lead.\<close>

lemma op_step_new_term:
  assumes st: "op_step ms E L s n op" and lead: "rf_role (apply_raft_op op (nw_mem s n)) = Leader"
    and new: "rf_role (nw_mem s n) \<noteq> Leader"
  shows "(rf_current_term (nw_mem s n), c) \<notin> nw_elected s" and "(rf_current_term (nw_mem s n), y) \<notin> L"
    and "last_term (nw_mem s n) < rf_current_term (nw_mem s n)"
proof -
  let ?r = "nw_mem s n"
  note sel = op_step_sel [OF st] and wf = op_step_wf [OF st] and el = op_step_elected [OF st]
  note h = sel(1)
  have t: "rf_current_term (apply_raft_op op ?r) = rf_current_term ?r" and cand: "rf_role ?r = Candidate"
    using op_step_leader [OF st lead] new by auto
  have none: "(rf_current_term ?r, n) \<notin> nw_elected s"
    using history_sel(1) [OF h] sel(6) cand by (simp add: cell_inv_def engine_inv_def)
  have "(rf_current_term ?r, n) \<in> nw_elected (after_op n op s)" using el(2) lead t by (simp add: leads_def)
  then have noone: "(rf_current_term ?r, c) \<notin> nw_elected s" for c
    using elected_unique [OF sel(3), of "rf_current_term ?r" n c] el(1) none by blast
  then show "(rf_current_term ?r, c) \<notin> nw_elected s" .
  show "(rf_current_term ?r, y) \<notin> L"
  proof
    assume "(rf_current_term ?r, y) \<in> L"
    from history_sel(3) [OF h this] noone show False by (auto simp: won_ok_def)
  qed
  have le: "last_term ?r \<le> rf_current_term ?r"
    using wf(1) last_slab_term_le by (auto simp: raft_wf_def last_term_eq)
  moreover have "last_term ?r \<noteq> rf_current_term ?r"
  proof
    assume eq: "last_term ?r = rf_current_term ?r"
    have "0 < rf_current_term ?r" using wf(1) cand by (auto simp: raft_wf_def wf_vote_def)
    then have "cell_at E (tip ?r)" using known_cell [OF wf(5)] eq by (simp add: tip_def)
    then obtain p d where "(last_index ?r, rf_current_term ?r, p, d) \<in> E" using eq by (auto simp: cell_at_def tip_def)
    then show False using history_sel(1) [OF h] noone unfolding cell_inv_def by fast
  qed
  ultimately show "last_term ?r < rf_current_term ?r" by simp
qed

subsection \<open>The tree grows\<close>

lemma op_step_cells:
  assumes st: "op_step ms E L s n op"
  shows "cell_inv ms (cells_after n op s E) (after_op n op s)"
    and "cells_after n op s E = E \<or> rf_role (apply_raft_op op (nw_mem s n)) = Leader \<and>
      (\<exists>c. cells_after n op s E \<subseteq>
        insert (last_index (nw_mem s n) + 1, rf_current_term (apply_raft_op op (nw_mem s n)), last_term (nw_mem s n), c) E)"
proof -
  let ?r = "nw_mem s n" and ?r' = "apply_raft_op op (nw_mem s n)"
  note sel = op_step_sel [OF st] and wf = op_step_wf [OF st]
  note cells = history_sel(1) [OF sel(1)]
  obtain y where y: "y \<in> set ms" "y \<noteq> n" using another_member [OF sel(5)] .
  show "cell_inv ms (cells_after n op s E) (after_op n op s)"
    unfolding cells_after_def using y(2)
    by (intro cell_inv_op [OF sel(2,3) cells sel(6,4,6) y(1) _ sel(7,8)]) simp
  have "op_cells op \<subseteq> sent_cells s" using sel(7) by (cases op) (auto simp: sent_cells_def)
  then have brought: "op_cells op \<subseteq> E" using cells by (auto simp: cell_inv_def)
  have "log_step (op_cells op) ?r ?r'" by (rule op_log_step [OF wf(1) sel(8,9)])
  then consider "log_cells ?r' \<subseteq> log_cells ?r \<union> op_cells op"
    | c where "rf_role ?r' = Leader" "last_index ?r' = last_index ?r + 1"
      "log_cells ?r' \<subseteq> insert (last_index ?r', rf_current_term ?r', last_term ?r, c) (log_cells ?r)"
    unfolding log_step_def by blast
  then show "cells_after n op s E = E \<or> rf_role ?r' = Leader \<and>
      (\<exists>c. cells_after n op s E \<subseteq> insert (last_index ?r + 1, rf_current_term ?r', last_term ?r, c) E)"
  proof cases
    case 1
    then have "cells_after n op s E = E" using brought wf(3) by (auto simp: cells_after_def)
    then show ?thesis by simp
  next
    case (2 c)
    then have "cells_after n op s E \<subseteq> insert (last_index ?r + 1, rf_current_term ?r', last_term ?r, c) E"
      using wf(3) by (auto simp: cells_after_def)
    with 2(1) show ?thesis by blast
  qed
qed

lemma op_step_tree:
  assumes st: "op_step ms E L s n op"
  shows "tree (cells_after n op s E) (starts_after n op s L)"
proof -
  let ?r = "nw_mem s n" and ?r' = "apply_raft_op op (nw_mem s n)"
  let ?E = "cells_after n op s E" and ?L = "starts_after n op s L"
  note sel = op_step_sel [OF st] and wf = op_step_wf [OF st]
  have old: "starts E L" by (rule tree_sel(3) [OF wf(9)])
  have sub: "E \<subseteq> ?E" "L \<subseteq> ?L" by (auto simp: cells_after_def starts_after_def Let_def)
  have cell: "0 < i \<and> 0 < t \<and> p \<le> t \<and> known ?E (i - 1, p) \<and>
      (\<exists>i0 p0. (t, i0, p0) \<in> ?L \<and> i0 < i \<and> (if i = Suc i0 then p = p0 else p = t))" if c: "(i, t, p, c) \<in> ?E" for i t p c
  proof (cases "(i, t, p, c) \<in> E")
    case True
    then have "0 < i \<and> 0 < t \<and> p \<le> t \<and> known ?E (i - 1, p)"
      using closedD [OF wf(10) True] known_mono [OF _ sub(1)] by simp
    moreover have "\<exists>i0 p0. (t, i0, p0) \<in> L \<and> i0 < i \<and> (if i = Suc i0 then p = p0 else p = t)"
      by (rule startsD(1) [OF old True])
    ultimately show ?thesis using subsetD [OF sub(2)] by metis
  next
    case False
    then have lead: "rf_role ?r' = Leader" and eq: "i = last_index ?r + 1" "t = rf_current_term ?r'" "p = last_term ?r"
      using c op_step_cells(2) [OF st] by auto
    have t: "rf_current_term ?r' = rf_current_term ?r" by (rule op_step_leader(1) [OF st lead])
    have pos: "0 < rf_current_term ?r" using wf(2) lead t by (auto simp: raft_wf_def wf_vote_def)
    have le: "last_term ?r \<le> rf_current_term ?r" using wf(1) last_slab_term_le by (auto simp: raft_wf_def last_term_eq)
    have kn: "known ?E (i - 1, p)" using wf(5) known_mono [OF _ sub(1)] eq by (simp add: tip_def)
    have "\<exists>i0 p0. (t, i0, p0) \<in> ?L \<and> i0 < i \<and> (if i = Suc i0 then p = p0 else p = t)"
    proof (cases "rf_role ?r = Leader")
      case True
      then have lt: "last_term ?r = rf_current_term ?r" using history_sel(5) [OF sel(1,6)] by (simp add: office_ok_def)
      have "cell_at E (tip ?r)" using known_cell [OF wf(5)] lt pos by (simp add: tip_def)
      then obtain q d where "(last_index ?r, rf_current_term ?r, q, d) \<in> E" using lt by (auto simp: cell_at_def tip_def)
      then obtain i0 p0 where "(rf_current_term ?r, i0, p0) \<in> L" "i0 < last_index ?r" using startsD(1) [OF old] by metis
      then show ?thesis using sub(2) eq t lt by (intro exI [of _ i0] exI [of _ p0]) auto
    next
      case False
      then have "(t, last_index ?r, last_term ?r) \<in> ?L" using lead eq by (simp add: starts_after_def Let_def tip_def)
      then show ?thesis using eq by (intro exI [of _ "last_index ?r"] exI [of _ "last_term ?r"]) auto
    qed
    with pos le kn eq t show ?thesis by simp
  qed
  have start: "known ?E y \<and> snd y < t" if "(t, y) \<in> ?L" for t y
  proof (cases "(t, y) \<in> L")
    case True
    then have "known E y" "snd y < t" by (rule startsD [OF old])+
    then show ?thesis using known_mono [OF _ sub(1)] by blast
  next
    case False
    then have lead: "rf_role ?r' = Leader" "rf_role ?r \<noteq> Leader" and eq: "t = rf_current_term ?r'" "y = tip ?r"
      using that by (auto simp: starts_after_def Let_def split: if_splits)
    then show ?thesis
      using op_step_new_term(3) [OF st lead] op_step_leader(1) [OF st lead(1)] known_mono [OF wf(5) sub(1)] by (simp add: tip_def)
  qed
  have "y = y'" if "(t, y) \<in> ?L" "(t, y') \<in> ?L" for t y y'
  proof (cases "rf_role ?r' = Leader \<and> rf_role ?r \<noteq> Leader")
    case True
    then have none: "(rf_current_term ?r', z) \<notin> L" for z
      using op_step_new_term(2) [OF st] op_step_leader(1) [OF st] by simp
    have "?L = insert (rf_current_term ?r', tip ?r) L" using True by (auto simp: starts_after_def Let_def)
    with that none startsD(2) [OF old] show ?thesis by (cases "t = rf_current_term ?r'") auto
  next
    case False
    then have "?L = L" by (auto simp: starts_after_def Let_def)
    with that startsD(2) [OF old] show ?thesis by simp
  qed
  then have "starts ?E ?L" using cell start by (intro startsI) blast+
  moreover have "closed ?E" unfolding closed_def using cell by (intro ballI) (clarify, metis)
  moreover have "determined ?E" using op_step_cells(1) [OF st] by (simp add: cell_inv_def)
  ultimately show ?thesis unfolding tree_def by simp
qed

lemma op_step_grows:
  assumes st: "op_step ms E L s n op"
  shows "grows E L s (cells_after n op s E) (starts_after n op s L) (after_op n op s)"
  using op_step_tree [OF st] op_step_wf(9) [OF st] op_step_elected(1) [OF st]
  by (auto simp: grows_def tree_def cells_after_def starts_after_def Let_def)

end
