(* ===== verification/History_Log.thy ===== *)
theory History_Log
  imports History_Tree
begin

section \<open>An operation keeps what was acknowledged and committed\<close>

text \<open>
  What an operation received is a promise of its sender. The log it leaves keeps what the member has
  acknowledged, but for what a later leader dropped, and its commit index is covered by a majority.
\<close>

subsection \<open>What the operation received\<close>

lemma op_step_received:
  assumes st: "op_step ms E L s n op" and op: "op = raft_op.Step f msg"
  shows "(f, n, msg) \<in> nw_sent s" "f \<in> set ms" "\<lparr>ad_to = n, ad_msg = msg\<rparr> \<in> msgs_all s f"
    "claim_ok ms E s f \<lparr>ad_to = n, ad_msg = msg\<rparr>" "acks_of \<lparr>ad_to = n, ad_msg = msg\<rparr> \<subseteq> acks_sent s f"
proof -
  note sel = op_step_sel [OF st]
  show sent: "(f, n, msg) \<in> nw_sent s" using sel(7) op by simp
  then show f: "f \<in> set ms" using sel(2) by (auto simp: net_inv_def)
  have "\<lparr>ad_to = n, ad_msg = msg\<rparr> \<in> msgs_sent s f" using sent by (simp add: msgs_sent_iff)
  then show m: "\<lparr>ad_to = n, ad_msg = msg\<rparr> \<in> msgs_all s f" using msgs_sub(3) by blast
  show "claim_ok ms E s f \<lparr>ad_to = n, ad_msg = msg\<rparr>"
    using history_sel(4) [OF sel(1) f memory_view] m by (simp add: view_ok_def)
  show "acks_of \<lparr>ad_to = n, ad_msg = msg\<rparr> \<subseteq> acks_sent s f" using acks_sentI [OF sent] by blast
qed

lemma op_step_append:
  assumes st: "op_step ms E L s n op" and op: "op = raft_op.Step f (AppendEntries req)" and run: "entries_are_contiguous req"
  shows "cell_at E (ae_end req)" "snd (ae_end req) = ae_term req" "on_line E (ae_term req) (ae_end req)" "ae_end req \<noteq> (0, 0)"
    "(ae_term req, f) \<in> nw_elected s" "(ae_term req, fst (ae_end req)) \<in> acks_sent s f"
    "\<exists>t. settled ms E s (ae_term req) (ae_leader_commit req, t) \<and> below E (ae_leader_commit req, t) (ae_end req)"
proof -
  note rec = op_step_received [OF st op]
  show c: "cell_at E (ae_end req)" "snd (ae_end req) = ae_term req" "(ae_term req, f) \<in> nw_elected s"
    "\<exists>t. settled ms E s (ae_term req) (ae_leader_commit req, t) \<and> below E (ae_leader_commit req, t) (ae_end req)"
    using rec(4) run by (simp_all add: claim_ok_def)
  show "on_line E (ae_term req) (ae_end req)" using c(1,2) by (metis on_line_cell prod.collapse)
  show "ae_end req \<noteq> (0, 0)" using c(1) closedD [OF op_step_wf(10) [OF st]] by (fastforce simp: cell_at_def)
  show "(ae_term req, fst (ae_end req)) \<in> acks_sent s f" using rec(5) run by (simp add: acks_of_def)
qed

lemma op_step_install:
  assumes st: "op_step ms E L s n op" and op: "op = raft_op.Step f (InstallSnapshot req)"
  shows "on_line E (is_term req) (snap_end req)" "settled ms E s (is_term req) (snap_end req)" "known E (snap_end req)"
    "(is_term req, f) \<in> nw_elected s" "(is_term req, is_last_included_index req) \<in> acks_sent s f"
proof -
  note rec = op_step_received [OF st op]
  show c: "on_line E (is_term req) (snap_end req)" "settled ms E s (is_term req) (snap_end req)" "(is_term req, f) \<in> nw_elected s"
    using rec(4) by (simp_all add: claim_ok_def)
  show "known E (snap_end req)" by (rule on_line_known [OF op_step_wf(10) [OF st] c(1)])
  show "(is_term req, is_last_included_index req) \<in> acks_sent s f" using rec(5) by (simp add: acks_of_def)
qed

subsection \<open>The log keeps its promises\<close>

lemma op_step_positions:
  assumes st: "op_step ms E L s n op"
  shows "holds (nw_mem s n) x \<Longrightarrow> below E x (tip (nw_mem s n))"
    and "holds (apply_raft_op op (nw_mem s n)) x \<Longrightarrow> below (cells_after n op s E) x (tip (apply_raft_op op (nw_mem s n)))"
    and "below E x (tip (nw_mem s n)) \<Longrightarrow> rf_base_index (nw_mem s n) \<le> fst x \<Longrightarrow> holds (nw_mem s n) x"
    and "below E x y \<Longrightarrow> below (cells_after n op s E) x y"
proof -
  note wf = op_step_wf [OF st]
  show "holds (nw_mem s n) x \<Longrightarrow> below E x (tip (nw_mem s n))"
    using holds_below [OF wf(1,3)] by (cases x) simp
  show "holds (apply_raft_op op (nw_mem s n)) x \<Longrightarrow> below (cells_after n op s E) x (tip (apply_raft_op op (nw_mem s n)))"
    using holds_below [OF wf(2)] by (cases x) (auto simp: cells_after_def)
  show "below E x (tip (nw_mem s n)) \<Longrightarrow> rf_base_index (nw_mem s n) \<le> fst x \<Longrightarrow> holds (nw_mem s n) x"
    by (rule below_holds [OF wf(1,3,11)])
  show "below E x y \<Longrightarrow> below (cells_after n op s E) x y" by (rule below_mono) (auto simp: cells_after_def)
qed

text \<open>Where the last position went: it is the old one, above it, or on the line of the current leader.\<close>

lemma op_step_tip:
  assumes st: "op_step ms E L s n op"
  shows "below (cells_after n op s E) (tip (nw_mem s n)) (tip (apply_raft_op op (nw_mem s n))) \<or>
    on_line E (rf_current_term (apply_raft_op op (nw_mem s n))) (tip (apply_raft_op op (nw_mem s n))) \<and>
    \<not> below E (tip (apply_raft_op op (nw_mem s n))) (tip (nw_mem s n))"
proof -
  let ?r = "nw_mem s n" and ?r' = "apply_raft_op op (nw_mem s n)" and ?E = "cells_after n op s E"
  note wf = op_step_wf [OF st] and pos = op_step_positions [OF st]
  note eff = op_step_effect(1) [OF st]
  show ?thesis
    using eff
  proof (cases rule: log_effect.cases)
    case Grow
    then show ?thesis using pos(2) by simp
  next
    case (Append req f)
    note req = op_step_append [OF st Append(1) Append(4)]
    have E: "?E = E" using op_step_cells(2) [OF st] Append(2) by auto
    show ?thesis
    proof (cases "tip ?r' = tip ?r")
      case False
      then have tip: "tip ?r' = ae_end req" and moved: "last_index ?r < last_index ?r' \<or>
          (\<exists>j. rf_base_index ?r \<le> j \<and> j \<le> last_index ?r \<and> j \<le> last_index ?r' \<and> term_at ?r j \<noteq> term_at ?r' j)"
        using Append(7) by auto
      have "\<not> below E (ae_end req) (tip ?r)"
      proof
        assume b: "below E (ae_end req) (tip ?r)"
        then have "last_index ?r' \<le> last_index ?r" using below_index [OF b] arg_cong [OF tip, of fst] by (simp add: tip_def)
        then obtain j where j: "rf_base_index ?r \<le> j" "j \<le> last_index ?r" "j \<le> last_index ?r'" "term_at ?r j \<noteq> term_at ?r' j"
          using moved by auto
        have "rf_base_index ?r' = rf_base_index ?r" using Append(5) by (simp add: base_def)
        then have "below E (j, term_at ?r' j) (ae_end req)" using pos(2) [of "(j, term_at ?r' j)"] j tip E by (simp add: holds_def)
        then have "below E (j, term_at ?r' j) (tip ?r)" using below_trans [OF b] by blast
        moreover have "below E (j, term_at ?r j) (tip ?r)" using pos(1) j by (simp add: holds_def)
        ultimately show False using below_unique [OF _ _ wf(11)] j(4) by blast
      qed
      with req(3) tip Append(3) show ?thesis by simp
    qed simp
  next
    case (Restore req f)
    note req = op_step_install [OF st Restore(1)]
    show ?thesis
    proof (cases "holds ?r (snap_end req)")
      case False
      have "rf_base_index ?r \<le> fst (snap_end req)"
        using Restore(5) wf(1) by (simp add: snap_end_def raft_wf_def wf_index_def)
      then have "\<not> below E (snap_end req) (tip ?r)" using pos(3) False by blast
      with False Restore req(1) show ?thesis by auto
    qed (use Restore in auto)
  qed simp_all
qed

lemma op_step_kept:
  assumes st: "op_step ms E L s n op" and z: "on_line E t z" "below E x z" and t: "t \<le> rf_current_term (nw_mem s n)"
    and x: "below E x (tip (nw_mem s n))"
  shows "below (cells_after n op s E) x (tip (apply_raft_op op (nw_mem s n))) \<or>
    superseded (cells_after n op s E) (starts_after n op s L) t (Suc (rf_current_term (apply_raft_op op (nw_mem s n)))) x"
proof -
  let ?r' = "apply_raft_op op (nw_mem s n)" and ?E = "cells_after n op s E"
  note wf = op_step_wf [OF st] and pos = op_step_positions [OF st]
  have "t \<le> rf_current_term ?r'" using t wf(8) by (auto simp: vote_mono_def)
  then consider "below ?E (tip (nw_mem s n)) (tip ?r')"
    | "below E x (tip ?r')" | "superseded E L t (Suc (rf_current_term ?r')) x"
    using op_step_tip [OF st] replaced_superseded [OF wf(9) z _ _ x] by blast
  then show ?thesis
  proof cases
    case 1
    then show ?thesis using pos(4) [OF x] below_trans by blast
  next
    case 2
    then show ?thesis using pos(4) by blast
  next
    case 3
    then show ?thesis using superseded_grows [OF op_step_grows [OF st]] by blast
  qed
qed

lemma op_step_old_ack:
  assumes st: "op_step ms E L s n op" and "tm \<in> acks_in (msgs_all s n)"
  shows "ack_ok (cells_after n op s E) (starts_after n op s L) (persisted_snapshot (apply_raft_op op (nw_mem s n))) tm"
proof -
  let ?r = "nw_mem s n" and ?r' = "apply_raft_op op (nw_mem s n)" and ?E = "cells_after n op s E" and ?L = "starts_after n op s L"
  note sel = op_step_sel [OF st] and wf = op_step_wf [OF st] and g = op_step_grows [OF st]
  obtain t m where tm: "tm = (t, m)" by (cases tm)
  have "ack_ok E L (persisted_snapshot ?r) tm"
    using history_sel(4) [OF sel(1,6) memory_view] assms(2) by (simp add: view_ok_def)
  then have t: "t \<le> rf_current_term ?r" and acc: "accepted E t m (\<lambda>x. below E x (tip ?r) \<or> superseded E L t (Suc (rf_current_term ?r)) x)"
    by (simp_all add: ack_ok_def tm ps_of_mem [OF wf(1)])
  have mono: "rf_current_term ?r \<le> rf_current_term ?r'" using wf(8) by (simp add: vote_mono_def)
  obtain z where z: "on_line E t z" "fst z = m" "\<And>x. below E x z \<Longrightarrow> below E x (tip ?r) \<or> superseded E L t (Suc (rf_current_term ?r)) x"
    using acc by (auto simp: accepted_def)
  have "accepted E t m (\<lambda>x. below ?E x (tip ?r') \<or> superseded ?E ?L t (Suc (rf_current_term ?r')) x)"
    unfolding accepted_def
  proof (intro exI [of _ z] conjI allI impI)
    fix x assume x: "below E x z"
    from z(3) [OF x] show "below ?E x (tip ?r') \<or> superseded ?E ?L t (Suc (rf_current_term ?r')) x"
    proof
      assume "below E x (tip ?r)"
      then show ?thesis by (rule op_step_kept [OF st z(1) x t])
    next
      assume "superseded E L t (Suc (rf_current_term ?r)) x"
      then have "superseded ?E ?L t (Suc (rf_current_term ?r)) x" by (rule superseded_grows [OF g])
      then have "superseded ?E ?L t (Suc (rf_current_term ?r')) x" by (rule superseded_later) (use mono in simp)
      then show ?thesis ..
    qed
  qed (use z in simp_all)
  then have "accepted ?E t m (\<lambda>x. below ?E x (tip ?r') \<or> superseded ?E ?L t (Suc (rf_current_term ?r')) x)"
    by (rule accepted_grows [OF g])
  with t mono show ?thesis by (simp add: ack_ok_def tm ps_of_mem [OF wf(2)])
qed

subsection \<open>The commit index is covered\<close>

lemma ack_origin:
  assumes h: "history ms E L s" and "q \<in> set ms" and ack: "(t, m) \<in> acks_sent s q"
  shows "\<exists>l. (t, l) \<in> nw_elected s \<and> (t, m) \<in> acks_sent s l"
proof -
  obtain a where a: "a \<in> msgs_sent s q" "(t, m) \<in> acks_of a" using ack by (auto simp: acks_sent_def acks_in_def)
  have "claim_ok ms E s q a"
    using history_sel(4) [OF h assms(2) memory_view] a(1) msgs_sub(3) [of s q] by (auto simp: view_ok_def)
  with a(2) ack show ?thesis
    by (cases "ad_msg a") (auto simp: claim_ok_def acks_of_def split: if_splits)
qed

lemma op_step_match:
  assumes st: "op_step ms E L s n op" and lead: "rf_role (apply_raft_op op (nw_mem s n)) = Leader"
    and k: "rf_match_index (apply_raft_op op (nw_mem s n)) p = Some k" "0 < k"
  shows "\<exists>m \<ge> k. (rf_current_term (apply_raft_op op (nw_mem s n)), m) \<in> acks_sent s p"
proof -
  let ?r = "nw_mem s n" and ?r' = "apply_raft_op op (nw_mem s n)"
  note sel = op_step_sel [OF st]
  have m: "rf_role ?r = Leader" "rf_current_term ?r' = rf_current_term ?r"
    "rf_match_index ?r p = Some k \<or> reported op p (rf_current_term ?r) k"
    using op_match [of op ?r] lead k unfolding match_effect_def by blast+
  from m(3) show ?thesis
  proof
    assume "rf_match_index ?r p = Some k"
    then show ?thesis using history_sel(5) [OF sel(1,6)] m k(2) by (simp add: office_ok_def)
  next
    assume "reported op p (rf_current_term ?r) k"
    then show ?thesis unfolding reported_def
    proof (elim disjE exE conjE)
      fix resp assume r: "op = raft_op.Step p (AppendEntriesResp resp)" "aer_success resp" "aer_term resp = rf_current_term ?r"
        "k \<le> aer_match_index resp"
      from op_step_received(5) [OF st r(1)] r(2,3) m(2) have "(rf_current_term ?r', aer_match_index resp) \<in> acks_sent s p"
        by (auto simp: acks_of_def)
      with r(4) show ?thesis by blast
    next
      fix resp assume r: "op = raft_op.Step p (InstallSnapshotResp resp)" "isr_success resp" "isr_term resp = rf_current_term ?r"
        "k \<le> isr_last_included_index resp"
      from op_step_received(5) [OF st r(1)] r(2,3) m(2) have "(rf_current_term ?r', isr_last_included_index resp) \<in> acks_sent s p"
        by (auto simp: acks_of_def)
      with r(4) show ?thesis by blast
    qed
  qed
qed

lemma op_step_base:
  assumes st: "op_step ms E L s n op"
  shows "known (cells_after n op s E) (base (apply_raft_op op (nw_mem s n)))"
    and "known (cells_after n op s E) (tip (apply_raft_op op (nw_mem s n)))"
proof -
  let ?r = "nw_mem s n" and ?r' = "apply_raft_op op (nw_mem s n)" and ?E = "cells_after n op s E"
  note wf = op_step_wf [OF st]
  have sub: "E \<subseteq> ?E" by (simp add: cells_after_def)
  have "known E (base ?r')"
    using op_step_effect(1) [OF st]
  proof (cases rule: log_effect.cases)
    case Keep
    then show ?thesis using known_below [OF op_step_positions(1) [OF st] wf(10,5)] by blast
  next
    case (Restore req f)
    then show ?thesis using op_step_install(3) [OF st] by simp
  qed (use wf(4) in simp_all)
  then show "known ?E (base ?r')" using known_mono [OF _ sub] by blast
  then show "known ?E (tip ?r')" by (intro tip_known [OF wf(2)]) (simp_all add: cells_after_def)
qed

lemma op_step_leader_commit:
  assumes st: "op_step ms E L s n op" and lead: "rf_role (apply_raft_op op (nw_mem s n)) = Leader"
    and "commit_effect (nw_mem s n) (apply_raft_op op (nw_mem s n))"
    and "rf_commit_index (apply_raft_op op (nw_mem s n)) \<noteq> rf_commit_index (nw_mem s n)"
  defines "N \<equiv> rf_commit_index (apply_raft_op op (nw_mem s n))" and "t \<equiv> rf_current_term (apply_raft_op op (nw_mem s n))"
  shows "chosen ms (cells_after n op s E) (after_op n op s) (N, t)"
    and "below (cells_after n op s E) (N, t) (tip (apply_raft_op op (nw_mem s n)))"
proof -
  let ?r' = "apply_raft_op op (nw_mem s n)" and ?E = "cells_after n op s E"
  note sel = op_step_sel [OF st] and wf = op_step_wf [OF st]
  have N: "0 < N" "N \<le> last_index ?r'" "term_at ?r' N = t" "quorum ?r' \<le> replicas_at ?r' N"
    using assms(3,4) by (auto simp: commit_effect_def N_def t_def)
  have t: "0 < t" using wf(2) lead by (auto simp: raft_wf_def wf_vote_def t_def)
  have "holds ?r' (N, t)" using term_at_pos [OF wf(2), of N] N t by (simp add: holds_def)
  then show b: "below ?E (N, t) (tip ?r')" by (rule op_step_positions(2) [OF st])
  have tree: "tree ?E (starts_after n op s L)" by (rule op_step_tree [OF st])
  have cell: "cell_at ?E (N, t)"
    using known_cell [OF known_below [OF b tree_sel(2) [OF tree] op_step_base(2) [OF st]]] t by simp
  let ?acked = "filter (\<lambda>p. N \<le> (case rf_match_index ?r' p of Some m \<Rightarrow> m | None \<Rightarrow> 0)) (peers_of ms n)"
  let ?Q = "insert n (set ?acked)"
  have peers: "rf_peers ?r' = peers_of ms n" using wf(7) by simp
  have "distinct ?acked" "n \<notin> set ?acked" using sel(4) by (auto simp: peers_of_def)
  then have "card ?Q = Suc (length ?acked)" using distinct_card [of ?acked] by simp
  then have "card ?Q = replicas_at ?r' N" by (simp add: replicas_at_def wf(7))
  then have card: "card (set ms) div 2 + 1 \<le> card ?Q"
    using N(4) quorum_of_group [OF sel(4,6), of ?r'] peers by simp
  have sub: "?Q \<subseteq> set ms" using sel(6) by (auto simp: peers_of_def)
  have peer: "\<exists>m \<ge> N. (t, m) \<in> acks_sent s q" if q: "q \<in> set ?acked" for q
  proof -
    obtain k where k: "rf_match_index ?r' q = Some k" "N \<le> k" using q N(1) by (auto split: option.splits)
    then have "0 < k" using N(1) by simp
    from op_step_match [OF st lead k(1) this] k(2) show ?thesis unfolding t_def by (meson le_trans)
  qed
  have self: "\<exists>m \<ge> N. (t, m) \<in> acks_sent s n"
  proof -
    obtain y where y: "y \<in> set ms" "y \<noteq> n" using another_member [OF sel(5)] .
    obtain q where q: "q \<in> ?Q" "q \<noteq> n" using grp.not_alone [OF sub card sel(6) y(1)] y(2) by metis
    then obtain m where m: "N \<le> m" "(t, m) \<in> acks_sent s q" using peer by auto
    obtain l where l: "(t, l) \<in> nw_elected s" "(t, m) \<in> acks_sent s l"
      using ack_origin [OF sel(1) _ m(2)] q(1) sub by blast
    have "(t, l) \<in> nw_elected (after_op n op s)" "(t, n) \<in> nw_elected (after_op n op s)"
      using l(1) op_step_elected [OF st] lead by (auto simp: t_def leads_def)
    then have "l = n" using elected_unique [OF sel(3)] by blast
    with l(2) m(1) show ?thesis by blast
  qed
  have same: "acks_sent (after_op n op s) q = acks_sent s q" for q by (simp add: acks_sent_def msgs_after_op)
  show "chosen ms ?E (after_op n op s) (N, t)"
    unfolding chosen_def same fst_conv snd_conv using cell sub card peer self by (intro conjI exI [of _ ?Q]) auto
qed

lemma op_step_commit:
  assumes st: "op_step ms E L s n op"
  shows "commit_ok ms (cells_after n op s E) (after_op n op s) (persisted_snapshot (apply_raft_op op (nw_mem s n)))"
proof -
  let ?r = "nw_mem s n" and ?r' = "apply_raft_op op (nw_mem s n)" and ?E = "cells_after n op s E" and ?s = "after_op n op s"
  note sel = op_step_sel [OF st] and wf = op_step_wf [OF st] and pos = op_step_positions [OF st]
  note g = op_step_grows [OF st]
  have mono: "rf_current_term ?r \<le> rf_current_term ?r'" using wf(8) by (simp add: vote_mono_def)
  obtain t where t: "settled ms E s (rf_current_term ?r) (rf_commit_index ?r, t)" "below E (rf_commit_index ?r, t) (tip ?r)"
    using history_sel(4) [OF sel(1,6) memory_view] by (auto simp: view_ok_def commit_ok_def ps_of_mem [OF wf(1)])
  have old: "settled ms ?E ?s (rf_current_term ?r') (rf_commit_index ?r, t)" by (rule settled_grows [OF g t(1) mono])
  have base: "rf_base_index ?r \<le> rf_commit_index ?r" using wf(1) by (simp add: raft_wf_def wf_index_def)
  have goal: ?thesis if "settled ms ?E ?s (rf_current_term ?r') (rf_commit_index ?r', u)" "below ?E (rf_commit_index ?r', u) (tip ?r')" for u
    using that by (auto simp: commit_ok_def ps_of_mem [OF wf(2)])
  have up: ?thesis if "rf_commit_index ?r' = rf_commit_index ?r" "below ?E (tip ?r) (tip ?r')"
    using goal [of t] old that pos(4) [OF t(2)] below_trans by metis
  have lead: ?thesis if l: "rf_role ?r' = Leader" "commit_effect ?r ?r'" "below ?E (tip ?r) (tip ?r')"
  proof (cases "rf_commit_index ?r' = rf_commit_index ?r")
    case False
    note c = op_step_leader_commit [OF st l(1,2) False]
    then have "settled ms ?E ?s (rf_current_term ?r') (rf_commit_index ?r', rf_current_term ?r')"
      unfolding settled_def by auto
    then show ?thesis using goal c(2) by blast
  qed (use up l(3) in blast)
  show ?thesis
    using op_step_effect(1) [OF st]
  proof (cases rule: log_effect.cases)
    case Keep
    then show ?thesis using up by simp
  next
    case Lead
    then show ?thesis using lead by simp
  next
    case Grow
    then show ?thesis using lead pos(2) by simp
  next
    case (Append req f)
    note req = op_step_append [OF st Append(1) Append(4)]
    show ?thesis
    proof (cases "rf_commit_index ?r' = rf_commit_index ?r")
      case True
      have "term_at ?r (rf_commit_index ?r) = t" using pos(3) [OF t(2)] base by (simp add: holds_def)
      moreover have "rf_commit_index ?r' \<le> last_index ?r'" "rf_base_index ?r' = rf_base_index ?r"
        using wf(2) raft_wf_last_index [OF wf(2)] Append(5) by (simp_all add: raft_wf_def wf_index_def base_def)
      ultimately have "holds ?r' (rf_commit_index ?r, t)" using Append(6) base True by (simp add: holds_def)
      then show ?thesis using goal [of t] old pos(2) True by simp
    next
      case False
      then have ci: "rf_commit_index ?r' = min (ae_leader_commit req) (fst (ae_end req))" "holds ?r' (ae_end req)"
        using Append(8) req(4) by auto
      obtain u where u: "settled ms E s (ae_term req) (ae_leader_commit req, u)" "below E (ae_leader_commit req, u) (ae_end req)"
        using req(7) by blast
      then have "rf_commit_index ?r' = ae_leader_commit req" using ci(1) below_index [OF u(2)] by simp
      moreover have "below ?E (ae_leader_commit req, u) (tip ?r')" using below_trans [OF pos(2) [OF ci(2)] pos(4) [OF u(2)]] .
      ultimately show ?thesis using goal [of u] settled_grows [OF g u(1)] Append(3) by simp
    qed
  next
    case (Restore req f)
    note req = op_step_install [OF st Restore(1)]
    have "below ?E (snap_end req) (tip ?r')" using pos(2) [OF holds_base [OF wf(2)]] Restore(4) by simp
    moreover have "snap_end req = (rf_commit_index ?r', is_last_included_term req)" using Restore(6) by (simp add: snap_end_def)
    ultimately show ?thesis
      using goal [of "is_last_included_term req"] settled_grows [OF g req(2) order_refl] Restore(3) by simp
  qed
qed

end
