(* ===== verification/History_Steps.thy ===== *)
theory History_Steps
  imports History_Log
begin

section \<open>An operation keeps the history\<close>

text \<open>
  What an operation adds to the messages of its member are promises that its log keeps; votes bind the
  acknowledgements of earlier terms, and a member that has just been elected has them of a majority.
\<close>

subsection \<open>New promises\<close>

text \<open>What a leader says of its log is on the line of its term.\<close>

lemma op_step_lead_line:
  assumes st: "op_step ms E L s n op" and lead: "leads (nw_mem s n) (apply_raft_op op (nw_mem s n))"
  defines "E' \<equiv> cells_after n op s E" and "r' \<equiv> apply_raft_op op (nw_mem s n)"
  shows "cell_at E' (tip r')" "snd (tip r') = rf_current_term r'" "on_line E' (rf_current_term r') (tip r')"
    "on_line E' (rf_current_term r') (base r')"
proof -
  let ?r = "nw_mem s n"
  note sel = op_step_sel [OF st] and wf = op_step_wf [OF st]
  have old: "last_term ?r = rf_current_term ?r" if "rf_role ?r = Leader"
    using that history_sel(5) [OF sel(1,6)] by (simp add: office_ok_def)
  have "last_term r' = rf_current_term r'"
    using op_step_effect(1) [OF st]
    by (cases rule: log_effect.cases) (use lead old in \<open>auto simp: leads_def r'_def tip_def\<close>)
  then show t: "snd (tip r') = rf_current_term r'" by (simp add: tip_def)
  have "0 < rf_current_term ?r" if "rf_role ?r = Leader" using that wf(1) by (auto simp: raft_wf_def wf_vote_def)
  moreover have "0 < rf_current_term r'" if "rf_role r' = Leader" using that wf(2) by (auto simp: raft_wf_def wf_vote_def r'_def)
  ultimately have pos: "0 < rf_current_term r'" using lead by (auto simp: leads_def r'_def)
  show c: "cell_at E' (tip r')"
    using known_cell op_step_base(2) [OF st] t pos unfolding E'_def r'_def by simp
  then show l: "on_line E' (rf_current_term r') (tip r')" using t by (metis on_line_cell prod.collapse)
  have "below E' (base r') (tip r')"
    using op_step_positions(2) [OF st holds_base [OF wf(2)]] by (simp add: E'_def r'_def)
  then show "on_line E' (rf_current_term r') (base r')" by (rule on_line_below [OF l])
qed

lemma op_step_new_ack:
  assumes st: "op_step ms E L s n op" and fresh: "fresh_ok op (nw_mem s n) (apply_raft_op op (nw_mem s n)) a" and tm: "tm \<in> acks_of a"
  shows "fst tm = rf_current_term (apply_raft_op op (nw_mem s n))"
    and "ack_ok (cells_after n op s E) (starts_after n op s L) (persisted_snapshot (apply_raft_op op (nw_mem s n))) tm"
proof -
  let ?r = "nw_mem s n" and ?r' = "apply_raft_op op (nw_mem s n)" and ?E = "cells_after n op s E" and ?L = "starts_after n op s L"
  note sel = op_step_sel [OF st] and wf = op_step_wf [OF st] and pos = op_step_positions [OF st]
  have sub: "E \<subseteq> ?E" by (simp add: cells_after_def)
  obtain t m where eq: "tm = (t, m)" by (cases tm)
  have "t = rf_current_term ?r' \<and> (\<exists>z. on_line ?E (rf_current_term ?r') z \<and> fst z = m \<and> below ?E z (tip ?r'))"
  proof (cases "ad_msg a")
    case (AppendEntries req)
    then have run: "entries_are_contiguous req" "t = ae_term req" "m = fst (ae_end req)"
      using tm eq by (auto simp: acks_of_def split: if_splits)
    moreover have "leads ?r ?r'" "ae_term req = rf_current_term ?r'" "ae_end req = tip ?r'"
      using fresh AppendEntries run(1) by (auto simp: fresh_ok_def lead_msg_def)
    ultimately show ?thesis
      using op_step_lead_line(3) [OF st] by (intro conjI exI [of _ "tip ?r'"]) auto
  next
    case (InstallSnapshot req)
    then have "t = is_term req" "m = is_last_included_index req" using tm eq by (auto simp: acks_of_def)
    moreover have l: "leads ?r ?r'" "is_term req = rf_current_term ?r'" "snap_end req = base ?r'"
      using fresh InstallSnapshot by (auto simp: fresh_ok_def lead_msg_def)
    moreover have "below ?E (base ?r') (tip ?r')" by (rule pos(2) [OF holds_base [OF wf(2)]])
    ultimately show ?thesis
      using op_step_lead_line(4) [OF st l(1)] by (intro conjI exI [of _ "base ?r'"]) (auto simp: snap_end_def base_def)
  next
    case (AppendEntriesResp resp)
    then have "aer_success resp" "t = aer_term resp" "m = aer_match_index resp"
      using tm eq by (auto simp: acks_of_def split: if_splits)
    moreover from this obtain req where req: "op = raft_op.Step (ad_to a) (AppendEntries req)" "entries_are_contiguous req"
      "ae_term req = rf_current_term ?r'" "aer_term resp = rf_current_term ?r'" "aer_match_index resp = fst (ae_end req)"
      "holds ?r' (ae_end req) \<or> ae_end req = (0, 0)"
      using fresh AppendEntriesResp by (auto simp: fresh_ok_def)
    moreover note a = op_step_append [OF st req(1,2)]
    ultimately show ?thesis
      using pos(2) on_line_mono [OF a(3) sub] by (intro conjI exI [of _ "ae_end req"]) auto
  next
    case (InstallSnapshotResp resp)
    then have "isr_success resp" "t = isr_term resp" "m = isr_last_included_index resp"
      using tm eq by (auto simp: acks_of_def split: if_splits)
    moreover from this obtain req where req: "op = raft_op.Step (ad_to a) (InstallSnapshot req)" "is_term req = rf_current_term ?r'"
      "isr_term resp = rf_current_term ?r'" "isr_last_included_index resp = is_last_included_index req"
      "is_last_included_index req \<le> rf_commit_index ?r \<and> tip ?r' = tip ?r \<or> holds ?r' (snap_end req)"
      using fresh InstallSnapshotResp by (auto simp: fresh_ok_def)
    moreover note i = op_step_install [OF st req(1)]
    moreover have "below ?E (snap_end req) (tip ?r')"
      using req(5)
    proof
      assume here: "is_last_included_index req \<le> rf_commit_index ?r \<and> tip ?r' = tip ?r"
      obtain u where u: "settled ms E s (rf_current_term ?r) (rf_commit_index ?r, u)" "below E (rf_commit_index ?r, u) (tip ?r)"
        using history_sel(4) [OF sel(1,6) memory_view] by (auto simp: view_ok_def commit_ok_def ps_of_mem [OF wf(1)])
      have "below E (snap_end req) (rf_commit_index ?r, u)"
        using settled_comparable [OF sel(1) i(2) u(1) _ i(3) known_below [OF u(2) wf(10,5)]] here by (simp add: snap_end_def)
      then have "below E (snap_end req) (tip ?r)" by (rule below_trans [OF u(2)])
      then show ?thesis using pos(4) here by simp
    qed (rule pos(2))
    ultimately show ?thesis
      using on_line_mono [OF i(1) sub] by (intro conjI exI [of _ "snap_end req"]) (auto simp: snap_end_def)
  qed (use tm in \<open>simp_all add: acks_of_def\<close>)
  then obtain z where z: "t = rf_current_term ?r'" "on_line ?E (rf_current_term ?r') z" "fst z = m" "below ?E z (tip ?r')" by blast
  then show "fst tm = rf_current_term ?r'" by (simp add: eq)
  have "accepted ?E t m (\<lambda>x. below ?E x (tip ?r') \<or> superseded ?E ?L t (Suc (rf_current_term ?r')) x)"
    unfolding accepted_def using z below_trans [OF z(4)] by blast
  with z(1) show "ack_ok ?E ?L (persisted_snapshot ?r') tm" by (simp add: ack_ok_def eq ps_of_mem [OF wf(2)])
qed

lemma op_step_new_claim:
  assumes st: "op_step ms E L s n op" and fresh: "fresh_ok op (nw_mem s n) (apply_raft_op op (nw_mem s n)) a"
  shows "claim_ok ms (cells_after n op s E) (after_op n op s) n a"
proof -
  let ?r = "nw_mem s n" and ?r' = "apply_raft_op op (nw_mem s n)" and ?E = "cells_after n op s E" and ?s = "after_op n op s"
  note sel = op_step_sel [OF st] and wf = op_step_wf [OF st] and pos = op_step_positions [OF st]
  note el = op_step_elected [OF st]
  have same: "acks_sent ?s q = acks_sent s q" for q by (simp add: acks_sent_def msgs_after_op)
  obtain u where u: "settled ms ?E ?s (rf_current_term ?r') (rf_commit_index ?r', u)" "below ?E (rf_commit_index ?r', u) (tip ?r')"
    using op_step_commit [OF st] by (auto simp: commit_ok_def ps_of_mem [OF wf(2)])
  show ?thesis
  proof (cases "ad_msg a")
    case (AppendEntries req)
    then have l: "leads ?r ?r'" "ae_term req = rf_current_term ?r'" "ae_leader_commit req = rf_commit_index ?r'"
      "entries_are_contiguous req \<Longrightarrow> ae_end req = tip ?r'"
      using fresh by (auto simp: fresh_ok_def lead_msg_def)
    show ?thesis
      unfolding claim_ok_def AppendEntries raft_message.case l(2,3)
    proof (intro conjI impI)
      assume "entries_are_contiguous req"
      then have e: "ae_end req = tip ?r'" by (rule l(4))
      show "cell_at ?E (ae_end req)" "snd (ae_end req) = rf_current_term ?r'"
        unfolding e by (rule op_step_lead_line(1,2) [OF st l(1)])+
      show "\<exists>t. settled ms ?E ?s (rf_current_term ?r') (rf_commit_index ?r', t) \<and> below ?E (rf_commit_index ?r', t) (ae_end req)"
        unfolding e using u by blast
    qed (rule el(2) [OF l(1)])
  next
    case (InstallSnapshot req)
    then have l: "leads ?r ?r'" "is_term req = rf_current_term ?r'" "snap_end req = base ?r'"
      using fresh by (auto simp: fresh_ok_def lead_msg_def)
    have "below ?E (base ?r') (rf_commit_index ?r', u)"
    proof (rule below_linear [OF pos(2) [OF holds_base [OF wf(2)]] u(2) tree_sel(1) [OF op_step_tree [OF st]]])
      show "fst (base ?r') \<le> fst (rf_commit_index ?r', u)" using wf(2) by (simp add: raft_wf_def wf_index_def base_def)
    qed
    then have "settled ms ?E ?s (rf_current_term ?r') (base ?r')" by (rule settled_down [OF u(1)])
    then show ?thesis
      using InstallSnapshot l el(2) [OF l(1)] op_step_lead_line(4) [OF st l(1)] by (simp add: claim_ok_def)
  next
    case (AppendEntriesResp resp)
    show ?thesis
    proof (cases "aer_success resp")
      case True
      then obtain req where req: "op = raft_op.Step (ad_to a) (AppendEntries req)" "entries_are_contiguous req"
        "ae_term req = rf_current_term ?r'" "aer_term resp = rf_current_term ?r'" "aer_match_index resp = fst (ae_end req)"
        using fresh AppendEntriesResp by (auto simp: fresh_ok_def)
      from op_step_append(5,6) [OF st req(1,2)] req(3-5) el(1) AppendEntriesResp show ?thesis
        by (auto simp: claim_ok_def same)
    qed (simp add: claim_ok_def AppendEntriesResp)
  next
    case (InstallSnapshotResp resp)
    show ?thesis
    proof (cases "isr_success resp")
      case True
      then obtain req where req: "op = raft_op.Step (ad_to a) (InstallSnapshot req)" "is_term req = rf_current_term ?r'"
        "isr_term resp = rf_current_term ?r'" "isr_last_included_index resp = is_last_included_index req"
        using fresh InstallSnapshotResp by (auto simp: fresh_ok_def)
      from op_step_install(4,5) [OF st req(1)] req(2-4) el(1) InstallSnapshotResp show ?thesis
        by (auto simp: claim_ok_def same)
    qed (simp add: claim_ok_def InstallSnapshotResp)
  qed (simp_all add: claim_ok_def)
qed

lemma op_step_fresh:
  assumes st: "op_step ms E L s n op"
  obtains fresh where "msgs_all (after_op n op s) n = msgs_all s n \<union> fresh"
    "\<And>a. a \<in> fresh \<Longrightarrow> fresh_ok op (nw_mem s n) (apply_raft_op op (nw_mem s n)) a"
    "\<And>t m. (t, m) \<in> acks_in fresh \<Longrightarrow> t = rf_current_term (apply_raft_op op (nw_mem s n))"
proof -
  obtain fresh where fresh: "msgs_all (after_op n op s) n = msgs_all s n \<union> fresh"
    "\<And>a. a \<in> fresh \<Longrightarrow> fresh_ok op (nw_mem s n) (apply_raft_op op (nw_mem s n)) a"
    using op_step_effect(2) [OF st] by blast
  have "t = rf_current_term (apply_raft_op op (nw_mem s n))" if "(t, m) \<in> acks_in fresh" for t m
  proof -
    obtain a where "a \<in> fresh" "(t, m) \<in> acks_of a" using \<open>(t, m) \<in> acks_in fresh\<close> unfolding acks_in_def by blast
    from op_step_new_ack(1) [OF st fresh(2) [OF this(1)] this(2)] show ?thesis by simp
  qed
  from that [OF fresh this] show ?thesis .
qed

text \<open>The votes of a member bind the acknowledgements of earlier terms only, and new ones are of the current term.\<close>

lemma op_step_ballot:
  assumes st: "op_step ms E L s n op" and b: "ballot E L (msgs_all s n) u v w" and u: "u \<le> rf_current_term (nw_mem s n)"
  shows "ballot (cells_after n op s E) (starts_after n op s L) (msgs_all (after_op n op s) n) u v w"
proof -
  obtain fresh where fresh: "msgs_all (after_op n op s) n = msgs_all s n \<union> fresh"
    "\<And>t m. (t, m) \<in> acks_in fresh \<Longrightarrow> t = rf_current_term (apply_raft_op op (nw_mem s n))"
    using op_step_fresh [OF st] by metis
  have "u \<le> rf_current_term (apply_raft_op op (nw_mem s n))" using u op_step_wf(8) [OF st] by (simp add: vote_mono_def)
  then have new: "(t, m) \<notin> acks_in fresh" if "t < u" for t m using that fresh(2) by fastforce
  have "ballot (cells_after n op s E) (starts_after n op s L) (msgs_all s n) u v w"
    by (rule ballot_grows [OF op_step_grows [OF st] b order_refl])
  with new show ?thesis unfolding ballot_def fresh(1) acks_in_simps by blast
qed

lemma ballot_of_log:
  assumes h: "history ms E L s" and n: "n \<in> set ms" and "rf_current_term (nw_mem s n) \<le> u" and "no_later (tip (nw_mem s n)) w"
    and wf: "raft_wf (nw_mem s n)"
  shows "ballot E L (msgs_all s n) v (Suc u) w"
  unfolding ballot_def
proof (clarify)
  fix t m assume "(t, m) \<in> acks_in (msgs_all s n)" "t < v"
  then have "accepted E t m (\<lambda>x. below E x (tip (nw_mem s n)) \<or> superseded E L t (Suc (rf_current_term (nw_mem s n))) x)"
    using history_sel(4) [OF h n memory_view] by (fastforce simp: view_ok_def ack_ok_def ps_of_mem [OF wf])
  then show "accepted E t m (kept_for E L t (Suc u) w)"
  proof (rule accepted_mono)
    fix x assume "below E x (tip (nw_mem s n)) \<or> superseded E L t (Suc (rf_current_term (nw_mem s n))) x"
    then show "kept_for E L t (Suc u) w x"
      unfolding kept_for_def using assms(3,4) superseded_later [of E L t "Suc (rf_current_term (nw_mem s n))" x "Suc u"]
      by blast
  qed
qed

lemma op_step_vote:
  assumes st: "op_step ms E L s n op" and a: "a \<in> msgs_all (after_op n op s) n"
  shows "vote_kept (cells_after n op s E) (starts_after n op s L) (after_op n op s) n (msgs_all (after_op n op s) n) a"
  unfolding vote_kept_def
proof (intro allI impI, elim conjE)
  fix resp assume resp: "ad_msg a = RequestVoteResp resp" "rvr_granted resp" "\<not> rvr_pre_vote resp"
  let ?r = "nw_mem s n" and ?r' = "apply_raft_op op (nw_mem s n)" and ?E = "cells_after n op s E" and ?L = "starts_after n op s L"
  let ?M = "msgs_all (after_op n op s) n"
  note sel = op_step_sel [OF st] and wf = op_step_wf [OF st]
  obtain fresh where fresh: "?M = msgs_all s n \<union> fresh" "\<And>a. a \<in> fresh \<Longrightarrow> fresh_ok op ?r ?r' a"
    "\<And>t m. (t, m) \<in> acks_in fresh \<Longrightarrow> t = rf_current_term ?r'"
    using op_step_fresh [OF st] by metis
  have sent: "nw_sent (after_op n op s) = nw_sent s" by simp
  show "\<exists>req. (ad_to a, n, RequestVote req) \<in> nw_sent (after_op n op s) \<and> \<not> rv_pre_vote req \<and> rv_term req = rvr_term resp \<and>
      ballot ?E ?L ?M (rvr_term resp) (Suc (rvr_term resp)) (rv_tip req)"
  proof (cases "a \<in> msgs_all s n")
    case True
    then have "vote_kept E L s n (msgs_all s n) a" using history_sel(4) [OF sel(1,6) memory_view] by (simp add: view_ok_def)
    then obtain req where req: "(ad_to a, n, RequestVote req) \<in> nw_sent s" "\<not> rv_pre_vote req" "rv_term req = rvr_term resp"
      "ballot E L (msgs_all s n) (rvr_term resp) (Suc (rvr_term resp)) (rv_tip req)"
      unfolding vote_kept_def using resp by blast
    have "(rvr_term resp, ad_to a) \<in> votes_all s n"
      using True resp by (auto simp: votes_of_msgs votes_in_def msg_votes_def intro!: bexI [of _ a])
    then have "rvr_term resp \<le> rf_current_term ?r"
      using sel(2,6) by (auto simp: net_inv_def member_inv_def backs_def)
    from op_step_ballot [OF st req(4) this] req(1-3) sent show ?thesis by auto
  next
    case False
    then have "fresh_ok op ?r ?r' a" using a fresh by blast
    then obtain req where req: "op = raft_op.Step (ad_to a) (RequestVote req)" "\<not> rv_pre_vote req" "rv_term req = rf_current_term ?r'"
      "rvr_term resp = rf_current_term ?r'" "no_later (tip ?r) (rv_tip req)"
      using resp by (auto simp: fresh_ok_def)
    have mono: "rf_current_term ?r \<le> rf_current_term ?r'" using wf(8) by (simp add: vote_mono_def)
    have "ballot E L (msgs_all s n) (rf_current_term ?r') (Suc (rf_current_term ?r')) (rv_tip req)"
      by (rule ballot_of_log [OF sel(1,6) mono req(5) wf(1)])
    then have old: "ballot ?E ?L (msgs_all s n) (rf_current_term ?r') (Suc (rf_current_term ?r')) (rv_tip req)"
      by (rule ballot_grows [OF op_step_grows [OF st] _ order_refl])
    have "(t, m) \<notin> acks_in fresh" if "t < rf_current_term ?r'" for t m using that fresh(3) by fastforce
    with old have "ballot ?E ?L ?M (rf_current_term ?r') (Suc (rf_current_term ?r')) (rv_tip req)"
      unfolding ballot_def fresh(1) acks_in_simps by blast
    with req op_step_received(1) [OF st req(1)] sent show ?thesis by auto
  qed
qed

lemma op_step_view:
  assumes st: "op_step ms E L s n op"
  shows "view_ok ms (cells_after n op s E) (starts_after n op s L) (after_op n op s) n
    (persisted_snapshot (apply_raft_op op (nw_mem s n)), msgs_all (after_op n op s) n)"
proof -
  let ?r' = "apply_raft_op op (nw_mem s n)" and ?E = "cells_after n op s E" and ?L = "starts_after n op s L" and ?s = "after_op n op s"
  note sel = op_step_sel [OF st] and wf = op_step_wf [OF st]
  obtain fresh where fresh: "msgs_all ?s n = msgs_all s n \<union> fresh" "\<And>a. a \<in> fresh \<Longrightarrow> fresh_ok op (nw_mem s n) ?r' a"
    using op_step_effect(2) [OF st] by blast
  have "ack_ok ?E ?L (persisted_snapshot ?r') tm" if tm: "tm \<in> acks_in (msgs_all ?s n)" for tm
  proof (cases "tm \<in> acks_in (msgs_all s n)")
    case False
    then obtain a where "a \<in> fresh" "tm \<in> acks_of a" using tm by (auto simp: fresh(1) acks_in_def)
    then show ?thesis using op_step_new_ack(2) [OF st fresh(2)] by blast
  qed (rule op_step_old_ack [OF st])
  moreover have "claim_ok ms ?E ?s n a" if "a \<in> msgs_all ?s n" for a
  proof (cases "a \<in> msgs_all s n")
    case True
    then have "claim_ok ms E s n a" using history_sel(4) [OF sel(1,6) memory_view] by (simp add: view_ok_def)
    then show ?thesis by (rule claim_grows [OF op_step_grows [OF st]])
  next
    case False
    then show ?thesis using that fresh op_step_new_claim [OF st] by blast
  qed
  ultimately show ?thesis
    using op_step_base(1) [OF st] op_step_commit [OF st] op_step_vote [OF st]
    by (simp add: view_ok_def ps_of_mem [OF wf(2)])
qed

subsection \<open>Offices and elections\<close>

lemma vote_request_in_votes:
  "a \<in> M \<Longrightarrow> ad_msg a = RequestVote req \<Longrightarrow> \<not> rv_pre_vote req \<Longrightarrow> (rv_term req, n) \<in> votes_in n M"
  by (auto simp: votes_in_def msg_votes_def intro!: bexI [of _ a])

lemma op_step_office:
  assumes st: "op_step ms E L s n op"
  shows "office_ok (after_op n op s) n"
proof -
  let ?r = "nw_mem s n" and ?r' = "apply_raft_op op (nw_mem s n)" and ?s = "after_op n op s"
  note sel = op_step_sel [OF st] and wf = op_step_wf [OF st]
  have same: "acks_sent ?s q = acks_sent s q" for q by (simp add: acks_sent_def msgs_after_op)
  have lead: "last_term ?r' = rf_current_term ?r'" if "rf_role ?r' = Leader"
    using op_step_lead_line(2) [OF st] that by (simp add: leads_def tip_def)
  have cand: "rv_tip req = tip ?r'" if role: "rf_role ?r' = Candidate" and a: "a \<in> msgs_all ?s n"
    and req: "ad_msg a = RequestVote req" "\<not> rv_pre_vote req" "rv_term req = rf_current_term ?r'" for a req
  proof -
    obtain fresh where fresh: "msgs_all ?s n = msgs_all s n \<union> fresh" "\<And>a. a \<in> fresh \<Longrightarrow> fresh_ok op ?r ?r' a"
      using op_step_effect(2) [OF st] by blast
    show ?thesis
    proof (cases "a \<in> msgs_all s n")
      case True
      have "(rv_term req, n) \<in> votes_all s n" unfolding votes_of_msgs by (rule vote_request_in_votes [OF True req(1,2)])
      then have "rf_current_term ?r' \<le> rf_current_term ?r"
        using sel(2,6) req(3) by (auto simp: net_inv_def member_inv_def backs_def)
      then have old: "rf_role ?r = Candidate" "rf_current_term ?r' = rf_current_term ?r"
        using op_candidate [OF op_ok_room [OF sel(8)] role] by auto
      then have "rv_tip req = tip ?r"
        using history_sel(5) [OF sel(1,6)] True req unfolding office_ok_def by simp
      moreover have "tip ?r' = tip ?r"
        using op_step_effect(1) [OF st] by (cases rule: log_effect.cases) (use role in auto)
      ultimately show ?thesis by simp
    next
      case False
      then have "fresh_ok op ?r ?r' a" using a fresh by blast
      with role req show ?thesis by (simp add: fresh_ok_def)
    qed
  qed
  have "nw_mem ?s n = ?r'" by simp
  then show ?thesis
    unfolding office_ok_def same using lead cand op_step_match [OF st] by metis
qed

lemma op_step_won_old:
  assumes st: "op_step ms E L s n op" and start: "(u, y) \<in> L"
  shows "won_ok ms (cells_after n op s E) (starts_after n op s L) (after_op n op s) u y"
proof -
  let ?E = "cells_after n op s E" and ?L = "starts_after n op s L" and ?s = "after_op n op s"
  note sel = op_step_sel [OF st] and wf = op_step_wf [OF st] and g = op_step_grows [OF st]
  obtain c Q where Q: "(u, c) \<in> nw_elected s" "Q \<subseteq> set ms" "card (set ms) div 2 + 1 \<le> card Q"
    "\<And>q p M. q \<in> Q \<Longrightarrow> (p, M) \<in> views s q \<Longrightarrow> u \<le> ps_current_term p \<and> ballot E L M u u y"
    by (rule won_okE [OF history_sel(3) [OF sel(1) start]]) blast
  have grown: "u \<le> ps_current_term p \<and> ballot ?E ?L M u u y" if "q \<in> Q" "(p, M) \<in> views s q" for q p M
    using Q(4) [OF that] ballot_grows [OF g _ order_refl] by blast
  show ?thesis
  proof (rule won_okI [OF _ Q(2,3)])
    show "(u, c) \<in> nw_elected ?s" using Q(1) op_step_elected(1) [OF st] by blast
    fix q p M assume q: "q \<in> Q" "(p, M) \<in> views ?s q"
    show "u \<le> ps_current_term p \<and> ballot ?E ?L M u u y"
    proof (cases "q = n")
      case False
      then show ?thesis using q grown by (simp add: views_after_op)
    next
      case True
      then consider "p = persisted_snapshot (apply_raft_op op (nw_mem s n))" "M = msgs_all ?s n" | "(p, M) \<in> views s n"
        using q(2) by (auto simp: views_after_op) (simp add: views_def)
      then show ?thesis
      proof cases
        case 1
        have old: "u \<le> rf_current_term (nw_mem s n)" "ballot E L (msgs_all s n) u u y"
          using Q(4) [OF _ memory_view] q(1) True by auto
        then show ?thesis using op_step_ballot [OF st old(2,1)] wf(8) 1 by (auto simp: vote_mono_def)
      qed (use grown q(1) True in blast)
    qed
  qed
qed

lemma kept_for_new_term:
  assumes "kept_for E L t (Suc u) w x" and "\<And>y. (u, y) \<notin> L"
  shows "kept_for E L t u w x"
  using assms unfolding kept_for_def superseded_def by (metis less_antisym)

lemma ballot_new_term:
  assumes "ballot E L M v (Suc u) w" and "\<And>y. (u, y) \<notin> L"
  shows "ballot E L M v u w"
  unfolding ballot_def
proof clarify
  fix t m assume "(t, m) \<in> acks_in M" "t < v"
  then have "accepted E t m (kept_for E L t (Suc u) w)" using assms(1) unfolding ballot_def by blast
  then show "accepted E t m (kept_for E L t u w)" by (rule accepted_mono) (rule kept_for_new_term [OF _ assms(2)])
qed

lemma foreign_vote:
  "(t, c) \<in> msg_votes q a \<Longrightarrow> c \<noteq> q \<Longrightarrow>
    \<exists>resp. ad_msg a = RequestVoteResp resp \<and> rvr_granted resp \<and> \<not> rvr_pre_vote resp \<and> rvr_term resp = t \<and> ad_to a = c"
  by (cases "ad_msg a") (auto simp: msg_votes_def split: if_splits)

lemma op_step_won_new:
  assumes st: "op_step ms E L s n op" and lead: "rf_role (apply_raft_op op (nw_mem s n)) = Leader"
    and new: "rf_role (nw_mem s n) \<noteq> Leader"
  shows "won_ok ms (cells_after n op s E) (starts_after n op s L) (after_op n op s)
    (rf_current_term (apply_raft_op op (nw_mem s n))) (tip (nw_mem s n))"
proof -
  let ?r = "nw_mem s n" and ?r' = "apply_raft_op op (nw_mem s n)" and ?s = "after_op n op s"
  let ?E = "cells_after n op s E" and ?L = "starts_after n op s L" and ?t = "rf_current_term (nw_mem s n)"
  note sel = op_step_sel [OF st] and wf = op_step_wf [OF st] and g = op_step_grows [OF st]
  note none = op_step_new_term [OF st lead new]
  have t: "rf_current_term ?r' = ?t" by (rule op_step_leader(1) [OF st lead])
  obtain W where cand: "rf_role ?r = Candidate" and W: "W \<subseteq> set ms" "card (set ms) div 2 + 1 \<le> card W" "supported s ?t n W"
    using op_step_leader(2) [OF st lead] new by auto
  have self: "ballot E L (msgs_all s n) ?t ?t (tip ?r)"
    by (rule ballot_new_term [OF ballot_of_log [OF sel(1,6) order_refl _ wf(1)] none(2)]) (simp add: no_later_def)
  have el: "(?t, n) \<in> nw_elected ?s" using op_step_elected(2) [OF st] lead t by (simp add: leads_def)
  obtain z where z: "z \<in> set ms" "z \<noteq> n" using another_member [OF sel(5)] .
  have other: "?t \<le> ps_current_term p \<and> ballot E L M ?t ?t (tip ?r)" if q: "q \<in> W" "q \<noteq> n" and v: "(p, M) \<in> views s q" for q p M
  proof -
    have qm: "q \<in> set ms" using q W(1) by blast
    have vote: "(?t, n) \<in> votes_sent s q" using W(3) q by (auto simp: supported_def)
    then have votes: "(?t, n) \<in> votes_saved s q" "(?t, n) \<in> votes_all s q" by (auto simp: votes_all_def votes_saved_def)
    have "member_inv ms s q" using sel(2) qm by (simp add: net_inv_def)
    with votes have terms: "?t \<le> rf_current_term (nw_mem s q)" "?t \<le> ps_current_term (nw_disk s q)"
      by (auto simp: member_inv_def backs_def)
    then obtain a where a: "a \<in> msgs_sent s q" "(?t, n) \<in> msg_votes q a" using vote unfolding votes_of_msgs votes_in_def by blast
    then obtain resp where resp: "ad_msg a = RequestVoteResp resp" "rvr_granted resp" "\<not> rvr_pre_vote resp" "rvr_term resp = ?t" "ad_to a = n"
      using foreign_vote [OF a(2)] q(2) by metis
    have "vote_kept E L s q (msgs_all s q) a"
      using history_sel(4) [OF sel(1) qm memory_view] a(1) msgs_sub(3) [of s q] by (auto simp: view_ok_def)
    then obtain req where req: "(n, q, RequestVote req) \<in> nw_sent s" "\<not> rv_pre_vote req" "rv_term req = ?t"
      "ballot E L (msgs_all s q) ?t (Suc ?t) (rv_tip req)"
      unfolding vote_kept_def using resp by auto
    have "\<lparr>ad_to = q, ad_msg = RequestVote req\<rparr> \<in> msgs_all s n"
      using req(1) msgs_sub(3) [of s n] by (auto simp: msgs_sent_iff [symmetric])
    then have "rv_tip req = tip ?r"
      using history_sel(5) [OF sel(1,6)] cand req(2,3) unfolding office_ok_def by (metis addressed.select_convs(2))
    with req(4) have "ballot E L (msgs_all s q) ?t ?t (tip ?r)" using ballot_new_term none(2) by metis
    moreover have "M \<subseteq> msgs_all s q" using v msgs_sub(2) [of s q] by (auto simp: views_def)
    ultimately have "ballot E L M ?t ?t (tip ?r)" using acks_in_mono unfolding ballot_def by blast
    then show ?thesis using v terms by (auto simp: views_def)
  qed
  have "won_ok ms ?E ?L ?s ?t (tip ?r)"
  proof (rule won_okI [OF el W(1,2)])
    fix q p M assume q: "q \<in> W" "(p, M) \<in> views ?s q"
    show "?t \<le> ps_current_term p \<and> ballot ?E ?L M ?t ?t (tip ?r)"
    proof (cases "q = n")
      case False
      then have v: "(p, M) \<in> views s q" using q(2) by (simp add: views_after_op)
      from other [OF q(1) False v] show ?thesis using ballot_grows [OF g _ order_refl] by blast
    next
      case True
      have "?t \<le> ps_current_term (nw_disk s n)"
        using elected_term_saved(2) [OF sel(3) el z(1) sel(6) z(2)] by simp
      moreover have "ballot ?E ?L (msgs_all ?s n) ?t ?t (tip ?r)" by (rule op_step_ballot [OF st self order_refl])
      moreover have "ballot ?E ?L (msgs_saved s n) ?t ?t (tip ?r)" by (rule ballot_grows [OF g self msgs_sub(2)])
      ultimately show ?thesis using q(2) True t by (auto simp: views_after_op)
    qed
  qed
  then show ?thesis unfolding t .
qed

theorem op_step_history:
  assumes st: "op_step ms E L s n op"
  shows "history ms (cells_after n op s E) (starts_after n op s L) (after_op n op s)"
proof -
  let ?E = "cells_after n op s E" and ?L = "starts_after n op s L" and ?s = "after_op n op s"
  note sel = op_step_sel [OF st] and g = op_step_grows [OF st]
  have won: "won_ok ms ?E ?L ?s u y" if "(u, y) \<in> ?L" for u y
  proof (cases "(u, y) \<in> L")
    case False
    then show ?thesis using that op_step_won_new [OF st] by (auto simp: starts_after_def Let_def split: if_splits)
  qed (rule op_step_won_old [OF st])
  have view: "view_ok ms ?E ?L ?s k v" if k: "k \<in> set ms" and v: "v \<in> views ?s k" for k v
  proof (cases "k = n \<and> v = (persisted_snapshot (apply_raft_op op (nw_mem s n)), msgs_all ?s n)")
    case False
    have "v \<in> views s k"
    proof (cases "k = n")
      case True
      then have "v = (nw_disk s n, msgs_saved s n)" using v False by (auto simp: views_after_op)
      then show ?thesis by (simp add: views_def True)
    qed (use v in \<open>simp add: views_after_op\<close>)
    then show ?thesis using history_sel(4) [OF sel(1) k] view_grows [OF g _ order_refl] by (cases v) simp
  qed (use op_step_view [OF st] in auto)
  have "office_ok ?s k \<and> clean ?s k" if k: "k \<in> set ms" for k
  proof (cases "k = n")
    case True
    then show ?thesis using op_step_office [OF st] clean_op [OF history_sel(6) [OF sel(1,6)] sel(9)] by simp
  next
    case False
    have "office_ok ?s k"
      by (rule office_quiet [OF history_sel(5) [OF sel(1) k]]) (use False in \<open>simp_all add: msgs_after_op\<close>)
    moreover have "clean ?s k" using history_sel(6) [OF sel(1) k] False by (simp add: clean_def)
    ultimately show ?thesis by simp
  qed
  with won view op_step_cells(1) [OF st] op_step_tree [OF st] show ?thesis unfolding history_def by blast
qed

end
