(* ===== verification/State_Safety.thy ===== *)
theory State_Safety
  imports History_Steps
begin

section \<open>Orderly runs are safe\<close>

text \<open>
  Every network that an orderly run of a group of at least two reaches has a history, and with it leader
  completeness and state machine safety hold of the engines' logs.
\<close>

subsection \<open>Every orderly run has a history\<close>

lemma history_init: "history ms {} {} (init_network ms cfg seed)"
proof -
  have "determined {}" "closed {}" "starts {} {}" by (simp_all add: determined_def closed_def starts_def)
  moreover have "msgs_all (init_network ms cfg seed) n = {}" "msgs_saved (init_network ms cfg seed) n = {}"
    "persisted_snapshot (nw_mem (init_network ms cfg seed) n) = default_persisted"
    "nw_disk (init_network ms cfg seed) n = default_persisted" "rf_role (nw_mem (init_network ms cfg seed) n) = Follower" for n
    by (simp_all add: msgs_all_def msgs_saved_def msgs_sent_def init_network_def persisted_snapshot_def)
  moreover have "commit_ok ms {} s default_persisted" "known {} (ps_base default_persisted)" for s
    by (simp_all add: commit_ok_def settled_def default_persisted_def ps_tip_def ps_base_def last_slab_term_def known_def exI [of _ 0])
  ultimately show ?thesis
    using cell_inv_init by (simp add: history_def tree_def views_def view_ok_def office_ok_def clean_def)
qed

lemma history_elsewhere:
  assumes h: "history ms E L s" and k: "k \<in> set ms" and sent: "nw_sent s \<subseteq> nw_sent s'"
    and same: "nw_mem s' k = nw_mem s k" "nw_disk s' k = nw_disk s k" "nw_unsaved s' k = nw_unsaved s k" "msgs_all s' k \<subseteq> msgs_all s k"
  shows "office_ok s' k \<and> clean s' k"
  using history_sel(6) [OF h k] office_quiet [OF history_sel(5) [OF h k]] sent same by (simp add: clean_def)

lemma orderly_history:
  assumes "orderly ms cfg s" and ms: "distinct ms" and two: "2 \<le> card (set ms)"
  shows "\<exists>E L. history ms E L s"
  using assms(1)
proof (induction rule: orderly.induct)
  case (Init seed)
  show ?case using history_init by blast
next
  case (Operate s n op)
  then obtain E L where h: "history ms E L s" by blast
  have r: "reachable ms cfg s" "reachable ms cfg (after_op n op s)"
    using orderly_reachable orderly.Operate Operate.hyps by blast+
  have "op_step ms E L s n op"
    using h net_inv_reachable [OF r(1) ms] net_inv_reachable [OF r(2) ms] ms two Operate.hyps by (simp add: op_step_def)
  then show ?case using op_step_history by blast
next
  case (Drain s n)
  then obtain E L where h: "history ms E L s" by blast
  have c: "clean s n" by (rule history_sel(6) [OF h Drain.hyps(2)])
  have "history ms E L (after_drain n s)"
  proof (rule history_quiet [OF h])
    show v: "views_from s (after_drain n s)" by (rule views_drain [OF c Drain.hyps(3)])
    show "cell_inv ms E (after_drain n s)" by (rule cell_inv_drain [OF history_sel(1) [OF h] Drain.hyps(2)])
    have all: "msgs_all (after_drain n s) k = msgs_all s k" for k
    proof (cases "k = n")
      case True
      have "batch_msgs (nw_unsaved (after_drain n s) n) \<union> batch_msgs (nw_saved (after_drain n s) n) =
        batch_msgs (nw_unsaved s n) \<union> batch_msgs (nw_saved s n) \<union> set (rf_out (nw_mem s n))"
        by (cases "rf_dirty (nw_mem s n)") (auto simp: drain_frames drain_sel)
      then show ?thesis using True
        by (auto simp: msgs_all_def msgs_saved_def msgs_sent_def drain_frames drain_sel)
    qed (simp add: msgs_all_def msgs_saved_def msgs_sent_def drain_eq Let_def)
    show "office_ok (after_drain n s) k \<and> clean (after_drain n s) k" if k: "k \<in> set ms" for k
    proof (cases "k = n")
      case True
      have "tip (snd (raft_ready (nw_mem s n))) = tip (nw_mem s n)" by (rule tip_cong) simp_all
      then have "office_ok (after_drain n s) n"
        by (intro office_quiet [OF history_sel(5) [OF h Drain.hyps(2)]]) (simp_all add: all drain_frames)
      then show ?thesis using True clean_steps(3) [OF c Drain.hyps(3)] by simp
    next
      case False
      then show ?thesis by (intro history_elsewhere [OF h k]) (simp_all add: all, simp_all add: drain_eq Let_def)
    qed
  qed (simp_all add: drain_eq Let_def)
  then show ?case by blast
next
  case (Persist s n)
  then obtain E L where h: "history ms E L s" by blast
  have "history ms E L (after_persist n s)"
  proof (rule history_quiet [OF h _ views_persist])
    show "cell_inv ms E (after_persist n s)" by (rule cell_inv_persist [OF history_sel(1) [OF h] Persist.hyps(2)])
    have all: "msgs_all (after_persist n s) k = msgs_all s k" for k
      by (auto simp: msgs_all_def msgs_saved_def msgs_sent_def after_persist_def)
    show "office_ok (after_persist n s) k \<and> clean (after_persist n s) k" if k: "k \<in> set ms" for k
    proof (cases "k = n")
      case True
      have "office_ok (after_persist n s) n"
        by (rule office_quiet [OF history_sel(5) [OF h Persist.hyps(2)]]) (simp_all add: all, simp_all add: after_persist_def)
      then show ?thesis using True clean_steps(1) by simp
    next
      case False
      then show ?thesis by (intro history_elsewhere [OF h k]) (simp_all add: all, simp_all add: after_persist_def)
    qed
  qed (simp_all add: after_persist_def)
  then show ?case by blast
next
  case (Transmit s n rd)
  then obtain E L where h: "history ms E L s" by blast
  have v: "views_from s (after_transmit n rd s)" by (rule views_transmit [OF Transmit.hyps(3)])
  have "history ms E L (after_transmit n rd s)"
  proof (rule history_quiet [OF h _ v])
    show "cell_inv ms E (after_transmit n rd s)"
      by (rule cell_inv_transmit [OF history_sel(1) [OF h] Transmit.hyps(2,3)])
    have sent: "nw_sent s \<subseteq> nw_sent (after_transmit n rd s)" by (auto simp: after_transmit_def)
    have all: "msgs_all (after_transmit n rd s) k \<subseteq> msgs_all s k" for k
      using transmit_msgs(2) [OF Transmit.hyps(3)] .
    show "office_ok (after_transmit n rd s) k \<and> clean (after_transmit n rd s) k" if k: "k \<in> set ms" for k
      by (intro history_elsewhere [OF h k sent] all) (simp_all add: after_transmit_def)
  qed (auto simp: after_transmit_def)
  then show ?case by blast
next
  case (Restart s n seed)
  then obtain E L where h: "history ms E L s" by blast
  have "history ms E L (after_restart ms cfg n seed s)"
  proof (rule history_quiet [OF h _ views_restart])
    show "cell_inv ms E (after_restart ms cfg n seed s)" by (rule cell_inv_restart [OF history_sel(1) [OF h] Restart.hyps(2)])
    show "office_ok (after_restart ms cfg n seed s) k \<and> clean (after_restart ms cfg n seed s) k" if k: "k \<in> set ms" for k
    proof (cases "k = n")
      case True
      have "office_ok (after_restart ms cfg n seed s) n" by (simp add: office_ok_def after_restart_def)
      then show ?thesis using True clean_steps(2) by simp
    next
      case False
      then show ?thesis
        by (intro history_elsewhere [OF h k]) (simp_all add: after_restart_def msgs_all_def msgs_saved_def msgs_sent_def)
    qed
  qed (simp_all add: after_restart_def)
  then show ?case by blast
qed

subsection \<open>Committed positions\<close>

lemma member_log:
  assumes h: "history ms E L s" and n: "n \<in> set ms"
  shows "raft_wf (nw_mem s n)" "log_cells (nw_mem s n) \<subseteq> E" "known E (tip (nw_mem s n))"
proof -
  have "engine_inv ms E s n" using history_sel(1) [OF h] n by (simp add: cell_inv_def)
  then show wf: "raft_wf (nw_mem s n)" and cells: "log_cells (nw_mem s n) \<subseteq> E"
    by (simp_all add: engine_inv_def held_cells_def)
  have "known E (base (nw_mem s n))"
    using history_sel(4) [OF h n memory_view] by (simp add: view_ok_def ps_of_mem [OF wf])
  then show "known E (tip (nw_mem s n))" by (rule tip_known [OF wf cells])
qed

text \<open>What a member holds up to its commit index is settled.\<close>

lemma committed_settled:
  assumes h: "history ms E L s" and n: "n \<in> set ms" and i: "rf_base_index (nw_mem s n) \<le> i" "i \<le> rf_commit_index (nw_mem s n)"
  shows "settled ms E s (rf_current_term (nw_mem s n)) (i, term_at (nw_mem s n) i)"
    and "known E (i, term_at (nw_mem s n) i)"
proof -
  let ?r = "nw_mem s n"
  note m = member_log [OF h n]
  have det: "determined E" "closed E" using history_sel(2) [OF h] by (simp_all add: tree_def)
  obtain u where u: "settled ms E s (rf_current_term ?r) (rf_commit_index ?r, u)" "below E (rf_commit_index ?r, u) (tip ?r)"
    using history_sel(4) [OF h n memory_view] by (auto simp: view_ok_def commit_ok_def ps_of_mem [OF m(1)])
  have "rf_commit_index ?r \<le> last_index ?r" using m(1) raft_wf_last_index [OF m(1)] by (simp add: raft_wf_def wf_index_def)
  then have "holds ?r (i, term_at ?r i)" using i by (simp add: holds_def)
  then have b: "below E (i, term_at ?r i) (tip ?r)" by (rule holds_below [OF m(1,2)])
  then show "known E (i, term_at ?r i)" by (rule known_below [OF _ det(2) m(3)])
  have "below E (i, term_at ?r i) (rf_commit_index ?r, u)" using below_linear [OF b u(2) det(1)] i(2) by simp
  then show "settled ms E s (rf_current_term ?r) (i, term_at ?r i)" by (rule settled_down [OF u(1)])
qed

text \<open>A settled position of the leader's term or an earlier one is in the leader's log.\<close>

lemma settled_in_leader:
  assumes h: "history ms E L s" and n: "n \<in> set ms" and lead: "rf_role (nw_mem s n) = Leader"
    and x: "settled ms E s u x" "known E x" and u: "u \<le> rf_current_term (nw_mem s n)"
  shows "below E x (tip (nw_mem s n))"
proof -
  let ?r = "nw_mem s n" and ?t = "rf_current_term (nw_mem s n)"
  note m = member_log [OF h n]
  have tree: "tree E L" by (rule history_sel(2) [OF h])
  have t: "0 < ?t" using m(1) lead by (auto simp: raft_wf_def wf_vote_def)
  have last: "last_term ?r = ?t" using history_sel(5) [OF h n] lead by (simp add: office_ok_def)
  then have cell: "cell_at E (last_index ?r, ?t)" using known_cell [OF m(3)] t by (simp add: tip_def)
  have tip: "tip ?r = (last_index ?r, ?t)" using last by (simp add: tip_def)
  have top: "top_of_term E ?r" using history_sel(1) [OF h] n lead by (simp add: cell_inv_def engine_inv_def)
  from x(1) consider "x = (0, 0)" | y where "chosen ms E s y" "snd y \<le> u" "below E x y" unfolding settled_def by blast
  then show ?thesis
  proof cases
    case 1
    then show ?thesis using known_rooted [OF tree_sel(2) [OF tree] m(3) [unfolded tip]] tip by simp
  next
    case (2 y)
    have "below E y (tip ?r)"
    proof (cases "snd y = ?t")
      case True
      then have y: "cell_at E (fst y, ?t)" using 2(1) by (metis chosen_def prod.collapse)
      then have "fst y \<le> last_index ?r" using top by (auto simp: top_of_term_def cell_at_def)
      from line_chain [OF tree y cell this] True tip show ?thesis by (metis prod.collapse)
    next
      case False
      obtain k where k: "last_index ?r = Suc k" using cell closedD [OF tree_sel(2) [OF tree]]
        by (cases "last_index ?r") (auto simp: cell_at_def)
      obtain z where z: "(?t, z) \<in> L" using start_of_cell [OF tree cell [unfolded k]] by metis
      have "below E y z" using chosen_below_start [OF h 2(1) z] False 2(2) u by simp
      then show ?thesis using start_below [OF tree z cell] tip below_trans by metis
    qed
    then show ?thesis using 2(3) by (rule below_trans)
  qed
qed

lemma same_term_same_entry:
  assumes h: "history ms E L s" and ab: "a \<in> set ms" "b \<in> set ms" and eq: "term_at (nw_mem s a) i = term_at (nw_mem s b) i"
    and i: "rf_base_index (nw_mem s a) < i" "rf_base_index (nw_mem s b) < i" "i \<le> last_index (nw_mem s a)" "i \<le> last_index (nw_mem s b)"
  shows "entry_at (nw_mem s a) i = entry_at (nw_mem s b) i"
proof -
  note m = member_log [OF h ab(1)] member_log [OF h ab(2)]
  obtain e f where e: "entry_at (nw_mem s a) i = Some e" "entry_at (nw_mem s b) i = Some f"
    using i raft_wf_last_index [OF m(1)] raft_wf_last_index [OF m(4)] by (auto simp: entry_at_def)
  then have "le_term e = le_term f" using eq i by (simp add: term_at_entry [OF m(1)] term_at_entry [OF m(4)])
  from cells_agree(1) [OF tree_sel(1) [OF history_sel(2) [OF h]] m(2) m(5) m(1) m(4) e this] e show ?thesis by simp
qed

lemma commit_in_log: "raft_wf r \<Longrightarrow> i \<le> rf_commit_index r \<Longrightarrow> i \<le> last_index r"
  by (simp add: raft_wf_last_index raft_wf_def wf_index_def)

lemma reachable_wf:
  assumes "reachable ms cfg s"
  shows "raft_wf (nw_mem s n) \<and> persisted_wf n (peers_of ms n) (nw_disk s n)"
  using assms
proof (induction arbitrary: n rule: reachable.induct)
  case (Init seed)
  show ?case by (simp add: init_network_def raft_wf_new persisted_wf_default)
next
  case (Step s s')
  from Step.hyps(2) show ?case
  proof (cases rule: net_step.cases)
    case (Operate m op)
    then show ?thesis using Step.IH raft_op_ok [of "nw_mem s m" op] by simp
  next
    case (Drain m)
    then show ?thesis using Step.IH ready_ok(1) by (simp add: drain_eq Let_def)
  next
    case (Persist m)
    then show ?thesis using Step.IH persisted_wf_snapshot by (simp add: after_persist_def)
  next
    case (Restart m seed)
    then show ?thesis using Step.IH raft_wf_new by (simp add: after_restart_def)
  qed (use Step.IH in \<open>simp add: after_transmit_def\<close>)
qed

subsection \<open>A group of two that commits an entry\<close>

text \<open>The leader counts the follower's acknowledgement, and the follower learns the commit index.\<close>

definition a_commits :: raft where
  "a_commits = raft_step ''b'' (ad_msg (hd (rf_out b_follows))) (snd (raft_ready a_leads))"

definition b_commits :: raft where
  "b_commits = raft_step ''a'' (ad_msg (hd (rf_out a_commits))) (snd (raft_ready b_follows))"

definition pair_committed :: network where
  "pair_committed =
     exchange ''b'' (raft_op.Step ''a'' (ad_msg (hd (rf_out a_commits))))
       (exchange ''a'' (raft_op.Step ''b'' (ad_msg (hd (rf_out b_follows)))) pair_network)"

lemma election_commit:
  "rf_commit_index (maybe_win_election r) = rf_commit_index r" "rf_commit_index (start_election r) = rf_commit_index r"
  "rf_commit_index (maybe_win_pre_election r) = rf_commit_index r" "rf_commit_index (raft_tick r) = rf_commit_index r"
  "rf_commit_index (handle_vote_resp from_node resp r) = rf_commit_index r"
proof -
  have w: "rf_commit_index (maybe_win_election q) = rf_commit_index q" for q by (simp add: maybe_win_election_def)
  have s: "rf_commit_index (start_election q) = rf_commit_index q" for q by (simp add: start_election_eq w)
  have p: "rf_commit_index (maybe_win_pre_election q) = rf_commit_index q" for q by (simp add: maybe_win_pre_election_def s)
  show "rf_commit_index (maybe_win_election r) = rf_commit_index r" "rf_commit_index (start_election r) = rf_commit_index r"
    "rf_commit_index (maybe_win_pre_election r) = rf_commit_index r" by (rule w s p)+
  show "rf_commit_index (raft_tick r) = rf_commit_index r" by (simp add: raft_tick_def Let_def start_pre_election_eq p)
  show "rf_commit_index (handle_vote_resp from_node resp r) = rf_commit_index r" by (simp add: handle_vote_resp_def w p)
qed

lemma early_commit: "rf_commit_index a_leads = 0" "rf_commit_index b_follows = 0"
proof -
  have "rf_commit_index a_stands = 0"
    by (simp add: a_stands_def a_asks_def b_pre_votes_sel raft_step_def body_identity_matches_def election_commit)
      (simp add: default_persisted_def)
  then show a: "rf_commit_index a_leads = 0"
    by (simp add: a_leads_def b_votes_sel raft_step_def body_identity_matches_def election_commit)
  show "rf_commit_index b_follows = 0"
    by (simp add: b_follows_def b_votes_sel a_leads_sel a run_simps handle_append_eq entries_are_contiguous_run u64_max_def
        accept_entries_def append_resp_def)
qed

lemma a_commits_sel:
  "rf_commit_index a_commits = 1" "rf_role a_commits = Leader" "rf_current_term a_commits = 1"
  "rf_log a_commits = [\<lparr>le_term = 1, le_index = 1, le_command = None\<rparr>]" "rf_base_index a_commits = 0"
  "rf_out a_commits = [\<lparr>ad_to = ''b'', ad_msg = AppendEntries \<lparr>ae_term = 1, ae_leader_id = ''a'', ae_prev_log_index = 1,
     ae_prev_log_term = 1, ae_entries = [], ae_leader_commit = 1\<rparr>\<rparr>]"
  by (simp_all add: a_commits_def b_follows_sel a_leads_sel early_commit run_simps handle_append_resp_def record_match_def
      maybe_advance_commit_def quorum_def replicas_at_def term_at_def log_slot_def
      sat_add64_def u64_max_def broadcast_append_def send_append_def append_request_def send_def)

lemma b_commits_sel: "rf_commit_index b_commits = 1" "rf_log b_commits = rf_log a_commits" "rf_base_index b_commits = 0"
  "rf_current_term b_commits = 1"
  by (simp_all add: b_commits_def b_follows_sel a_commits_sel early_commit run_simps handle_append_eq entries_are_contiguous_run
      u64_max_def accept_entries_def append_resp_def term_at_def log_slot_def)

lemma pair_committed_run:
  "orderly pair lone_config pair_committed" "nw_mem pair_committed ''a'' = snd (raft_ready a_commits)"
  "nw_mem pair_committed ''b'' = snd (raft_ready b_commits)"
proof -
  define s7 where "s7 = exchange ''a'' (raft_op.Step ''b'' (ad_msg (hd (rf_out b_follows)))) pair_network"
  have eq: "pair_committed = exchange ''b'' (raft_op.Step ''a'' (ad_msg (hd (rf_out a_commits)))) s7"
    by (simp add: pair_committed_def s7_def)
  note room = has_room_def log_room_def last_index_def add64_def u64_max_def
  have m7: "nw_mem s7 ''a'' = snd (raft_ready a_commits)" "nw_mem s7 ''b'' = snd (raft_ready b_follows)"
    by (simp_all add: s7_def exchange_sel pair_network_rested(2,3) a_commits_def)
  have t7: "(\<lambda>a. (''a'', ad_to a, ad_msg a)) ` set (rf_out a_commits) \<subseteq> nw_sent s7"
    by (auto simp: s7_def exchange_sel pair_network_rested(2) a_commits_def)
  have "rested pair lone_config s7" unfolding s7_def
    by (rule rested_exchange [OF pair_network_rested(1)])
      (use pair_network_rested(4) in \<open>simp_all add: pair_network_rested(2) b_follows_sel a_leads_sel room\<close>)
  then have "rested pair lone_config pair_committed" unfolding eq
    by (rule rested_exchange) (use t7 in \<open>simp_all add: m7 a_commits_sel b_follows_sel room\<close>)
  then show "orderly pair lone_config pair_committed" by (simp add: rested_def)
  show "nw_mem pair_committed ''a'' = snd (raft_ready a_commits)" "nw_mem pair_committed ''b'' = snd (raft_ready b_commits)"
    by (simp_all add: eq exchange_sel m7 b_commits_def)
qed

lemmas committed_sel = pair_committed_run(2,3) a_commits_sel b_commits_sel

text \<open>
  C3. State machine safety. In every orderly execution of a group of distinct members, with messages lost,
  delayed, reordered or duplicated and members crashing and restarting at any point: at an index that two
  members have both committed and still hold, they hold the same entry, and a snapshot that ends there ends
  in the same term. Orderly means that no member drains a batch without changes while an earlier batch of it
  still waits to be saved.
\<close>

theorem state_machine_safety:
  assumes "orderly ms cfg s" and "distinct ms" and "a \<in> set ms" and "b \<in> set ms"
    and "i \<le> rf_commit_index (nw_mem s a)" and "i \<le> rf_commit_index (nw_mem s b)"
    and "rf_base_index (nw_mem s a) \<le> i" and "rf_base_index (nw_mem s b) \<le> i"
  shows "term_at (nw_mem s a) i = term_at (nw_mem s b) i \<and>
    (rf_base_index (nw_mem s a) < i \<and> rf_base_index (nw_mem s b) < i \<longrightarrow>
      entry_at (nw_mem s a) i = entry_at (nw_mem s b) i)"
proof (cases "a = b")
  case False
  then have "2 \<le> card (set ms)" using assms(3,4) card_mono [of "set ms" "{a, b}"] by auto
  then obtain E L where h: "history ms E L s" using orderly_history [OF assms(1,2)] by blast
  note sa = committed_settled [OF h assms(3,7,5)] and sb = committed_settled [OF h assms(4,8,6)]
  have "below E (i, term_at (nw_mem s a) i) (i, term_at (nw_mem s b) i)"
    by (rule settled_comparable [OF h sa(1) sb(1) _ sa(2) sb(2)]) simp
  then have eq: "term_at (nw_mem s a) i = term_at (nw_mem s b) i" by (auto dest: below_same)
  note wf = member_log(1) [OF h assms(3)] member_log(1) [OF h assms(4)]
  show ?thesis
    using eq same_term_same_entry [OF h assms(3,4) eq] commit_in_log [OF wf(1) assms(5)] commit_in_log [OF wf(2) assms(6)]
    by blast
qed simp

theorem state_machine_safety_witness:
  "rf_commit_index (nw_mem pair_committed ''a'') = 1 \<and> rf_commit_index (nw_mem pair_committed ''b'') = 1 \<and>
   entry_at (nw_mem pair_committed ''a'') 1 = entry_at (nw_mem pair_committed ''b'') 1"
  using state_machine_safety [OF pair_committed_run(1), of "''a''" "''b''" 1]
  by (simp add: committed_sel) (simp add: pair_def)

text \<open>
  C4. Leader completeness. In every orderly execution of a group of distinct members, what a member has committed is
  in the log of every leader of the same or a later term: the leader's log reaches the committed index and holds the same entry there.
\<close>

theorem leader_completeness:
  assumes "orderly ms cfg s" and "distinct ms" and "a \<in> set ms" and "b \<in> set ms"
    and "rf_role (nw_mem s b) = Leader" and "rf_current_term (nw_mem s a) \<le> rf_current_term (nw_mem s b)"
    and "i \<le> rf_commit_index (nw_mem s a)" and "rf_base_index (nw_mem s a) \<le> i" and "rf_base_index (nw_mem s b) \<le> i"
  shows "i \<le> last_index (nw_mem s b) \<and> term_at (nw_mem s b) i = term_at (nw_mem s a) i \<and>
    (rf_base_index (nw_mem s a) < i \<and> rf_base_index (nw_mem s b) < i \<longrightarrow>
      entry_at (nw_mem s b) i = entry_at (nw_mem s a) i)"
proof (cases "a = b")
  case True
  have "raft_wf (nw_mem s a)"
    using reachable_wf [OF orderly_reachable [OF assms(1)]] by blast
  then show ?thesis using True commit_in_log assms(7) by blast
next
  case False
  then have "2 \<le> card (set ms)" using assms(3,4) card_mono [of "set ms" "{a, b}"] by auto
  then obtain E L where h: "history ms E L s" using orderly_history [OF assms(1,2)] by blast
  note sa = committed_settled [OF h assms(3,8,7)] and ma = member_log [OF h assms(3)] and mb = member_log [OF h assms(4)]
  have "below E (i, term_at (nw_mem s a) i) (tip (nw_mem s b))"
    by (rule settled_in_leader [OF h assms(4,5) sa assms(6)])
  then have "holds (nw_mem s b) (i, term_at (nw_mem s a) i)"
    using below_holds [OF mb(1,2) tree_sel(1) [OF history_sel(2) [OF h]]] assms(9) by simp
  then have b: "i \<le> last_index (nw_mem s b)" "term_at (nw_mem s b) i = term_at (nw_mem s a) i" by (simp_all add: holds_def)
  then show ?thesis
    using same_term_same_entry [OF h assms(4,3) b(2)] commit_in_log [OF ma(1) assms(7)] by blast
qed

theorem leader_completeness_witness:
  "rf_commit_index (nw_mem pair_committed ''b'') = 1 \<and> rf_role (nw_mem pair_committed ''a'') = Leader \<and>
   entry_at (nw_mem pair_committed ''a'') 1 = entry_at (nw_mem pair_committed ''b'') 1"
  using leader_completeness [OF pair_committed_run(1), of "''b''" "''a''" 1]
  by (simp add: committed_sel) (simp add: pair_def)

end
