(* ===== verification/Lost_Entries.thy ===== *)
theory Lost_Entries
  imports Log_Matching
begin

section \<open>What an early acknowledgement costs\<close>

text \<open>
  The driver lets a batch without changes leave at once, even when an earlier batch of the member still
  waits to be persisted (\<open>src/raft_driver.rs\<close>, \<open>drain\<close>). A run of three members in which this happens
  once, followed by a crash, ends with two members that have committed different commands at the same
  index: the assumption of orderly runs cannot be dropped.
\<close>

subsection \<open>An election and a proposal\<close>

text \<open>
  The engines of a member \<open>n\<close> that starts with an empty log, is elected by the vote of \<open>v\<close>, proposes a command
  and commits it with the acknowledgement of \<open>v\<close>.
\<close>

definition ask :: "node_id \<Rightarrow> nat \<Rightarrow> bool \<Rightarrow> raft_message" where
  "ask n t pre = RequestVote \<lparr>rv_term = t, rv_candidate_id = n, rv_last_log_index = 0, rv_last_log_term = 0, rv_pre_vote = pre\<rparr>"

definition grant :: "nat \<Rightarrow> bool \<Rightarrow> raft_message" where
  "grant t pre = RequestVoteResp \<lparr>rvr_term = t, rvr_granted = True, rvr_pre_vote = pre\<rparr>"

definition first_entry :: "nat \<Rightarrow> log_entry" where
  "first_entry t = \<lparr>le_term = t, le_index = 1, le_command = None\<rparr>"

definition second_entry :: "nat \<Rightarrow> command \<Rightarrow> log_entry" where
  "second_entry t c = \<lparr>le_term = t, le_index = 2, le_command = Some c\<rparr>"

definition hand_over :: "node_id \<Rightarrow> nat \<Rightarrow> command \<Rightarrow> raft_message" where
  "hand_over n t c = AppendEntries \<lparr>ae_term = t, ae_leader_id = n, ae_prev_log_index = 0, ae_prev_log_term = 0,
     ae_entries = [first_entry t, second_entry t c], ae_leader_commit = 0\<rparr>"

definition confirm :: "nat \<Rightarrow> raft_message" where
  "confirm t = AppendEntriesResp \<lparr>aer_term = t, aer_success = True, aer_match_index = 2\<rparr>"

definition started :: "node_id \<Rightarrow> node_id list \<Rightarrow> persisted \<Rightarrow> raft" where
  "started n ps P = raft_new n ps lone_config 7 P"

definition asks :: "node_id \<Rightarrow> node_id list \<Rightarrow> persisted \<Rightarrow> raft" where
  "asks n ps P = raft_tick (started n ps P)"

definition stands :: "node_id \<Rightarrow> node_id list \<Rightarrow> persisted \<Rightarrow> node_id \<Rightarrow> raft" where
  "stands n ps P v = raft_step v (grant 0 True) (snd (raft_ready (asks n ps P)))"

definition elected :: "node_id \<Rightarrow> node_id list \<Rightarrow> persisted \<Rightarrow> node_id \<Rightarrow> raft" where
  "elected n ps P v = raft_step v (grant (Suc (ps_current_term P)) False) (snd (raft_ready (stands n ps P v)))"

definition proposes :: "node_id \<Rightarrow> node_id list \<Rightarrow> persisted \<Rightarrow> node_id \<Rightarrow> command \<Rightarrow> raft" where
  "proposes n ps P v c = snd (raft_propose c (snd (raft_ready (elected n ps P v))))"

definition decides :: "node_id \<Rightarrow> node_id list \<Rightarrow> persisted \<Rightarrow> node_id \<Rightarrow> command \<Rightarrow> raft" where
  "decides n ps P v c = raft_step v (confirm (Suc (ps_current_term P))) (snd (raft_ready (proposes n ps P v c)))"

definition hears :: "node_id \<Rightarrow> node_id list \<Rightarrow> node_id \<Rightarrow> nat \<Rightarrow> raft" where
  "hears v vs n t = raft_step n (ask n t True) (started v vs default_persisted)"

definition votes :: "node_id \<Rightarrow> node_id list \<Rightarrow> node_id \<Rightarrow> nat \<Rightarrow> raft" where
  "votes v vs n t = raft_step n (ask n t False) (snd (raft_ready (hears v vs n t)))"

definition follows_on :: "node_id \<Rightarrow> node_id list \<Rightarrow> node_id \<Rightarrow> nat \<Rightarrow> command \<Rightarrow> raft" where
  "follows_on v vs n t c = raft_step n (hand_over n t c) (snd (raft_ready (votes v vs n t)))"

text \<open>A start with an empty log, in one of the first terms, in a group of three.\<close>

definition blank_start :: "node_id \<Rightarrow> node_id list \<Rightarrow> persisted \<Rightarrow> bool" where
  "blank_start n ps P \<longleftrightarrow> ps_log P = [] \<and> ps_base_index P = 0 \<and> ps_base_term P = 0 \<and> ps_commit_index P = 0 \<and>
     ps_current_term P < 2 \<and> length ps = 2 \<and> n \<notin> set ps"

lemma blank_default: "blank_start n ps default_persisted \<longleftrightarrow> length ps = 2 \<and> n \<notin> set ps"
  "ps_current_term default_persisted = 0"
  by (simp_all add: blank_start_def default_persisted_def)

lemma started_sel:
  "rf_id (started n ps P) = n" "rf_peers (started n ps P) = ps" "rf_current_term (started n ps P) = ps_current_term P"
  "rf_log (started n ps P) = ps_log P" "rf_base_index (started n ps P) = ps_base_index P"
  "rf_base_term (started n ps P) = ps_base_term P" "rf_commit_index (started n ps P) = ps_commit_index P"
  "rf_role (started n ps P) = Follower" "rf_leader_id (started n ps P) = None" "rf_voted_for (started n ps P) = ps_voted_for P"
  "rf_election_elapsed (started n ps P) = 0" "rf_randomized_election_timeout (started n ps P) = 1" "rf_out (started n ps P) = []"
  "rf_cfg (started n ps P) = lone_config" "rf_dirty (started n ps P) = False"
  by (simp_all add: started_def raft_new_def reset_election_timer_def next_rand_def Let_def lone_config_def)

text \<open>The facts that lead from one state to the next, of a candidate or leader and of its voter.\<close>

definition campaign :: "raft \<Rightarrow> node_id \<Rightarrow> node_id list \<Rightarrow> nat \<Rightarrow> role \<Rightarrow> log_entry list \<Rightarrow> bool" where
  "campaign r n ps t role l \<longleftrightarrow> rf_id r = n \<and> rf_peers r = ps \<and> rf_current_term r = t \<and> rf_role r = role \<and> rf_log r = l \<and>
     rf_base_index r = 0 \<and> rf_base_term r = 0"

lemma asks_sel:
  assumes "blank_start n ps P"
  shows "campaign (asks n ps P) n ps (ps_current_term P) PreCandidate []" "rf_commit_index (asks n ps P) = 0"
    "rf_votes (asks n ps P) = {n}" "p \<in> set ps \<Longrightarrow> \<lparr>ad_to = p, ad_msg = ask n (Suc (ps_current_term P)) True\<rparr> \<in> set (rf_out (asks n ps P))"
proof -
  let ?s = "started n ps P"
  let ?t = "?s\<lparr>rf_election_elapsed := add64 (rf_election_elapsed ?s) 1\<rparr>"
  have eq: "asks n ps P = start_pre_election ?t" by (simp add: asks_def raft_tick_def started_sel add64_def)
  have b: "ps_log P = []" "ps_base_index P = 0" "ps_base_term P = 0" "ps_commit_index P = 0" "ps_current_term P < 2" "length ps = 2"
    using assms by (simp_all add: blank_start_def)
  obtain p1 p2 where ps: "ps = [p1, p2]" using b(6) by (auto simp: numeral_2_eq_2 length_Suc_conv)
  have t: "Suc (ps_current_term P) mod 18446744073709551616 = Suc (ps_current_term P)" using b(5) by simp
  note defs = eq [unfolded ps] campaign_def start_pre_election_eq maybe_win_pre_election_def send_all_def send_def quorum_def vote_request_def
    started_sel b(1-4) add64_def last_index_def last_term_def ask_def ps t
  show "campaign (asks n ps P) n ps (ps_current_term P) PreCandidate []" "rf_commit_index (asks n ps P) = 0"
    "rf_votes (asks n ps P) = {n}" "p \<in> set ps \<Longrightarrow> \<lparr>ad_to = p, ad_msg = ask n (Suc (ps_current_term P)) True\<rparr> \<in> set (rf_out (asks n ps P))"
    by (auto simp: defs)
qed

lemma blank_peers:
  assumes "blank_start n ps P" and "v \<in> set ps"
  obtains p q where "ps = [p, q]" "n \<noteq> v" "v \<noteq> n" "v = p \<or> v = q" "ps_current_term P < 2"
    "Suc (ps_current_term P) mod 18446744073709551616 = Suc (ps_current_term P)"
proof -
  obtain p q where "ps = [p, q]" using assms(1) by (auto simp: blank_start_def numeral_2_eq_2 length_Suc_conv)
  then show ?thesis using that [of p q] assms by (auto simp: blank_start_def)
qed

lemma stands_sel:
  assumes "blank_start n ps P" and "v \<in> set ps"
  shows "campaign (stands n ps P v) n ps (Suc (ps_current_term P)) Candidate []" "rf_commit_index (stands n ps P v) = 0"
    "rf_votes (stands n ps P v) = {n}"
    "\<lparr>ad_to = v, ad_msg = ask n (Suc (ps_current_term P)) False\<rparr> \<in> set (rf_out (stands n ps P v))"
proof -
  obtain p q where ps: "ps = [p, q]" and ne: "n \<noteq> v" "v \<noteq> n" "v = p \<or> v = q"
    and t: "Suc (ps_current_term P) mod 18446744073709551616 = Suc (ps_current_term P)"
    using blank_peers [OF assms] by metis
  note a = asks_sel(1-3) [OF assms(1), unfolded campaign_def ps]
  note defs = campaign_def stands_def a run_simps handle_vote_resp_def maybe_win_pre_election_def grant_def ask_def
      quorum_def start_election_eq maybe_win_election_def send_all_def send_def vote_request_def ps t
  show "campaign (stands n ps P v) n ps (Suc (ps_current_term P)) Candidate []" "rf_commit_index (stands n ps P v) = 0"
    "rf_votes (stands n ps P v) = {n}"
    "\<lparr>ad_to = v, ad_msg = ask n (Suc (ps_current_term P)) False\<rparr> \<in> set (rf_out (stands n ps P v))"
    using ne(3) by (simp_all add: defs ne(1,2))
qed

lemma elected_sel:
  assumes "blank_start n ps P" and "v \<in> set ps"
  shows "campaign (elected n ps P v) n ps (Suc (ps_current_term P)) Leader [first_entry (Suc (ps_current_term P))]"
    "rf_commit_index (elected n ps P v) = 0" "\<forall>p \<in> set ps. rf_next_index (elected n ps P v) p = Some 1 \<and> rf_match_index (elected n ps P v) p = Some 0"
proof -
  obtain p q where ps: "ps = [p, q]" and ne: "n \<noteq> v" "v \<noteq> n" "v = p \<or> v = q"
    and t: "Suc (ps_current_term P) mod 18446744073709551616 = Suc (ps_current_term P)"
    using blank_peers [OF assms] by metis
  note a = stands_sel(1-3) [OF assms, unfolded campaign_def ps]
  note defs = campaign_def elected_def a run_simps handle_vote_resp_def maybe_win_election_def grant_def quorum_def
      become_leader_def broadcast_append_def send_append_def append_request_def send_def term_at_def log_slot_def first_entry_def ps t
  show "campaign (elected n ps P v) n ps (Suc (ps_current_term P)) Leader [first_entry (Suc (ps_current_term P))]"
    "rf_commit_index (elected n ps P v) = 0" "\<forall>p \<in> set ps. rf_next_index (elected n ps P v) p = Some 1 \<and> rf_match_index (elected n ps P v) p = Some 0"
    using ne(3) by (simp_all add: defs ne(1,2))
qed

lemma proposes_sel:
  assumes "blank_start n ps P" and "v \<in> set ps" and "t = Suc (ps_current_term P)"
  shows "campaign (proposes n ps P v c) n ps t Leader [first_entry t, second_entry t c]"
    "rf_commit_index (proposes n ps P v c) = 0" "\<forall>p \<in> set ps. rf_match_index (proposes n ps P v c) p = Some 0"
    "\<lparr>ad_to = v, ad_msg = hand_over n t c\<rparr> \<in> set (rf_out (proposes n ps P v c))"
proof -
  obtain p q where ps: "ps = [p, q]" and ne: "n \<noteq> v" "v \<noteq> n" "v = p \<or> v = q"
    using blank_peers [OF assms(1,2)] by metis
  note a = elected_sel(1-3) [OF assms(1,2), unfolded campaign_def ps]
  note defs = campaign_def proposes_def a run_simps raft_propose_def push_entry_def maybe_advance_commit_def quorum_def replicas_at_def
      broadcast_append_def send_append_def append_request_def send_def term_at_def log_slot_def first_entry_def second_entry_def
      hand_over_def ps assms(3)
  show "campaign (proposes n ps P v c) n ps t Leader [first_entry t, second_entry t c]"
    "rf_commit_index (proposes n ps P v c) = 0" "\<forall>p \<in> set ps. rf_match_index (proposes n ps P v c) p = Some 0"
    "\<lparr>ad_to = v, ad_msg = hand_over n t c\<rparr> \<in> set (rf_out (proposes n ps P v c))"
    using ne(3) by (simp_all add: defs ne(1,2))
qed

lemma decides_sel:
  assumes "blank_start n ps P" and "v \<in> set ps" and "t = Suc (ps_current_term P)"
  shows "rf_log (decides n ps P v c) = [first_entry t, second_entry t c]" "rf_base_index (decides n ps P v c) = 0"
    "rf_commit_index (decides n ps P v c) = 2"
proof -
  obtain p q where ps: "ps = [p, q]" and ne: "n \<noteq> v" "v \<noteq> n" "v = p \<or> v = q"
    using blank_peers [OF assms(1,2)] by metis
  note a = proposes_sel(1-3) [OF assms, unfolded campaign_def ps]
  note defs = decides_def a run_simps handle_append_resp_def record_match_def confirm_def
      maybe_advance_commit_def quorum_def replicas_at_def term_at_def log_slot_def first_entry_def second_entry_def
      sat_add64_def u64_max_def ps assms(3) [symmetric]
  show "rf_log (decides n ps P v c) = [first_entry t, second_entry t c]" "rf_base_index (decides n ps P v c) = 0"
    "rf_commit_index (decides n ps P v c) = 2"
    using ne(3) by (simp_all add: defs ne(1,2)) auto
qed

lemma hears_sel:
  assumes "n \<in> set vs"
  shows "campaign (hears v vs n t) v vs 0 Follower []" "rf_commit_index (hears v vs n t) = 0"
    "rf_voted_for (hears v vs n t) = None"
    "t \<noteq> 0 \<Longrightarrow> \<lparr>ad_to = n, ad_msg = grant 0 True\<rparr> \<in> set (rf_out (hears v vs n t))"
proof -
  have "campaign (hears v vs n t) v vs 0 Follower [] \<and> rf_commit_index (hears v vs n t) = 0 \<and> rf_voted_for (hears v vs n t) = None \<and>
    (t \<noteq> 0 \<longrightarrow> \<lparr>ad_to = n, ad_msg = grant 0 True\<rparr> \<in> set (rf_out (hears v vs n t)))"
    using assms by (simp add: hears_def campaign_def ask_def grant_def started_sel run_simps handle_request_vote_def log_ok_def default_persisted_def
        send_def)
  then show "campaign (hears v vs n t) v vs 0 Follower []" "rf_commit_index (hears v vs n t) = 0"
    "rf_voted_for (hears v vs n t) = None"
    "t \<noteq> 0 \<Longrightarrow> \<lparr>ad_to = n, ad_msg = grant 0 True\<rparr> \<in> set (rf_out (hears v vs n t))" by simp_all
qed

lemma votes_sel:
  assumes "n \<in> set vs" and "t \<noteq> 0"
  shows "campaign (votes v vs n t) v vs t Follower []" "rf_commit_index (votes v vs n t) = 0"
    "\<lparr>ad_to = n, ad_msg = grant t False\<rparr> \<in> set (rf_out (votes v vs n t))"
proof -
  note a = hears_sel(1-3) [OF assms(1), unfolded campaign_def]
  show "campaign (votes v vs n t) v vs t Follower []" "rf_commit_index (votes v vs n t) = 0"
    "\<lparr>ad_to = n, ad_msg = grant t False\<rparr> \<in> set (rf_out (votes v vs n t))"
    using assms by (simp_all add: votes_def campaign_def ask_def grant_def a run_simps handle_request_vote_def log_ok_def send_def)
qed

lemma follows_on_sel:
  assumes "n \<in> set vs" and "t \<noteq> 0"
  shows "campaign (follows_on v vs n t c) v vs t Follower [first_entry t, second_entry t c]" "rf_commit_index (follows_on v vs n t c) = 0"
    "\<lparr>ad_to = n, ad_msg = confirm t\<rparr> \<in> set (rf_out (follows_on v vs n t c))"
proof -
  note a = votes_sel(1,2) [OF assms, unfolded campaign_def]
  show "campaign (follows_on v vs n t c) v vs t Follower [first_entry t, second_entry t c]" "rf_commit_index (follows_on v vs n t c) = 0"
    "\<lparr>ad_to = n, ad_msg = confirm t\<rparr> \<in> set (rf_out (follows_on v vs n t c))"
    using assms by (simp_all add: follows_on_def campaign_def hand_over_def first_entry_def second_entry_def confirm_def a run_simps handle_append_eq
        entries_are_contiguous_run u64_max_def accept_entries_def append_resp_def)
qed

text \<open>The voter handles the same append request again: nothing changes and it acknowledges again.\<close>

definition repeats :: "node_id \<Rightarrow> node_id list \<Rightarrow> node_id \<Rightarrow> nat \<Rightarrow> command \<Rightarrow> raft" where
  "repeats v vs n t c = raft_step n (hand_over n t c) (snd (raft_ready (follows_on v vs n t c)))"

lemma repeats_sel:
  assumes "n \<in> set vs" and "t \<noteq> 0"
  shows "\<not> rf_dirty (repeats v vs n t c)" "\<lparr>ad_to = n, ad_msg = confirm t\<rparr> \<in> set (rf_out (repeats v vs n t c))"
proof -
  note a = follows_on_sel(1,2) [OF assms, unfolded campaign_def]
  show "\<not> rf_dirty (repeats v vs n t c)" "\<lparr>ad_to = n, ad_msg = confirm t\<rparr> \<in> set (rf_out (repeats v vs n t c))"
    using assms by (simp_all add: repeats_def hand_over_def first_entry_def second_entry_def confirm_def a run_simps handle_append_eq
        entries_are_contiguous_run u64_max_def accept_entries_def append_resp_def term_at_def log_slot_def)
qed

lemma follows_on_dirty:
  assumes "n \<in> set vs" and "t \<noteq> 0"
  shows "rf_dirty (follows_on v vs n t c)"
proof -
  note a = votes_sel(1,2) [OF assms, unfolded campaign_def]
  show ?thesis
    using assms by (simp add: follows_on_def hand_over_def first_entry_def second_entry_def confirm_def a run_simps handle_append_eq
        entries_are_contiguous_run u64_max_def accept_entries_def append_resp_def)
qed

subsection \<open>The run\<close>

text \<open>One exchange of a reachable network: where it leads and what it sends.\<close>

definition leads_to :: "node_id list \<Rightarrow> network \<Rightarrow> node_id \<Rightarrow> raft \<Rightarrow> network \<Rightarrow> bool" where
  "leads_to ms s n r s' \<longleftrightarrow> reachable ms lone_config s' \<and> nw_mem s' = (nw_mem s)(n := snd (raft_ready r)) \<and>
     nw_sent s \<subseteq> nw_sent s' \<and> (\<forall>a \<in> set (rf_out r). (n, ad_to a, ad_msg a) \<in> nw_sent s') \<and>
     nw_disk s' = (nw_disk s)(n := persisted_snapshot (snd (raft_ready r)))"

lemma exchange_leads:
  assumes s: "reachable ms lone_config s" and n: "n \<in> set ms" and "allowed s n op" and "op_ok op (nw_mem s n)"
  shows "leads_to ms s n (apply_raft_op op (nw_mem s n)) (exchange n op s)"
proof -
  let ?s = "after_persist n (after_drain n (after_op n op s))" and ?rd = "fst (raft_ready (apply_raft_op op (nw_mem s n)))"
  have "net_step ms lone_config s (after_op n op s)" using assms by (blast intro: net_step.Operate)
  then have "reachable ms lone_config ?s"
    using s n by (blast intro: reachable.Step net_step.Drain net_step.Persist)
  moreover have "?rd \<in> set (nw_saved ?s n)"
    by (simp add: after_persist_def after_drain_def after_op_def Let_def case_prod_beta split: option.splits)
  ultimately have "reachable ms lone_config (exchange n op s)"
    unfolding exchange_def using n by (blast intro: reachable.Step net_step.Transmit)
  moreover have "nw_disk (exchange n op s) = (nw_disk s)(n := persisted_snapshot (snd (raft_ready (apply_raft_op op (nw_mem s n)))))"
    by (simp add: exchange_def after_transmit_def after_persist_def after_drain_def after_op_def Let_def case_prod_beta fun_eq_iff
        split: option.split)
  ultimately show ?thesis by (auto simp: leads_to_def exchange_sel)
qed

definition plain :: "raft_message \<Rightarrow> bool" where
  "plain msg \<longleftrightarrow> (case msg of InstallSnapshot _ \<Rightarrow> False | _ \<Rightarrow> True)"

lemma plain_simps [simp]:
  "plain (ask n t pre)" "plain (grant t pre)" "plain (hand_over n t c)" "plain (confirm t)"
  by (simp_all add: plain_def ask_def grant_def hand_over_def confirm_def)

lemma handles:
  assumes "reachable ms lone_config s" and "n \<in> set ms" and "(m, n, msg) \<in> nw_sent s" and "nw_mem s n = r" and "has_room r"
    and "plain msg"
  obtains s' where "leads_to ms s n (raft_step m msg r) s'"
proof -
  have "op_ok (raft_op.Step m msg) (nw_mem s n)" using assms(4-6) by (cases msg) (simp_all add: plain_def)
  then show ?thesis using exchange_leads [OF assms(1,2), of "raft_op.Step m msg"] assms(3,4) that by simp
qed

lemma leads_to_sel:
  assumes "leads_to ms s n r s'"
  shows "reachable ms lone_config s'" "nw_mem s' n = snd (raft_ready r)" "m \<noteq> n \<Longrightarrow> nw_mem s' m = nw_mem s m"
    "a \<in> nw_sent s \<Longrightarrow> a \<in> nw_sent s'" "\<lparr>ad_to = to, ad_msg = msg\<rparr> \<in> set (rf_out r) \<Longrightarrow> (n, to, msg) \<in> nw_sent s'"
  using assms by (force simp: leads_to_def)+

lemma campaign_room:
  assumes "campaign r n ps t role l" and "t < 3" and "length l < 3"
  shows "has_room (snd (raft_ready r))"
  using assms by (simp add: campaign_def has_room_def log_room_def last_index_def add64_def u64_max_def raft_ready_def Let_def)

text \<open>The election of a member that starts with an empty log, up to the append request for its proposal.\<close>

lemma elects:
  assumes s: "reachable ms lone_config s" and n: "n \<in> set ms" "v \<in> set ms" and P: "blank_start n ps P" "v \<in> set ps" "n \<in> set vs" "v \<noteq> n"
    and mem: "nw_mem s n = started n ps P" "nw_mem s v = started v vs default_persisted" and t: "t = Suc (ps_current_term P)"
  obtains s' where "reachable ms lone_config s'" "(n, v, hand_over n t c) \<in> nw_sent s'"
    "nw_mem s' = (nw_mem s)(n := snd (raft_ready (proposes n ps P v c)), v := snd (raft_ready (votes v vs n t)))"
    "nw_disk s' v = persisted_snapshot (snd (raft_ready (votes v vs n t)))"
proof -
  have t3: "t < 3" "t \<noteq> 0" "ps_current_term P < 3" using P(1) t by (simp_all add: blank_start_def)
  have room: "has_room (started n ps P)" "has_room (started v vs default_persisted)"
    using P(1) by (simp_all add: has_room_def log_room_def last_index_def add64_def u64_max_def started_sel blank_start_def default_persisted_def)
  obtain s1 where s1: "leads_to ms s n (asks n ps P) s1"
    using exchange_leads [OF s n(1), of Tick] room(1) mem by (simp add: asks_def)
  note a = asks_sel(1,4) [OF P(1)] and b = stands_sel(1,4) [OF P(1,2)] and l = elected_sel(1) [OF P(1,2)]
    and h = hears_sel(1,4) [OF P(3)] and w = votes_sel(1,3) [OF P(3) t3(2)] and p = proposes_sel(4) [OF P(1,2) t]
  note e1 = leads_to_sel [OF s1]
  have "(n, v, ask n t True) \<in> nw_sent s1" using e1(5) a(2) [OF P(2)] t by blast
  then obtain s2 where s2: "leads_to ms s1 v (hears v vs n t) s2"
    using handles [OF e1(1) n(2) _ _ room(2)] e1(3) [OF P(4)] mem(2) unfolding hears_def by (metis plain_simps(1))
  note e2 = leads_to_sel [OF s2]
  have "(v, n, grant 0 True) \<in> nw_sent s2" using e2(5) h(2) t3(2) by blast
  then obtain s3 where s3: "leads_to ms s2 n (stands n ps P v) s3"
    using handles [OF e2(1) n(1) _ _ campaign_room [OF a(1) t3(3)]] e2(3) [OF P(4) [symmetric]] e1(2)
    unfolding stands_def by (metis plain_simps(2) list.size(3) zero_less_numeral)
  note e3 = leads_to_sel [OF s3]
  have "(n, v, ask n t False) \<in> nw_sent s3" using e3(5) b(2) t by blast
  then obtain s4 where s4: "leads_to ms s3 v (votes v vs n t) s4"
    using handles [OF e3(1) n(2) _ _ campaign_room [OF h(1)]] e3(3) [OF P(4)] e2(2)
    unfolding votes_def by (metis plain_simps(1) list.size(3) zero_less_numeral)
  note e4 = leads_to_sel [OF s4]
  have "(v, n, grant t False) \<in> nw_sent s4" using e4(5) w(2) by blast
  then obtain s5 where s5: "leads_to ms s4 n (elected n ps P v) s5"
    using handles [OF e4(1) n(1) _ _ campaign_room [OF b(1)]] e4(3) [OF P(4) [symmetric]] e3(2) t t3(1)
    unfolding elected_def by (metis plain_simps(2) list.size(3) zero_less_numeral)
  note e5 = leads_to_sel [OF s5]
  have "op_ok (raft_op.Propose c) (nw_mem s5 n)" using campaign_room [OF l] t t3(1) e5(2) by simp
  then obtain s6 where s6: "leads_to ms s5 n (proposes n ps P v c) s6"
    using exchange_leads [OF e5(1) n(1), of "raft_op.Propose c"] e5(2) unfolding proposes_def by simp
  note e6 = leads_to_sel [OF s6]
  show ?thesis
  proof (rule that [OF e6(1)])
    show "(n, v, hand_over n t c) \<in> nw_sent s6" using e6(5) p by blast
    show "nw_mem s6 = (nw_mem s)(n := snd (raft_ready (proposes n ps P v c)), v := snd (raft_ready (votes v vs n t)))"
      using s1 s2 s3 s4 s5 s6 P(4) by (auto simp: leads_to_def fun_eq_iff)
    show "nw_disk s6 v = persisted_snapshot (snd (raft_ready (votes v vs n t)))"
      using s4 s5 s6 P(4) by (auto simp: leads_to_def)
  qed
qed

text \<open>
  The run. Member a is elected with the vote of b and proposes a command. The follower b handles the append request
  twice; the batch of the second time carries nothing to persist and leaves before the first is saved. Then b
  restarts from its disk, and a takes the acknowledgement for a majority. Member b is elected with the vote of c,
  proposes another command and commits it with the acknowledgement of c.
\<close>

definition trio :: "node_id list" where
  "trio = [''a'', ''b'', ''c'']"

lemma trio_peers [simp]:
  "peers_of trio ''a'' = [''b'', ''c'']" "peers_of trio ''b'' = [''a'', ''c'']" "peers_of trio ''c'' = [''a'', ''b'']"
  "set trio = {''a'', ''b'', ''c''}"
  by (simp_all add: peers_of_def trio_def)

text \<open>A follower that handles an append request twice, and whose acknowledgement leaves before the entries are saved.\<close>

lemma quiet_steps:
  "nw_disk (after_drain n s) = nw_disk s" "nw_sent (after_drain n s) = nw_sent s" "k \<noteq> n \<Longrightarrow> nw_mem (after_drain n s) k = nw_mem s k"
  "nw_disk (after_op n op s) = nw_disk s" "nw_sent (after_op n op s) = nw_sent s" "k \<noteq> n \<Longrightarrow> nw_mem (after_op n op s) k = nw_mem s k"
  by (simp_all add: after_drain_def after_op_def Let_def case_prod_beta split: option.split)

lemma hasty_leads:
  assumes s: "reachable ms lone_config s" and n: "n \<in> set ms" "m \<in> set vs" "t \<noteq> 0" "t < 3"
    and sent: "(m, n, hand_over m t c) \<in> nw_sent s" and mem: "nw_mem s n = snd (raft_ready (votes n vs m t))"
  obtains s' where "reachable ms lone_config s'" "(n, m, confirm t) \<in> nw_sent s'" "nw_disk s' = nw_disk s"
    "\<And>k. k \<noteq> n \<Longrightarrow> nw_mem s' k = nw_mem s k"
proof -
  let ?op = "raft_op.Step m (hand_over m t c)"
  define s1 where "s1 = after_op n ?op s"
  define s2 where "s2 = after_drain n s1"
  define s3 where "s3 = after_op n ?op s2"
  define s4 where "s4 = after_drain n s3"
  note w = votes_sel(1) [OF n(2,3), of n] and f = follows_on_sel(1) [OF n(2,3), of n c] and r = repeats_sel [OF n(2,3), of n c]
  have m1: "nw_mem s1 n = follows_on n vs m t c" by (simp add: s1_def after_op_def mem follows_on_def Let_def)
  have m2: "nw_mem s2 n = snd (raft_ready (follows_on n vs m t c))"
    by (simp add: s2_def after_drain_def m1 Let_def case_prod_beta split: option.split)
  have m3: "nw_mem s3 n = repeats n vs m t c" by (simp add: s3_def after_op_def m2 repeats_def Let_def)
  have sent2: "(m, n, hand_over m t c) \<in> nw_sent s2"
    using sent by (simp add: s2_def s1_def quiet_steps)
  have ok: "op_ok ?op r" if "has_room r" for r using that by (simp add: hand_over_def)
  have "reachable ms lone_config s1"
    unfolding s1_def by (rule reachable.Step [OF s net_step.Operate [OF n(1)]])
      (use sent mem ok campaign_room [OF w] n(4) in simp_all)
  then have "reachable ms lone_config s2" unfolding s2_def using reachable.Step net_step.Drain n(1) by blast
  then have "reachable ms lone_config s3"
    unfolding s3_def by (rule reachable.Step [OF _ net_step.Operate [OF n(1)]])
      (use sent2 m2 ok campaign_room [OF f] n(4) in simp_all)
  then have r4: "reachable ms lone_config s4" unfolding s4_def using reachable.Step net_step.Drain n(1) by blast
  let ?rd = "fst (raft_ready (repeats n vs m t c))"
  have "rd_persist ?rd = None" using r(1) by (simp add: drain_sel)
  then have "?rd \<in> set (nw_saved s4 n)" by (simp add: s4_def after_drain_def m3 Let_def case_prod_beta)
  then have r5: "reachable ms lone_config (after_transmit n ?rd s4)" using reachable.Step [OF r4] net_step.Transmit n(1) by blast
  show ?thesis
  proof (rule that [OF r5])
    show "(n, m, confirm t) \<in> nw_sent (after_transmit n ?rd s4)"
      using r(2) by (force simp: after_transmit_def drain_sel)
    show "nw_disk (after_transmit n ?rd s4) = nw_disk s"
      by (simp add: after_transmit_def s4_def s3_def s2_def s1_def quiet_steps)
    show "nw_mem (after_transmit n ?rd s4) k = nw_mem s k" if "k \<noteq> n" for k
      using that by (simp add: after_transmit_def s4_def s3_def s2_def s1_def quiet_steps)
  qed
qed

lemma first_and_second:
  assumes "rf_log r = [first_entry t, second_entry t c]" and "rf_base_index r = 0" and "rf_commit_index r = 2"
  shows "rf_commit_index (snd (raft_ready r)) = 2" "entry_at (snd (raft_ready r)) 2 = Some (second_entry t c)"
  using assms by (simp_all add: raft_ready_def Let_def entry_at_def log_slot_def)

text \<open>What b has on its disk when it votes, and what is left of it after the restart.\<close>

definition kept_disk :: persisted where
  "kept_disk = persisted_snapshot (snd (raft_ready (votes ''b'' [''a'', ''c''] ''a'' 1)))"

lemma kept_blank: "ps_current_term kept_disk = 1" "blank_start ''b'' [''a'', ''c''] kept_disk" "Suc (ps_current_term kept_disk) = 2"
proof -
  show P: "ps_current_term kept_disk = 1" and "blank_start ''b'' [''a'', ''c''] kept_disk"
    using votes_sel(1,2) [of "''a''" "[''a'', ''c'']" 1 "''b''"]
    by (simp_all add: kept_disk_def blank_start_def campaign_def persisted_snapshot_def raft_ready_def Let_def)
  show "Suc (ps_current_term kept_disk) = 2" by (simp only: P)
qed

lemma first_decision:
  obtains s where "reachable trio lone_config s"
    "nw_mem s ''a'' = snd (raft_ready (decides ''a'' [''b'', ''c''] default_persisted ''b'' (ForgetNode ''x'')))"
    "nw_mem s ''b'' = started ''b'' [''a'', ''c''] kept_disk" "nw_mem s ''c'' = started ''c'' [''a'', ''b''] default_persisted"
proof -
  let ?s = "init_network trio lone_config (\<lambda>_. 7)" and ?x = "ForgetNode ''x''"
  have mem: "nw_mem ?s ''a'' = started ''a'' [''b'', ''c''] default_persisted" "nw_mem ?s ''b'' = started ''b'' [''a'', ''c''] default_persisted"
    "nw_mem ?s ''c'' = started ''c'' [''a'', ''b''] default_persisted"
    by (simp_all add: init_network_def started_def)
  have A: "blank_start ''a'' [''b'', ''c''] default_persisted" by (simp add: blank_default)
  have "reachable trio lone_config ?s" by (rule reachable.Init)
  then obtain s1 where s1: "reachable trio lone_config s1" "(''a'', ''b'', hand_over ''a'' 1 ?x) \<in> nw_sent s1"
    "nw_mem s1 = (nw_mem ?s)(''a'' := snd (raft_ready (proposes ''a'' [''b'', ''c''] default_persisted ''b'' ?x)),
       ''b'' := snd (raft_ready (votes ''b'' [''a'', ''c''] ''a'' 1)))" "nw_disk s1 ''b'' = kept_disk"
    by (rule elects [OF _ _ _ A _ _ _ mem(1,2), where t = 1 and c = ?x]) (simp_all add: blank_default kept_disk_def)
  obtain s2 where s2: "reachable trio lone_config s2" "(''b'', ''a'', confirm 1) \<in> nw_sent s2" "nw_disk s2 = nw_disk s1"
    "\<And>k. k \<noteq> ''b'' \<Longrightarrow> nw_mem s2 k = nw_mem s1 k"
    by (rule hasty_leads [OF s1(1) _ _ _ _ s1(2), of "[''a'', ''c'']"]) (simp_all add: s1(3))
  let ?s3 = "after_restart trio lone_config ''b'' 7 s2"
  have s3: "reachable trio lone_config ?s3" using reachable.Step [OF s2(1) net_step.Restart] by simp
  have m3: "nw_mem ?s3 ''a'' = snd (raft_ready (proposes ''a'' [''b'', ''c''] default_persisted ''b'' ?x))"
    "nw_mem ?s3 ''b'' = started ''b'' [''a'', ''c''] kept_disk" "nw_mem ?s3 ''c'' = started ''c'' [''a'', ''b''] default_persisted"
    using s2(3,4) s1(3,4) mem(3) by (simp_all add: after_restart_def started_def)
  note pa = proposes_sel(1) [OF A, of "''b''" 1 ?x]
  have d: "(''b'', ''a'', confirm 1) \<in> nw_sent ?s3" using s2(2) by (simp add: after_restart_def)
  obtain s4 where s4: "leads_to trio ?s3 ''a'' (decides ''a'' [''b'', ''c''] default_persisted ''b'' ?x) s4"
    by (rule handles [OF s3 _ d m3(1) campaign_room [OF pa]]) (simp_all add: blank_default decides_def)
  note e4 = leads_to_sel [OF s4]
  have m4: "nw_mem s4 ''b'' = started ''b'' [''a'', ''c''] kept_disk" "nw_mem s4 ''c'' = started ''c'' [''a'', ''b''] default_persisted"
    using e4(3) m3(2,3) by simp_all
  show ?thesis by (rule that [OF e4(1,2) m4])
qed


end
