(* ===== verification/Raft_Store.thy ===== *)
theory Raft_Store
  imports Raft_Invariants
begin

section \<open>The durable store of a member (\<open>src/raft_store.rs\<close>)\<close>

text \<open>
  The three files of a member, \<open>open\<close> with its line-by-line recovery of the log, and \<open>save\<close> with its
  order of writes. \<open>serde_json\<close> is the parameter \<open>codec\<close>; what the store relies on is \<open>codec_fits\<close>:
  decoding what was encoded gives it back, and a record is a non-empty line without a line feed. The
  operating system is the parameter \<open>disk_io\<close>: whether the directory can be created, which files can be
  read, and for each atomic write (temporary file, \<open>fsync\<close>, \<open>rename\<close>, \<open>fsync\<close> of the directory) whether it
  succeeds, fails before the rename or fails after it. A crash during \<open>save\<close> leaves the files of a failed
  write behind, so the same parameter gives every crash window.
\<close>

subsection \<open>Files and records\<close>

record meta =
  mt_current_term :: nat
  mt_voted_for :: "node_id option"
  mt_commit_index :: nat
  mt_base_index :: nat
  mt_base_term :: nat

definition default_meta :: meta where
  "default_meta =
     \<lparr>mt_current_term = 0, mt_voted_for = None, mt_commit_index = 0, mt_base_index = 0, mt_base_term = 0\<rparr>"

record log_header =
  lh_v :: nat
  lh_base_index :: nat
  lh_base_term :: nat

definition log_format_version :: nat where
  "log_format_version = 1"

datatype store_file = Meta_File | Log_File | Snapshot_File

type_synonym disk = "store_file \<Rightarrow> bytes option"

datatype write_fate = Written | Not_Renamed | Renamed_Unsynced

record disk_io =
  io_dir :: bool
  io_read :: "store_file \<Rightarrow> bool"
  io_write :: "store_file \<Rightarrow> write_fate"

definition good_io :: disk_io where
  "good_io = \<lparr>io_dir = True, io_read = (\<lambda>_. True), io_write = (\<lambda>_. Written)\<rparr>"

record codec =
  enc_meta :: "meta \<Rightarrow> bytes option"
  dec_meta :: "bytes \<Rightarrow> meta option"
  enc_header :: "log_header \<Rightarrow> bytes option"
  dec_header :: "bytes \<Rightarrow> log_header option"
  enc_entry :: "log_entry \<Rightarrow> bytes option"
  dec_entry :: "bytes \<Rightarrow> log_entry option"

datatype store_error =
    Io_Error
  | Meta_Empty | Meta_Invalid | Snapshot_Empty | Encode_Failed
  | Log_Empty_Record nat | Log_Invalid_Record nat | Unsupported_Format nat | Meta_Missing
  | Vote_In_Term_Zero | Base_Mismatch nat nat | Snapshot_Presence | Base_Term_Exceeds nat nat
  | Commit_Precedes_Base nat nat
  | Index_Overflow | Not_Contiguous nat nat | Entry_Term_Zero nat | Term_Descends nat | Term_Exceeds nat nat
  | Commit_Exceeds nat nat

definition lf :: u8 where
  "lf = 10"

definition store_bind :: "store_error + 'a \<Rightarrow> ('a \<Rightarrow> store_error + 'b) \<Rightarrow> store_error + 'b" where
  "store_bind m f = (case m of Inl e \<Rightarrow> Inl e | Inr x \<Rightarrow> f x)"

definition encoded :: "bytes option \<Rightarrow> store_error + bytes" where
  "encoded b = (case b of None \<Rightarrow> Inl Encode_Failed | Some b \<Rightarrow> Inr b)"

lemma store_bind_simps [simp]: "store_bind (Inl e) f = Inl e" "store_bind (Inr x) f = f x"
  by (simp_all add: store_bind_def)

lemma encoded_simps [simp]: "encoded None = Inl Encode_Failed" "encoded (Some b) = Inr b"
  by (simp_all add: encoded_def)

lemma store_bind_Inr: "store_bind m f = Inr y \<longleftrightarrow> (\<exists>x. m = Inr x \<and> f x = Inr y)"
  by (cases m) simp_all

subsection \<open>Validation\<close>

text \<open>The loop over the log: the position, the term before it and the entries left.\<close>

fun validate_entries :: "nat \<Rightarrow> nat \<Rightarrow> nat \<Rightarrow> nat \<Rightarrow> log_entry list \<Rightarrow> store_error + unit" where
  "validate_entries current_term base_index position previous_term [] = Inr ()"
| "validate_entries current_term base_index position previous_term (entry # log) =
     (case Option.bind (checked_add64 base_index 1) (\<lambda>first. checked_add64 first position) of
        None \<Rightarrow> Inl Index_Overflow
      | Some expected \<Rightarrow>
          if le_index entry \<noteq> expected then Inl (Not_Contiguous expected (le_index entry))
          else if le_term entry = 0 then Inl (Entry_Term_Zero (le_index entry))
          else if le_term entry < previous_term then Inl (Term_Descends (le_index entry))
          else if current_term < le_term entry then Inl (Term_Exceeds (le_term entry) (le_index entry))
          else validate_entries current_term base_index (Suc position) (le_term entry) log)"

definition last_recoverable :: "nat \<Rightarrow> log_entry list \<Rightarrow> nat" where
  "last_recoverable base_index log = (if log = [] then base_index else le_index (last log))"

definition validate_persisted :: "persisted \<Rightarrow> store_error + unit" where
  "validate_persisted p =
     (if ps_current_term p = 0 \<and> ps_voted_for p \<noteq> None then Inl Vote_In_Term_Zero
      else if (ps_base_index p = 0) \<noteq> (ps_base_term p = 0)
        then Inl (Base_Mismatch (ps_base_index p) (ps_base_term p))
      else if (0 < ps_base_index p) \<noteq> (ps_snapshot p \<noteq> None) then Inl Snapshot_Presence
      else if ps_current_term p < ps_base_term p
        then Inl (Base_Term_Exceeds (ps_base_term p) (ps_current_term p))
      else if ps_commit_index p < ps_base_index p
        then Inl (Commit_Precedes_Base (ps_commit_index p) (ps_base_index p))
      else store_bind (validate_entries (ps_current_term p) (ps_base_index p) 0 (ps_base_term p) (ps_log p)) (\<lambda>_.
        let last_index = last_recoverable (ps_base_index p) (ps_log p) in
        if last_index < ps_commit_index p then Inl (Commit_Exceeds (ps_commit_index p) last_index) else Inr ()))"

subsection \<open>Writing\<close>

definition atomic_write :: "disk_io \<Rightarrow> store_file \<Rightarrow> bytes \<Rightarrow> disk \<Rightarrow> (store_error + unit) \<times> disk" where
  "atomic_write io path content d =
     (case io_write io path of
        Written \<Rightarrow> (Inr (), d(path \<mapsto> content))
      | Not_Renamed \<Rightarrow> (Inl Io_Error, d)
      | Renamed_Unsynced \<Rightarrow> (Inl Io_Error, d(path \<mapsto> content)))"

definition write_meta :: "codec \<Rightarrow> disk_io \<Rightarrow> meta \<Rightarrow> disk \<Rightarrow> (store_error + unit) \<times> disk" where
  "write_meta cd io meta d =
     (case enc_meta cd meta of
        None \<Rightarrow> (Inl Encode_Failed, d)
      | Some content \<Rightarrow> atomic_write io Meta_File content d)"

fun encode_entries :: "codec \<Rightarrow> log_entry list \<Rightarrow> store_error + bytes" where
  "encode_entries cd [] = Inr []"
| "encode_entries cd (entry # log) =
     store_bind (encoded (enc_entry cd entry)) (\<lambda>line.
     store_bind (encode_entries cd log) (\<lambda>rest. Inr (line @ lf # rest)))"

definition encode_log :: "codec \<Rightarrow> nat \<Rightarrow> nat \<Rightarrow> log_entry list \<Rightarrow> store_error + bytes" where
  "encode_log cd base_index base_term log =
     store_bind (encoded (enc_header cd
       \<lparr>lh_v = log_format_version, lh_base_index = base_index, lh_base_term = base_term\<rparr>)) (\<lambda>line.
     store_bind (encode_entries cd log) (\<lambda>rest. Inr (line @ lf # rest)))"

definition write_log :: "codec \<Rightarrow> disk_io \<Rightarrow> nat \<Rightarrow> nat \<Rightarrow> log_entry list \<Rightarrow> disk \<Rightarrow> (store_error + unit) \<times> disk" where
  "write_log cd io base_index base_term log d =
     (case encode_log cd base_index base_term log of
        Inl e \<Rightarrow> (Inl e, d)
      | Inr buf \<Rightarrow> atomic_write io Log_File buf d)"

definition meta_of :: "persisted \<Rightarrow> meta" where
  "meta_of p =
     \<lparr>mt_current_term = ps_current_term p, mt_voted_for = ps_voted_for p, mt_commit_index = ps_commit_index p,
      mt_base_index = ps_base_index p, mt_base_term = ps_base_term p\<rparr>"

definition save_snapshot :: "disk_io \<Rightarrow> persisted \<Rightarrow> disk \<Rightarrow> (store_error + unit) \<times> disk" where
  "save_snapshot io p d =
     (case ps_snapshot p of None \<Rightarrow> (Inr (), d) | Some data \<Rightarrow> atomic_write io Snapshot_File data d)"

definition store_save :: "codec \<Rightarrow> disk_io \<Rightarrow> persisted \<Rightarrow> disk \<Rightarrow> (store_error + unit) \<times> disk" where
  "store_save cd io p d =
     (case validate_persisted p of
        Inl e \<Rightarrow> (Inl e, d)
      | Inr _ \<Rightarrow>
          (case save_snapshot io p d of
             (Inl e, d) \<Rightarrow> (Inl e, d)
           | (Inr _, d) \<Rightarrow>
               (case write_log cd io (ps_base_index p) (ps_base_term p) (ps_log p) d of
                  (Inl e, d) \<Rightarrow> (Inl e, d)
                | (Inr _, d) \<Rightarrow> write_meta cd io (meta_of p) d)))"

subsection \<open>Opening\<close>

datatype read_result = Content bytes | Not_Found | Read_Failed

definition read_file :: "disk_io \<Rightarrow> disk \<Rightarrow> store_file \<Rightarrow> read_result" where
  "read_file io d f =
     (if \<not> io_read io f then Read_Failed else case d f of None \<Rightarrow> Not_Found | Some b \<Rightarrow> Content b)"

text \<open>\<open>slice::split\<close>: there is always a last piece, empty when the slice ends in the separator.\<close>

definition split_lines :: "bytes \<Rightarrow> bytes list" where
  "split_lines b = split_on lf b"

fun parse_lines ::
  "codec \<Rightarrow> bool \<Rightarrow> bool \<Rightarrow> nat \<Rightarrow> bytes list \<Rightarrow> log_header option \<Rightarrow> log_entry list \<Rightarrow>
     store_error + log_header option \<times> log_entry list" where
  "parse_lines cd terminated no_bytes line_number [] header log = Inr (header, log)"
| "parse_lines cd terminated no_bytes line_number (line # lines) header log =
     (if line = [] then
        if lines = [] \<and> (terminated \<or> no_bytes)
        then parse_lines cd terminated no_bytes (Suc line_number) lines header log
        else Inl (Log_Empty_Record (Suc line_number))
      else if line_number = 0 \<and> dec_header cd line \<noteq> None
        then parse_lines cd terminated no_bytes (Suc line_number) lines (dec_header cd line) log
      else case dec_entry cd line of
             Some entry \<Rightarrow> parse_lines cd terminated no_bytes (Suc line_number) lines header (log @ [entry])
           | None \<Rightarrow>
               if lines = [] \<and> \<not> terminated then Inr (header, log)
               else Inl (Log_Invalid_Record (Suc line_number)))"

definition ends_with_lf :: "bytes \<Rightarrow> bool" where
  "ends_with_lf b \<longleftrightarrow> b \<noteq> [] \<and> last b = lf"

definition parse_log :: "codec \<Rightarrow> bytes \<Rightarrow> store_error + log_header option \<times> log_entry list" where
  "parse_log cd log_bytes =
     parse_lines cd (ends_with_lf log_bytes) (log_bytes = []) 0 (split_lines log_bytes) None []"

definition open_meta :: "codec \<Rightarrow> disk_io \<Rightarrow> disk \<Rightarrow> store_error + meta \<times> bool" where
  "open_meta cd io d =
     (case read_file io d Meta_File of
        Content b \<Rightarrow>
          if b = [] then Inl Meta_Empty
          else (case dec_meta cd b of None \<Rightarrow> Inl Meta_Invalid | Some m \<Rightarrow> Inr (m, False))
      | Not_Found \<Rightarrow> Inr (default_meta, True)
      | Read_Failed \<Rightarrow> Inl Io_Error)"

definition open_snapshot :: "disk_io \<Rightarrow> disk \<Rightarrow> store_error + bytes option" where
  "open_snapshot io d =
     (case read_file io d Snapshot_File of
        Content b \<Rightarrow> if b = [] then Inl Snapshot_Empty else Inr (Some b)
      | Not_Found \<Rightarrow> Inr None
      | Read_Failed \<Rightarrow> Inl Io_Error)"

definition open_log :: "codec \<Rightarrow> disk_io \<Rightarrow> disk \<Rightarrow> store_error + log_header option \<times> log_entry list" where
  "open_log cd io d =
     store_bind
       (case read_file io d Log_File of
          Content b \<Rightarrow> Inr b | Not_Found \<Rightarrow> Inr [] | Read_Failed \<Rightarrow> Inl Io_Error) (\<lambda>log_bytes.
     store_bind (parse_log cd log_bytes) (\<lambda>(header, log).
       case header of
         Some h \<Rightarrow> if lh_v h \<noteq> log_format_version then Inl (Unsupported_Format (lh_v h)) else Inr (header, log)
       | None \<Rightarrow> Inr (header, log)))"

text \<open>What \<open>open\<close> has recovered when it comes to the validation.\<close>

definition recover :: "meta \<Rightarrow> bool \<Rightarrow> bytes option \<Rightarrow> log_header option \<Rightarrow> log_entry list \<Rightarrow> store_error + persisted" where
  "recover meta meta_was_missing snapshot header log =
     (let (base_index, base_term) =
            (case header of Some h \<Rightarrow> (lh_base_index h, lh_base_term h) | None \<Rightarrow> (mt_base_index meta, mt_base_term meta))
      in if meta_was_missing \<and> (0 < base_index \<or> log \<noteq> [] \<or> snapshot \<noteq> None) then Inl Meta_Missing
         else Inr \<lparr>ps_current_term = mt_current_term meta, ps_voted_for = mt_voted_for meta,
                   ps_commit_index = max (mt_commit_index meta) base_index, ps_log = log,
                   ps_base_index = base_index, ps_base_term = base_term, ps_snapshot = snapshot\<rparr>)"

definition store_open :: "codec \<Rightarrow> disk_io \<Rightarrow> disk \<Rightarrow> (store_error + persisted) \<times> disk" where
  "store_open cd io d =
     (if \<not> io_dir io then (Inl Io_Error, d)
      else
        case store_bind (open_meta cd io d) (\<lambda>(meta, missing).
             store_bind (open_snapshot io d) (\<lambda>snapshot.
             store_bind (open_log cd io d) (\<lambda>(header, log).
             store_bind (recover meta missing snapshot header log) (\<lambda>restored.
             store_bind (validate_persisted restored) (\<lambda>_. Inr restored))))) of
          Inl e \<Rightarrow> (Inl e, d)
        | Inr restored \<Rightarrow>
            (case write_log cd io (ps_base_index restored) (ps_base_term restored) (ps_log restored) d of
               (Inl e, d) \<Rightarrow> (Inl e, d)
             | (Inr _, d) \<Rightarrow> (Inr restored, d)))"

text \<open>
  The documented behaviour of the codec that the store relies on, for the records of one state:
  encoding succeeds, gives a non-empty line without a line feed, and decoding it gives the record back.
\<close>

definition good_record :: "('a \<Rightarrow> bytes option) \<Rightarrow> (bytes \<Rightarrow> 'a option) \<Rightarrow> 'a \<Rightarrow> bool" where
  "good_record enc dec x \<longleftrightarrow>
     (case enc x of None \<Rightarrow> False | Some b \<Rightarrow> b \<noteq> [] \<and> lf \<notin> set b \<and> dec b = Some x)"

definition header_of :: "persisted \<Rightarrow> log_header" where
  "header_of p = \<lparr>lh_v = log_format_version, lh_base_index = ps_base_index p, lh_base_term = ps_base_term p\<rparr>"

definition codec_fits :: "codec \<Rightarrow> persisted \<Rightarrow> bool" where
  "codec_fits cd p \<longleftrightarrow>
     good_record (enc_meta cd) (dec_meta cd) (meta_of p) \<and>
     good_record (enc_header cd) (dec_header cd) (header_of p) \<and>
     list_all (good_record (enc_entry cd) (dec_entry cd)) (ps_log p)"

lemma good_recordE:
  assumes "good_record enc dec x"
  obtains b where "enc x = Some b" "b \<noteq> []" "lf \<notin> set b" "dec b = Some x"
  using assms by (auto simp: good_record_def split: option.splits)

subsection \<open>Validation is the engine's well-formedness\<close>

lemma expected_index:
  "Option.bind (checked_add64 b 1) (\<lambda>first. checked_add64 first n) =
     (if b + 1 + n \<le> u64_max then Some (b + 1 + n) else None)"
  by (auto simp: checked_add64_def)

lemma validate_entries_iff:
  "validate_entries t b n prev es = Inr () \<longleftrightarrow>
     (es = [] \<or> b + 1 + n + length es \<le> Suc u64_max) \<and> (\<forall>i < length es. le_index (es ! i) = b + 1 + n + i) \<and>
     sorted (prev # map le_term es) \<and> (\<forall>e \<in> set es. 0 < le_term e \<and> le_term e \<le> t)"
proof (induction es arbitrary: n prev)
  case (Cons e es)
  let ?idx = "\<forall>i < length es. le_index (es ! i) = b + 1 + Suc n + i"
  have idx: "(\<forall>i < length (e # es). le_index ((e # es) ! i) = b + 1 + n + i) \<longleftrightarrow> le_index e = b + 1 + n \<and> ?idx"
    by (auto simp: less_Suc_eq_0_disj nth_Cons')
  show ?case
    unfolding idx validate_entries.simps expected_index
    by (auto simp: Cons.IH)
qed simp

lemma validated_terms:
  assumes "validate_persisted p = Inr ()" and "e \<in> set (ps_log p)"
  shows "le_term e \<le> ps_current_term p"
proof -
  have "validate_entries (ps_current_term p) (ps_base_index p) 0 (ps_base_term p) (ps_log p) = Inr ()"
    using assms(1) by (simp add: validate_persisted_def store_bind_Inr split: if_splits)
  with assms(2) show ?thesis by (simp add: validate_entries_iff)
qed

lemma wf_log_last: "wf_log b bt es t \<Longrightarrow> last_recoverable b es = b + length es"
  by (auto simp: wf_log_def last_recoverable_def last_conv_nth)

lemma validate_persisted_iff:
  assumes "ps_base_index p \<le> u64_max"
  shows "validate_persisted p = Inr () \<longleftrightarrow> persisted_wf nid peers p"
proof -
  have wf: "wf_log (ps_base_index p) (ps_base_term p) (ps_log p) (ps_current_term p) \<longleftrightarrow>
    validate_entries (ps_current_term p) (ps_base_index p) 0 (ps_base_term p) (ps_log p) = Inr () \<and>
    ps_base_term p \<le> ps_current_term p \<and> (ps_base_index p = 0 \<longleftrightarrow> ps_base_term p = 0)"
    unfolding validate_entries_iff using assms by (auto simp: wf_log_def)
  show ?thesis
  proof (cases "wf_log (ps_base_index p) (ps_base_term p) (ps_log p) (ps_current_term p)")
    case True
    then show ?thesis using wf wf_log_last [OF True]
      by (auto simp: validate_persisted_def persisted_wf_def not_less Let_def)
  next
    case False
    then show ?thesis
      by (auto simp: wf validate_persisted_def persisted_wf_def not_less store_bind_Inr)
  qed
qed

subsection \<open>Lines\<close>

lemma split_lines_last: "lf \<notin> set l \<Longrightarrow> split_lines l = [l]"
  unfolding split_lines_def by (induction l) auto

lemma split_lines_append: "lf \<notin> set l \<Longrightarrow> split_lines (l @ lf # rest) = l # split_lines rest"
  unfolding split_lines_def by (induction l) auto

lemma ends_with_lf_append: "rest \<noteq> [] \<Longrightarrow> ends_with_lf (l @ rest) = ends_with_lf rest"
  by (simp add: ends_with_lf_def)

lemma ends_with_lf_fragment: "lf \<notin> set l \<Longrightarrow> \<not> ends_with_lf l"
  unfolding ends_with_lf_def using last_in_set by metis

text \<open>The text of a log as \<open>write_log\<close> produces it.\<close>

definition entry_lines :: "codec \<Rightarrow> log_entry list \<Rightarrow> bytes" where
  "entry_lines cd log = concat (map (\<lambda>e. the (enc_entry cd e) @ [lf]) log)"

definition log_text :: "codec \<Rightarrow> persisted \<Rightarrow> bytes" where
  "log_text cd p = the (enc_header cd (header_of p)) @ lf # entry_lines cd (ps_log p)"

lemma encode_entries_good:
  "list_all (good_record (enc_entry cd) (dec_entry cd)) log \<Longrightarrow> encode_entries cd log = Inr (entry_lines cd log)"
  by (induction log) (auto simp: entry_lines_def elim: good_recordE)

lemma write_log_good:
  assumes "codec_fits cd p"
  shows "write_log cd io (ps_base_index p) (ps_base_term p) (ps_log p) d = atomic_write io Log_File (log_text cd p) d"
proof -
  have "good_record (enc_header cd) (dec_header cd) (header_of p)" using assms by (simp add: codec_fits_def)
  then obtain h where "enc_header cd (header_of p) = Some h" by (rule good_recordE)
  then show ?thesis
    using assms by (simp add: write_log_def encode_log_def codec_fits_def encode_entries_good log_text_def header_of_def)
qed

lemma write_meta_good:
  assumes "codec_fits cd p"
  shows "write_meta cd io (meta_of p) d = atomic_write io Meta_File (the (enc_meta cd (meta_of p))) d"
proof -
  have "good_record (enc_meta cd) (dec_meta cd) (meta_of p)" using assms by (simp add: codec_fits_def)
  then obtain m where "enc_meta cd (meta_of p) = Some m" by (rule good_recordE)
  then show ?thesis by (simp add: write_meta_def)
qed

text \<open>
  Recovery of a text: the entries of complete lines come back, and a last fragment without line feed
  that is no record is dropped.
\<close>

lemma parse_entry_lines:
  assumes "list_all (good_record (enc_entry cd) (dec_entry cd)) log" and "lf \<notin> set frag" and "0 < n"
    and "if frag = [] then fin else \<not> fin \<and> dec_entry cd frag = None"
  shows "parse_lines cd fin no n (split_lines (entry_lines cd log @ frag)) h acc = Inr (h, acc @ log)"
  using assms
proof (induction log arbitrary: n acc)
  case Nil
  then show ?case by (auto simp: entry_lines_def split_lines_last)
next
  case (Cons e log)
  obtain b where b: "enc_entry cd e = Some b" "b \<noteq> []" "lf \<notin> set b" "dec_entry cd b = Some e"
    using Cons.prems(1) by (auto elim: good_recordE)
  have "split_lines (entry_lines cd (e # log) @ frag) = b # split_lines (entry_lines cd log @ frag)"
    using b split_lines_append [of b "entry_lines cd log @ frag"] by (simp add: entry_lines_def)
  then show ?case using b Cons by simp
qed

lemma parse_log_text:
  assumes fits: "codec_fits cd p" and "lf \<notin> set frag" and "frag \<noteq> [] \<Longrightarrow> dec_entry cd frag = None"
  shows "parse_log cd (log_text cd p @ frag) = Inr (Some (header_of p), ps_log p)"
proof -
  have "good_record (enc_header cd) (dec_header cd) (header_of p)" using fits by (simp add: codec_fits_def)
  then obtain h where h: "enc_header cd (header_of p) = Some h" "h \<noteq> []" "lf \<notin> set h"
    "dec_header cd h = Some (header_of p)" by (rule good_recordE)
  have entry_end: "ends_with_lf (lf # entry_lines cd log)" for log
    by (induction log rule: rev_induct) (simp_all add: ends_with_lf_def entry_lines_def)
  have "ends_with_lf (log_text cd p @ frag) \<longleftrightarrow> frag = []"
    using ends_with_lf_append [of frag "log_text cd p"] ends_with_lf_fragment [OF assms(2)] entry_end [of "ps_log p"]
    by (auto simp: log_text_def ends_with_lf_append)
  moreover have "split_lines (log_text cd p @ frag) = h # split_lines (entry_lines cd (ps_log p) @ frag)"
    using h split_lines_append [of h "entry_lines cd (ps_log p) @ frag"] by (simp add: log_text_def)
  moreover have "log_text cd p @ frag \<noteq> []" by (simp add: log_text_def)
  ultimately show ?thesis
    using h fits parse_entry_lines [of cd "ps_log p" frag 1 "frag = []"] assms(2,3)
    by (simp add: parse_log_def codec_fits_def)
qed

subsection \<open>What a disk holds\<close>

text \<open>
  The files of a disk when the last complete writes of the three files stem from the states \<open>m\<close> (meta),
  \<open>l\<close> (log) and from a snapshot, and what \<open>open\<close> makes of them.
\<close>

definition holds :: "codec \<Rightarrow> disk \<Rightarrow> persisted \<Rightarrow> persisted \<Rightarrow> bytes option \<Rightarrow> bool" where
  "holds cd d m l snapshot \<longleftrightarrow>
     d Meta_File = enc_meta cd (meta_of m) \<and> d Log_File = Some (log_text cd l) \<and> d Snapshot_File = snapshot"

definition merged :: "persisted \<Rightarrow> persisted \<Rightarrow> bytes option \<Rightarrow> persisted" where
  "merged m l snapshot =
     \<lparr>ps_current_term = ps_current_term m, ps_voted_for = ps_voted_for m,
      ps_commit_index = max (ps_commit_index m) (ps_base_index l), ps_log = ps_log l,
      ps_base_index = ps_base_index l, ps_base_term = ps_base_term l, ps_snapshot = snapshot\<rparr>"

lemma merged_same: "ps_base_index p \<le> ps_commit_index p \<Longrightarrow> merged p p (ps_snapshot p) = p"
  by (simp add: merged_def max_def)

lemma log_text_merged [simp]: "log_text cd (merged m l sn) = log_text cd l"
  by (simp add: log_text_def merged_def header_of_def)

lemma open_torn:
  assumes meta: "good_record (enc_meta cd) (dec_meta cd) (meta_of m)" and log: "codec_fits cd l"
    and d: "d Meta_File = enc_meta cd (meta_of m)" "d Log_File = Some (log_text cd l @ frag)"
      "d Snapshot_File = snapshot"
    and frag: "lf \<notin> set frag" "frag \<noteq> [] \<Longrightarrow> dec_entry cd frag = None" and "snapshot \<noteq> Some []"
  shows "store_open cd good_io d =
    (case validate_persisted (merged m l snapshot) of
       Inl e \<Rightarrow> (Inl e, d) | Inr _ \<Rightarrow> (Inr (merged m l snapshot), d(Log_File \<mapsto> log_text cd l)))"
proof -
  obtain b where "enc_meta cd (meta_of m) = Some b" "b \<noteq> []" "dec_meta cd b = Some (meta_of m)"
    using meta by (rule good_recordE)
  then have "open_meta cd good_io d = Inr (meta_of m, False)"
    using d by (simp add: open_meta_def read_file_def good_io_def)
  moreover have "open_snapshot good_io d = Inr snapshot"
    using d assms(8) by (cases snapshot) (simp_all add: open_snapshot_def read_file_def good_io_def)
  moreover have "open_log cd good_io d = Inr (Some (header_of l), ps_log l)"
    using d parse_log_text [OF log frag]
    by (simp add: open_log_def read_file_def good_io_def header_of_def)
  moreover have "recover (meta_of m) False snapshot (Some (header_of l)) (ps_log l) = Inr (merged m l snapshot)"
    by (simp add: recover_def header_of_def meta_of_def merged_def)
  moreover have "write_log cd good_io (ps_base_index l) (ps_base_term l) (ps_log l) d =
      (Inr (), d(Log_File \<mapsto> log_text cd l))"
    using write_log_good [OF log] by (simp add: atomic_write_def good_io_def)
  moreover have "io_dir good_io" by (simp add: good_io_def)
  moreover have "ps_base_index (merged m l snapshot) = ps_base_index l"
    "ps_base_term (merged m l snapshot) = ps_base_term l" "ps_log (merged m l snapshot) = ps_log l"
    by (simp_all add: merged_def)
  ultimately show ?thesis
    by (simp add: store_open_def split: sum.splits)
qed

lemma open_holds:
  assumes "codec_fits cd m" and "codec_fits cd l" and "holds cd d m l snapshot" and "snapshot \<noteq> Some []"
  shows "fst (store_open cd good_io d) =
    (case validate_persisted (merged m l snapshot) of Inl e \<Rightarrow> Inl e | Inr _ \<Rightarrow> Inr (merged m l snapshot))"
  using assms open_torn [of cd m l d "[]" snapshot] by (simp add: codec_fits_def holds_def split: sum.splits)

text \<open>The windows of \<open>save\<close>: nothing written, the snapshot, the snapshot and the log, everything.\<close>

definition kept_snapshot :: "persisted \<Rightarrow> bytes option \<Rightarrow> bytes option" where
  "kept_snapshot p old = (case ps_snapshot p of None \<Rightarrow> old | Some data \<Rightarrow> Some data)"

lemma save_windows:
  assumes fits: "codec_fits cd p" and d: "holds cd d old old sn"
  defines "sn' \<equiv> kept_snapshot p sn"
  shows "holds cd (snd (store_save cd io p d)) old old sn \<or>
    holds cd (snd (store_save cd io p d)) old old sn' \<or>
    holds cd (snd (store_save cd io p d)) old p sn' \<or>
    holds cd (snd (store_save cd io p d)) p p sn'"
proof -
  obtain b where b: "enc_meta cd (meta_of p) = Some b"
    using fits by (auto simp: codec_fits_def elim: good_recordE)
  show ?thesis
    using d unfolding store_save_def save_snapshot_def sn'_def kept_snapshot_def
      write_log_good [OF fits] write_meta_good [OF fits]
    by (cases "ps_snapshot p"; cases "io_write io Snapshot_File"; cases "io_write io Log_File";
        cases "io_write io Meta_File")
      (simp_all add: atomic_write_def holds_def b split: sum.splits)
qed

lemma save_done:
  assumes fits: "codec_fits cd p" and "fst (store_save cd io p d) = Inr ()"
  shows "holds cd (snd (store_save cd io p d)) p p (kept_snapshot p (d Snapshot_File)) \<and>
    validate_persisted p = Inr ()"
proof -
  obtain b where b: "enc_meta cd (meta_of p) = Some b"
    using fits by (auto simp: codec_fits_def elim: good_recordE)
  have v: "validate_persisted p = Inr ()"
    using assms(2) by (cases "validate_persisted p") (simp_all add: store_save_def)
  show ?thesis
    using assms(2) unfolding store_save_def save_snapshot_def kept_snapshot_def v
      write_log_good [OF fits] write_meta_good [OF fits]
    by (cases "ps_snapshot p"; cases "io_write io Snapshot_File"; cases "io_write io Log_File";
        cases "io_write io Meta_File")
      (simp_all add: atomic_write_def holds_def b)
qed

subsection \<open>A concrete codec\<close>

text \<open>Numbers in unary; states with commands in their log have no encoding.\<close>

definition unary :: "nat \<Rightarrow> bytes" where
  "unary n = replicate n 1 @ [2]"

fun read_unary :: "bytes \<Rightarrow> (nat \<times> bytes) option" where
  "read_unary [] = None"
| "read_unary (b # bs) =
     (if b = 1 then map_option (\<lambda>(n, rest). (Suc n, rest)) (read_unary bs)
      else if b = 2 then Some (0, bs) else None)"

definition unary_codec :: codec where
  "unary_codec =
     \<lparr>enc_meta = (\<lambda>m. Some (unary (mt_current_term m) @ unary (mt_commit_index m) @ unary (mt_base_index m) @
        unary (mt_base_term m) @ (case mt_voted_for m of None \<Rightarrow> [] | Some v \<Rightarrow> 3 # map of_char v))),
      dec_meta = (\<lambda>b.
        Option.bind (read_unary b) (\<lambda>(t, b).
        Option.bind (read_unary b) (\<lambda>(c, b).
        Option.bind (read_unary b) (\<lambda>(i, b).
        Option.bind (read_unary b) (\<lambda>(bt, b). Some
          \<lparr>mt_current_term = t,
           mt_voted_for = (if b = [] then None else Some (map (\<lambda>w. char_of (unat w)) (tl b))),
           mt_commit_index = c, mt_base_index = i, mt_base_term = bt\<rparr>))))),
      enc_header = (\<lambda>h. Some (unary (lh_v h) @ unary (lh_base_index h) @ unary (lh_base_term h))),
      dec_header = (\<lambda>b.
        Option.bind (read_unary b) (\<lambda>(v, b).
        Option.bind (read_unary b) (\<lambda>(i, b).
        Option.bind (read_unary b) (\<lambda>(t, b).
          if b = [] then Some \<lparr>lh_v = v, lh_base_index = i, lh_base_term = t\<rparr> else None)))),
      enc_entry = (\<lambda>e. if le_command e = None then Some (unary (le_term e) @ unary (le_index e)) else None),
      dec_entry = (\<lambda>b.
        Option.bind (read_unary b) (\<lambda>(t, b).
        Option.bind (read_unary b) (\<lambda>(i, b).
          if b = [] then Some \<lparr>le_term = t, le_index = i, le_command = None\<rparr> else None)))\<rparr>"

definition sample_entry :: "nat \<Rightarrow> nat \<Rightarrow> log_entry" where
  "sample_entry t i = \<lparr>le_term = t, le_index = i, le_command = None\<rparr>"

definition sample_saved :: persisted where
  "sample_saved =
     \<lparr>ps_current_term = 1, ps_voted_for = Some ''a'', ps_commit_index = 1,
      ps_log = [sample_entry 1 1, sample_entry 1 2], ps_base_index = 0, ps_base_term = 0, ps_snapshot = None\<rparr>"

definition sample_disk :: "persisted \<Rightarrow> disk" where
  "sample_disk p = (\<lambda>f. case f of
     Meta_File \<Rightarrow> enc_meta unary_codec (meta_of p) | Log_File \<Rightarrow> Some (log_text unary_codec p)
   | Snapshot_File \<Rightarrow> ps_snapshot p)"

lemma sample_disk_holds: "holds unary_codec (sample_disk p) p p (ps_snapshot p)"
  by (simp add: holds_def sample_disk_def)

lemma sample_fits:
  "codec_fits unary_codec sample_saved"
  "codec_fits unary_codec (sample_saved\<lparr>ps_commit_index := 2\<rparr>)"
  "codec_fits unary_codec (sample_saved\<lparr>ps_current_term := 2, ps_log := [sample_entry 1 1, sample_entry 1 2, sample_entry 2 3]\<rparr>)"
  "codec_fits unary_codec (sample_saved\<lparr>ps_base_index := 1, ps_base_term := 1, ps_log := [sample_entry 1 2], ps_snapshot := Some [7]\<rparr>)"
  by code_simp+

subsection \<open>Properties\<close>

text \<open>
  C26. Saving and reopening is the identity: when \<open>save\<close> reports success, a later \<open>open\<close> of the directory
  returns exactly the saved term, vote, commit index, log and snapshot base, and leaves the disk as
  it is. The state's records must have an encoding, its snapshot must not be the empty byte string
  (\<open>open\<close> refuses an empty snapshot file), and a state without snapshot must not be saved over one
  that has a snapshot file.
\<close>

theorem save_open_roundtrip:
  assumes "codec_fits cd p" and "fst (store_save cd io p d) = Inr ()"
    and "ps_snapshot p \<noteq> Some []" and "ps_snapshot p = None \<Longrightarrow> d Snapshot_File = None"
  shows "store_open cd good_io (snd (store_save cd io p d)) = (Inr p, snd (store_save cd io p d))"
proof -
  let ?d = "snd (store_save cd io p d)"
  have sn: "kept_snapshot p (d Snapshot_File) = ps_snapshot p"
    using assms(4) by (cases "ps_snapshot p") (simp_all add: kept_snapshot_def)
  have h: "holds cd ?d p p (ps_snapshot p)" and v: "validate_persisted p = Inr ()"
    using save_done [OF assms(1,2)] sn by simp_all
  have "merged p p (ps_snapshot p) = p"
    using v by (intro merged_same) (simp add: validate_persisted_def split: if_splits)
  moreover have "?d(Log_File \<mapsto> log_text cd p) = ?d" using h by (auto simp: holds_def)
  ultimately show ?thesis
    using open_torn [of cd p p ?d "[]" "ps_snapshot p"] h v assms(1,3) by (simp add: holds_def codec_fits_def)
qed

theorem save_open_roundtrip_witness:
  "store_open unary_codec good_io (snd (store_save unary_codec good_io sample_saved (\<lambda>_. None))) =
     (Inr sample_saved, snd (store_save unary_codec good_io sample_saved (\<lambda>_. None)))"
proof (rule save_open_roundtrip [OF sample_fits(1)])
  have "validate_persisted sample_saved = Inr ()" by code_simp
  then show "fst (store_save unary_codec good_io sample_saved (\<lambda>_. None)) = Inr ()"
    using write_log_good [OF sample_fits(1)] write_meta_good [OF sample_fits(1)]
    by (simp add: store_save_def save_snapshot_def sample_saved_def atomic_write_def good_io_def)
qed (simp_all add: sample_saved_def)

text \<open>
  \<open>save\<close> accepts every state that a well-formed engine hands out, so a member never fails closed on
  its own state: the validation of the store is exactly the well-formedness the engine keeps.
\<close>

theorem engine_state_saves:
  assumes "raft_wf r" and "codec_fits cd (persisted_snapshot r)"
  shows "validate_persisted (persisted_snapshot r) = Inr () \<and>
    fst (store_save cd good_io (persisted_snapshot r) d) = Inr ()"
proof -
  let ?p = "persisted_snapshot r"
  have wf: "persisted_wf (rf_id r) (rf_peers r) ?p" by (rule persisted_wf_snapshot [OF assms(1)])
  then have "ps_base_index ?p \<le> u64_max" by (simp add: persisted_wf_def wf_log_def)
  with wf validate_persisted_iff have v: "validate_persisted ?p = Inr ()" by blast
  then have "fst (store_save cd good_io ?p d) = Inr ()"
    using write_log_good [OF assms(2)] write_meta_good [OF assms(2)]
    by (cases "ps_snapshot ?p") (simp_all add: store_save_def save_snapshot_def atomic_write_def good_io_def)
  with v show ?thesis by simp
qed

theorem engine_state_saves_witness:
  "fst (store_save unary_codec good_io (persisted_snapshot (raft_new ''a'' [] default_raft_config 7 sample_saved)) (\<lambda>_. None)) = Inr ()"
proof -
  have wf: "persisted_wf ''a'' [] sample_saved"
    by (rule validate_persisted_iff [THEN iffD1]) (simp add: sample_saved_def, code_simp)
  have same: "persisted_snapshot (raft_new ''a'' [] cfg seed sample_saved) = sample_saved" for cfg seed
    by (simp add: persisted_snapshot_def)
  show ?thesis
    using engine_state_saves [OF raft_wf_new [OF wf], where cd = unary_codec] sample_fits(1)
    by (simp add: same)
qed

text \<open>
  What \<open>open\<close> returns is always a state the engine can start from: whatever bytes the three files
  hold, if \<open>open\<close> succeeds and the snapshot base is a \<open>u64\<close>, the restored state is well formed and so is
  the engine built from it.
\<close>

theorem open_state_is_wf:
  assumes "fst (store_open cd io d) = Inr p" and "ps_base_index p \<le> u64_max"
  shows "persisted_wf nid peers p \<and> raft_wf (raft_new nid peers cfg seed p)"
proof -
  have "validate_persisted p = Inr ()"
    using assms(1)
    by (auto simp: store_open_def store_bind_Inr split: if_splits sum.splits prod.splits)
  with validate_persisted_iff [OF assms(2)] have "persisted_wf nid peers p" by blast
  with raft_wf_new show ?thesis by blast
qed

theorem open_state_is_wf_witness:
  "raft_wf (raft_new ''a'' [''b''] default_raft_config 7 sample_saved)"
proof -
  have "merged sample_saved sample_saved (ps_snapshot sample_saved) = sample_saved"
    by (rule merged_same) (simp add: sample_saved_def)
  moreover have "validate_persisted sample_saved = Inr ()" by code_simp
  ultimately have "fst (store_open unary_codec good_io (sample_disk sample_saved)) = Inr sample_saved"
    using open_holds [OF sample_fits(1,1) sample_disk_holds] by (simp add: sample_saved_def)
  then show ?thesis
    using open_state_is_wf [where nid = "''a''" and peers = "[''b'']" and p = sample_saved] by (simp add: sample_saved_def)
qed

text \<open>
  C11. Crash safety of \<open>save\<close>. The directory holds the state \<open>old\<close> and a save of the state \<open>p\<close> ends in any
  way: rejected, failed or crashed before or after any of its three renames, or complete. If the
  member can be opened again, it comes back with one of four states: the old one, the old one with the
  new snapshot bytes, the new log and base under the old term and vote with the commit index raised to
  the new base, or the new one. No vote, no term and no committed entry outside these is ever invented.
\<close>

theorem crash_recovery_exact:
  assumes "codec_fits cd old" and "codec_fits cd p" and "holds cd d old old (ps_snapshot old)"
    and "ps_base_index old \<le> ps_commit_index old" and "ps_base_index p \<le> ps_commit_index p"
    and "ps_snapshot old \<noteq> Some []" and "ps_snapshot p \<noteq> Some []"
    and "ps_snapshot p = None \<Longrightarrow> ps_snapshot old = None"
    and "fst (store_open cd good_io (snd (store_save cd io p d))) = Inr q"
  shows "q \<in> {old, old\<lparr>ps_snapshot := ps_snapshot p\<rparr>,
    p\<lparr>ps_current_term := ps_current_term old, ps_voted_for := ps_voted_for old,
      ps_commit_index := max (ps_commit_index old) (ps_base_index p)\<rparr>, p}"
proof -
  let ?d = "snd (store_save cd io p d)"
  have sn: "kept_snapshot p (ps_snapshot old) = ps_snapshot p"
    using assms(8) by (cases "ps_snapshot p") (simp_all add: kept_snapshot_def)
  have opened: "q = merged m l s"
    if "holds cd ?d m l s" "codec_fits cd m" "codec_fits cd l" "s \<noteq> Some []" for m l s
    using open_holds [OF that(2,3,1,4)] assms(9) by (simp split: sum.splits)
  have "q = merged old old (ps_snapshot old) \<or> q = merged old old (ps_snapshot p) \<or>
      q = merged old p (ps_snapshot p) \<or> q = merged p p (ps_snapshot p)"
    using save_windows [OF assms(2,3), of io] opened assms(1,2,6,7) unfolding sn by blast
  moreover have "merged old old (ps_snapshot p) = old\<lparr>ps_snapshot := ps_snapshot p\<rparr>"
    using assms(4) by (simp add: merged_def max_def)
  moreover have "merged old p (ps_snapshot p) = p\<lparr>ps_current_term := ps_current_term old,
      ps_voted_for := ps_voted_for old, ps_commit_index := max (ps_commit_index old) (ps_base_index p)\<rparr>"
    by (simp add: merged_def)
  ultimately show ?thesis using merged_same [OF assms(4)] merged_same [OF assms(5)] by auto
qed

definition fails_at :: "store_file \<Rightarrow> disk_io" where
  "fails_at f = good_io\<lparr>io_write := (\<lambda>g. if g = f then Not_Renamed else Written)\<rparr>"

theorem crash_recovery_exact_witness:
  "sample_saved \<in> {sample_saved, sample_saved\<lparr>ps_snapshot := None\<rparr>, sample_saved, sample_saved\<lparr>ps_commit_index := 2\<rparr>} \<and>
   fst (store_open unary_codec good_io (snd (store_save unary_codec (fails_at Meta_File)
     (sample_saved\<lparr>ps_commit_index := 2\<rparr>) (sample_disk sample_saved)))) = Inr sample_saved"
proof -
  have run: "fst (store_open unary_codec good_io (snd (store_save unary_codec (fails_at Meta_File)
     (sample_saved\<lparr>ps_commit_index := 2\<rparr>) (sample_disk sample_saved)))) = Inr sample_saved"
    by code_simp
  show ?thesis
    using crash_recovery_exact [OF sample_fits(1,2) sample_disk_holds _ _ _ _ _ run] run
    by (simp add: sample_saved_def)
qed

text \<open>
  C29. A crash during \<open>save\<close> leaves the member bootable as long as the save neither advances the term nor
  writes the first snapshot: then \<open>open\<close> succeeds after every failure of the three writes, with a commit
  index that is not below the old one.
\<close>

theorem crash_recovery_boots:
  assumes "codec_fits cd old" and "codec_fits cd p" and "holds cd d old old (ps_snapshot old)"
    and "persisted_wf nid peers old" and "persisted_wf nid peers p"
    and "ps_snapshot old \<noteq> Some []" and "ps_snapshot p \<noteq> Some []"
    and "ps_snapshot p = None \<longleftrightarrow> ps_snapshot old = None"
    and "ps_current_term p = ps_current_term old" and "ps_commit_index old \<le> ps_commit_index p"
  shows "\<exists>q. fst (store_open cd good_io (snd (store_save cd io p d))) = Inr q \<and>
    ps_commit_index old \<le> ps_commit_index q \<and> ps_current_term q = ps_current_term old"
proof -
  let ?d = "snd (store_save cd io p d)"
  have sn: "kept_snapshot p (ps_snapshot old) = ps_snapshot p"
    using assms(8) by (cases "ps_snapshot p") (simp_all add: kept_snapshot_def)
  have opens: "\<exists>q. fst (store_open cd good_io ?d) = Inr q \<and> ps_commit_index old \<le> ps_commit_index q \<and>
      ps_current_term q = ps_current_term old"
    if h: "holds cd ?d m l s" "codec_fits cd m" "codec_fits cd l" "s \<noteq> Some []" and wf: "persisted_wf nid peers (merged m l s)"
      and m: "ps_commit_index old \<le> ps_commit_index m" "ps_current_term m = ps_current_term old" for m l s
  proof -
    have "ps_base_index (merged m l s) \<le> u64_max" using wf by (simp add: persisted_wf_def wf_log_def)
    then have "validate_persisted (merged m l s) = Inr ()" using wf validate_persisted_iff by blast
    then show ?thesis using open_holds [OF h(2,3,1,4)] m by (simp add: merged_def)
  qed
  have "persisted_wf nid peers (merged old old (ps_snapshot old))"
    "persisted_wf nid peers (merged old old (ps_snapshot p))"
    "persisted_wf nid peers (merged old p (ps_snapshot p))"
    "persisted_wf nid peers (merged p p (ps_snapshot p))"
    using assms(4,5,8-10) by (auto simp: persisted_wf_def merged_def max_def)
  then show ?thesis
    using save_windows [OF assms(2,3), of io] opens assms(1,2,6,7,9,10) unfolding sn by (metis order_refl)
qed

theorem crash_recovery_boots_witness:
  "\<exists>q. fst (store_open unary_codec good_io (snd (store_save unary_codec (fails_at Log_File)
     (sample_saved\<lparr>ps_commit_index := 2\<rparr>) (sample_disk sample_saved)))) = Inr q \<and> 1 \<le> ps_commit_index q"
proof -
  have "validate_persisted sample_saved = Inr ()" "validate_persisted (sample_saved\<lparr>ps_commit_index := 2\<rparr>) = Inr ()"
    by code_simp+
  moreover have "ps_base_index sample_saved \<le> u64_max" "ps_base_index (sample_saved\<lparr>ps_commit_index := 2\<rparr>) \<le> u64_max"
    by (simp_all add: sample_saved_def)
  ultimately have "persisted_wf ''a'' [] sample_saved" "persisted_wf ''a'' [] (sample_saved\<lparr>ps_commit_index := 2\<rparr>)"
    using validate_persisted_iff by blast+
  from crash_recovery_boots [OF sample_fits(1,2) sample_disk_holds this, of "fails_at Log_File"] show ?thesis
    by (auto simp: sample_saved_def)
qed



text \<open>
  C27. Recovery of a torn log. The log file ends in a fragment without line feed that is no record, after
  the first \<open>k\<close> entries of a valid state whose meta and snapshot files are intact. \<open>open\<close> drops the fragment
  and returns the state with these \<open>k\<close> entries if they contain everything committed; otherwise it refuses
  to open rather than lose a committed entry.
\<close>

theorem torn_log_recovery:
  assumes fits: "codec_fits cd p" and valid: "validate_persisted p = Inr ()" and k: "k \<le> length (ps_log p)"
    and d: "d Meta_File = enc_meta cd (meta_of p)" "d Snapshot_File = ps_snapshot p"
      "d Log_File = Some (log_text cd (p\<lparr>ps_log := take k (ps_log p)\<rparr>) @ frag)"
    and frag: "lf \<notin> set frag" "frag \<noteq> [] \<Longrightarrow> dec_entry cd frag = None" and sn: "ps_snapshot p \<noteq> Some []"
    and range: "ps_base_index p \<le> u64_max"
  shows "fst (store_open cd good_io d) =
    (if ps_commit_index p \<le> ps_base_index p + k then Inr (p\<lparr>ps_log := take k (ps_log p)\<rparr>)
     else Inl (Commit_Exceeds (ps_commit_index p) (ps_base_index p + k)))"
proof -
  let ?q = "p\<lparr>ps_log := take k (ps_log p)\<rparr>"
  have wf: "persisted_wf nid peers p" for nid peers using validate_persisted_iff [OF range] valid by blast
  then have base: "ps_base_index p \<le> ps_commit_index p" by (simp add: persisted_wf_def)
  have "codec_fits cd ?q"
    using fits by (auto simp: codec_fits_def meta_of_def header_of_def list_all_iff dest: in_set_takeD)
  moreover have "merged p ?q (ps_snapshot p) = ?q" using base by (simp add: merged_def max_def)
  moreover have wl: "wf_log (ps_base_index p) (ps_base_term p) (take k (ps_log p)) (ps_current_term p)"
    using wf by (simp add: persisted_wf_def wf_log_take)
  have "validate_persisted ?q =
      (if ps_commit_index p \<le> ps_base_index p + k then Inr () else Inl (Commit_Exceeds (ps_commit_index p) (ps_base_index p + k)))"
  proof -
    have "validate_entries (ps_current_term p) (ps_base_index p) 0 (ps_base_term p) (take k (ps_log p)) = Inr ()"
      using wl by (auto simp: validate_entries_iff wf_log_def)
    moreover have "last_recoverable (ps_base_index p) (take k (ps_log p)) = ps_base_index p + k"
      using wf_log_last [OF wl] k by simp
    ultimately show ?thesis
      using wf wl base by (auto simp: validate_persisted_def persisted_wf_def wf_log_def Let_def)
  qed
  ultimately show ?thesis
    using open_torn [of cd p ?q d frag "ps_snapshot p"] fits d frag sn by (simp add: codec_fits_def)
qed

theorem torn_log_recovery_witness:
  "fst (store_open unary_codec good_io ((sample_disk sample_saved)
     (Log_File \<mapsto> log_text unary_codec (sample_saved\<lparr>ps_log := [sample_entry 1 1]\<rparr>) @ [1, 1]))) =
   Inr (sample_saved\<lparr>ps_log := [sample_entry 1 1]\<rparr>)"
proof -
  let ?d = "(sample_disk sample_saved)(Log_File \<mapsto> log_text unary_codec (sample_saved\<lparr>ps_log := [sample_entry 1 1]\<rparr>) @ [1, 1])"
  have "validate_persisted sample_saved = Inr ()" by code_simp
  moreover have "dec_entry unary_codec [1, 1] = None" "lf \<notin> set [1, 1]" by code_simp+
  moreover have "?d Meta_File = enc_meta unary_codec (meta_of sample_saved)" "?d Snapshot_File = ps_snapshot sample_saved"
    by (simp_all add: sample_disk_def)
  moreover have "?d Log_File = Some (log_text unary_codec (sample_saved\<lparr>ps_log := take 1 (ps_log sample_saved)\<rparr>) @ [1, 1])"
    by (simp add: sample_saved_def)
  ultimately show ?thesis
    using torn_log_recovery [OF sample_fits(1), of 1 ?d "[1, 1]"] by (simp add: sample_saved_def)
qed

end
