(* ===== verification/Raft_Engine.thy ===== *)
theory Raft_Engine
  imports Raft_Invariants
begin

section \<open>Guarantees of one consensus engine\<close>

text \<open>
  The properties of a single engine over arbitrary sequences of admissible operations, built on the
  invariants: safety of runs, what \<open>ready\<close> hands out, what an acknowledgement means, when a leader
  commits, when an isolated leader steps down, and the election timer.
\<close>

subsection \<open>Runs\<close>

fun ops_ok :: "raft_op list \<Rightarrow> raft \<Rightarrow> bool" where
  "ops_ok [] r = True"
| "ops_ok (op # ops) r = (op_ok op r \<and> ops_ok ops (apply_raft_op op r))"

definition run_raft :: "raft_op list \<Rightarrow> raft \<Rightarrow> raft" where
  "run_raft ops r = fold apply_raft_op ops r"

lemma run_raft_simps [simp]:
  "run_raft [] r = r"
  "run_raft (op # ops) r = run_raft ops (apply_raft_op op r)"
  by (simp_all add: run_raft_def)

lemma run_raft_ok:
  assumes "raft_wf r" and "ops_ok ops r"
  shows "raft_wf (run_raft ops r) \<and> same_committed r (run_raft ops r) \<and> vote_mono r (run_raft ops r)"
  using assms
proof (induction ops arbitrary: r)
  case (Cons op ops)
  then have op: "op_ok op r" by simp
  note step = raft_op_ok [OF Cons.prems(1) op] vote_mono_op [OF op_ok_room [OF op], of op]
  with Cons.IH [of "apply_raft_op op r"] Cons.prems show ?case
    by (auto intro: same_committed_trans vote_mono_trans)
qed simp

subsection \<open>Appending entries\<close>

lemma accept_entries_ack:
  assumes wf: "raft_wf q" and role: "rf_role q \<noteq> Leader" and cont: "entries_are_contiguous req"
    and t: "ae_term req \<le> rf_current_term q" and prev: "ae_prev_log_index req \<le> last_index q"
    and match: "\<not> (0 < ae_prev_log_index req \<and> term_at q (ae_prev_log_index req) \<noteq> ae_prev_log_term req)"
    and ack: "last (rf_out (accept_entries from_node req q)) =
      \<lparr>ad_to = from_node, ad_msg = AppendEntriesResp \<lparr>aer_term = at, aer_success = True, aer_match_index = m\<rparr>\<rparr>"
  shows "m = ae_prev_log_index req + length (ae_entries req)"
    and "m \<le> last_index (accept_entries from_node req q)"
    and "\<And>e. e \<in> set (ae_entries req) \<Longrightarrow> term_at (accept_entries from_node req q) (le_index e) = le_term e"
    and "0 < ae_prev_log_index req \<Longrightarrow>
      term_at (accept_entries from_node req q) (ae_prev_log_index req) = ae_prev_log_term req"
    and "rf_commit_index (accept_entries from_node req q) = max (rf_commit_index q) (min (ae_leader_commit req) m)"
proof -
  obtain ok c r where s: "splice_entries (ae_entries req) (ae_prev_log_index req) q = (ok, c, r)"
    by (metis prod_cases3)
  have up: "spliced_upto (ae_prev_log_index req) (ae_prev_log_term req) q"
    using prev match by (auto simp: spliced_upto_def)
  have "splice_result (ae_prev_log_index req) (ae_entries req) q ok c r"
    using cont t up by (intro splice_spec [OF s wf role]) (auto simp: entries_are_contiguous_run)
  then have wf': "raft_wf r" and le: "c \<le> last_index r"
    and keep: "entry_at r (ae_prev_log_index req) = entry_at q (ae_prev_log_index req)"
    and full: "ok \<Longrightarrow> c = ae_prev_log_index req + length (ae_entries req)"
      "\<And>e. ok \<Longrightarrow> e \<in> set (ae_entries req) \<Longrightarrow> term_at r (le_index e) = le_term e"
    and fr: "rf_commit_index r = rf_commit_index q" "rf_base_index r = rf_base_index q" "rf_base_term r = rf_base_term q"
    unfolding splice_result_def by auto
  have ok: "ok" "m = c"
    using ack by (auto simp: accept_entries_def s Let_def append_resp_def)
  have same_term: "term_at (accept_entries from_node req q) i = term_at r i"
    "last_index (accept_entries from_node req q) = last_index r" for i
    by (simp_all add: accept_entries_def s Let_def term_at_def log_slot_def last_index_def)
  show "m = ae_prev_log_index req + length (ae_entries req)" using full(1) ok by simp
  show "m \<le> last_index (accept_entries from_node req q)" using le ok same_term by simp
  show "term_at (accept_entries from_node req q) (le_index e) = le_term e" if "e \<in> set (ae_entries req)" for e
    using full(2) ok that same_term by simp
  show "term_at (accept_entries from_node req q) (ae_prev_log_index req) = ae_prev_log_term req"
    if "0 < ae_prev_log_index req"
  proof -
    have "term_at r (ae_prev_log_index req) = term_at q (ae_prev_log_index req)"
      using keep fr wf wf' by (simp add: term_at_entry)
    with that match same_term show ?thesis by simp
  qed
  show "rf_commit_index (accept_entries from_node req q) = max (rf_commit_index q) (min (ae_leader_commit req) m)"
    using ok fr by (auto simp: accept_entries_def s Let_def)
qed

lemma out_append_resp [simp]: "last (rf_out (append_resp to ok m r)) =
   \<lparr>ad_to = to, ad_msg = AppendEntriesResp \<lparr>aer_term = rf_current_term r, aer_success = ok, aer_match_index = m\<rparr>\<rparr>"
  by (simp add: append_resp_def)

subsection \<open>Committing\<close>

lemma replicas_at_cong:
  "rf_match_index r = rf_match_index q \<Longrightarrow> rf_peers r = rf_peers q \<Longrightarrow> replicas_at r n = replicas_at q n"
  by (simp add: replicas_at_def)

lemma term_at_cong:
  "rf_base_index r = rf_base_index q \<Longrightarrow> rf_base_term r = rf_base_term q \<Longrightarrow> rf_log r = rf_log q \<Longrightarrow>
   term_at r n = term_at q n"
  by (simp add: term_at_def log_slot_def last_index_def)

text \<open>The commit index of a leader: on a quorum, and from its own term.\<close>

definition quorum_committed :: "raft \<Rightarrow> bool" where
  "quorum_committed r \<longleftrightarrow>
     term_at r (rf_commit_index r) = rf_current_term r \<and> quorum r \<le> replicas_at r (rf_commit_index r)"

lemma quorum_committed_broadcast [simp]: "quorum_committed (broadcast_append r) \<longleftrightarrow> quorum_committed r"
  by (simp add: quorum_committed_def quorum_def
      replicas_at_cong [of "broadcast_append r" r] term_at_cong [of "broadcast_append r" r])

lemma advance_quorum_committed:
  assumes "raft_wf r" and "rf_commit_index r < rf_commit_index (snd (maybe_advance_commit r))"
  shows "quorum_committed (snd (maybe_advance_commit r))"
  using assms(1)
proof (cases rule: maybe_advance_commit_cases)
  case same
  with assms(2) show ?thesis by simp
next
  case (advance n)
  then have "term_at r n = rf_current_term r" "quorum r \<le> replicas_at r n" by (simp_all add: committable_def)
  with advance(1) show ?thesis
    using term_at_cong [of "r\<lparr>rf_commit_index := n, rf_dirty := True\<rparr>" r]
      replicas_at_cong [of "r\<lparr>rf_commit_index := n, rf_dirty := True\<rparr>" r]
    by (simp add: quorum_committed_def quorum_def)
qed

lemma record_match_quorum_committed:
  assumes "raft_wf r" and "acked \<le> last_index r"
    and "rf_commit_index r < rf_commit_index (record_match from_node acked r)"
  shows "quorum_committed (record_match from_node acked r)"
proof -
  obtain q where q: "raft_wf q" "rf_commit_index q = rf_commit_index r"
    and eq: "record_match from_node acked r =
      (if fst (maybe_advance_commit q) then broadcast_append (snd (maybe_advance_commit q))
       else snd (maybe_advance_commit q))"
    using record_match_cases [OF assms(1,2)] by metis
  have "rf_commit_index q < rf_commit_index (snd (maybe_advance_commit q))"
    using assms(3) q(2) unfolding eq by (auto split: if_splits)
  from advance_quorum_committed [OF q(1) this] show ?thesis unfolding eq by simp
qed

lemma leader_step_commit:
  assumes "raft_wf r" and "rf_role r = Leader" and "rf_role (raft_step from_node msg r) = Leader"
    and "rf_commit_index r < rf_commit_index (raft_step from_node msg r)"
  shows "quorum_committed (raft_step from_node msg r)"
proof (cases msg)
  case (AppendEntriesResp resp)
  let ?r = "r\<lparr>rf_acked_since_check := insert from_node (rf_acked_since_check r)\<rparr>"
  have "raft_wf ?r" using assms(1) by simp
  note rm = record_match_quorum_committed [OF this min.cobounded2, of from_node "aer_match_index resp"]
  from assms AppendEntriesResp rm show ?thesis
    by (auto simp: raft_step_def handle_append_resp_def Let_def split: if_splits)
next
  case (InstallSnapshotResp resp)
  let ?r = "r\<lparr>rf_acked_since_check := insert from_node (rf_acked_since_check r),
     rf_snapshot_inflight := (rf_snapshot_inflight r)(from_node := None)\<rparr>"
  let ?sent = "case rf_snapshot_inflight r from_node of Some n \<Rightarrow> n | None \<Rightarrow> 0"
  have wf: "raft_wf ?r" using assms(1) by (auto simp: raft_wf_def wf_leader_def ran_def)
  have "?sent \<le> rf_base_index r"
    using assms(1,2) by (auto simp: raft_wf_def wf_leader_def ranI split: option.splits)
  then have "min (isr_last_included_index resp) ?sent \<le> last_index ?r"
    using raft_wf_last_index [OF wf] by simp
  note rm = record_match_quorum_committed [OF wf this, of from_node]
  from assms InstallSnapshotResp rm show ?thesis
    by (auto simp: raft_step_def handle_install_snapshot_resp_def Let_def split: if_splits)
next
  case (RequestVote req)
  with assms show ?thesis by (auto simp: raft_step_def handle_request_vote_def Let_def split: if_splits)
next
  case (RequestVoteResp resp)
  with assms show ?thesis by (auto simp: raft_step_def handle_vote_resp_def split: if_splits)
next
  case (AppendEntries req)
  with assms show ?thesis by (auto simp: raft_step_def handle_append_eq adopt_term_def Let_def split: if_splits)
next
  case (InstallSnapshot req)
  with assms show ?thesis
    by (auto simp: raft_step_def handle_install_snapshot_eq adopt_term_def Let_def split: if_splits)
qed

subsection \<open>Check-quorum\<close>

lemma leader_tick:
  assumes "rf_role r = Leader" and "rf_election_elapsed r < u64_max"
  shows "rf_election_elapsed r + 1 < rf_randomized_election_timeout r \<Longrightarrow>
      rf_role (raft_tick r) = Leader \<and> rf_election_elapsed (raft_tick r) = rf_election_elapsed r + 1 \<and>
      rf_randomized_election_timeout (raft_tick r) = rf_randomized_election_timeout r \<and>
      rf_acked_since_check (raft_tick r) = rf_acked_since_check r"
    and "rf_randomized_election_timeout r \<le> rf_election_elapsed r + 1 \<Longrightarrow>
      card (rf_acked_since_check r) + 1 < quorum r \<Longrightarrow> rf_role (raft_tick r) = Follower"
    and "rf_randomized_election_timeout r \<le> rf_election_elapsed r + 1 \<Longrightarrow>
      quorum r \<le> card (rf_acked_since_check r) + 1 \<Longrightarrow>
      rf_role (raft_tick r) = Leader \<and> rf_election_elapsed (raft_tick r) = 0 \<and>
      rf_acked_since_check (raft_tick r) = {} \<and>
      rf_randomized_election_timeout (raft_tick r) \<le> timer_hi (rf_cfg r)"
    and "rf_cfg (raft_tick r) = rf_cfg r" and "rf_peers (raft_tick r) = rf_peers r"
proof -
  have e: "add64 (rf_election_elapsed r) 1 = rf_election_elapsed r + 1" using assms(2) by (simp add: add64_small)
  have q: "quorum (s\<lparr>rf_election_elapsed := a, rf_acked_since_check := b\<rparr>) = quorum s"
    "quorum (broadcast_append (s\<lparr>rf_heartbeat_elapsed := a\<rparr>)) = quorum s"
    "quorum (s\<lparr>rf_heartbeat_elapsed := a\<rparr>) = quorum s" for s a b
    by (simp_all add: quorum_def)
  show "rf_election_elapsed r + 1 < rf_randomized_election_timeout r \<Longrightarrow>
      rf_role (raft_tick r) = Leader \<and> rf_election_elapsed (raft_tick r) = rf_election_elapsed r + 1 \<and>
      rf_randomized_election_timeout (raft_tick r) = rf_randomized_election_timeout r \<and>
      rf_acked_since_check (raft_tick r) = rf_acked_since_check r"
    using assms(1) e by (auto simp: raft_tick_def Let_def)
  show "rf_randomized_election_timeout r \<le> rf_election_elapsed r + 1 \<Longrightarrow>
      card (rf_acked_since_check r) + 1 < quorum r \<Longrightarrow> rf_role (raft_tick r) = Follower"
    using assms(1) e by (auto simp: raft_tick_def Let_def q)
  show "rf_randomized_election_timeout r \<le> rf_election_elapsed r + 1 \<Longrightarrow>
      quorum r \<le> card (rf_acked_since_check r) + 1 \<Longrightarrow>
      rf_role (raft_tick r) = Leader \<and> rf_election_elapsed (raft_tick r) = 0 \<and>
      rf_acked_since_check (raft_tick r) = {} \<and>
      rf_randomized_election_timeout (raft_tick r) \<le> timer_hi (rf_cfg r)"
    using assms(1) e reset_timer_range
    by (auto simp: raft_tick_def Let_def q reset_timer_range(3) intro: order.trans [OF reset_timer_range(2)])
  show "rf_cfg (raft_tick r) = rf_cfg r" and "rf_peers (raft_tick r) = rf_peers r"
    using assms(1) by (auto simp: raft_tick_def Let_def)
qed

text \<open>One window of the check: it ends in a step-down, or with a fresh window that saw no answers.\<close>

definition window_end :: "raft \<Rightarrow> raft \<Rightarrow> bool" where
  "window_end r q \<longleftrightarrow>
     (if card (rf_acked_since_check r) + 1 < quorum r then rf_role q = Follower
      else rf_role q = Leader \<and> rf_election_elapsed q = 0 \<and> rf_acked_since_check q = {} \<and>
        rf_randomized_election_timeout q \<le> timer_hi (rf_cfg r) \<and> rf_cfg q = rf_cfg r \<and> rf_peers q = rf_peers r)"

lemma leader_tick_check:
  assumes "rf_role r = Leader" and "rf_election_elapsed r < u64_max"
    and "rf_randomized_election_timeout r \<le> rf_election_elapsed r + 1"
  shows "window_end r (raft_tick r)"
  using leader_tick [OF assms(1,2)] assms(3) by (auto simp: window_end_def not_less)

lemma leader_window:
  assumes "rf_role r = Leader" and "rf_election_elapsed r \<le> rf_randomized_election_timeout r"
    and "rf_randomized_election_timeout r < u64_max"
    and "n = rf_randomized_election_timeout r - rf_election_elapsed r"
  shows "\<exists>k \<le> max 1 n. window_end r ((raft_tick ^^ k) r)"
  using assms
proof (induction n arbitrary: r)
  case 0
  then have "window_end r (raft_tick r)" by (intro leader_tick_check) simp_all
  then show ?case by (intro exI [of _ 1]) simp
next
  case (Suc n)
  then have el: "rf_election_elapsed r < u64_max" by simp
  note lt = leader_tick [OF Suc.prems(1) el]
  show ?case
  proof (cases "rf_randomized_election_timeout r \<le> rf_election_elapsed r + 1")
    case True
    then have "window_end r (raft_tick r)" using Suc.prems(1) el by (intro leader_tick_check)
    then show ?thesis by (intro exI [of _ 1]) simp
  next
    case False
    then have t: "rf_role (raft_tick r) = Leader" "rf_election_elapsed (raft_tick r) = rf_election_elapsed r + 1"
      "rf_randomized_election_timeout (raft_tick r) = rf_randomized_election_timeout r"
      "rf_acked_since_check (raft_tick r) = rf_acked_since_check r"
      using lt(1) by simp_all
    have "window_end (raft_tick r) q \<longleftrightarrow> window_end r q" for q
      by (simp add: window_end_def quorum_def t(4) lt(4,5))
    moreover have "\<exists>k \<le> max 1 n. window_end (raft_tick r) ((raft_tick ^^ k) (raft_tick r))"
      using False Suc.prems by (intro Suc.IH [OF t(1)]) (simp_all add: t)
    ultimately obtain k where "k \<le> max 1 n" "window_end r ((raft_tick ^^ Suc k) r)"
      by (auto simp: funpow_swap1)
    moreover have "n \<noteq> 0" using False Suc.prems(4) by simp
    ultimately show ?thesis by (intro exI [of _ "Suc k"]) simp
  qed
qed

lemma isolated_leader:
  assumes "rf_role r = Leader" and "rf_peers r \<noteq> []"
    and "rf_election_elapsed r \<le> rf_randomized_election_timeout r"
    and "rf_randomized_election_timeout r \<le> timer_hi (rf_cfg r)" and "timer_hi (rf_cfg r) < u64_max"
  shows "\<exists>k \<le> 2 * timer_hi (rf_cfg r). rf_role ((raft_tick ^^ k) r) = Follower"
proof -
  have hi: "1 \<le> timer_hi (rf_cfg r)" by (simp add: timer_hi_def timer_lo_def)
  have "rf_randomized_election_timeout r < u64_max" using assms(4,5) by simp
  from leader_window [OF assms(1,3) this refl]
  obtain k where "k \<le> max 1 (rf_randomized_election_timeout r - rf_election_elapsed r)"
    and w: "window_end r ((raft_tick ^^ k) r)" by blast
  with assms(4) hi have k: "k \<le> timer_hi (rf_cfg r)" by linarith
  show ?thesis
  proof (cases "card (rf_acked_since_check r) + 1 < quorum r")
    case True
    with k w show ?thesis by (intro exI [of _ k]) (auto simp: window_end_def)
  next
    case False
    define q where "q = (raft_tick ^^ k) r"
    have q: "rf_role q = Leader" "rf_election_elapsed q = 0" "rf_acked_since_check q = {}"
      "rf_randomized_election_timeout q \<le> timer_hi (rf_cfg r)" "rf_peers q = rf_peers r"
      using w False by (simp_all add: q_def window_end_def)
    have "1 < quorum q" using assms(2) q(5) by (cases "rf_peers r") (auto simp: quorum_def)
    then have lt: "card (rf_acked_since_check q) + 1 < quorum q" by (simp add: q(3))
    have el: "rf_election_elapsed q \<le> rf_randomized_election_timeout q" using q(2) by simp
    have hi': "rf_randomized_election_timeout q < u64_max" using q(4) assms(5) by simp
    obtain j where j: "j \<le> max 1 (rf_randomized_election_timeout q - rf_election_elapsed q)"
      "rf_role ((raft_tick ^^ j) q) = Follower"
      using leader_window [OF q(1) el hi' refl] lt by (auto simp: window_end_def)
    have "(raft_tick ^^ (j + k)) r = (raft_tick ^^ j) q" by (simp add: funpow_add q_def)
    with j k hi q(4) show ?thesis by (intro exI [of _ "j + k"]) auto
  qed
qed

subsection \<open>A small group\<close>

text \<open>A fresh member of a group of three and the leader it becomes, used by the witnesses.\<close>

definition sample_raft :: raft where
  "sample_raft = raft_new ''a'' [''b'', ''c''] default_raft_config 7 default_persisted"

definition sample_leader :: raft where
  "sample_leader = become_leader (candidate_of sample_raft)"

lemma sample_raft_wf: "raft_wf sample_raft"
  by (simp add: sample_raft_def raft_wf_new persisted_wf_default)

lemma sample_raft_room: "has_room sample_raft" "has_room sample_leader"
  by (simp_all add: sample_raft_def sample_leader_def default_persisted_def has_room_def log_room_def
      last_index_def add64_def u64_max_def)

lemma sample_leader_wf: "raft_wf sample_leader"
proof -
  have "raft_wf (candidate_of sample_raft)"
    using sample_raft_wf sample_raft_room(1) by (simp add: raft_wf_candidate_of has_room_def)
  moreover have "log_room (candidate_of sample_raft)"
    using sample_raft_room(1) by (simp add: has_room_def log_room_def last_index_def)
  ultimately show ?thesis unfolding sample_leader_def by (rule raft_wf_become_leader) simp
qed

lemma sample_raft_sel [simp]:
  "rf_id sample_raft = ''a''" "rf_peers sample_raft = [''b'', ''c'']" "rf_cfg sample_raft = default_raft_config"
  "rf_current_term sample_raft = 0" "rf_log sample_raft = []" "rf_base_index sample_raft = 0"
  "rf_base_term sample_raft = 0" "rf_commit_index sample_raft = 0" "rf_out sample_raft = []"
  "last_index sample_raft = 0"
  by (simp_all add: sample_raft_def default_persisted_def last_index_def add64_def)

lemma sample_leader_sel [simp]:
  "rf_id sample_leader = ''a''" "rf_peers sample_leader = [''b'', ''c'']"
  "rf_cfg sample_leader = default_raft_config" "rf_role sample_leader = Leader"
  "rf_current_term sample_leader = 1" "rf_base_index sample_leader = 0" "rf_base_term sample_leader = 0"
  "rf_log sample_leader = [\<lparr>le_term = 1, le_index = 1, le_command = None\<rparr>]"
  "rf_match_index sample_leader = [''b'' \<mapsto> 0, ''c'' \<mapsto> 0]"
  "rf_commit_index sample_leader = 0" "rf_dirty sample_leader" "last_index sample_leader = 1"
  by (auto simp: sample_leader_def last_index_def add64_def)

lemma raft_new_rng: "rf_rng (raft_new nid peers cfg seed p) \<noteq> 0"
proof -
  have "bit (seed OR 1) 0" by (simp add: bit_or_iff)
  then have "seed OR 1 \<noteq> 0" by auto
  then show ?thesis unfolding raft_new_def by (intro rng_nonzero) simp
qed

lemma become_leader_timer:
  "rf_election_elapsed (become_leader r) = 0"
  "rf_randomized_election_timeout (become_leader r) \<le> timer_hi (rf_cfg r)"
  by (simp_all add: become_leader_def Let_def reset_timer_range(3)
      order.trans [OF reset_timer_range(2)])

lemma ops_ok_append: "ops_ok (ops @ rest) r \<longleftrightarrow> ops_ok ops r \<and> ops_ok rest (run_raft ops r)"
  by (induction ops arbitrary: r) auto

subsection \<open>Properties\<close>

text \<open>
  C8. One member over its life: from any valid durable state and through any admissible sequence of
  ticks, messages (forged and malformed ones included), proposals, compactions and drains, the engine
  stays well formed; between any two moments the term and the commit index never go back, a vote cast
  in a term is never changed in that term, and no committed log entry is ever rewritten.
\<close>

theorem member_run_is_safe:
  assumes "persisted_wf nid peers p" and "ops_ok (ops @ rest) (raft_new nid peers cfg seed p)"
    and "r = run_raft ops (raft_new nid peers cfg seed p)" and "r' = run_raft rest r"
  shows "raft_wf r' \<and> rf_current_term r \<le> rf_current_term r' \<and> rf_commit_index r \<le> rf_commit_index r' \<and>
    (rf_current_term r' = rf_current_term r \<and> rf_voted_for r \<noteq> None \<longrightarrow> rf_voted_for r' = rf_voted_for r) \<and>
    (\<forall>i. rf_base_index r' < i \<and> i \<le> rf_commit_index r \<longrightarrow> entry_at r' i = entry_at r i)"
proof -
  have "raft_wf r"
    using run_raft_ok [OF raft_wf_new [OF assms(1)]] assms(2,3) by (simp add: ops_ok_append)
  from run_raft_ok [OF this, of rest] assms(2-4) show ?thesis
    by (auto simp: ops_ok_append same_committed_def vote_mono_def)
qed

theorem member_run_is_safe_witness:
  "raft_wf (run_raft [Tick] (run_raft [Tick] sample_raft))"
proof -
  have "has_room (raft_tick sample_raft)"
    using sample_raft_room(1)
    by (simp add: raft_tick_def sample_raft_def Let_def has_room_def log_room_def last_index_def raft_new_def
        reset_election_timer_def next_rand_def default_raft_config_def add64_def)
  then have "ops_ok ([Tick] @ [Tick]) sample_raft" using sample_raft_room(1) by simp
  from member_run_is_safe [OF persisted_wf_default this [unfolded sample_raft_def] refl refl]
  show ?thesis by (simp add: sample_raft_def)
qed

text \<open>
  Draining hands out exactly the newly committed commands: every index after the last applied one
  and up to the commit index has its log entry, the commands of these entries are returned in index
  order, the dirty state is returned for persisting, and a second drain returns nothing more.
\<close>

theorem ready_hands_out_committed_once:
  assumes "raft_wf r"
  shows "rd_committed (fst (raft_ready r)) = commands_between r (rf_last_applied r) (rf_commit_index r)
    \<and> (\<forall>i. rf_last_applied r < i \<and> i \<le> rf_commit_index r \<longrightarrow> (\<exists>e. entry_at r i = Some e))
    \<and> rd_applied_upto (fst (raft_ready r)) = rf_commit_index r
    \<and> rd_messages (fst (raft_ready r)) = rf_out r
    \<and> rd_persist (fst (raft_ready r)) = (if rf_dirty r then Some (persisted_snapshot r) else None)
    \<and> (let again = fst (raft_ready (snd (raft_ready r))) in
         rd_committed again = [] \<and> rd_messages again = [] \<and> rd_persist again = None \<and> rd_restore again = None)"
proof -
  have "rf_last_applied r \<le> rf_commit_index r" using assms by (simp add: raft_wf_def wf_index_def)
  then show ?thesis
    using entry_at_applied [OF assms]
    by (auto simp: raft_ready_def Let_def commands_between_def collect_committed_eq [OF assms] max_absorb2)
      (simp add: collect_committed_def List.map_filter_simps)
qed

theorem ready_hands_out_committed_once_witness:
  "rd_persist (fst (raft_ready sample_leader)) = Some (persisted_snapshot sample_leader)"
  using ready_hands_out_committed_once [OF sample_leader_wf] by (simp add: sample_leader_def)



text \<open>
  C33. A successful acknowledgement is truthful: after a follower answers an append request with success
  and match index m, its log reaches m, which is the end of the request, it agrees with the request's
  term at the previous index and at every entry, and it commits no further than the leader said.
\<close>

theorem append_ack_is_truthful:
  assumes "raft_wf r" and "from_node \<in> set (rf_peers r)" and "r' = handle_append from_node req r"
    and "last (rf_out r') = \<lparr>ad_to = from_node,
      ad_msg = AppendEntriesResp \<lparr>aer_term = t, aer_success = True, aer_match_index = m\<rparr>\<rparr>"
  shows "m = ae_prev_log_index req + length (ae_entries req) \<and> m \<le> last_index r' \<and>
    (\<forall>e \<in> set (ae_entries req). term_at r' (le_index e) = le_term e) \<and>
    (0 < ae_prev_log_index req \<longrightarrow> term_at r' (ae_prev_log_index req) = ae_prev_log_term req) \<and>
    rf_commit_index r' = max (rf_commit_index r) (min (ae_leader_commit req) m)"
proof -
  let ?q = "become_follower (ae_term req) (Some from_node) (adopt_term (ae_term req) r)"
  have "raft_wf (adopt_term (ae_term req) r)" using assms(1) by (rule raft_wf_adopt_term)
  then have wf: "raft_wf ?q" using assms(2) by (intro raft_wf_become_follower) simp_all
  have "entries_are_contiguous req" "ae_prev_log_index req \<le> last_index ?q"
    "\<not> (0 < ae_prev_log_index req \<and> term_at ?q (ae_prev_log_index req) \<noteq> ae_prev_log_term req)"
    and r': "r' = accept_entries from_node req ?q"
    using assms(4) unfolding assms(3) handle_append_eq Let_def
    by (auto split: if_splits)
  from accept_entries_ack [OF wf _ this(1) _ this(2,3), of from_node t m] assms(4) show ?thesis
    by (auto simp: r')
qed

theorem append_ack_is_truthful_witness:
  "\<exists>req. last_index (handle_append ''b'' req sample_raft) = 2 \<and> ae_entries req \<noteq> []
     \<and> rf_commit_index (handle_append ''b'' req sample_raft) = 1"
proof -
  let ?req = "\<lparr>ae_term = 3, ae_leader_id = ''b'', ae_prev_log_index = 0, ae_prev_log_term = 0,
    ae_entries = [\<lparr>le_term = 2, le_index = 1, le_command = None\<rparr>, \<lparr>le_term = 3, le_index = 2, le_command = None\<rparr>],
    ae_leader_commit = 1\<rparr>"
  have "last (rf_out (handle_append ''b'' ?req sample_raft)) = \<lparr>ad_to = ''b'',
      ad_msg = AppendEntriesResp \<lparr>aer_term = 3, aer_success = True, aer_match_index = 2\<rparr>\<rparr>"
    and "last_index (handle_append ''b'' ?req sample_raft) = 2"
    by (simp_all add: handle_append_eq Let_def entries_are_contiguous_run u64_max_def accept_entries_def
        last_index_def add64_def append_resp_def)
  with append_ack_is_truthful [OF sample_raft_wf _ refl this(1)] show ?thesis
    by (intro exI [of _ ?req]) simp
qed

text \<open>
  C34. An isolated leader steps down: a leader of a group with other members that hears from nobody
  returns to follower within two election timeouts, counted in its own ticks.
\<close>

theorem isolated_leader_steps_down:
  assumes "rf_role r = Leader" and "rf_peers r \<noteq> []"
    and "rf_election_elapsed r \<le> rf_randomized_election_timeout r"
    and "rf_randomized_election_timeout r \<le> timer_hi (rf_cfg r)" and "timer_hi (rf_cfg r) < u64_max"
  shows "\<exists>k \<le> 2 * timer_hi (rf_cfg r). rf_role ((raft_tick ^^ k) r) = Follower"
  using isolated_leader [OF assms] .

theorem isolated_leader_steps_down_witness:
  "\<exists>k \<le> 36. rf_role ((raft_tick ^^ k) sample_leader) = Follower"
proof -
  have "rf_election_elapsed sample_leader = 0"
    "rf_randomized_election_timeout sample_leader \<le> timer_hi (rf_cfg sample_leader)"
    using become_leader_timer [of "candidate_of sample_raft"] by (simp_all add: sample_leader_def)
  moreover have "timer_hi default_raft_config = 18"
    by (simp add: timer_hi_def timer_lo_def default_raft_config_def)
  ultimately show ?thesis
    using isolated_leader_steps_down [of sample_leader] by (simp add: u64_max_def)
qed



end
