(* ===== verification/Raft_Driver.thy ===== *)
theory Raft_Driver
  imports Raft_Store Raft_Engine Internal_Auth
begin

section \<open>The driver of the consensus engine (\<open>src/raft_driver.rs\<close>)\<close>

text \<open>
  The engine with its durable store, its outbox and the state machine it applies committed commands
  to. Every path (tick, proposal, inbound request, delivered response) is an engine operation followed by
  \<open>ready\<close> and \<open>drain\<close>, and \<open>drain\<close> is the composition of its critical sections: persisting, applying,
  compacting, routing. The library code the driver calls is the parameter \<open>driver_env\<close>: the codecs and the
  constant-time comparison. The condition of the disk is part of the state, so that it can change
  between operations.
\<close>

subsection \<open>The peer secret\<close>

datatype secret_error = Raft_Secret_Missing

definition raft_secret_parse :: "string option \<Rightarrow> secret_error + string" where
  "raft_secret_parse value =
     (let value = trim (case value of Some v \<Rightarrow> v | None \<Rightarrow> []) in
      if value = [] then Inl Raft_Secret_Missing else Inr value)"

definition strip_prefix :: "string \<Rightarrow> string \<Rightarrow> string option" where
  "strip_prefix prefix s = (if take (length prefix) s = prefix then Some (drop (length prefix) s) else None)"

subsection \<open>State\<close>

text \<open>What a Raft snapshot serialises: the placement and the plan, not the membership.\<close>

record state_snapshot =
  ss_shards :: "shard_assignment list"
  ss_plan :: scale_plan

record driver_env =
  de_codec :: codec
  de_enc_state :: "state_snapshot \<Rightarrow> bytes option"
  de_dec_state :: "bytes \<Rightarrow> state_snapshot option"
  de_ct_eq :: "bytes \<Rightarrow> bytes \<Rightarrow> bool"

record driver =
  dr_engine :: raft
  dr_store :: "disk option"
  dr_io :: disk_io
  dr_secret :: string
  dr_available :: bool
  dr_outbox :: "addressed list list"
  dr_outbox_open :: bool
  dr_watermark :: nat
  dr_sm :: state_machine

definition COMPACT_LOG_THRESHOLD :: nat where
  "COMPACT_LOG_THRESHOLD = 256"

definition fail_closed :: "driver \<Rightarrow> driver" where
  "fail_closed d = d\<lparr>dr_available := False\<rparr>"

definition seed_from :: "string \<Rightarrow> 64 word" where
  "seed_from nid =
     foldl (\<lambda>hash c. (hash XOR of_char c) * 0x00000100000001b3) 0xcbf29ce484222325 nid"

definition snapshot_state_machine :: "driver_env \<Rightarrow> state_machine \<Rightarrow> bytes option" where
  "snapshot_state_machine env sm =
     de_enc_state env \<lparr>ss_shards = placement_snapshot (sm_placement sm), ss_plan = sm_plan sm\<rparr>"

definition restore_state_machine :: "driver_env \<Rightarrow> bytes \<Rightarrow> state_machine \<Rightarrow> state_machine option" where
  "restore_state_machine env data sm =
     map_option (\<lambda>snapshot.
       sm\<lparr>sm_placement := restore_from (ss_shards snapshot) (sm_placement sm), sm_plan := ss_plan snapshot\<rparr>)
       (de_dec_state env data)"

datatype driver_error = Bad_Timing config_error | Bad_Snapshot

definition driver_new ::
  "driver_env \<Rightarrow> node_id \<Rightarrow> node_id list \<Rightarrow> raft_config \<Rightarrow> disk option \<Rightarrow> disk_io \<Rightarrow> persisted \<Rightarrow> string
     \<Rightarrow> state_machine \<Rightarrow> driver_error + driver" where
  "driver_new env nid peers cfg store io restored secret sm =
     (case validate_config cfg of
        Inl e \<Rightarrow> Inl (Bad_Timing e)
      | Inr _ \<Rightarrow>
          (case (case ps_snapshot restored of
                   Some snapshot \<Rightarrow> restore_state_machine env snapshot sm | None \<Rightarrow> Some sm) of
             None \<Rightarrow> Inl Bad_Snapshot
           | Some sm \<Rightarrow>
               Inr \<lparr>dr_engine = raft_new nid peers cfg (seed_from nid) restored, dr_store = store, dr_io = io,
                    dr_secret = secret, dr_available = True, dr_outbox = [], dr_outbox_open = True,
                    dr_watermark = ps_base_index restored, dr_sm = sm\<rparr>))"

subsection \<open>The critical sections of \<open>drain\<close>\<close>

text \<open>Persisting under the I/O lock: the latest state of the engine, not the one of the batch.\<close>

definition persist_ready :: "driver_env \<Rightarrow> ready \<Rightarrow> driver \<Rightarrow> bool \<times> driver" where
  "persist_ready env rd d =
     (if rd_persist rd = None then (True, d)
      else case dr_store d of
        None \<Rightarrow> (True, d)
      | Some disk \<Rightarrow>
          if \<not> dr_available d then (False, d)
          else case store_save (de_codec env) (dr_io d) (persisted_snapshot (dr_engine d)) disk of
                 (Inl e, disk) \<Rightarrow> (False, fail_closed (d\<lparr>dr_store := Some disk\<rparr>))
               | (Inr _, disk) \<Rightarrow> (True, d\<lparr>dr_store := Some disk\<rparr>))"

definition apply_commands :: "command list \<Rightarrow> state_machine \<Rightarrow> state_machine" where
  "apply_commands cmds sm = fold apply_command cmds sm"

text \<open>
  Applying under the watermark lock. A plain batch whose predecessor has not applied yet waits; it is
  woken again and again, so the outcome of the section is then that it \<open>Waits\<close>.
\<close>

datatype section_outcome = Goes_On driver | Bails driver | Waits

definition apply_ready :: "driver_env \<Rightarrow> ready \<Rightarrow> driver \<Rightarrow> section_outcome" where
  "apply_ready env rd d =
     (if rd_restore rd = None \<and> rd_applied_upto rd \<le> rd_applied_from rd then Goes_On d
      else if \<not> dr_available d then Bails d
      else case rd_restore rd of
        Some data \<Rightarrow>
          if dr_watermark d \<le> rd_applied_upto rd then
            (case restore_state_machine env data (dr_sm d) of
               None \<Rightarrow> Bails (fail_closed d)
             | Some sm \<Rightarrow>
                 Goes_On (d\<lparr>dr_sm := apply_commands (map snd (rd_committed rd)) sm,
                            dr_watermark := rd_applied_upto rd\<rparr>))
          else Goes_On d
      | None \<Rightarrow>
          if dr_watermark d < rd_applied_from rd then Waits
          else
            Goes_On (d\<lparr>dr_sm := apply_commands (map snd (filter (\<lambda>(index, command). dr_watermark d < index)
                                  (rd_committed rd))) (dr_sm d),
                       dr_watermark := max (rd_applied_upto rd) (dr_watermark d)\<rparr>))"

definition maybe_compact :: "driver_env \<Rightarrow> nat \<Rightarrow> driver \<Rightarrow> bool \<times> driver" where
  "maybe_compact env applied_upto d =
     (if \<not> (COMPACT_LOG_THRESHOLD \<le> length (rf_log (dr_engine d)) \<and> rf_base_index (dr_engine d) < applied_upto)
      then (True, d)
      else case snapshot_state_machine env (dr_sm d) of
        None \<Rightarrow> (False, fail_closed d)
      | Some data \<Rightarrow>
          let compacted = compact applied_upto data (dr_engine d) in
          (case dr_store d of
             Some disk \<Rightarrow>
               if \<not> dr_available d then (False, d)
               else (case store_save (de_codec env) (dr_io d) (persisted_snapshot compacted) disk of
                       (Inl e, disk) \<Rightarrow> (False, fail_closed (d\<lparr>dr_store := Some disk\<rparr>))
                     | (Inr _, disk) \<Rightarrow> (True, d\<lparr>dr_store := Some disk, dr_engine := compacted\<rparr>))
           | None \<Rightarrow> (True, d\<lparr>dr_engine := compacted\<rparr>)))"

definition is_response :: "raft_message \<Rightarrow> bool" where
  "is_response msg =
     (case msg of RequestVoteResp _ \<Rightarrow> True | AppendEntriesResp _ \<Rightarrow> True | InstallSnapshotResp _ \<Rightarrow> True | _ \<Rightarrow> False)"

fun split_reply :: "node_id option \<Rightarrow> addressed list \<Rightarrow> raft_message option \<times> addressed list" where
  "split_reply reply_to [] = (None, [])"
| "split_reply reply_to (a # rest) =
     (if is_response (ad_msg a) \<and> reply_to = Some (ad_to a) then (Some (ad_msg a), rest)
      else let (reply, others) = split_reply reply_to rest in (reply, a # others))"

definition route_messages :: "ready \<Rightarrow> node_id option \<Rightarrow> driver \<Rightarrow> (raft_message option \<times> bool) \<times> driver" where
  "route_messages rd reply_to d =
     (let (reply, others) = split_reply reply_to (rd_messages rd) in
      if others \<noteq> [] \<and> \<not> dr_outbox_open d then ((None, False), fail_closed d)
      else ((reply, True), if others = [] then d else d\<lparr>dr_outbox := dr_outbox d @ [others]\<rparr>))"

datatype drain_outcome = Drained "raft_message option" driver | Drain_Failed driver | Drain_Waits driver

definition drain_ready :: "driver_env \<Rightarrow> ready \<Rightarrow> node_id option \<Rightarrow> driver \<Rightarrow> drain_outcome" where
  "drain_ready env rd reply_to d =
     (if \<not> dr_available d then Drain_Failed d
      else case persist_ready env rd d of
        (False, d) \<Rightarrow> Drain_Failed d
      | (True, d) \<Rightarrow>
          (case apply_ready env rd d of
             Bails d \<Rightarrow> Drain_Failed d
           | Waits \<Rightarrow> Drain_Waits d
           | Goes_On d \<Rightarrow>
               (case maybe_compact env (rd_applied_upto rd) d of
                  (False, d) \<Rightarrow> Drain_Failed d
                | (True, d) \<Rightarrow>
                    (case route_messages rd reply_to d of
                       ((reply, True), d) \<Rightarrow> Drained reply d
                     | ((_, False), d) \<Rightarrow> Drain_Failed d))))"

subsection \<open>The paths into \<open>drain\<close>\<close>

text \<open>An engine operation and \<open>ready\<close> under one hold of the engine lock.\<close>

definition engine_ready :: "(raft \<Rightarrow> raft) \<Rightarrow> driver \<Rightarrow> ready \<times> driver" where
  "engine_ready op d = (let (rd, r) = raft_ready (op (dr_engine d)) in (rd, d\<lparr>dr_engine := r\<rparr>))"

definition tick_loop_body :: "driver_env \<Rightarrow> driver \<Rightarrow> drain_outcome" where
  "tick_loop_body env d =
     (if \<not> dr_available d then Drain_Failed d
      else let (rd, d) = engine_ready raft_tick d in drain_ready env rd None d)"

definition deliver :: "driver_env \<Rightarrow> node_id \<Rightarrow> raft_message \<Rightarrow> driver \<Rightarrow> drain_outcome" where
  "deliver env from_node resp d =
     (if \<not> dr_available d then Drain_Failed d
      else let (rd, d) = engine_ready (raft_step from_node resp) d in drain_ready env rd None d)"

definition step_inbound :: "driver_env \<Rightarrow> node_id \<Rightarrow> raft_message \<Rightarrow> driver \<Rightarrow> drain_outcome" where
  "step_inbound env from_node msg d =
     (if \<not> dr_available d then Drain_Failed d
      else let (rd, d) = engine_ready (raft_step from_node msg) d in drain_ready env rd (Some from_node) d)"

text \<open>
  The answer of a handler, made from the reply of \<open>step_inbound\<close> and the engine's term, and the state
  after it; no answer yet while the drain waits.
\<close>

definition inbound_answer :: "(raft_message option \<Rightarrow> nat \<Rightarrow> 'r) \<Rightarrow> drain_outcome \<Rightarrow> 'r option \<times> driver" where
  "inbound_answer f out =
     (case out of
        Drained reply d \<Rightarrow> (Some (f reply (rf_current_term (dr_engine d))), d)
      | Drain_Failed d \<Rightarrow> (Some (f None (rf_current_term (dr_engine d))), d)
      | Drain_Waits d \<Rightarrow> (None, d))"

definition driver_request_vote ::
  "driver_env \<Rightarrow> request_vote_req \<Rightarrow> driver \<Rightarrow> request_vote_resp option \<times> driver" where
  "driver_request_vote env req d =
     inbound_answer (\<lambda>reply t.
       case reply of
         Some (RequestVoteResp resp) \<Rightarrow> resp
       | _ \<Rightarrow> \<lparr>rvr_term = t, rvr_granted = False, rvr_pre_vote = rv_pre_vote req\<rparr>)
       (step_inbound env (rv_candidate_id req) (RequestVote req) d)"

definition driver_append_entries ::
  "driver_env \<Rightarrow> append_entries_req \<Rightarrow> driver \<Rightarrow> append_entries_resp option \<times> driver" where
  "driver_append_entries env req d =
     inbound_answer (\<lambda>reply t.
       case reply of
         Some (AppendEntriesResp resp) \<Rightarrow> resp
       | _ \<Rightarrow> \<lparr>aer_term = t, aer_success = False, aer_match_index = 0\<rparr>)
       (step_inbound env (ae_leader_id req) (AppendEntries req) d)"

definition driver_install_snapshot ::
  "driver_env \<Rightarrow> install_snapshot_req \<Rightarrow> driver \<Rightarrow> install_snapshot_resp option \<times> driver" where
  "driver_install_snapshot env req d =
     inbound_answer (\<lambda>reply t.
       case reply of
         Some (InstallSnapshotResp resp) \<Rightarrow> resp
       | _ \<Rightarrow> \<lparr>isr_term = t, isr_success = False, isr_last_included_index = 0\<rparr>)
       (step_inbound env (is_leader_id req) (InstallSnapshot req) d)"

subsection \<open>Peer routes and transport\<close>

text \<open>The \<open>Authorization\<close> header is given as the string \<open>to_str().ok()\<close> makes of it.\<close>

definition authorize :: "driver_env \<Rightarrow> driver \<Rightarrow> string option \<Rightarrow> bool" where
  "authorize env d header =
     (case Option.bind header (strip_prefix ''Bearer '') of
        Some token \<Rightarrow> de_ct_eq env (bytes_of token) (bytes_of (dr_secret d))
      | None \<Rightarrow> False)"

text \<open>A peer request: refused with 401, or answered.\<close>

datatype peer_request =
    Peer_Vote request_vote_req | Peer_Append append_entries_req | Peer_Snapshot install_snapshot_req

datatype peer_answer = Peer_Unauthorized | Peer_Reply raft_message

definition raft_router ::
  "driver_env \<Rightarrow> string option \<Rightarrow> peer_request \<Rightarrow> driver \<Rightarrow> peer_answer option \<times> driver" where
  "raft_router env header req d =
     (if \<not> authorize env d header then (Some Peer_Unauthorized, d)
      else case req of
        Peer_Vote req \<Rightarrow>
          apfst (map_option (\<lambda>resp. Peer_Reply (RequestVoteResp resp))) (driver_request_vote env req d)
      | Peer_Append req \<Rightarrow>
          apfst (map_option (\<lambda>resp. Peer_Reply (AppendEntriesResp resp))) (driver_append_entries env req d)
      | Peer_Snapshot req \<Rightarrow>
          apfst (map_option (\<lambda>resp. Peer_Reply (InstallSnapshotResp resp))) (driver_install_snapshot env req d))"

text \<open>
  The HTTP client is a parameter: per endpoint, what a POST of the request to a URL with a bearer token
  comes back with.
\<close>

datatype 'r http_outcome = Send_Failed | Answered nat "'r option"

definition post_rpc :: "(string \<Rightarrow> string \<Rightarrow> 'q \<Rightarrow> 'r http_outcome) \<Rightarrow> string \<Rightarrow> string \<Rightarrow> string \<Rightarrow> 'q \<Rightarrow> 'r option" where
  "post_rpc client secret base path req =
     (case client (base @ path) secret req of
        Send_Failed \<Rightarrow> None
      | Answered status decoded \<Rightarrow> if 200 \<le> status \<and> status < 300 then decoded else None)"

record peer_client =
  pc_vote :: "string \<Rightarrow> string \<Rightarrow> request_vote_req \<Rightarrow> request_vote_resp http_outcome"
  pc_append :: "string \<Rightarrow> string \<Rightarrow> append_entries_req \<Rightarrow> append_entries_resp http_outcome"
  pc_snapshot :: "string \<Rightarrow> string \<Rightarrow> install_snapshot_req \<Rightarrow> install_snapshot_resp http_outcome"

definition http_send :: "peer_client \<Rightarrow> string \<Rightarrow> node_id \<Rightarrow> raft_message \<Rightarrow> raft_message option" where
  "http_send client secret to msg =
     (let base = trim_end_matches (CHR ''/'') to in
      case msg of
        RequestVote req \<Rightarrow> map_option RequestVoteResp (post_rpc (pc_vote client) secret base ''/raft/vote'' req)
      | AppendEntries req \<Rightarrow> map_option AppendEntriesResp (post_rpc (pc_append client) secret base ''/raft/append'' req)
      | InstallSnapshot req \<Rightarrow> map_option InstallSnapshotResp (post_rpc (pc_snapshot client) secret base ''/raft/snapshot'' req)
      | _ \<Rightarrow> None)"

text \<open>The outbox task on one message: send it and feed the answer back.\<close>

definition outbox_send :: "driver_env \<Rightarrow> peer_client \<Rightarrow> addressed \<Rightarrow> driver \<Rightarrow> drain_outcome" where
  "outbox_send env client a d =
     (case http_send client (dr_secret d) (ad_to a) (ad_msg a) of
        Some resp \<Rightarrow> deliver env (ad_to a) resp d
      | None \<Rightarrow> Drained None d)"

subsection \<open>Proposals\<close>

text \<open>What other threads do between two looks of a waiting proposal.\<close>

datatype driver_op =
    Ticks
  | Delivers node_id raft_message
  | Receives node_id raft_message
  | Disk_Becomes disk_io
  | Outbox_Closes

fun driver_op_outcome :: "driver_env \<Rightarrow> driver_op \<Rightarrow> driver \<Rightarrow> drain_outcome" where
  "driver_op_outcome env Ticks d = tick_loop_body env d"
| "driver_op_outcome env (Delivers from_node msg) d = deliver env from_node msg d"
| "driver_op_outcome env (Receives from_node msg) d = step_inbound env from_node msg d"
| "driver_op_outcome env (Disk_Becomes io) d = Drained None (d\<lparr>dr_io := io\<rparr>)"
| "driver_op_outcome env Outbox_Closes d = Drained None (d\<lparr>dr_outbox_open := False\<rparr>)"

text \<open>The state an operation leaves to the others.\<close>

fun settled :: "drain_outcome \<Rightarrow> driver" where
  "settled (Drained _ d) = d"
| "settled (Drain_Failed d) = d"
| "settled (Drain_Waits d) = d"

definition run_driver_op :: "driver_env \<Rightarrow> driver_op \<Rightarrow> driver \<Rightarrow> driver" where
  "run_driver_op env op d = settled (driver_op_outcome env op d)"

text \<open>
  One list of operations per wait on the condition variable; the deadline has passed when the list of
  lists is used up.
\<close>

fun await_commit :: "driver_env \<Rightarrow> nat \<Rightarrow> nat \<Rightarrow> driver_op list list \<Rightarrow> driver \<Rightarrow> bool \<times> driver" where
  "await_commit env index t waits d =
     (if index \<le> rf_commit_index (dr_engine d) \<and> rf_current_term (dr_engine d) = t then (True, d)
      else if rf_current_term (dr_engine d) \<noteq> t \<or> rf_role (dr_engine d) \<noteq> Leader then (False, d)
      else case waits of
        [] \<Rightarrow> (False, d)
      | ops # waits \<Rightarrow>
          if \<not> dr_available d then (False, d)
          else await_commit env index t waits (fold (run_driver_op env) ops d))"

declare await_commit.simps [simp del]

definition driver_propose ::
  "driver_env \<Rightarrow> driver_op list list \<Rightarrow> command \<Rightarrow> driver \<Rightarrow> bool option \<times> driver" where
  "driver_propose env waits command d =
     (if \<not> dr_available d then (Some False, d)
      else case raft_propose command (dr_engine d) of
        (Inl _, r) \<Rightarrow> (Some False, d\<lparr>dr_engine := r\<rparr>)
      | (Inr index, r) \<Rightarrow>
          let t = rf_current_term r;
              (rd, d) = engine_ready (\<lambda>_. r) d
          in (case drain_ready env rd None d of
                Drain_Waits d \<Rightarrow> (None, d)
              | Drain_Failed d \<Rightarrow> (Some False, d)
              | Drained _ d \<Rightarrow> apfst Some (await_commit env index t waits d)))"

definition driver_is_leader :: "driver \<Rightarrow> bool" where
  "driver_is_leader d \<longleftrightarrow> dr_available d \<and> rf_role (dr_engine d) = Leader"

definition driver_leader_addr :: "driver \<Rightarrow> string option" where
  "driver_leader_addr d = (if dr_available d then rf_leader_id (dr_engine d) else None)"

text \<open>
  The driver as a control plane. Its private state is the driver together with what the other threads
  do during each coming proposal; a proposal whose drain still waits has not been acknowledged.
\<close>

definition raft_control_plane :: "driver_env \<Rightarrow> (driver \<times> driver_op list list list) control_plane_ops" where
  "raft_control_plane env =
     \<lparr>cp_is_available = (\<lambda>(d, _). dr_available d),
      cp_is_leader = (\<lambda>(d, _). driver_is_leader d),
      cp_leader_addr = (\<lambda>(d, _). driver_leader_addr d),
      cp_propose = (\<lambda>command (d, script) sm.
        let waits = (case script of [] \<Rightarrow> [] | w # _ \<Rightarrow> w);
            d = d\<lparr>dr_sm := sm\<rparr>;
            (answer, d) = driver_propose env waits command d
        in (answer = Some True, (d, tl script), dr_sm d))\<rparr>"

subsection \<open>Replicated events\<close>

lemma apply_commands_events: "apply_commands cmds sm = sm_events (map Applied cmds) sm"
  unfolding apply_commands_def by (induction cmds arbitrary: sm) simp_all

lemma restore_event:
  assumes "restore_state_machine env data sm = Some sm'"
  shows "\<exists>as p. sm' = apply_event (Restored as p) sm"
  using assms by (auto simp: restore_state_machine_def)

text \<open>\<open>changes d d'\<close>: the state machine of \<open>d'\<close> stems from that of \<open>d\<close> by events of the replicated log.\<close>

definition changes :: "driver \<Rightarrow> driver \<Rightarrow> bool" where
  "changes d d' \<longleftrightarrow> (\<exists>evs. dr_sm d' = sm_events evs (dr_sm d))"

lemma changes_same: "dr_sm d' = dr_sm d \<Longrightarrow> changes d d'"
  unfolding changes_def by (rule exI [of _ "[]"]) simp

lemma changes_trans: "changes d d1 \<Longrightarrow> changes d1 d2 \<Longrightarrow> changes d d2"
  unfolding changes_def by (metis sm_events_simps(3))

lemma fail_closed_sel [simp]:
  "dr_sm (fail_closed d) = dr_sm d" "dr_outbox (fail_closed d) = dr_outbox d" "dr_engine (fail_closed d) = dr_engine d"
  "dr_store (fail_closed d) = dr_store d" "dr_watermark (fail_closed d) = dr_watermark d"
  "\<not> dr_available (fail_closed d)"
  by (simp_all add: fail_closed_def)

lemma persist_ready_frame [frames]:
  assumes "persist_ready env rd d = (ok, d')"
  shows "dr_sm d' = dr_sm d" "dr_outbox d' = dr_outbox d" "dr_engine d' = dr_engine d"
    "dr_watermark d' = dr_watermark d" "ok \<Longrightarrow> dr_available d' = dr_available d" "dr_outbox_open d' = dr_outbox_open d"
  using assms by (auto simp: persist_ready_def fail_closed_def split: if_splits option.splits prod.splits sum.splits)

lemma maybe_compact_frame [frames]:
  assumes "maybe_compact env n d = (ok, d')"
  shows "dr_sm d' = dr_sm d" "dr_outbox d' = dr_outbox d" "dr_watermark d' = dr_watermark d"
    "ok \<Longrightarrow> dr_available d' = dr_available d" "dr_outbox_open d' = dr_outbox_open d"
  using assms
  by (auto simp: maybe_compact_def fail_closed_def Let_def split: if_splits option.splits prod.splits sum.splits)

lemma route_messages_frame [frames]:
  assumes "route_messages rd reply_to d = (res, d')"
  shows "dr_sm d' = dr_sm d" "dr_engine d' = dr_engine d" "dr_store d' = dr_store d" "dr_watermark d' = dr_watermark d"
    "snd res \<Longrightarrow> dr_available d' = dr_available d" "dr_outbox_open d' = dr_outbox_open d"
  using assms by (auto simp: route_messages_def fail_closed_def Let_def split: if_splits prod.splits)

lemma apply_ready_changes:
  "apply_ready env rd d = Goes_On d' \<Longrightarrow> changes d d'" "apply_ready env rd d = Bails d' \<Longrightarrow> changes d d'"
proof -
  show "changes d d'" if goes: "apply_ready env rd d = Goes_On d'"
  proof (cases "rd_restore rd")
    case None
    with goes show ?thesis
      unfolding apply_ready_def changes_def
      by (auto simp: apply_commands_events split: if_splits intro: exI [of _ "[]"])
  next
    case (Some data)
    then consider "d' = d" | sm where "restore_state_machine env data (dr_sm d) = Some sm"
        "dr_sm d' = apply_commands (map snd (rd_committed rd)) sm"
      using goes by (auto simp: apply_ready_def split: if_splits option.splits)
    then show ?thesis
    proof cases
      case 2
      obtain as p where "sm = apply_event (Restored as p) (dr_sm d)" using restore_event [OF 2(1)] by blast
      with 2(2) have "dr_sm d' = sm_events (Restored as p # map Applied (map snd (rd_committed rd))) (dr_sm d)"
        by (simp add: apply_commands_events)
      then show ?thesis unfolding changes_def by blast
    qed (simp add: changes_same)
  qed
  show "changes d d'" if "apply_ready env rd d = Bails d'"
    using that by (intro changes_same) (auto simp: apply_ready_def split: if_splits option.splits)
qed

lemma apply_ready_frame [frames]:
  assumes "apply_ready env rd d = Goes_On d'"
  shows "dr_engine d' = dr_engine d" "dr_store d' = dr_store d" "dr_outbox d' = dr_outbox d"
    "dr_available d' = dr_available d" "dr_outbox_open d' = dr_outbox_open d" "dr_io d' = dr_io d"
  using assms by (auto simp: apply_ready_def split: if_splits option.splits)

text \<open>The ways a drain can end.\<close>

lemma drain_cases:
  obtains (unavailable) "\<not> dr_available d" "drain_ready env rd to d = Drain_Failed d"
  | (unsaved) d1 where "dr_available d" "persist_ready env rd d = (False, d1)" "drain_ready env rd to d = Drain_Failed d1"
  | (bails) d1 d2 where "dr_available d" "persist_ready env rd d = (True, d1)" "apply_ready env rd d1 = Bails d2"
      "drain_ready env rd to d = Drain_Failed d2"
  | (waits) d1 where "dr_available d" "persist_ready env rd d = (True, d1)" "apply_ready env rd d1 = Waits"
      "drain_ready env rd to d = Drain_Waits d1"
  | (uncompacted) d1 d2 d3 where "dr_available d" "persist_ready env rd d = (True, d1)" "apply_ready env rd d1 = Goes_On d2"
      "maybe_compact env (rd_applied_upto rd) d2 = (False, d3)" "drain_ready env rd to d = Drain_Failed d3"
  | (closed) d1 d2 d3 d4 r where "dr_available d" "persist_ready env rd d = (True, d1)" "apply_ready env rd d1 = Goes_On d2"
      "maybe_compact env (rd_applied_upto rd) d2 = (True, d3)" "route_messages rd to d3 = ((r, False), d4)"
      "drain_ready env rd to d = Drain_Failed d4"
  | (finished) d1 d2 d3 d4 r where "dr_available d" "persist_ready env rd d = (True, d1)" "apply_ready env rd d1 = Goes_On d2"
      "maybe_compact env (rd_applied_upto rd) d2 = (True, d3)" "route_messages rd to d3 = ((r, True), d4)"
      "drain_ready env rd to d = Drained r d4"
proof (cases "dr_available d")
  case False
  then show thesis using unavailable by (simp add: drain_ready_def)
next
  case av: True
  obtain ok1 d1 where p: "persist_ready env rd d = (ok1, d1)" by fastforce
  show thesis
  proof (cases ok1)
    case False
    with av p unsaved show thesis by (simp add: drain_ready_def)
  next
    case t1: True
    show thesis
    proof (cases "apply_ready env rd d1")
      case (Goes_On d2)
      obtain ok3 d3 where c: "maybe_compact env (rd_applied_upto rd) d2 = (ok3, d3)" by fastforce
      obtain r ok4 d4 where m: "route_messages rd to d3 = ((r, ok4), d4)" by (metis prod.exhaust)
      show thesis
        using av p t1 Goes_On c m uncompacted closed finished by (cases ok3; cases ok4) (simp_all add: drain_ready_def)
    qed (use av p t1 bails waits in \<open>simp_all add: drain_ready_def\<close>)
  qed
qed

lemma drain_changes: "changes d (settled (drain_ready env rd to d))"
proof (cases rule: drain_cases [of d env rd to])
  case unavailable
  then show ?thesis by (simp add: changes_same)
next
  case (unsaved d1)
  then show ?thesis using persist_ready_frame(1) by (simp add: changes_same)
next
  case (bails d1 d2)
  then show ?thesis using persist_ready_frame(1) [OF bails(2)] apply_ready_changes(2) [OF bails(3)] changes_same changes_trans
    by (metis settled.simps(2))
next
  case (waits d1)
  then show ?thesis using persist_ready_frame(1) by (simp add: changes_same)
next
  case (uncompacted d1 d2 d3)
  then show ?thesis
    using persist_ready_frame(1) [OF uncompacted(2)] apply_ready_changes(1) [OF uncompacted(3)] maybe_compact_frame(1) [OF uncompacted(4)]
    by (auto simp: changes_def)
next
  case (closed d1 d2 d3 d4 r)
  then show ?thesis
    using persist_ready_frame(1) [OF closed(2)] apply_ready_changes(1) [OF closed(3)] maybe_compact_frame(1) [OF closed(4)]
      route_messages_frame(1) [OF closed(5)]
    by (auto simp: changes_def)
next
  case (finished d1 d2 d3 d4 r)
  then show ?thesis
    using persist_ready_frame(1) [OF finished(2)] apply_ready_changes(1) [OF finished(3)] maybe_compact_frame(1) [OF finished(4)]
      route_messages_frame(1) [OF finished(5)]
    by (auto simp: changes_def)
qed

lemma engine_ready_frame [frames]:
  assumes "engine_ready op d = (rd, d')"
  shows "dr_sm d' = dr_sm d" "dr_outbox d' = dr_outbox d" "dr_store d' = dr_store d" "dr_available d' = dr_available d"
    "dr_watermark d' = dr_watermark d" "dr_io d' = dr_io d" "dr_outbox_open d' = dr_outbox_open d" "dr_secret d' = dr_secret d"
    "rd = fst (raft_ready (op (dr_engine d)))" "dr_engine d' = snd (raft_ready (op (dr_engine d)))"
  using assms by (auto simp: engine_ready_def Let_def case_prod_beta)

lemma ready_drain_changes:
  "changes d (settled (case engine_ready op d of (rd, d) \<Rightarrow> drain_ready env rd to d))"
proof -
  obtain rd d' where e: "engine_ready op d = (rd, d')" by fastforce
  have "changes d d'" by (rule changes_same) (rule engine_ready_frame(1) [OF e])
  with drain_changes changes_trans show ?thesis by (auto simp: e)
qed

lemma driver_op_changes: "changes d (run_driver_op env op d)"
  by (cases op)
    (simp_all add: run_driver_op_def tick_loop_body_def deliver_def step_inbound_def ready_drain_changes changes_same)

lemma driver_ops_changes: "changes d (fold (run_driver_op env) ops d)"
  by (induction ops arbitrary: d) (auto intro: changes_same changes_trans driver_op_changes)

lemma await_commit_changes: "changes d (snd (await_commit env index t waits d))"
proof (induction env index t waits d rule: await_commit.induct)
  case (1 env index t waits d)
  show ?case
  proof (cases waits)
    case (Cons ops rest)
    have "changes d (fold (run_driver_op env) ops d)" by (rule driver_ops_changes)
    with 1 Cons changes_trans show ?thesis
      by (subst await_commit.simps) (auto simp: changes_same)
  qed (subst await_commit.simps, simp add: changes_same)
qed

lemma propose_changes: "changes d (snd (driver_propose env waits cmd d))"
proof (cases "dr_available d")
  case True
  obtain res r where pr: "raft_propose cmd (dr_engine d) = (res, r)" by fastforce
  show ?thesis
  proof (cases res)
    case (Inl l)
    with True pr show ?thesis by (simp add: driver_propose_def changes_same)
  next
    case (Inr index)
    obtain rd d1 where e: "engine_ready (\<lambda>_. r) d = (rd, d1)" by fastforce
    have "changes d d1" by (rule changes_same) (rule engine_ready_frame(1) [OF e])
    moreover have "changes d1 (settled (drain_ready env rd None d1))" by (rule drain_changes)
    ultimately have "changes d (settled (drain_ready env rd None d1))" by (rule changes_trans)
    then show ?thesis
      using True pr Inr e changes_trans [OF _ await_commit_changes]
      by (cases "drain_ready env rd None d1") (simp_all add: driver_propose_def Let_def apfst_def map_prod_def case_prod_beta)
  qed
qed (simp add: driver_propose_def changes_same)

interpretation rcp: control_plane "raft_control_plane env" for env
proof unfold_locales
  fix cmd and c c' :: "driver \<times> driver_op list list list" and sm sm' ok
  assume run: "cp_propose (raft_control_plane env) cmd c sm = (ok, c', sm')"
  obtain d script where c: "c = (d, script)" by fastforce
  have "changes (d\<lparr>dr_sm := sm\<rparr>)
      (snd (driver_propose env (case script of [] \<Rightarrow> [] | w # _ \<Rightarrow> w) cmd (d\<lparr>dr_sm := sm\<rparr>)))"
    by (rule propose_changes)
  with run show "\<exists>evs. sm' = sm_events evs sm"
    by (auto simp: raft_control_plane_def c Let_def changes_def case_prod_beta)
qed

subsection \<open>Samples\<close>

definition sample_env :: driver_env where
  "sample_env =
     \<lparr>de_codec = unary_codec, de_enc_state = (\<lambda>s. if ss_shards s = [] then Some (unary (sp_target_nodes (ss_plan s)) @
        unary (sp_replication_factor (ss_plan s))) else None),
      de_dec_state = (\<lambda>b. Option.bind (read_unary b) (\<lambda>(t, b). Option.bind (read_unary b) (\<lambda>(f, b).
        if b = [] then Some \<lparr>ss_shards = [], ss_plan = \<lparr>sp_target_nodes = t, sp_replication_factor = f\<rparr>\<rparr> else None))),
      de_ct_eq = (=)\<rparr>"

definition sample_sm :: state_machine where
  "sample_sm =
     \<lparr>sm_membership = new_membership \<lparr>suspect_after_ms = 6, dead_after_ms = 30\<rparr>, sm_placement = new_placement 1,
      sm_plan = \<lparr>sp_target_nodes = 3, sp_replication_factor = 3\<rparr>\<rparr>"

definition sample_driver :: "raft \<Rightarrow> driver" where
  "sample_driver r =
     \<lparr>dr_engine = r, dr_store = Some (\<lambda>_. None), dr_io = good_io, dr_secret = ''s'', dr_available = True,
      dr_outbox = [], dr_outbox_open = True, dr_watermark = rf_last_applied r, dr_sm = sample_sm\<rparr>"

subsection \<open>Properties\<close>

text \<open>
  C12. Persist before act: when a drained batch carries state to persist and the member has a store, then
  nothing leaves the member (no message to the outbox, no reply) and nothing is applied to the state
  machine unless the save of the engine's current state has succeeded; and if that save fails, the
  member is unavailable afterwards.
\<close>

theorem drain_persists_first:
  fixes env :: driver_env and to :: "node_id option"
  assumes "rd_persist rd \<noteq> None" and "dr_store d = Some disk" and "dr_available d"
  defines "save \<equiv> fst (store_save (de_codec env) (dr_io d) (persisted_snapshot (dr_engine d)) disk)"
  defines "out \<equiv> drain_ready env rd to d"
  shows "(dr_outbox (settled out) \<noteq> dr_outbox d \<or> dr_sm (settled out) \<noteq> dr_sm d \<or> (\<exists>reply d'. out = Drained reply d')
      \<longrightarrow> save = Inr ()) \<and>
    (save \<noteq> Inr () \<longrightarrow> (\<exists>d'. out = Drain_Failed d') \<and> \<not> dr_available (settled out))"
proof (cases "save = Inr ()")
  case False
  then obtain e disk' where "store_save (de_codec env) (dr_io d) (persisted_snapshot (dr_engine d)) disk = (Inl e, disk')"
    unfolding save_def by (cases "store_save (de_codec env) (dr_io d) (persisted_snapshot (dr_engine d)) disk"; cases "fst (store_save (de_codec env) (dr_io d) (persisted_snapshot (dr_engine d)) disk)") auto
  with assms(1-3) have "out = Drain_Failed (fail_closed (d\<lparr>dr_store := Some disk'\<rparr>))"
    unfolding out_def drain_ready_def by (auto simp: persist_ready_def)
  then show ?thesis by simp
qed simp

theorem drain_persists_first_witness:
  "\<not> dr_available (settled (drain_ready sample_env (fst (raft_ready sample_leader)) None
     (sample_driver sample_leader\<lparr>dr_io := fails_at Log_File\<rparr>)))"
proof -
  have "fst (store_save unary_codec (fails_at Log_File) (persisted_snapshot sample_leader) (\<lambda>_. None)) \<noteq> Inr ()"
    by (auto simp: store_save_def save_snapshot_def write_log_def atomic_write_def fails_at_def good_io_def
        split: sum.splits option.splits prod.splits)
  moreover have "rd_persist (fst (raft_ready sample_leader)) \<noteq> None" by (simp add: raft_ready_def Let_def)
  ultimately show ?thesis
    using drain_persists_first [of "fst (raft_ready sample_leader)" "sample_driver sample_leader\<lparr>dr_io := fails_at Log_File\<rparr>"
      "\<lambda>_. None" sample_env None]
    by (simp add: sample_driver_def sample_env_def)
qed

text \<open>
  Failing closed is sticky: once a member is unavailable, no sequence of ticks, deliveries, inbound
  requests or changes of its environment alters its engine, store, outbox or state machine, it never
  becomes available again, it is no leader and names none, it acknowledges no proposal, grants no vote
  and accepts no entries and no snapshot.
\<close>

theorem fail_closed_is_sticky:
  fixes env :: driver_env and ops :: "driver_op list"
  assumes "\<not> dr_available d"
  defines "d' \<equiv> fold (run_driver_op env) ops d"
  shows "\<not> dr_available d' \<and> dr_engine d' = dr_engine d \<and> dr_store d' = dr_store d \<and> dr_outbox d' = dr_outbox d
    \<and> dr_sm d' = dr_sm d \<and> \<not> driver_is_leader d' \<and> driver_leader_addr d' = None
    \<and> driver_propose env waits cmd d' = (Some False, d')
    \<and> rvr_granted (the (fst (driver_request_vote env vreq d'))) = False
    \<and> aer_success (the (fst (driver_append_entries env areq d'))) = False
    \<and> isr_success (the (fst (driver_install_snapshot env sreq d'))) = False"
proof -
  have step: "\<not> dr_available (run_driver_op env op x) \<and> dr_engine (run_driver_op env op x) = dr_engine x \<and>
      dr_store (run_driver_op env op x) = dr_store x \<and> dr_outbox (run_driver_op env op x) = dr_outbox x \<and>
      dr_sm (run_driver_op env op x) = dr_sm x" if "\<not> dr_available x" for op x
    using that by (cases op) (simp_all add: run_driver_op_def tick_loop_body_def deliver_def step_inbound_def)
  have "\<not> dr_available d' \<and> dr_engine d' = dr_engine d \<and> dr_store d' = dr_store d \<and> dr_outbox d' = dr_outbox d \<and>
      dr_sm d' = dr_sm d"
    using assms(1) unfolding d'_def by (induction ops arbitrary: d) (simp_all add: step)
  then show ?thesis
    by (simp add: driver_is_leader_def driver_leader_addr_def driver_propose_def driver_request_vote_def
        driver_append_entries_def driver_install_snapshot_def step_inbound_def inbound_answer_def)
qed

theorem fail_closed_is_sticky_witness:
  "dr_engine (fold (run_driver_op sample_env) [Ticks, Disk_Becomes good_io, Ticks] (fail_closed (sample_driver sample_leader))) = sample_leader"
  using fail_closed_is_sticky [of "fail_closed (sample_driver sample_leader)" sample_env "[Ticks, Disk_Becomes good_io, Ticks]"]
  by (simp add: sample_driver_def)

text \<open>
  The peer routes run a request exactly when it presents the configured secret as a bearer token,
  given that the comparison of the \<open>subtle\<close> library is equality; otherwise the answer is 401 and the
  member is untouched.
\<close>

theorem peer_routes_need_secret:
  assumes "\<And>a b. de_ct_eq env a b \<longleftrightarrow> a = b"
  shows "(fst (raft_router env header req d) = Some Peer_Unauthorized \<longleftrightarrow> header \<noteq> Some (''Bearer '' @ dr_secret d))
    \<and> (header \<noteq> Some (''Bearer '' @ dr_secret d) \<longrightarrow> snd (raft_router env header req d) = d)"
proof -
  have strip: "strip_prefix p s = Some t \<longleftrightarrow> s = p @ t" for p s t
    by (auto simp: strip_prefix_def) (metis append_take_drop_id)
  have "authorize env d header \<longleftrightarrow> (\<exists>s. header = Some s \<and> strip_prefix ''Bearer '' s = Some (dr_secret d))"
    using assms by (cases header) (auto simp: authorize_def bytes_of_inj split: option.splits)
  then have auth: "authorize env d header \<longleftrightarrow> header = Some (''Bearer '' @ dr_secret d)"
    unfolding strip by blast
  have "fst (raft_router env header req d) \<noteq> Some Peer_Unauthorized" if "authorize env d header"
    using that by (cases req) (auto simp: raft_router_def apfst_def map_prod_def case_prod_beta)
  with auth show ?thesis by (auto simp: raft_router_def)
qed

theorem peer_routes_need_secret_witness:
  "raft_router sample_env (Some ''Bearer t'') (Peer_Vote (vote_request sample_leader 2 False)) (sample_driver sample_leader) = (Some Peer_Unauthorized, sample_driver sample_leader)"
proof -
  have "\<And>a b. de_ct_eq sample_env a b \<longleftrightarrow> a = b" by (simp add: sample_env_def)
  from peer_routes_need_secret [OF this, of "Some ''Bearer t''" "Peer_Vote (vote_request sample_leader 2 False)" "sample_driver sample_leader"] show ?thesis
    by (simp add: sample_driver_def prod_eq_iff)
qed

end
