(* ===== verification/Driver_Runs.thy ===== *)
theory Driver_Runs
  imports Raft_Driver Raft_Votes
begin

section \<open>Runs of one driver\<close>

text \<open>
  A driver whose operations run one after the other: the watermark of the state machine is the
  engine's own mark of what it handed out, so a drain never waits, and every batch is applied in full.
\<close>

lemma accept_entries_applied [frames, simp]:
  "rf_last_applied (accept_entries from_node req r) = rf_last_applied r"
  "rf_pending_restore (accept_entries from_node req r) = rf_pending_restore r"
  "rf_snapshot (accept_entries from_node req r) = rf_snapshot r"
proof -
  obtain ok c q where s: "splice_entries (ae_entries req) (ae_prev_log_index req) r = (ok, c, q)"
    by (metis prod_cases3)
  then have b: "blank q = blank r" using splice_blank by blast
  have "rf_last_applied q = rf_last_applied r" "rf_pending_restore q = rf_pending_restore r"
    using arg_cong [OF b, of rf_last_applied] arg_cong [OF b, of rf_pending_restore] by (simp_all add: blank_def)
  then show "rf_last_applied (accept_entries from_node req r) = rf_last_applied r"
    "rf_pending_restore (accept_entries from_node req r) = rf_pending_restore r"
    "rf_snapshot (accept_entries from_node req r) = rf_snapshot r"
    using blank_eqD(10) [OF b] by (simp_all add: accept_entries_def s Let_def)
qed

lemma elections_applied [frames, simp]:
  "rf_last_applied (maybe_win_election r) = rf_last_applied r"
  "rf_pending_restore (maybe_win_election r) = rf_pending_restore r"
  "rf_last_applied (start_election r) = rf_last_applied r"
  "rf_pending_restore (start_election r) = rf_pending_restore r"
  "rf_last_applied (maybe_win_pre_election r) = rf_last_applied r"
  "rf_pending_restore (maybe_win_pre_election r) = rf_pending_restore r"
  "rf_last_applied (start_pre_election r) = rf_last_applied r"
  "rf_pending_restore (start_pre_election r) = rf_pending_restore r"
  "rf_snapshot (maybe_win_election r) = rf_snapshot r" "rf_snapshot (start_election r) = rf_snapshot r"
  "rf_snapshot (maybe_win_pre_election r) = rf_snapshot r" "rf_snapshot (start_pre_election r) = rf_snapshot r"
  by (simp_all add: maybe_win_election_def start_election_eq maybe_win_pre_election_def start_pre_election_eq)

text \<open>An operation leaves the applied index alone or has installed a snapshot beyond it.\<close>

definition applied_ok :: "raft \<Rightarrow> raft \<Rightarrow> bool" where
  "applied_ok r r' \<longleftrightarrow>
     (rf_pending_restore r' = rf_pending_restore r \<and> rf_last_applied r' = rf_last_applied r \<and>
        (rf_snapshot r \<noteq> None \<longrightarrow> rf_snapshot r' \<noteq> None)) \<or>
     (rf_pending_restore r' \<and> rf_last_applied r < rf_last_applied r' \<and> rf_snapshot r' \<noteq> None)"

lemma step_applied:
  assumes "raft_wf r"
  shows "applied_ok r (raft_step from_node msg r)"
proof (cases msg)
  case (InstallSnapshot req)
  have "rf_last_applied r \<le> rf_commit_index r" using assms by (simp add: raft_wf_def wf_index_def)
  then show ?thesis
    by (auto simp: InstallSnapshot raft_step_def applied_ok_def handle_install_snapshot_eq Let_def install_snapshot_def)
qed (auto simp: applied_ok_def raft_step_def handle_request_vote_def handle_vote_resp_def handle_append_eq
    handle_append_resp_def handle_install_snapshot_resp_def Let_def)

lemma op_applied:
  assumes "raft_wf r" and "op \<noteq> Drain_Ready"
  shows "applied_ok r (apply_raft_op op r)"
  using assms step_applied [OF assms(1)]
  by (cases op) (auto simp: applied_ok_def raft_tick_def raft_propose_def compact_def Let_def case_prod_beta)

subsection \<open>The invariant of a driver\<close>

definition driver_inv :: "driver \<Rightarrow> bool" where
  "driver_inv d \<longleftrightarrow>
     raft_wf (dr_engine d) \<and> \<not> rf_pending_restore (dr_engine d) \<and> rf_out (dr_engine d) = [] \<and>
     dr_watermark d = rf_last_applied (dr_engine d)"

text \<open>The watermark of a driver in front of an engine that is about to be drained.\<close>

definition drainable :: "nat \<Rightarrow> raft \<Rightarrow> bool" where
  "drainable w r \<longleftrightarrow>
     raft_wf r \<and>
     (if rf_pending_restore r then w \<le> rf_last_applied r \<and> rf_snapshot r \<noteq> None else w = rf_last_applied r)"

lemma drainable_op:
  assumes "driver_inv d" and "op_ok op (dr_engine d)" and "op \<noteq> Drain_Ready"
  shows "drainable (dr_watermark d) (apply_raft_op op (dr_engine d))"
  using assms op_applied [of "dr_engine d" op] raft_op_ok [OF _ assms(2)]
  by (auto simp: driver_inv_def drainable_def applied_ok_def)

text \<open>What the state machine goes through when an engine is drained.\<close>

definition drained_sm :: "driver_env \<Rightarrow> raft \<Rightarrow> state_machine \<Rightarrow> state_machine" where
  "drained_sm env r sm =
     apply_commands (map snd (commands_between r (rf_last_applied r) (rf_commit_index r)))
       (if rf_pending_restore r then the (restore_state_machine env (the (rf_snapshot r)) sm) else sm)"

lemma commands_between_empty: "commands_between r i i = []"
  by (simp add: commands_between_def)

lemma commands_between_above: "\<forall>(i, c) \<in> set (commands_between r n k). n < i"
  by (auto simp: commands_between_def split: option.splits)

lemma ready_committed:
  "raft_wf r \<Longrightarrow> rd_committed (fst (raft_ready r)) = commands_between r (rf_last_applied r) (rf_commit_index r)"
  by (simp add: raft_ready_def Let_def commands_between_def collect_committed_eq)

lemma apply_ready_in_turn:
  assumes "drainable (dr_watermark d) r" and "dr_available d"
  defines "rd \<equiv> fst (raft_ready r)"
  shows "apply_ready env rd d \<noteq> Waits \<and>
    (\<forall>d'. apply_ready env rd d = Goes_On d' \<longrightarrow>
       dr_watermark d' = rf_commit_index r \<and> dr_sm d' = drained_sm env r (dr_sm d))"
proof -
  have wf: "raft_wf r" and idx: "rf_last_applied r \<le> rf_commit_index r"
    using assms(1) by (simp_all add: drainable_def raft_wf_def wf_index_def)
  have rd: "rd_applied_from rd = rf_last_applied r" "rd_applied_upto rd = rf_commit_index r"
    "rd_restore rd = (if rf_pending_restore r then rf_snapshot r else None)"
    "rd_committed rd = commands_between r (rf_last_applied r) (rf_commit_index r)"
    using idx ready_committed [OF wf] by (simp_all add: rd_def raft_ready_def Let_def max_absorb2)
  show ?thesis
  proof (cases "rf_pending_restore r")
    case True
    with assms(1) idx obtain data where "rf_snapshot r = Some data" "dr_watermark d \<le> rf_commit_index r"
      by (auto simp: drainable_def)
    with True assms(2) show ?thesis
      by (auto simp: apply_ready_def rd drained_sm_def split: option.splits)
  next
    case False
    with assms(1) have w: "dr_watermark d = rf_last_applied r" by (simp add: drainable_def)
    have "filter (\<lambda>(i, c). rf_last_applied r < i) (commands_between r (rf_last_applied r) (rf_commit_index r)) =
        commands_between r (rf_last_applied r) (rf_commit_index r)"
      using commands_between_above by (intro filter_True) blast
    with False w idx assms(2) show ?thesis
      by (auto simp: apply_ready_def rd drained_sm_def commands_between_empty apply_commands_def max_absorb1)
  qed
qed

lemma drained_engine_inv:
  assumes "raft_wf r"
  shows "raft_wf (snd (raft_ready r)) \<and> \<not> rf_pending_restore (snd (raft_ready r)) \<and> rf_out (snd (raft_ready r)) = [] \<and>
    rf_last_applied (snd (raft_ready r)) = rf_commit_index r \<and> rf_commit_index (snd (raft_ready r)) = rf_commit_index r"
proof -
  have "rf_last_applied r \<le> rf_commit_index r" using assms by (simp add: raft_wf_def wf_index_def)
  with ready_ok(1) [OF assms] show ?thesis by (simp add: raft_ready_def Let_def max_absorb2)
qed

lemma maybe_compact_engine:
  assumes "maybe_compact env n d = (True, d')"
  obtains "dr_engine d' = dr_engine d" | data where "dr_engine d' = compact n data (dr_engine d)"
  using assms by (auto simp: maybe_compact_def Let_def split: if_splits option.splits prod.splits sum.splits)

lemma failed_sections:
  assumes "dr_available d"
  shows "persist_ready env rd d = (False, d') \<Longrightarrow> \<not> dr_available d'"
    "apply_ready env rd d = Bails d' \<Longrightarrow> \<not> dr_available d'"
    "maybe_compact env n d = (False, d') \<Longrightarrow> \<not> dr_available d'"
    "route_messages rd to d = ((reply, False), d') \<Longrightarrow> \<not> dr_available d'"
proof -
  show "persist_ready env rd d = (False, d') \<Longrightarrow> \<not> dr_available d'"
    using assms by (auto simp: persist_ready_def split: if_splits option.splits prod.splits sum.splits)
  show "apply_ready env rd d = Bails d' \<Longrightarrow> \<not> dr_available d'"
    using assms by (auto simp: apply_ready_def split: if_splits option.splits)
  show "maybe_compact env n d = (False, d') \<Longrightarrow> \<not> dr_available d'"
  proof (cases "snapshot_state_machine env (dr_sm d)"; cases "dr_store d")
    fix data disk
    assume c: "maybe_compact env n d = (False, d')" and s: "snapshot_state_machine env (dr_sm d) = Some data" "dr_store d = Some disk"
    obtain res disk' where "store_save (de_codec env) (dr_io d) (persisted_snapshot (compact n data (dr_engine d))) disk = (res, disk')"
      by fastforce
    with c s assms show "\<not> dr_available d'"
      by (cases res) (auto simp: maybe_compact_def Let_def split: if_splits)
  qed (auto simp: maybe_compact_def Let_def split: if_splits)
  show "route_messages rd to d = ((reply, False), d') \<Longrightarrow> \<not> dr_available d'"
    by (cases "split_reply to (rd_messages rd)") (auto simp: route_messages_def split: if_splits)
qed

lemma drain_failed_unavailable:
  assumes "drain_ready env rd to d = Drain_Failed d'"
  shows "\<not> dr_available d'"
proof (cases rule: drain_cases [of d env rd to])
  case unavailable
  with assms show ?thesis by simp
next
  case (unsaved d1)
  with assms failed_sections(1) [OF unsaved(1,2)] show ?thesis by simp
next
  case (bails d1 d2)
  then have "dr_available d1" using persist_ready_frame(5) [OF bails(2)] by simp
  from failed_sections(2) [OF this bails(3)] show ?thesis using assms bails(4) by simp
next
  case (uncompacted d1 d2 d3)
  then have "dr_available d2"
    using persist_ready_frame(5) [OF uncompacted(2)] apply_ready_frame(4) [OF uncompacted(3)] by simp
  from failed_sections(3) [OF this uncompacted(4)] show ?thesis using assms uncompacted(5) by simp
next
  case (closed d1 d2 d3 d4 r)
  then have "dr_available d3"
    using persist_ready_frame(5) [OF closed(2)] apply_ready_frame(4) [OF closed(3)] maybe_compact_frame(4) [OF closed(4)]
    by simp
  from failed_sections(4) [OF this closed(5)] show ?thesis using assms closed(6) by simp
qed (use assms in simp_all)

lemma drain_in_turn:
  assumes dr: "drainable (dr_watermark d) r" and av: "dr_available d" and e: "engine_ready (\<lambda>_. r) d = (rd, d1)"
  shows "(\<forall>x. drain_ready env rd to d1 \<noteq> Drain_Waits x) \<and>
    (\<forall>reply d'. drain_ready env rd to d1 = Drained reply d' \<longrightarrow>
       driver_inv d' \<and> dr_available d' \<and> dr_sm d' = drained_sm env r (dr_sm d) \<and>
       rf_commit_index (dr_engine d') = rf_commit_index r \<and> rf_current_term (dr_engine d') = rf_current_term r \<and>
       rf_role (dr_engine d') = rf_role r)"
proof -
  have wf: "raft_wf r" using dr by (simp add: drainable_def)
  note fr = engine_ready_frame [OF e]
  have turn: "apply_ready env rd x \<noteq> Waits \<and> (\<forall>d'. apply_ready env rd x = Goes_On d' \<longrightarrow>
      dr_watermark d' = rf_commit_index r \<and> dr_sm d' = drained_sm env r (dr_sm d))"
    if "persist_ready env rd d1 = (True, x)" for x
    using apply_ready_in_turn [of x r env] dr av persist_ready_frame [OF that] fr by simp
  show ?thesis
  proof (cases rule: drain_cases [of d1 env rd to])
    case (waits x)
    with turn show ?thesis by blast
  next
    case (finished x y z d' reply)
    note z = turn [OF finished(2), THEN conjunct2, rule_format, OF finished(3)]
    have eng: "dr_engine y = snd (raft_ready r)"
      using apply_ready_frame(1) [OF finished(3)] persist_ready_frame(3) [OF finished(2)] fr(10) by simp
    have upto: "rd_applied_upto rd = rf_commit_index r"
      using wf fr(9) by (simp add: raft_ready_def Let_def raft_wf_def wf_index_def max_absorb2)
    have inv: "raft_wf (dr_engine z) \<and> \<not> rf_pending_restore (dr_engine z) \<and> rf_out (dr_engine z) = [] \<and>
        rf_last_applied (dr_engine z) = rf_commit_index r \<and> rf_commit_index (dr_engine z) = rf_commit_index r \<and>
        rf_current_term (dr_engine z) = rf_current_term r \<and> rf_role (dr_engine z) = rf_role r"
      using finished(4)
    proof (cases rule: maybe_compact_engine)
      case 1
      with eng drained_engine_inv [OF wf] show ?thesis by simp
    next
      case (2 data)
      have "raft_wf (compact (rf_commit_index r) data (snd (raft_ready r)))"
        using drained_engine_inv [OF wf] by (intro compact_ok(1)) simp_all
      with 2 eng upto drained_engine_inv [OF wf] show ?thesis by simp
    qed
    have "dr_available d'"
      using av fr(4) persist_ready_frame(5) [OF finished(2)] apply_ready_frame(4) [OF finished(3)]
        maybe_compact_frame(4) [OF finished(4)] route_messages_frame(5) [OF finished(5)] by simp
    with inv z finished route_messages_frame [OF finished(5)] maybe_compact_frame [OF finished(4)] show ?thesis
      by (simp add: driver_inv_def)
  qed simp_all
qed

subsection \<open>Operations in turn\<close>

text \<open>The engine operation behind an operation of the driver, and when it is admissible.\<close>

fun engine_op :: "driver_op \<Rightarrow> raft_op option" where
  "engine_op Ticks = Some Tick"
| "engine_op (Delivers from_node msg) = Some (raft_op.Step from_node msg)"
| "engine_op (Receives from_node msg) = Some (raft_op.Step from_node msg)"
| "engine_op (Disk_Becomes io) = None"
| "engine_op Outbox_Closes = None"

definition op_fits :: "driver_op \<Rightarrow> driver \<Rightarrow> bool" where
  "op_fits op d \<longleftrightarrow> (case engine_op op of None \<Rightarrow> True | Some eop \<Rightarrow> op_ok eop (dr_engine d))"

fun ops_fit :: "driver_env \<Rightarrow> driver_op list \<Rightarrow> driver \<Rightarrow> bool" where
  "ops_fit env [] d \<longleftrightarrow> True"
| "ops_fit env (op # ops) d \<longleftrightarrow> op_fits op d \<and> ops_fit env ops (run_driver_op env op d)"

definition op_reply_to :: "driver_op \<Rightarrow> node_id option" where
  "op_reply_to op = (case op of Receives from_node _ \<Rightarrow> Some from_node | _ \<Rightarrow> None)"

lemma engine_ready_const: "engine_ready f d = engine_ready (\<lambda>_. f (dr_engine d)) d"
  by (simp add: engine_ready_def)

lemma op_outcome_engine:
  assumes "dr_available d" and "engine_op op = Some eop"
  shows "driver_op_outcome env op d =
    (case engine_ready (\<lambda>_. apply_raft_op eop (dr_engine d)) d of (rd, d1) \<Rightarrow> drain_ready env rd (op_reply_to op) d1)"
  using assms
  by (cases op) (auto simp: tick_loop_body_def deliver_def step_inbound_def op_reply_to_def engine_ready_def Let_def)

lemma engine_op_not_drain: "engine_op op = Some eop \<Longrightarrow> eop \<noteq> Drain_Ready"
  by (cases op) auto

lemma op_in_turn:
  assumes inv: "driver_inv d" and fits: "op_fits op d" and av: "dr_available d"
  shows "(\<forall>x. driver_op_outcome env op d \<noteq> Drain_Waits x) \<and>
    (dr_available (run_driver_op env op d) \<longrightarrow> driver_inv (run_driver_op env op d))"
proof (cases "engine_op op")
  case None
  then show ?thesis using inv by (cases op) (auto simp: run_driver_op_def driver_inv_def)
next
  case (Some eop)
  obtain rd d1 where e: "engine_ready (\<lambda>_. apply_raft_op eop (dr_engine d)) d = (rd, d1)" by fastforce
  have "drainable (dr_watermark d) (apply_raft_op eop (dr_engine d))"
    using drainable_op [OF inv] fits Some engine_op_not_drain [OF Some] by (simp add: op_fits_def)
  note turn = drain_in_turn [OF this av e, of env "op_reply_to op"]
  show ?thesis
    using turn drain_failed_unavailable [of env rd "op_reply_to op" d1]
    by (cases "drain_ready env rd (op_reply_to op) d1")
      (auto simp: run_driver_op_def op_outcome_engine [OF av Some] e)
qed

lemma unavailable_op: "\<not> dr_available d \<Longrightarrow> \<not> dr_available (run_driver_op env op d)"
  by (cases op) (simp_all add: run_driver_op_def tick_loop_body_def deliver_def step_inbound_def)

lemma unavailable_ops: "\<not> dr_available d \<Longrightarrow> \<not> dr_available (fold (run_driver_op env) ops d)"
  by (induction ops arbitrary: d) (simp_all add: unavailable_op)

lemma ops_in_turn:
  assumes "driver_inv d" and "ops_fit env ops d" and "dr_available (fold (run_driver_op env) ops d)"
  shows "driver_inv (fold (run_driver_op env) ops d)"
  using assms
proof (induction ops arbitrary: d)
  case (Cons op ops)
  have "dr_available (run_driver_op env op d)" using Cons.prems(3) unavailable_ops by auto
  moreover from this have "dr_available d" using unavailable_op by blast
  ultimately show ?case using Cons op_in_turn [of d op env] by simp
qed simp

lemma driver_inv_new:
  assumes "driver_new env nid peers cfg store io restored secret sm = Inr d" and "persisted_wf nid peers restored"
  shows "driver_inv d \<and> dr_available d"
  using assms raft_wf_new [OF assms(2), of cfg "seed_from nid"]
  by (auto simp: driver_new_def driver_inv_def raft_new_def split: sum.splits option.splits)

subsection \<open>Proposals\<close>

lemma await_commit_Cons:
  "await_commit env index t (ops # waits) d =
     (if index \<le> rf_commit_index (dr_engine d) \<and> rf_current_term (dr_engine d) = t then (True, d)
      else if rf_current_term (dr_engine d) \<noteq> t \<or> rf_role (dr_engine d) \<noteq> Leader then (False, d)
      else if \<not> dr_available d then (False, d)
      else await_commit env index t waits (fold (run_driver_op env) ops d))"
  by (subst await_commit.simps) simp

lemma await_commit_true:
  "await_commit env index t waits d = (True, d') \<Longrightarrow>
     index \<le> rf_commit_index (dr_engine d') \<and> rf_current_term (dr_engine d') = t"
proof (induction waits arbitrary: d)
  case Nil
  then show ?case by (subst (asm) await_commit.simps) (auto split: if_splits)
next
  case (Cons ops waits)
  then have "d' = d \<and> index \<le> rf_commit_index (dr_engine d) \<and> rf_current_term (dr_engine d) = t \<or>
      await_commit env index t waits (fold (run_driver_op env) ops d) = (True, d')"
    unfolding await_commit_Cons by (metis prod.inject)
  with Cons.IH show ?case by blast
qed

lemma await_commit_now:
  "index \<le> rf_commit_index (dr_engine d) \<Longrightarrow> rf_current_term (dr_engine d) = t \<Longrightarrow> await_commit env index t waits d = (True, d)"
  by (subst await_commit.simps) simp

text \<open>A leader without peers commits what it appends.\<close>

lemma lone_leader_commits:
  assumes "raft_wf r" and "log_room r" and "rf_peers r = []" and "rf_role r = Leader"
  shows "rf_commit_index (snd (raft_propose cmd r)) = last_index r + 1 \<and>
    entry_at (snd (raft_propose cmd r)) (last_index r + 1) =
      Some \<lparr>le_term = rf_current_term r, le_index = last_index r + 1, le_command = Some cmd\<rparr>"
proof -
  let ?e = "\<lparr>le_term = rf_current_term r, le_index = add64 (last_index r) 1, le_command = Some cmd\<rparr>"
  let ?q = "push_entry ?e r"
  have l: "last_index r = rf_base_index r + length (rf_log r)" by (rule raft_wf_last_index [OF assms(1)])
  have add: "add64 (last_index r) 1 = last_index r + 1" using assms(2) by (intro add64_small) (simp add: log_room_def)
  have "0 < rf_current_term r" using assms(1,4) by (auto simp: raft_wf_def wf_vote_def)
  from wf_log_push_current [OF assms(1,2) this] assms(1) have wf: "raft_wf ?q"
    by (auto simp: raft_wf_def wf_index_def wf_leader_def)
  have lq: "last_index ?q = last_index r + 1" using raft_wf_last_index [OF wf] l by (simp add: push_entry_def)
  have c: "rf_commit_index r \<le> last_index r" using assms(1) l by (simp add: raft_wf_def wf_index_def)
  then have c1: "add64 (rf_commit_index r) 1 = rf_commit_index r + 1"
    using assms(2) by (intro add64_small) (simp add: log_room_def)
  have at: "entry_at ?q (last_index r + 1) = Some ?e"
    using l by (simp add: entry_at_def push_entry_def nth_append)
  have "term_at ?q (last_index r + 1) = rf_current_term r"
    using l raft_wf_term_at [OF wf] by (simp add: slab_term_def push_entry_def nth_append)
  moreover have "quorum ?q \<le> replicas_at ?q (last_index r + 1)"
    using assms(3) by (simp add: quorum_def replicas_at_def push_entry_def)
  ultimately have "maybe_advance_commit ?q = (True, ?q\<lparr>rf_commit_index := last_index r + 1, rf_dirty := True\<rparr>)"
    using c c1 lq by (simp add: maybe_advance_commit_def push_entry_def Let_def)
  then have pr: "snd (raft_propose cmd r) = broadcast_append (?q\<lparr>rf_commit_index := last_index r + 1, rf_dirty := True\<rparr>)"
    using assms(4) by (simp add: raft_propose_def Let_def)
  have "entry_at (broadcast_append (?q\<lparr>rf_commit_index := last_index r + 1, rf_dirty := True\<rparr>)) (last_index r + 1) =
      entry_at ?q (last_index r + 1)"
    by (simp add: entry_at_def)
  with at show ?thesis unfolding pr add by simp
qed

text \<open>
  A proposal is acknowledged only once it is committed: when \<open>propose\<close> answers \<open>true\<close>, the member was
  available and leading, and at the end of the wait the commit index has reached the log index the
  command got, in the very term it was proposed in, whatever the other threads did meanwhile.
\<close>

lemma propose_acknowledged:
  assumes "driver_propose env waits cmd d = (Some True, d')"
  shows "dr_available d \<and> rf_role (dr_engine d) = Leader
    \<and> add64 (last_index (dr_engine d)) 1 \<le> rf_commit_index (dr_engine d')
    \<and> rf_current_term (dr_engine d') = rf_current_term (dr_engine d)"
proof -
  have av: "dr_available d" and lead: "rf_role (dr_engine d) = Leader"
    using assms by (auto simp: driver_propose_def raft_propose_def split: if_splits)
  obtain r where pr: "raft_propose cmd (dr_engine d) = (Inr (add64 (last_index (dr_engine d)) 1), r)"
    using lead by (simp add: raft_propose_def Let_def case_prod_beta)
  obtain rd d1 where e: "engine_ready (\<lambda>_. r) d = (rd, d1)" by fastforce
  have t: "rf_current_term r = rf_current_term (dr_engine d)"
    using pr lead by (auto simp: raft_propose_def Let_def case_prod_beta)
  obtain reply d2 where "drain_ready env rd None d1 = Drained reply d2"
    "await_commit env (add64 (last_index (dr_engine d)) 1) (rf_current_term r) waits d2 = (True, d')"
    using assms av pr e
    by (cases "drain_ready env rd None d1") (auto simp: driver_propose_def apfst_def map_prod_def split: prod.splits)
  from await_commit_true [OF this(2)] av lead t show ?thesis by simp
qed

subsection \<open>A lone member\<close>

text \<open>Without a store and with a short log, only a closed outbox can make a drain fail.\<close>

lemma drain_without_store:
  assumes "dr_store d = None" and "dr_available d" and "dr_outbox_open d" and "rd_restore rd = None"
    and "length (rf_log (dr_engine d)) < COMPACT_LOG_THRESHOLD" and "rd_applied_from rd \<le> dr_watermark d"
  shows "\<exists>reply d'. drain_ready env rd to d = Drained reply d' \<and> dr_available d'"
proof -
  have p: "persist_ready env rd d = (True, d)" using assms(1) by (simp add: persist_ready_def)
  have "\<exists>d2. apply_ready env rd d = Goes_On d2" using assms(2,4,6) by (simp add: apply_ready_def)
  then obtain d2 where a: "apply_ready env rd d = Goes_On d2" ..
  then have c: "maybe_compact env (rd_applied_upto rd) d2 = (True, d2)"
    using assms(5) apply_ready_frame(1) [OF a] by (simp add: maybe_compact_def)
  have "\<exists>reply d3. route_messages rd to d2 = ((reply, True), d3)"
    using assms(3) apply_ready_frame(5) [OF a] by (simp add: route_messages_def split: prod.splits)
  then obtain reply d3 where r: "route_messages rd to d2 = ((reply, True), d3)" by blast
  have "dr_available d3" using route_messages_frame(5) [OF r] apply_ready_frame(4) [OF a] assms(2) by simp
  with assms(2) p a c r show ?thesis by (simp add: drain_ready_def)
qed

definition lone_raft :: raft where
  "lone_raft = become_leader (candidate_of (raft_new ''a'' [] default_raft_config 7 default_persisted))"

definition lone_driver :: driver where
  "lone_driver = (sample_driver lone_raft)\<lparr>dr_store := None\<rparr>"

lemma lone_raft_sel [simp]:
  "rf_peers lone_raft = []" "rf_role lone_raft = Leader" "rf_current_term lone_raft = 1" "rf_base_index lone_raft = 0"
  "rf_last_applied lone_raft = 0" "rf_commit_index lone_raft = 0" "\<not> rf_pending_restore lone_raft"
  "rf_log lone_raft = [\<lparr>le_term = 1, le_index = 1, le_command = None\<rparr>]" "last_index lone_raft = 1"
  by (simp_all add: lone_raft_def default_persisted_def last_index_def add64_def raft_new_def)

lemma lone_raft_wf: "raft_wf lone_raft"
proof -
  let ?r = "raft_new ''a'' [] default_raft_config 7 default_persisted"
  have room: "has_room ?r"
    by (simp add: has_room_def log_room_def last_index_def default_persisted_def u64_max_def add64_def)
  have "raft_wf (candidate_of ?r)"
    using raft_wf_new [OF persisted_wf_default] room by (simp add: raft_wf_candidate_of has_room_def)
  moreover have "log_room (candidate_of ?r)" using room by (simp add: has_room_def log_room_def last_index_def)
  ultimately show ?thesis unfolding lone_raft_def by (rule raft_wf_become_leader) simp
qed

lemma lone_driver_ok: "driver_inv lone_driver" "has_room lone_raft"
  using lone_raft_wf
  by (simp_all add: driver_inv_def lone_driver_def sample_driver_def has_room_def log_room_def u64_max_def)
    (simp add: lone_raft_def become_leader_def broadcast_append_def Let_def raft_new_def)

lemma lone_driver_proposes:
  obtains d' where "driver_propose env waits cmd lone_driver = (Some True, d')" "dr_available d'"
proof -
  let ?r = "snd (raft_propose cmd lone_raft)"
  have c: "rf_commit_index ?r = 2" using lone_leader_commits [OF lone_raft_wf, of cmd] lone_driver_ok(2) by (simp add: has_room_def)
  have pr: "raft_propose cmd lone_raft = (Inr 2, ?r)" by (simp add: raft_propose_def Let_def case_prod_beta add64_def)
  have r: "\<not> rf_pending_restore ?r" "rf_last_applied ?r = 0" "length (rf_log ?r) = 2"
    by (simp_all add: raft_propose_def Let_def case_prod_beta)
  obtain rd d1 where e: "engine_ready (\<lambda>_. ?r) lone_driver = (rd, d1)" by fastforce
  note fr = engine_ready_frame [OF e]
  have "\<exists>reply d'. drain_ready env rd None d1 = Drained reply d' \<and> dr_available d'"
  proof (rule drain_without_store)
    show "rd_restore rd = None" "rd_applied_from rd \<le> dr_watermark d1"
      using r fr(9) by (simp_all add: raft_ready_def Let_def)
    show "length (rf_log (dr_engine d1)) < COMPACT_LOG_THRESHOLD"
      using r fr(10) by (simp add: COMPACT_LOG_THRESHOLD_def)
  qed (use fr in \<open>simp_all add: lone_driver_def sample_driver_def\<close>)
  then obtain reply d2 where dd: "drain_ready env rd None d1 = Drained reply d2" "dr_available d2" by blast
  have dr: "drainable (dr_watermark lone_driver) ?r"
    using drainable_op [OF lone_driver_ok(1), of "Propose cmd"] lone_driver_ok(2) by (simp add: lone_driver_def sample_driver_def)
  have av: "dr_available lone_driver" by (simp add: lone_driver_def sample_driver_def)
  have "rf_commit_index (dr_engine d2) = 2" "rf_current_term (dr_engine d2) = rf_current_term ?r"
    using drain_in_turn [OF dr av e, of env None] dd(1) c by auto
  then have "await_commit env 2 (rf_current_term ?r) waits d2 = (True, d2)" by (intro await_commit_now) simp_all
  moreover have "dr_engine lone_driver = lone_raft" by (simp add: lone_driver_def sample_driver_def)
  ultimately have "driver_propose env waits cmd lone_driver = (Some True, d2)"
    unfolding driver_propose_def using av pr e dd(1) by (auto simp only: if_True if_False simp_thms Let_def split: prod.splits sum.splits) simp_all
  with dd(2) that show thesis by blast
qed

subsection \<open>Properties\<close>



text \<open>
  C31. A single-member brain that is available and leads commits and applies every proposal at once: unless
  it fails closed while draining, \<open>propose\<close> answers \<open>true\<close> without waiting and the command is the last one
  applied to the state machine.
\<close>

theorem lone_member_applies_proposals:
  assumes inv: "driver_inv d" and "has_room (dr_engine d)" and "rf_peers (dr_engine d) = []"
    and lead: "rf_role (dr_engine d) = Leader" and av: "dr_available d"
    and run: "driver_propose env waits cmd d = (answer, d')" and av': "dr_available d'"
  shows "answer = Some True \<and> (\<exists>cmds. dr_sm d' = apply_command cmd (apply_commands cmds (dr_sm d)))"
proof -
  let ?r = "dr_engine d"
  define r' where "r' = snd (raft_propose cmd (dr_engine d))"
  have wf: "raft_wf ?r" and room: "log_room ?r" using inv assms(2) by (simp_all add: driver_inv_def has_room_def)
  note c = lone_leader_commits [OF wf room assms(3) lead, of cmd, folded r'_def]
  have idx: "add64 (last_index ?r) 1 = last_index ?r + 1" using room by (intro add64_small) (simp add: log_room_def)
  then have pr: "raft_propose cmd ?r = (Inr (last_index ?r + 1), r')"
    using lead by (simp add: r'_def raft_propose_def Let_def case_prod_beta)
  have dr: "drainable (dr_watermark d) r'"
    using drainable_op [OF inv, of "Propose cmd"] assms(2) by (simp add: r'_def)
  have keep: "\<not> rf_pending_restore r'" "rf_last_applied r' = rf_last_applied ?r" "rf_last_applied ?r \<le> last_index ?r"
    using inv lead raft_wf_last_index [OF wf]
    by (auto simp: r'_def driver_inv_def raft_propose_def Let_def case_prod_beta raft_wf_def wf_index_def)
  obtain rd d1 where e: "engine_ready (\<lambda>_. r') d = (rd, d1)" by fastforce
  note turn = drain_in_turn [OF dr av e, of env None]
  obtain reply d2 where done2: "drain_ready env rd None d1 = Drained reply d2"
    using run av pr e av' turn drain_failed_unavailable [of env rd None d1]
    by (cases "drain_ready env rd None d1") (auto simp: driver_propose_def Let_def)
  have d2: "dr_sm d2 = drained_sm env r' (dr_sm d)" "rf_commit_index (dr_engine d2) = last_index ?r + 1"
    "rf_current_term (dr_engine d2) = rf_current_term r'"
    using turn done2 c by auto
  then have "await_commit env (last_index ?r + 1) (rf_current_term r') waits d2 = (True, d2)"
    by (intro await_commit_now) simp_all
  then have res: "answer = Some True" "d' = d2"
    using run av pr e done2 by (simp_all add: driver_propose_def Let_def)
  have "commands_between r' (rf_last_applied ?r) (last_index ?r + 1) =
      commands_between r' (rf_last_applied ?r) (last_index ?r) @ [(last_index ?r + 1, cmd)]"
    using c keep(3) by (simp add: commands_between_def)
  with res d2 keep c show ?thesis
    by (auto simp: drained_sm_def apply_commands_def)
qed

theorem lone_member_applies_proposals_witness:
  "\<exists>d' cmds. driver_propose sample_env [] (SetScalePlan \<lparr>sp_target_nodes = 5, sp_replication_factor = 3\<rparr>) lone_driver = (Some True, d') \<and>
     dr_sm d' = apply_command (SetScalePlan \<lparr>sp_target_nodes = 5, sp_replication_factor = 3\<rparr>) (apply_commands cmds sample_sm)"
proof -
  obtain d' where d': "driver_propose sample_env [] (SetScalePlan \<lparr>sp_target_nodes = 5, sp_replication_factor = 3\<rparr>) lone_driver = (Some True, d')"
    and av: "dr_available d'"
    by (rule lone_driver_proposes)
  have "dr_engine lone_driver = lone_raft" "dr_sm lone_driver = sample_sm" "dr_available lone_driver"
    by (simp_all add: lone_driver_def sample_driver_def)
  with lone_member_applies_proposals [OF lone_driver_ok(1) _ _ _ _ d' av] lone_driver_ok(2) d' show ?thesis by auto
qed

end
