(* ===== verification/Apply_Order.thy ===== *)
theory Apply_Order
  imports Driver_Runs
begin

section \<open>Concurrent drains apply the log in order\<close>

text \<open>
  Drains run on several threads: each has a batch that the engine handed out in order, and they reach
  the apply section in any order. The abstract specification is the sequential run of the batches on
  the replicated part of the state (the shard map and the plan); the watermark of the driver makes every
  interleaving refine it.
\<close>

subsection \<open>The replicated part of the state\<close>

type_synonym replicated_state = "(shard_id \<Rightarrow> shard_assignment option) \<times> scale_plan"

definition replicated :: "state_machine \<Rightarrow> replicated_state" where
  "replicated sm = (get (sm_placement sm), sm_plan sm)"

fun command_effect :: "command \<Rightarrow> replicated_state \<Rightarrow> replicated_state" where
  "command_effect (AssignShard a) (shards, p) = (shards(sa_shard_id a \<mapsto> a), p)"
| "command_effect (SetScalePlan p) (shards, _) = (shards, p)"
| "command_effect (ForgetNode n) v = v"

definition snapshot_effect :: "state_snapshot \<Rightarrow> replicated_state" where
  "snapshot_effect s = (\<lambda>i. find (\<lambda>a. sa_shard_id a = i) (rev (ss_shards s)), ss_plan s)"

lemma replicated_apply: "replicated (apply_command cmd sm) = command_effect cmd (replicated sm)"
  by (cases cmd) (auto simp: replicated_def get_assign fun_eq_iff)

lemma replicated_commands: "replicated (apply_commands cmds sm) = fold command_effect cmds (replicated sm)"
  unfolding apply_commands_def by (induction cmds arbitrary: sm) (simp_all add: replicated_apply)

lemma replicated_restore:
  assumes "restore_state_machine env data sm = Some sm'"
  obtains s where "de_dec_state env data = Some s" "replicated sm' = snapshot_effect s"
  using assms by (auto simp: restore_state_machine_def replicated_def snapshot_effect_def get_restore_from fun_eq_iff)

subsection \<open>Batches\<close>

text \<open>The batches that successive drains of one engine carry, after the index \<open>w\<close>.\<close>

fun consecutive :: "nat \<Rightarrow> ready list \<Rightarrow> bool" where
  "consecutive w [] \<longleftrightarrow> True"
| "consecutive w (b # bs) \<longleftrightarrow>
     (if rd_restore b = None then rd_applied_from b = w else w < rd_applied_upto b) \<and>
     rd_applied_from b \<le> rd_applied_upto b \<and>
     (\<forall>(i, c) \<in> set (rd_committed b). rd_applied_from b < i \<and> i \<le> rd_applied_upto b) \<and>
     consecutive (rd_applied_upto b) bs"

text \<open>The abstract run: one batch after the other, on the replicated state.\<close>

definition batch_effect :: "driver_env \<Rightarrow> replicated_state \<Rightarrow> ready \<Rightarrow> replicated_state" where
  "batch_effect env v b =
     fold command_effect (map snd (rd_committed b))
       (case rd_restore b of None \<Rightarrow> v | Some data \<Rightarrow> snapshot_effect (the (de_dec_state env data)))"

definition mark :: "nat \<Rightarrow> ready list \<Rightarrow> nat \<Rightarrow> nat" where
  "mark w bs m = (if m = 0 then w else rd_applied_upto (bs ! (m - 1)))"

definition run_to :: "driver_env \<Rightarrow> ready list \<Rightarrow> replicated_state \<Rightarrow> nat \<Rightarrow> replicated_state" where
  "run_to env bs v m = foldl (batch_effect env) v (take m bs)"

text \<open>The concrete run: the batches whose drain went through the apply section, and the driver then.\<close>

inductive apply_run :: "driver_env \<Rightarrow> ready list \<Rightarrow> driver \<Rightarrow> nat set \<Rightarrow> driver \<Rightarrow> bool" for env bs d\<^sub>0 where
  Start: "apply_run env bs d\<^sub>0 {} d\<^sub>0"
| Apply: "apply_run env bs d\<^sub>0 D d \<Longrightarrow> k < length bs \<Longrightarrow> k \<notin> D \<Longrightarrow> apply_ready env (bs ! k) d = Goes_On d' \<Longrightarrow>
    apply_run env bs d\<^sub>0 (insert k D) d'"

lemma consecutive_nth:
  assumes "consecutive w bs" and "k < length bs"
  shows "(if rd_restore (bs ! k) = None then rd_applied_from (bs ! k) = mark w bs k else mark w bs k < mark w bs (Suc k)) \<and>
    rd_applied_from (bs ! k) \<le> mark w bs (Suc k) \<and>
    (\<forall>(i, c) \<in> set (rd_committed (bs ! k)). rd_applied_from (bs ! k) < i \<and> i \<le> mark w bs (Suc k))"
  using assms
proof (induction w bs arbitrary: k rule: consecutive.induct)
  case (2 w b bs)
  show ?case
  proof (cases k)
    case (Suc j)
    have m: "mark w (b # bs) (Suc j) = mark (rd_applied_upto b) bs j" for j
      by (simp add: mark_def nth_Cons')
    have "consecutive (rd_applied_upto b) bs" "j < length bs" using 2(2,3) Suc by simp_all
    from 2(1) [OF this] show ?thesis unfolding Suc m nth_Cons_Suc .
  qed (use 2 in \<open>auto simp: mark_def\<close>)
qed simp

lemma mark_step: "consecutive w bs \<Longrightarrow> k < length bs \<Longrightarrow> mark w bs k \<le> mark w bs (Suc k)"
  using consecutive_nth [of w bs k] by (auto split: if_splits)

lemma mark_mono: "consecutive w bs \<Longrightarrow> m \<le> k \<Longrightarrow> k \<le> length bs \<Longrightarrow> mark w bs m \<le> mark w bs k"
proof (induction k)
  case (Suc k)
  with mark_step [of w bs k] show ?case by (cases "m = Suc k") auto
qed simp

lemma run_to_step: "k < length bs \<Longrightarrow> run_to env bs v (Suc k) = batch_effect env (run_to env bs v k) (bs ! k)"
  by (simp add: run_to_def take_Suc_conv_app_nth)

text \<open>Batches that do not move the mark are empty.\<close>

lemma flat_batch:
  assumes "consecutive w bs" and "k < length bs" and "mark w bs (Suc k) \<le> mark w bs k"
  shows "rd_restore (bs ! k) = None \<and> rd_committed (bs ! k) = []"
proof -
  have "rd_restore (bs ! k) = None" using consecutive_nth [OF assms(1,2)] assms(3) by (auto split: if_splits)
  moreover have "(i, c) \<notin> set (rd_committed (bs ! k))" for i c
    using consecutive_nth [OF assms(1,2)] calculation assms(3) by fastforce
  ultimately show ?thesis by (metis list.set_intros(1) neq_Nil_conv surj_pair)
qed

lemma flat_run:
  assumes "consecutive w bs" and "m \<le> k" and "k \<le> length bs" and "mark w bs k \<le> mark w bs m"
  shows "run_to env bs v k = run_to env bs v m"
  using assms(2-4)
proof (induction k)
  case (Suc k)
  show ?case
  proof (cases "m = Suc k")
    case False
    then have m: "m \<le> k" using Suc.prems by simp
    have "mark w bs m \<le> mark w bs k" "mark w bs k \<le> mark w bs (Suc k)"
      using mark_mono [OF assms(1)] m Suc.prems(2) by simp_all
    with Suc.prems have "mark w bs (Suc k) \<le> mark w bs k" "mark w bs k \<le> mark w bs m" by linarith+
    with flat_batch [OF assms(1), of k] Suc.IH m Suc.prems(2) show ?thesis
      by (simp add: run_to_step batch_effect_def)
  qed simp
qed simp

subsection \<open>The invariant\<close>

definition idle :: "ready \<Rightarrow> bool" where
  "idle b \<longleftrightarrow> rd_restore b = None \<and> rd_applied_upto b \<le> rd_applied_from b"

definition order_inv :: "driver_env \<Rightarrow> ready list \<Rightarrow> driver \<Rightarrow> nat set \<Rightarrow> driver \<Rightarrow> nat \<Rightarrow> bool" where
  "order_inv env bs d\<^sub>0 D d m \<longleftrightarrow>
     m \<le> length bs \<and> (\<forall>k \<in> D. k < length bs \<and> (m \<le> k \<longrightarrow> idle (bs ! k))) \<and>
     dr_watermark d = mark (dr_watermark d\<^sub>0) bs m \<and>
     replicated (dr_sm d) = run_to env bs (replicated (dr_sm d\<^sub>0)) m \<and> dr_available d = dr_available d\<^sub>0"

lemma apply_ready_effect:
  assumes "apply_ready env b d = Goes_On d'" and "\<not> idle b"
  shows "if rd_restore b = None then rd_applied_from b \<le> dr_watermark d \<and>
      dr_watermark d' = max (rd_applied_upto b) (dr_watermark d) \<and>
      replicated (dr_sm d') = fold command_effect (map snd (filter (\<lambda>(i, c). dr_watermark d < i) (rd_committed b))) (replicated (dr_sm d))
    else if dr_watermark d \<le> rd_applied_upto b then dr_watermark d' = rd_applied_upto b \<and>
      replicated (dr_sm d') = batch_effect env v b
    else d' = d"
proof (cases "rd_restore b")
  case None
  with assms show ?thesis
    by (auto simp: apply_ready_def idle_def replicated_commands split: if_splits)
next
  case (Some data)
  show ?thesis
  proof (cases "dr_watermark d \<le> rd_applied_upto b")
    case True
    then obtain sm where sm: "restore_state_machine env data (dr_sm d) = Some sm"
      "d' = d\<lparr>dr_sm := apply_commands (map snd (rd_committed b)) sm, dr_watermark := rd_applied_upto b\<rparr>"
      using assms(1) Some by (auto simp: apply_ready_def split: if_splits option.splits)
    obtain s where "de_dec_state env data = Some s" "replicated sm = snapshot_effect s"
      using replicated_restore [OF sm(1)] .
    with True sm(2) Some show ?thesis by (simp add: batch_effect_def replicated_commands)
  next
    case False
    with assms Some show ?thesis by (auto simp: apply_ready_def split: if_splits)
  qed
qed

lemma filter_none: "\<forall>(i, c) \<in> set xs. i \<le> w \<Longrightarrow> filter (\<lambda>(i, c). (w::nat) < i) xs = []"
  by (auto simp: filter_empty_conv)

lemma filter_all: "\<forall>(i, c) \<in> set xs. w < i \<Longrightarrow> filter (\<lambda>(i, c). (w::nat) < i) xs = xs"
  by (auto simp: filter_id_conv)

text \<open>A batch the state machine is already past changes nothing.\<close>

lemma order_inv_late:
  assumes con: "consecutive (dr_watermark d\<^sub>0) bs" and inv: "order_inv env bs d\<^sub>0 D d m"
    and k: "k < m" "k < length bs" and app: "apply_ready env (bs ! k) d = Goes_On d'" and "\<not> idle (bs ! k)"
  shows "dr_watermark d' = dr_watermark d \<and> replicated (dr_sm d') = replicated (dr_sm d)"
proof -
  let ?w = "dr_watermark d\<^sub>0"
  have m: "m \<le> length bs" "dr_watermark d = mark ?w bs m" "replicated (dr_sm d) = run_to env bs (replicated (dr_sm d\<^sub>0)) m"
    using inv by (simp_all add: order_inv_def)
  have le: "mark ?w bs (Suc k) \<le> mark ?w bs m" using mark_mono [OF con, of "Suc k" m] k(1) m(1) by simp
  have upto: "rd_applied_upto (bs ! k) = mark ?w bs (Suc k)" by (simp add: mark_def)
  note eff = apply_ready_effect [OF app assms(6), of "run_to env bs (replicated (dr_sm d\<^sub>0)) k"]
  show ?thesis
  proof (cases "rd_restore (bs ! k)")
    case None
    have "filter (\<lambda>(i, c). dr_watermark d < i) (rd_committed (bs ! k)) = []"
      using consecutive_nth [OF con k(2)] le m(2) by (intro filter_none) fastforce
    with None eff le m(2) upto show ?thesis by (simp add: max_absorb2)
  next
    case (Some data)
    show ?thesis
    proof (cases "dr_watermark d \<le> rd_applied_upto (bs ! k)")
      case True
      have "replicated (dr_sm d') = run_to env bs (replicated (dr_sm d\<^sub>0)) (Suc k)"
        using eff Some True k(2) by (simp add: run_to_step)
      also have "\<dots> = run_to env bs (replicated (dr_sm d\<^sub>0)) m"
        using flat_run [OF con, of "Suc k" m] k(1) m True upto by simp
      finally show ?thesis using eff Some True le m upto by simp
    qed (use eff Some in simp)
  qed
qed

text \<open>A batch ahead of the state machine goes through only when nothing is missing in between.\<close>

lemma order_inv_ahead:
  assumes con: "consecutive (dr_watermark d\<^sub>0) bs" and inv: "order_inv env bs d\<^sub>0 D d m"
    and k: "m \<le> k" "k < length bs" and app: "apply_ready env (bs ! k) d = Goes_On d'" and ni: "\<not> idle (bs ! k)"
  shows "dr_watermark d' = mark (dr_watermark d\<^sub>0) bs (Suc k) \<and>
    replicated (dr_sm d') = run_to env bs (replicated (dr_sm d\<^sub>0)) (Suc k)"
proof -
  let ?w = "dr_watermark d\<^sub>0"
  have m: "dr_watermark d = mark ?w bs m" "replicated (dr_sm d) = run_to env bs (replicated (dr_sm d\<^sub>0)) m"
    using inv by (simp_all add: order_inv_def)
  have le: "mark ?w bs m \<le> mark ?w bs k" "mark ?w bs k \<le> mark ?w bs (Suc k)"
    using mark_mono [OF con, of m k] mark_step [OF con k(2)] k by simp_all
  have upto: "rd_applied_upto (bs ! k) = mark ?w bs (Suc k)" by (simp add: mark_def)
  note eff = apply_ready_effect [OF app ni, of "run_to env bs (replicated (dr_sm d\<^sub>0)) k"] and nth = consecutive_nth [OF con k(2)]
  show ?thesis
  proof (cases "rd_restore (bs ! k)")
    case None
    then have same: "mark ?w bs k = mark ?w bs m" using eff nth m(1) le(1) by simp
    have "filter (\<lambda>(i, c). dr_watermark d < i) (rd_committed (bs ! k)) = rd_committed (bs ! k)"
      using nth None same m(1) by (intro filter_all) fastforce
    moreover have "run_to env bs (replicated (dr_sm d\<^sub>0)) k = run_to env bs (replicated (dr_sm d\<^sub>0)) m"
      using flat_run [OF con k(1)] k(2) same by simp
    ultimately show ?thesis
      using None eff m le upto k(2) by (simp add: run_to_step batch_effect_def max_absorb1)
  next
    case (Some data)
    with eff m le upto k(2) show ?thesis by (simp add: run_to_step)
  qed
qed

lemma order_inv_step:
  assumes con: "consecutive (dr_watermark d\<^sub>0) bs" and inv: "order_inv env bs d\<^sub>0 D d m"
    and k: "k < length bs" and app: "apply_ready env (bs ! k) d = Goes_On d'"
  shows "\<exists>m'. order_inv env bs d\<^sub>0 (insert k D) d' m'"
proof (cases "idle (bs ! k)")
  case True
  then have "d' = d" using app by (simp add: apply_ready_def idle_def)
  with True inv k have "order_inv env bs d\<^sub>0 (insert k D) d' m" by (simp add: order_inv_def)
  then show ?thesis ..
next
  case False
  have av: "dr_available d' = dr_available d" by (rule apply_ready_frame(4) [OF app])
  show ?thesis
  proof (cases "k < m")
    case True
    with order_inv_late [OF con inv True k app False] inv k av have "order_inv env bs d\<^sub>0 (insert k D) d' m"
      by (auto simp: order_inv_def)
    then show ?thesis ..
  next
    case ge: False
    with order_inv_ahead [OF con inv _ k app False] inv k av have "order_inv env bs d\<^sub>0 (insert k D) d' (Suc k)"
      by (auto simp: order_inv_def)
    then show ?thesis ..
  qed
qed

lemma apply_run_inv:
  assumes "apply_run env bs d\<^sub>0 D d" and "consecutive (dr_watermark d\<^sub>0) bs"
  shows "\<exists>m. order_inv env bs d\<^sub>0 D d m"
  using assms
proof (induction rule: apply_run.induct)
  case Start
  have "order_inv env bs d\<^sub>0 {} d\<^sub>0 0" by (simp add: order_inv_def mark_def run_to_def)
  then show ?case ..
next
  case (Apply D d k d')
  then show ?case using order_inv_step by blast
qed

lemma idle_tail:
  assumes "consecutive w bs" and "m \<le> j" and "j \<le> length bs" and "\<forall>k < j. m \<le> k \<longrightarrow> idle (bs ! k)"
  shows "mark w bs j = mark w bs m"
  using assms(2-4)
proof (induction j)
  case (Suc j)
  show ?case
  proof (cases "m = Suc j")
    case False
    then have j: "idle (bs ! j)" "m \<le> j" "j < length bs" using Suc.prems by auto
    have "rd_applied_upto (bs ! j) = mark w bs (Suc j)" by (simp add: mark_def)
    with j(1) consecutive_nth [OF assms(1) j(3)] have "mark w bs (Suc j) \<le> mark w bs j" by (simp add: idle_def)
    moreover have "mark w bs j \<le> mark w bs (Suc j)" by (rule mark_step [OF assms(1) j(3)])
    moreover have "mark w bs j = mark w bs m" using Suc.IH j(2) Suc.prems by simp
    ultimately show ?thesis by linarith
  qed simp
qed simp

subsection \<open>The batches of an engine\<close>

text \<open>An engine that runs groups of operations and is drained after each of them.\<close>

fun engine_batches :: "raft_op list list \<Rightarrow> raft \<Rightarrow> ready list" where
  "engine_batches [] r = []"
| "engine_batches (ops # groups) r =
     (let (rd, r') = raft_ready (run_raft ops r) in rd # engine_batches groups r')"

fun groups_ok :: "raft_op list list \<Rightarrow> raft \<Rightarrow> bool" where
  "groups_ok [] r \<longleftrightarrow> True"
| "groups_ok (ops # groups) r \<longleftrightarrow>
     Drain_Ready \<notin> set ops \<and> ops_ok ops r \<and> groups_ok groups (snd (raft_ready (run_raft ops r)))"

lemma applied_ok_trans: "applied_ok r s \<Longrightarrow> applied_ok s t \<Longrightarrow> applied_ok r t"
  unfolding applied_ok_def by auto

lemma run_applied:
  "raft_wf r \<Longrightarrow> ops_ok ops r \<Longrightarrow> Drain_Ready \<notin> set ops \<Longrightarrow> raft_wf (run_raft ops r) \<and> applied_ok r (run_raft ops r)"
proof (induction ops arbitrary: r)
  case Nil
  then show ?case by (simp add: applied_ok_def)
next
  case (Cons op ops)
  have "applied_ok r (apply_raft_op op r)" using Cons.prems by (intro op_applied) auto
  with Cons raft_op_ok [of r op] applied_ok_trans show ?case by auto
qed

lemma engine_batches_consecutive:
  assumes "raft_wf r" and "\<not> rf_pending_restore r" and "groups_ok groups r"
  shows "consecutive (rf_last_applied r) (engine_batches groups r)"
  using assms
proof (induction groups arbitrary: r)
  case (Cons ops groups)
  let ?q = "run_raft ops r"
  have q: "raft_wf ?q" "applied_ok r ?q" using run_applied [of r ops] Cons.prems by simp_all
  have idx: "rf_last_applied ?q \<le> rf_commit_index ?q" using q(1) by (simp add: raft_wf_def wf_index_def)
  have rd: "rd_applied_from (fst (raft_ready ?q)) = rf_last_applied ?q" "rd_applied_upto (fst (raft_ready ?q)) = rf_commit_index ?q"
    "rd_restore (fst (raft_ready ?q)) = (if rf_pending_restore ?q then rf_snapshot ?q else None)"
    using idx by (simp_all add: raft_ready_def Let_def max_absorb2)
  have com: "\<forall>(i, c) \<in> set (rd_committed (fst (raft_ready ?q))). rf_last_applied ?q < i \<and> i \<le> rf_commit_index ?q"
    unfolding ready_committed [OF q(1)] by (auto simp: commands_between_def split: option.splits)
  have "consecutive (rf_commit_index ?q) (engine_batches groups (snd (raft_ready ?q)))"
    using Cons.IH [of "snd (raft_ready ?q)"] drained_engine_inv [OF q(1)] Cons.prems(3) by simp
  with rd com idx q(2) Cons.prems(2) show ?case
    by (auto simp: Let_def case_prod_beta applied_ok_def)
qed simp

text \<open>
  Where the order of the critical sections matters: a follower receives the same entries twice. The first
  batch has state to persist, the second has none, since \<open>ready\<close> has already cleared the mark. If the second
  drain runs before the first one has saved, it acknowledges entries that are not on disk.
\<close>

definition repeated_append :: raft_message where
  "repeated_append =
     AppendEntries \<lparr>ae_term = 1, ae_leader_id = ''b'', ae_prev_log_index = 0, ae_prev_log_term = 0,
       ae_entries = [\<lparr>le_term = 1, le_index = 1, le_command = None\<rparr>], ae_leader_commit = 0\<rparr>"

lemma unsaved_acknowledgement:
  "let first = raft_ready (raft_step ''b'' repeated_append sample_raft);
       second = raft_ready (raft_step ''b'' repeated_append (snd first))
   in rd_persist (fst first) \<noteq> None \<and>
      (\<exists>resp d. drain_ready sample_env (fst second) (Some ''b'') (sample_driver (snd second)) =
           Drained (Some (AppendEntriesResp resp)) d \<and>
         aer_success resp \<and> aer_match_index resp = 1 \<and> dr_store d = Some (\<lambda>_. None))"
proof -
  let ?e = "\<lparr>le_term = 1, le_index = 1, le_command = None\<rparr> :: log_entry"
  define r where "r = snd (raft_ready (raft_step ''b'' repeated_append sample_raft))"
  define s where "s = raft_step ''b'' repeated_append r"
  have new: "rf_last_applied sample_raft = 0" "\<not> rf_pending_restore sample_raft"
    by (simp_all add: sample_raft_def default_persisted_def raft_new_def)
  have first: "rf_dirty (raft_step ''b'' repeated_append sample_raft)"
    and r: "rf_log r = [?e]" "rf_current_term r = 1" "rf_base_index r = 0" "rf_base_term r = 0" "rf_commit_index r = 0"
      "rf_last_applied r = 0" "rf_peers r = [''b'', ''c'']" "\<not> rf_pending_restore r" "\<not> rf_dirty r" "rf_out r = []"
    by (simp_all add: new r_def raft_ready_def raft_step_def body_identity_matches_def repeated_append_def handle_append_eq
        Let_def entries_are_contiguous_run u64_max_def accept_entries_def last_index_def add64_def append_resp_def)
  have s: "rf_log s = [?e]" "rf_base_index s = 0" "rf_commit_index s = 0" "rf_last_applied s = 0" "\<not> rf_pending_restore s"
      "\<not> rf_dirty s" "rf_out s = [\<lparr>ad_to = ''b'', ad_msg = AppendEntriesResp \<lparr>aer_term = 1, aer_success = True,
        aer_match_index = 1\<rparr>\<rparr>]"
    by (simp_all add: s_def r raft_step_def body_identity_matches_def repeated_append_def handle_append_eq
        Let_def entries_are_contiguous_run u64_max_def accept_entries_def last_index_def add64_def append_resp_def term_at_def log_slot_def)
  show ?thesis
    unfolding r_def [symmetric] s_def [symmetric] Let_def
    using first s by (simp add: raft_ready_def Let_def drain_ready_def persist_ready_def apply_ready_def maybe_compact_def
        route_messages_def sample_driver_def COMPACT_LOG_THRESHOLD_def is_response_def)
qed

subsection \<open>Properties\<close>

text \<open>
  C9. Any interleaving of drains refines the sequential application of the log. The batches are those of
  consecutive drains of one engine, snapshots included, and their apply sections run in any order. Once
  all have run, the watermark and the replicated state (shard map and plan) are what applying the
  batches one after the other gives; and as long as some batch is left, one of the batches left does not
  wait, so the drains never deadlock.
\<close>

theorem any_drain_order_applies_the_log:
  assumes "consecutive (dr_watermark d\<^sub>0) bs" and "apply_run env bs d\<^sub>0 D d"
  shows "(D = {..<length bs} \<longrightarrow>
      dr_watermark d = mark (dr_watermark d\<^sub>0) bs (length bs) \<and>
      replicated (dr_sm d) = foldl (batch_effect env) (replicated (dr_sm d\<^sub>0)) bs) \<and>
    (D \<noteq> {..<length bs} \<longrightarrow> (\<exists>k < length bs. k \<notin> D \<and> apply_ready env (bs ! k) d \<noteq> Waits))"
proof -
  obtain m where inv: "order_inv env bs d\<^sub>0 D d m" using apply_run_inv [OF assms(2,1)] by blast
  have m: "m \<le> length bs" "dr_watermark d = mark (dr_watermark d\<^sub>0) bs m" "D \<subseteq> {..<length bs}"
    using inv by (auto simp: order_inv_def)
  have "dr_watermark d = mark (dr_watermark d\<^sub>0) bs (length bs) \<and>
      replicated (dr_sm d) = foldl (batch_effect env) (replicated (dr_sm d\<^sub>0)) bs" if "D = {..<length bs}"
  proof -
    have "mark (dr_watermark d\<^sub>0) bs (length bs) = mark (dr_watermark d\<^sub>0) bs m"
      using idle_tail [OF assms(1) m(1) order_refl] inv that by (auto simp: order_inv_def)
    with flat_run [OF assms(1) m(1), of env "replicated (dr_sm d\<^sub>0)"] inv m(2) show ?thesis
      by (simp add: order_inv_def run_to_def)
  qed
  moreover have "\<exists>k < length bs. k \<notin> D \<and> apply_ready env (bs ! k) d \<noteq> Waits" if "D \<noteq> {..<length bs}"
  proof -
    define k where "k = (LEAST k. k \<notin> D)"
    have "\<exists>k. k < length bs \<and> k \<notin> D" using that m(3) by auto
    then have k: "k \<notin> D" "k < length bs" "\<And>j. j < k \<Longrightarrow> j \<in> D"
      unfolding k_def using LeastI [of "\<lambda>k. k \<notin> D"] not_less_Least [of _ "\<lambda>k. k \<notin> D"] Least_le [of "\<lambda>k. k \<notin> D"]
      by (blast, metis le_less_trans, blast)
    have "mark (dr_watermark d\<^sub>0) bs k \<le> dr_watermark d"
    proof (cases "k \<le> m")
      case True
      then show ?thesis using mark_mono [OF assms(1)] m(1,2) by simp
    next
      case False
      then have "\<forall>j < k. m \<le> j \<longrightarrow> idle (bs ! j)" using k(3) inv by (simp add: order_inv_def)
      then show ?thesis using idle_tail [OF assms(1), of m k] False k(2) m(2) by simp
    qed
    then have "apply_ready env (bs ! k) d \<noteq> Waits"
      using consecutive_nth [OF assms(1) k(2)] by (auto simp: apply_ready_def split: option.splits)
    with k show ?thesis by blast
  qed
  ultimately show ?thesis by blast
qed

definition sample_batch :: "nat \<Rightarrow> nat \<Rightarrow> (nat \<times> command) list \<Rightarrow> ready" where
  "sample_batch lo hi cmds =
     \<lparr>rd_persist = None, rd_restore = None, rd_applied_from = lo, rd_applied_upto = hi, rd_messages = [], rd_committed = cmds\<rparr>"

theorem any_drain_order_applies_the_log_witness:
  "\<exists>k < 2. apply_ready sample_env ([sample_batch 0 1 [(1, ForgetNode ''x'')], sample_batch 1 2 [(2, ForgetNode ''y'')]] ! k)
     lone_driver \<noteq> Waits"
proof -
  let ?bs = "[sample_batch 0 1 [(1, ForgetNode ''x'')], sample_batch 1 2 [(2, ForgetNode ''y'')]]"
  have "consecutive (dr_watermark lone_driver) ?bs"
    by (simp add: sample_batch_def lone_driver_def sample_driver_def)
  moreover have "apply_run sample_env ?bs lone_driver {} lone_driver" by (rule apply_run.Start)
  ultimately show ?thesis
    using any_drain_order_applies_the_log [of lone_driver ?bs sample_env "{}" lone_driver] by (auto simp: numeral_2_eq_2)
qed

text \<open>
  The batches an engine hands out are consecutive: an engine that runs any admissible operations and is
  drained now and then produces batches in which each plain one starts where its predecessor ended, each
  snapshot lies strictly beyond it, and every command carries an index of its own batch. This is what
  the watermark of the driver relies on.
\<close>

theorem engine_hands_out_consecutive_batches:
  assumes "persisted_wf nid peers p" and "groups_ok groups (raft_new nid peers cfg seed p)"
  shows "consecutive (ps_base_index p) (engine_batches groups (raft_new nid peers cfg seed p))"
proof -
  have "\<not> rf_pending_restore (raft_new nid peers cfg seed p)" by (simp add: raft_new_def)
  from engine_batches_consecutive [OF raft_wf_new [OF assms(1)] this assms(2)] show ?thesis by simp
qed

theorem engine_hands_out_consecutive_batches_witness:
  "consecutive 0 (engine_batches [[], []] (raft_new ''a'' [''b''] default_raft_config 7 default_persisted))"
  using engine_hands_out_consecutive_batches [OF persisted_wf_default, of "[[], []]"] by (simp add: default_persisted_def)


definition long_driver :: driver where
  "long_driver = lone_driver\<lparr>dr_engine := lone_raft\<lparr>rf_log := map (sample_entry 1) [1..<257], rf_commit_index := 256\<rparr>\<rparr>"


end
