(* ===== verification/Api.thy ===== *)
theory Api
  imports Cluster Config Internal_Auth
begin

section \<open>The control-plane HTTP interface (\<open>src/api.rs\<close>)\<close>

text \<open>
  Every handler of \<open>/v1\<close> with its guards, its forwarding decision and its effect on the shared state.
  A handler takes the control plane as the record of functions of \<open>Cluster\<close>, the shared state
  machine, the names of the request's headers and the decoded body, and returns the response with
  the state after it. The HTTP client, the clock and the routing hash are the parameter \<open>api_env\<close>; JSON
  bodies are the constructors of \<open>api_body\<close>, one per shape the source builds.
\<close>

subsection \<open>Requests and responses\<close>

datatype http_method = GET | POST | DELETE

datatype forward_body =
    No_Body | Query_Key string | Json_Report heartbeat_report | Json_Policy placement_policy_update | Json_Plan scale_plan

record forward_request =
  fq_method :: http_method
  fq_url :: string
  fq_body :: forward_body
  fq_headers :: "(string \<times> string) list"

text \<open>What a forwarded request comes back with: a transport error, or a status and a body that may not be JSON.\<close>

datatype upstream = Upstream_Error string | Upstream nat "string option"

record api_env =
  ae_secret :: "string option"
  ae_send :: "forward_request \<Rightarrow> upstream"
  ae_now_ms :: nat
  ae_routing :: "string \<Rightarrow> nat \<Rightarrow> shard_id"

record status_report =
  st_nodes :: nat
  st_plan :: scale_plan
  st_ready :: bool
  st_healthy_failure_domains :: nat
  st_healthy_clouds :: nat
  st_healthy_clusters :: nat
  st_nodes_by_health :: "(string \<times> nat) list"
  st_nodes_by_failure_domain :: "(string \<times> nat) list"
  st_scale_target_met :: bool
  st_placed_shards :: nat
  st_unplaced_shards :: nat
  st_under_replicated_shards :: nat
  st_leaderless_shards :: nat
  st_shards_with_unhealthy_replicas :: nat
  st_configured_members :: nat
  st_ha_configured :: bool
  st_available :: bool
  st_placement_generation :: nat
  st_is_leader :: bool
  st_leader :: "string option"

datatype api_body =
    Unavailable_Body
  | Not_Leader_Body
  | Forward_Failed_Body string
  | Relayed_Body string
  | Forwarded_Body bool
  | Status_Body cluster_config status_report
  | Config_Body cluster_config
  | Route_Body string shard_id "shard_assignment option"
  | Nodes_Body "node_info list"
  | Heartbeat_Body node_id node_health
  | Draining_Body bool node_id
  | Placement_Body nat "shard_assignment list" "placement_policy list"
  | Shard_Body shard_assignment
  | Shard_Not_Found_Body shard_id
  | Policies_Body "placement_policy list"
  | Namespace_Required_Body
  | Policy_Body placement_policy
  | Plan_Body scale_plan

record response =
  rs_status :: nat
  rs_body :: api_body
  rs_retry_after :: "string option"

definition ok_json :: "api_body \<Rightarrow> response" where
  "ok_json b = \<lparr>rs_status = 200, rs_body = b, rs_retry_after = None\<rparr>"

text \<open>The state a handler works on: configuration, shared state machine, control plane.\<close>

record 'c brain_state =
  bs_config :: cluster_config
  bs_sm :: state_machine
  bs_cp :: 'c

subsection \<open>Helpers\<close>

definition FORWARDED_HEADER :: string where
  "FORWARDED_HEADER = ''x-fiducia-brain-forwarded''"

definition may_forward :: "string list \<Rightarrow> bool" where
  "may_forward headers \<longleftrightarrow> FORWARDED_HEADER \<notin> set headers"

definition leader_v1 :: "string \<Rightarrow> string \<Rightarrow> string" where
  "leader_v1 leader path = trim_end_matches (CHR ''/'') leader @ ''/forward/v1'' @ path"

definition forwarded :: "api_env \<Rightarrow> http_method \<Rightarrow> string \<Rightarrow> forward_body \<Rightarrow> response" where
  "forwarded env meth url body =
     (let req = \<lparr>fq_method = meth, fq_url = url, fq_body = body,
                 fq_headers = attach (ae_secret env) [] @ [(FORWARDED_HEADER, ''1'')]\<rparr>
      in case ae_send env req of
           Upstream s json \<Rightarrow>
             let status = (if 100 \<le> s \<and> s < 1000 then s else 502) in
             \<lparr>rs_status = status,
              rs_body = (case json of Some b \<Rightarrow> Relayed_Body b
                         | None \<Rightarrow> Forwarded_Body (200 \<le> status \<and> status < 300)),
              rs_retry_after = None\<rparr>
         | Upstream_Error detail \<Rightarrow>
             \<lparr>rs_status = 502, rs_body = Forward_Failed_Body detail, rs_retry_after = None\<rparr>)"

definition sanitize_report :: "heartbeat_report \<Rightarrow> nat \<Rightarrow> heartbeat_report" where
  "sanitize_report report shard_count =
     (let hosted = retain_first (\<lambda>shard. shard < shard_count) {} (hb_hosted_shards report) in
      report\<lparr>hb_hosted_shards := hosted,
             hb_leading_shards := retain_first (\<lambda>shard. shard \<in> set hosted) {} (hb_leading_shards report)\<rparr>)"

definition unavailable_response :: response where
  "unavailable_response = \<lparr>rs_status = 503, rs_body = Unavailable_Body, rs_retry_after = None\<rparr>"

definition not_leader :: response where
  "not_leader = \<lparr>rs_status = 503, rs_body = Not_Leader_Body, rs_retry_after = Some ''1''\<rparr>"

fun health_name :: "node_health \<Rightarrow> string" where
  "health_name Healthy = ''healthy''"
| "health_name Suspect = ''suspect''"
| "health_name Dead = ''dead''"
| "health_name Draining = ''draining''"

definition non_empty_or_unknown :: "string \<Rightarrow> string" where
  "non_empty_or_unknown value =
     (let value = trim value in if value = [] then ''unknown'' else to_ascii_lowercase value)"

text \<open>The \<open>BTreeMap\<close> of a counter: keys in order, each with its number of occurrences.\<close>

definition counts_by :: "('a \<Rightarrow> 'k::linorder) \<Rightarrow> 'a list \<Rightarrow> ('k \<times> nat) list" where
  "counts_by f xs = map (\<lambda>k. (k, length (filter (\<lambda>x. f x = k) xs))) (sort (remdups (map f xs)))"

text \<open>The forwarding decision shared by the reads and the soft-state writes.\<close>

definition forward_target :: "'c control_plane_ops \<Rightarrow> 'c \<Rightarrow> string list \<Rightarrow> string option" where
  "forward_target cp c headers =
     (if \<not> cp_is_leader cp c \<and> may_forward headers then cp_leader_addr cp c else None)"

subsection \<open>Handlers\<close>

definition cluster_name :: "node_info \<Rightarrow> string" where
  "cluster_name node =
     (if trim (ni_cluster_id node) \<noteq> [] then to_ascii_lowercase (trim (ni_cluster_id node))
      else non_empty_or_unknown (ni_failure_domain node))"

definition api_status :: "'c control_plane_ops \<Rightarrow> 'c brain_state \<Rightarrow> status_report" where
  "api_status cp s =
     (let nodes = membership_snapshot (sm_membership (bs_sm s));
          placement = placement_snapshot (sm_placement (bs_sm s));
          plan = sm_plan (bs_sm s);
          rf = SUPPORTED_REPLICATION_FACTOR;
          healthy = filter (\<lambda>n. ni_health n = Healthy) nodes;
          health_by_node = (\<lambda>i. map_option ni_health (find (\<lambda>n. ni_node_id n = i) (rev nodes)));
          domains = card (set (map (\<lambda>n. non_empty_or_unknown (ni_failure_domain n)) healthy));
          placed = length placement;
          unplaced = sat_sub (cc_shard_count (bs_config s)) placed;
          under = length (filter (\<lambda>a. length (sa_replicas a) < rf) placement) + unplaced;
          leaderless = length (filter (\<lambda>a. sa_preferred_leader a = None) placement) + unplaced;
          unhealthy = length (filter (\<lambda>a. list_ex (\<lambda>n. health_by_node n \<noteq> Some Healthy) (sa_replicas a)) placement);
          members = length (cc_brain_peers (bs_config s)) + 1
      in \<lparr>st_nodes = length nodes, st_plan = plan,
          st_ready = (rf \<le> domains \<and> unplaced = 0 \<and> under = 0 \<and> leaderless = 0 \<and> unhealthy = 0),
          st_healthy_failure_domains = domains,
          st_healthy_clouds = card (set (map (\<lambda>n. to_ascii_lowercase (trim (ni_cloud_provider n)))
            (filter (\<lambda>n. trim (ni_cloud_provider n) \<noteq> []) healthy))),
          st_healthy_clusters = card (set (map cluster_name healthy)),
          st_nodes_by_health = counts_by (\<lambda>n. health_name (ni_health n)) nodes,
          st_nodes_by_failure_domain = counts_by (\<lambda>n. non_empty_or_unknown (ni_failure_domain n)) nodes,
          st_scale_target_met = (max (sp_target_nodes plan) SUPPORTED_REPLICATION_FACTOR \<le> length healthy),
          st_placed_shards = placed, st_unplaced_shards = unplaced, st_under_replicated_shards = under,
          st_leaderless_shards = leaderless, st_shards_with_unhealthy_replicas = unhealthy,
          st_configured_members = members, st_ha_configured = (rf \<le> members),
          st_available = cp_is_available cp (bs_cp s),
          st_placement_generation = pl_generation (sm_placement (bs_sm s)),
          st_is_leader = cp_is_leader cp (bs_cp s), st_leader = cp_leader_addr cp (bs_cp s)\<rparr>)"

definition route_key :: "'c control_plane_ops \<Rightarrow> api_env \<Rightarrow> string list \<Rightarrow> string \<Rightarrow> 'c brain_state \<Rightarrow> response" where
  "route_key cp env headers key s =
     (case forward_target cp (bs_cp s) headers of
        Some leader \<Rightarrow> forwarded env GET (leader_v1 leader ''/route'') (Query_Key key)
      | None \<Rightarrow>
          let shard = shard_for (ae_routing env) (bs_config s) key
          in ok_json (Route_Body key shard (get (sm_placement (bs_sm s)) shard)))"

definition list_nodes :: "'c control_plane_ops \<Rightarrow> api_env \<Rightarrow> string list \<Rightarrow> 'c brain_state \<Rightarrow> response" where
  "list_nodes cp env headers s =
     (case forward_target cp (bs_cp s) headers of
        Some leader \<Rightarrow> forwarded env GET (leader_v1 leader ''/nodes'') No_Body
      | None \<Rightarrow> ok_json (Nodes_Body (membership_snapshot (sm_membership (bs_sm s)))))"

definition api_heartbeat ::
  "'c control_plane_ops \<Rightarrow> api_env \<Rightarrow> node_id \<Rightarrow> string list \<Rightarrow> heartbeat_report option \<Rightarrow> 'c brain_state
     \<Rightarrow> response \<times> 'c brain_state" where
  "api_heartbeat cp env nid headers report s =
     (if \<not> cp_is_available cp (bs_cp s) then (unavailable_response, s)
      else
        let report = sanitize_report (case report of Some r \<Rightarrow> r | None \<Rightarrow> default_report) (cc_shard_count (bs_config s)) in
        case forward_target cp (bs_cp s) headers of
          Some leader \<Rightarrow>
            (forwarded env POST (leader_v1 leader (''/nodes/'' @ nid @ ''/heartbeat'')) (Json_Report report), s)
        | None \<Rightarrow>
            let (health, m) = heartbeat nid (ae_now_ms env) report (sm_membership (bs_sm s))
            in (ok_json (Heartbeat_Body nid health), s\<lparr>bs_sm := (bs_sm s)\<lparr>sm_membership := m\<rparr>\<rparr>))"

definition remove_node ::
  "'c control_plane_ops \<Rightarrow> api_env \<Rightarrow> node_id \<Rightarrow> string list \<Rightarrow> 'c brain_state \<Rightarrow> response \<times> 'c brain_state" where
  "remove_node cp env nid headers s =
     (if \<not> cp_is_available cp (bs_cp s) then (unavailable_response, s)
      else case forward_target cp (bs_cp s) headers of
        Some leader \<Rightarrow> (forwarded env DELETE (leader_v1 leader (''/nodes/'' @ nid)) No_Body, s)
      | None \<Rightarrow>
          let (known, m) = drain nid (sm_membership (bs_sm s))
          in (ok_json (Draining_Body known nid), s\<lparr>bs_sm := (bs_sm s)\<lparr>sm_membership := m\<rparr>\<rparr>))"

definition placement_view :: "'c control_plane_ops \<Rightarrow> api_env \<Rightarrow> string list \<Rightarrow> 'c brain_state \<Rightarrow> response" where
  "placement_view cp env headers s =
     (case forward_target cp (bs_cp s) headers of
        Some leader \<Rightarrow> forwarded env GET (leader_v1 leader ''/placement'') No_Body
      | None \<Rightarrow>
          let p = sm_placement (bs_sm s)
          in ok_json (Placement_Body (pl_generation p) (placement_snapshot p) (policies_snapshot p)))"

definition placement_shard :: "shard_id \<Rightarrow> 'c brain_state \<Rightarrow> response" where
  "placement_shard shard s =
     (case get (sm_placement (bs_sm s)) shard of
        Some a \<Rightarrow> ok_json (Shard_Body a)
      | None \<Rightarrow> \<lparr>rs_status = 404, rs_body = Shard_Not_Found_Body shard, rs_retry_after = None\<rparr>)"

definition list_policies :: "'c brain_state \<Rightarrow> response" where
  "list_policies s = ok_json (Policies_Body (policies_snapshot (sm_placement (bs_sm s))))"

definition filter_blank :: "string option \<Rightarrow> string option" where
  "filter_blank v = (case v of Some r \<Rightarrow> if trim r = [] then None else Some r | None \<Rightarrow> None)"

definition policy_of_update :: "api_env \<Rightarrow> cluster_config \<Rightarrow> placement_policy_update \<Rightarrow> placement_policy" where
  "policy_of_update env cfg update =
     (let namespace = trim (ppu_namespace update) in
      \<lparr>pp_namespace = namespace, pp_shard_id = shard_for (ae_routing env) cfg namespace,
       pp_home_region = filter_blank (ppu_home_region update),
       pp_preferred_cloud_provider = filter_blank (ppu_preferred_cloud_provider update)\<rparr>)"

definition api_set_policy ::
  "'c control_plane_ops \<Rightarrow> api_env \<Rightarrow> string list \<Rightarrow> placement_policy_update \<Rightarrow> 'c brain_state \<Rightarrow> response \<times> 'c brain_state" where
  "api_set_policy cp env headers update s =
     (if \<not> cp_is_available cp (bs_cp s) then (unavailable_response, s)
      else if trim (ppu_namespace update) = [] then (ok_json Namespace_Required_Body, s)
      else if \<not> cp_is_leader cp (bs_cp s) \<and> may_forward headers then
        (case cp_leader_addr cp (bs_cp s) of
           Some leader \<Rightarrow> (forwarded env POST (leader_v1 leader ''/policies'') (Json_Policy update), s)
         | None \<Rightarrow> (not_leader, s))
      else
        let q = policy_of_update env (bs_config s) update
        in (ok_json (Policy_Body q), s\<lparr>bs_sm := (bs_sm s)\<lparr>sm_placement := set_policy q (sm_placement (bs_sm s))\<rparr>\<rparr>))"

definition clamp_plan :: "scale_plan \<Rightarrow> scale_plan" where
  "clamp_plan p =
     \<lparr>sp_target_nodes = max (sp_target_nodes p) SUPPORTED_REPLICATION_FACTOR,
      sp_replication_factor = SUPPORTED_REPLICATION_FACTOR\<rparr>"

definition set_scale ::
  "'c control_plane_ops \<Rightarrow> api_env \<Rightarrow> string list \<Rightarrow> scale_plan \<Rightarrow> 'c brain_state \<Rightarrow> response \<times> 'c brain_state" where
  "set_scale cp env headers p s =
     (if \<not> cp_is_available cp (bs_cp s) then (unavailable_response, s)
      else
        let p = clamp_plan p;
            (ok, c, sm) = cp_propose cp (SetScalePlan p) (bs_cp s) (bs_sm s);
            s = s\<lparr>bs_cp := c, bs_sm := sm\<rparr>
        in if ok then (ok_json (Plan_Body p), s)
           else (case cp_leader_addr cp c of
                   Some leader \<Rightarrow>
                     if may_forward headers
                     then (forwarded env POST (leader_v1 leader ''/scale'') (Json_Plan p), s)
                     else (not_leader, s)
                 | None \<Rightarrow> (not_leader, s)))"

subsection \<open>The router\<close>

datatype api_request =
    Get_Status
  | Get_Config
  | Get_Route string
  | Get_Nodes
  | Post_Heartbeat node_id "heartbeat_report option"
  | Delete_Node node_id
  | Get_Placement
  | Get_Placement_Shard shard_id
  | Get_Policies
  | Post_Policies placement_policy_update
  | Post_Scale scale_plan

fun router :: "'c control_plane_ops \<Rightarrow> api_env \<Rightarrow> string list \<Rightarrow> api_request \<Rightarrow> 'c brain_state \<Rightarrow> response \<times> 'c brain_state" where
  "router cp env headers Get_Status s = (ok_json (Status_Body (bs_config s) (api_status cp s)), s)"
| "router cp env headers Get_Config s = (ok_json (Config_Body (bs_config s)), s)"
| "router cp env headers (Get_Route key) s = (route_key cp env headers key s, s)"
| "router cp env headers Get_Nodes s = (list_nodes cp env headers s, s)"
| "router cp env headers (Post_Heartbeat nid report) s = api_heartbeat cp env nid headers report s"
| "router cp env headers (Delete_Node nid) s = remove_node cp env nid headers s"
| "router cp env headers Get_Placement s = (placement_view cp env headers s, s)"
| "router cp env headers (Get_Placement_Shard shard) s = (placement_shard shard s, s)"
| "router cp env headers Get_Policies s = (list_policies s, s)"
| "router cp env headers (Post_Policies update) s = api_set_policy cp env headers update s"
| "router cp env headers (Post_Scale p) s = set_scale cp env headers p s"

subsection \<open>Reports at the trust boundary\<close>

definition sane_shards :: "nat \<Rightarrow> shard_id list \<Rightarrow> shard_id list \<Rightarrow> bool" where
  "sane_shards n hosted leading \<longleftrightarrow>
     distinct hosted \<and> distinct leading \<and> set hosted \<subseteq> {..<n} \<and> set leading \<subseteq> set hosted"

lemma sanitize_report_sel [simp]:
  "hb_hosted_shards (sanitize_report r n) = retain_first (\<lambda>s. s < n) {} (hb_hosted_shards r)"
  "hb_leading_shards (sanitize_report r n) =
     retain_first (\<lambda>s. s \<in> set (retain_first (\<lambda>s. s < n) {} (hb_hosted_shards r))) {} (hb_leading_shards r)"
  "hb_seq (sanitize_report r n) = hb_seq r"
  by (simp_all add: sanitize_report_def Let_def)

lemma sanitize_sane: "sane_shards n (hb_hosted_shards (sanitize_report r n)) (hb_leading_shards (sanitize_report r n))"
  by (auto simp: sane_shards_def set_retain_first distinct_retain_first)

lemma sanitize_id:
  assumes "sane_shards n (hb_hosted_shards r) (hb_leading_shards r)"
  shows "sanitize_report r n = r"
proof -
  have h: "retain_first (\<lambda>s. s < n) {} (hb_hosted_shards r) = hb_hosted_shards r"
    using assms by (intro retain_first_id) (auto simp: sane_shards_def list_all_iff)
  have "retain_first (\<lambda>s. s \<in> set (hb_hosted_shards r)) {} (hb_leading_shards r) = hb_leading_shards r"
    using assms by (intro retain_first_id) (auto simp: sane_shards_def list_all_iff)
  with h show ?thesis by (simp add: sanitize_report_def Let_def)
qed

text \<open>What membership records of every node is possible in a cluster of \<open>n\<close> shards.\<close>

definition sane_members :: "nat \<Rightarrow> membership \<Rightarrow> bool" where
  "sane_members n m \<longleftrightarrow> (\<forall>i info. node_at m i = Some info \<longrightarrow> sane_shards n (ni_hosted_shards info) (ni_leading_shards info))"

lemma sane_members_heartbeat:
  assumes "sane_members n m" and "sane_shards n (hb_hosted_shards r) (hb_leading_shards r)"
  shows "sane_members n (snd (heartbeat i now r m))"
proof -
  have "ni_hosted_shards (refresh_entry i now r e) = hb_hosted_shards r"
    "ni_leading_shards (refresh_entry i now r e) = hb_leading_shards r" for e
    by (simp_all add: refresh_entry_def Let_def)
  with assms show ?thesis
    by (auto simp: sane_members_def heartbeat_def Let_def hashmap split: option.splits)
qed

lemma sane_members_drain: "sane_members n m \<Longrightarrow> sane_members n (snd (drain i m))"
  by (auto simp: sane_members_def drain_def hashmap split: option.splits)

lemma sane_members_forget: "sane_members n m \<Longrightarrow> sane_members n (snd (forget i m))"
  by (auto simp: sane_members_def forget_def hashmap split: if_splits)

lemma sane_members_event: "sane_members n (sm_membership sm) \<Longrightarrow> sane_members n (sm_membership (apply_event e sm))"
proof (cases e)
  case (Applied cmd)
  then show "sane_members n (sm_membership sm) \<Longrightarrow> ?thesis" by (cases cmd) (simp_all add: sane_members_forget)
qed simp

lemma sane_members_events: "sane_members n (sm_membership sm) \<Longrightarrow> sane_members n (sm_membership (sm_events evs sm))"
  by (induction evs arbitrary: sm) (simp_all add: sane_members_event)

subsection \<open>What a request may do to the state\<close>

definition brain_inv :: "'c brain_state \<Rightarrow> bool" where
  "brain_inv s \<longleftrightarrow>
     state_machine_inv (bs_sm s) \<and> sane_members (cc_shard_count (bs_config s)) (sm_membership (bs_sm s))"

lemma membership_inv_ops:
  "membership_inv m \<Longrightarrow> membership_inv (snd (heartbeat i now r m))"
  "membership_inv m \<Longrightarrow> membership_inv (snd (drain i m))"
  using membership_inv_op [of m "Heartbeat i now r"] membership_inv_op [of m "Drain i"] by simp_all

context control_plane
begin

lemma router_inv:
  assumes "brain_inv s"
  shows "brain_inv (snd (router cp env headers req s)) \<and> bs_config (snd (router cp env headers req s)) = bs_config s"
proof (cases req)
  case (Post_Heartbeat i r)
  then show ?thesis
    using assms sane_members_heartbeat [OF _ sanitize_sane] membership_inv_ops(1)
    by (auto simp: brain_inv_def state_machine_inv_def api_heartbeat_def Let_def case_prod_beta split: option.splits)
next
  case (Delete_Node i)
  then show ?thesis
    using assms sane_members_drain membership_inv_ops(2)
    by (auto simp: brain_inv_def state_machine_inv_def remove_node_def Let_def case_prod_beta split: option.splits)
next
  case (Post_Policies u)
  then show ?thesis
    using assms placement_inv_set_policy
    by (auto simp: brain_inv_def state_machine_inv_def api_set_policy_def Let_def split: option.splits)
next
  case (Post_Scale p)
  obtain ok c sm where run: "cp_propose cp (SetScalePlan (clamp_plan p)) (bs_cp s) (bs_sm s) = (ok, c, sm)"
    by (metis prod_cases3)
  obtain evs where "sm = sm_events evs (bs_sm s)" using propose_events [OF run] by blast
  then have "brain_inv (s\<lparr>bs_cp := c, bs_sm := sm\<rparr>)"
    using assms by (simp add: brain_inv_def state_machine_inv_events sane_members_events)
  then show ?thesis
    using assms Post_Scale run by (auto simp: set_scale_def Let_def split: option.splits)
qed (use assms in simp_all)

end

text \<open>The requests that change what the brain knows; every other request reads.\<close>

fun is_write :: "api_request \<Rightarrow> bool" where
  "is_write (Post_Heartbeat _ _) = True"
| "is_write (Delete_Node _) = True"
| "is_write (Post_Policies _) = True"
| "is_write (Post_Scale _) = True"
| "is_write _ = False"

lemma router_unavailable:
  assumes "\<not> cp_is_available cp (bs_cp s)"
  shows "snd (router cp env headers req s) = s \<and>
    (is_write req \<longrightarrow> router cp env headers req s = (unavailable_response, s))"
  using assms by (cases req) (simp_all add: api_heartbeat_def remove_node_def api_set_policy_def set_scale_def)

subsection \<open>Samples\<close>

definition sample_api_env :: api_env where
  "sample_api_env =
     \<lparr>ae_secret = Some ''s'', ae_send = (\<lambda>_. Upstream 200 (Some ''{}'')), ae_now_ms = 5, ae_routing = (\<lambda>key n. length key mod n)\<rparr>"

definition sample_brain :: "unit brain_state" where
  "sample_brain =
     \<lparr>bs_config = \<lparr>cc_cluster_id = ''c'', cc_shard_count = 4, cc_replication_factor = 3, cc_local_cluster = None,
        cc_cloud_provider = None, cc_region = None, cc_brain_peers = []\<rparr>,
      bs_sm = \<lparr>sm_membership = new_membership \<lparr>suspect_after_ms = 6, dead_after_ms = 30\<rparr>,
        sm_placement = new_placement 4, sm_plan = \<lparr>sp_target_nodes = 3, sp_replication_factor = 3\<rparr>\<rparr>,
      bs_cp = ()\<rparr>"

text \<open>A follower that believes \<open>b\<close> leads.\<close>

definition follower_plane :: "unit control_plane_ops" where
  "follower_plane =
     local_control_plane\<lparr>cp_is_leader := \<lambda>_. False, cp_leader_addr := \<lambda>_. Some ''b'',
       cp_propose := \<lambda>cmd c sm. (False, c, sm)\<rparr>"

subsection \<open>Properties\<close>

text \<open>
  The report of a node is cleaned at the trust boundary: exactly the hosted shards that exist are kept,
  each once; exactly the leading claims for shards that are also hosted are kept, each once; cleaning
  twice changes nothing more, and a report that is already possible is not changed at all.
\<close>

theorem sanitize_report_exact:
  "sane_shards n (hb_hosted_shards (sanitize_report r n)) (hb_leading_shards (sanitize_report r n))
   \<and> set (hb_hosted_shards (sanitize_report r n)) = {s \<in> set (hb_hosted_shards r). s < n}
   \<and> set (hb_leading_shards (sanitize_report r n)) =
       {s \<in> set (hb_leading_shards r). s < n \<and> s \<in> set (hb_hosted_shards r)}
   \<and> sanitize_report (sanitize_report r n) n = sanitize_report r n
   \<and> (sanitize_report r n = r \<longleftrightarrow> sane_shards n (hb_hosted_shards r) (hb_leading_shards r))"
proof -
  have "sanitize_report r n = r \<longleftrightarrow> sane_shards n (hb_hosted_shards r) (hb_leading_shards r)"
    using sanitize_sane [of n r] sanitize_id [of n r] by metis
  then show ?thesis
    using sanitize_sane [of n r] sanitize_id [OF sanitize_sane, of r n] by (auto simp: set_retain_first)
qed

text \<open>
  C35. A request makes at most one hop between members: what is forwarded always carries the forwarding
  mark, and a request that carries it is answered from local state, whatever the member believes about
  the leader: the HTTP client is not consulted.
\<close>

theorem at_most_one_forward_hop:
  "(\<forall>send. may_forward headers \<or>
      router cp (env\<lparr>ae_send := send\<rparr>) headers req s = router cp env headers req s)
   \<and> (\<forall>send. (\<forall>fq. FORWARDED_HEADER \<in> fst ` set (fq_headers fq) \<longrightarrow> send fq = ae_send env fq) \<longrightarrow>
      router cp (env\<lparr>ae_send := send\<rparr>) headers req s = router cp env headers req s)"
proof -
  have route: "shard_for (ae_routing (env\<lparr>ae_send := send\<rparr>)) = shard_for (ae_routing env)" for send by simp
  have "router cp (env\<lparr>ae_send := send\<rparr>) headers req s = router cp env headers req s" if "\<not> may_forward headers" for send
    using that
    by (cases req)
      (simp_all add: route_key_def list_nodes_def api_heartbeat_def remove_node_def placement_view_def api_set_policy_def
        set_scale_def forward_target_def policy_of_update_def Let_def cong: if_cong option.case_cong)
  moreover have "router cp (env\<lparr>ae_send := send\<rparr>) headers req s = router cp env headers req s"
    if "\<forall>fq. FORWARDED_HEADER \<in> fst ` set (fq_headers fq) \<longrightarrow> send fq = ae_send env fq" for send
  proof -
    have "forwarded (env\<lparr>ae_send := send\<rparr>) meth url body = forwarded env meth url body" for meth url body
      using that by (simp add: forwarded_def Let_def)
    then show ?thesis
      by (cases req)
        (simp_all add: route_key_def list_nodes_def api_heartbeat_def remove_node_def placement_view_def api_set_policy_def
          set_scale_def policy_of_update_def Let_def cong: if_cong option.case_cong)
  qed
  ultimately show ?thesis by blast
qed

theorem at_most_one_forward_hop_witness:
  "router follower_plane (sample_api_env\<lparr>ae_send := \<lambda>_. Upstream_Error ''loop''\<rparr>) [FORWARDED_HEADER] Get_Nodes sample_brain =
   router follower_plane sample_api_env [FORWARDED_HEADER] Get_Nodes sample_brain"
  using at_most_one_forward_hop [of "[FORWARDED_HEADER]" follower_plane sample_api_env Get_Nodes sample_brain]
  by (simp add: may_forward_def)

text \<open>
  The status page is honest: when \<open>/v1/status\<close> reports ready, every shard of the cluster is placed on at
  least three replicas, every one of them a healthy member, with a preferred leader, and the healthy
  members span at least three failure domains. (No assignment names a shard beyond the configured
  count; the scheduler only creates such assignments.)
\<close>

theorem status_ready_is_honest:
  assumes inv: "state_machine_inv (bs_sm s)"
    and range: "\<forall>i a. get (sm_placement (bs_sm s)) i = Some a \<longrightarrow> i < cc_shard_count (bs_config s)"
    and ready: "st_ready (api_status cp s)" and shard: "i < cc_shard_count (bs_config s)"
  shows "\<exists>a. get (sm_placement (bs_sm s)) i = Some a \<and> 3 \<le> length (sa_replicas a) \<and> sa_preferred_leader a \<noteq> None \<and>
      (\<forall>n \<in> set (sa_replicas a). \<exists>info. node_at (sm_membership (bs_sm s)) n = Some info \<and> ni_health info = Healthy) \<and>
    3 \<le> card {non_empty_or_unknown (ni_failure_domain info) | n info.
      node_at (sm_membership (bs_sm s)) n = Some info \<and> ni_health info = Healthy}"
proof -
  let ?p = "sm_placement (bs_sm s)" and ?m = "sm_membership (bs_sm s)"
  let ?snap = "placement_snapshot ?p" and ?nodes = "membership_snapshot ?m"
  have pinv: "placement_inv ?p" and minv: "membership_inv ?m" using inv by (simp_all add: state_machine_inv_def)
  have ids: "distinct (map sa_shard_id ?snap)" by (rule placement_snapshot_ids [OF pinv])
  have sub: "set (map sa_shard_id ?snap) \<subseteq> {..<cc_shard_count (bs_config s)}"
    using set_placement_snapshot [OF pinv] range by auto
  have len: "cc_shard_count (bs_config s) \<le> length ?snap"
    using ready by (simp add: api_status_def Let_def sat_sub_def)
  have "card (set (map sa_shard_id ?snap)) = length ?snap" using distinct_card [OF ids] by simp
  then have "set (map sa_shard_id ?snap) = {..<cc_shard_count (bs_config s)}"
    using sub len by (intro card_seteq) simp_all
  then obtain a where a: "a \<in> set ?snap" "sa_shard_id a = i" using shard by (auto simp: image_iff) (metis imageE lessThan_iff)
  have g: "get ?p i = Some a" using a set_placement_snapshot [OF pinv] by auto
  have "3 \<le> length (sa_replicas a)" "sa_preferred_leader a \<noteq> None"
    using ready a(1) by (auto simp: api_status_def Let_def SUPPORTED_REPLICATION_FACTOR_def filter_empty_conv not_less)
  moreover have "\<exists>info. node_at ?m n = Some info \<and> ni_health info = Healthy" if n: "n \<in> set (sa_replicas a)" for n
  proof -
    have "map_option ni_health (find (\<lambda>x. ni_node_id x = n) (rev ?nodes)) = Some Healthy"
      using ready a(1) n by (auto simp: api_status_def Let_def filter_empty_conv list_ex_iff)
    then obtain x where "x \<in> set ?nodes" "ni_node_id x = n" "ni_health x = Healthy"
      by (auto simp: find_Some_iff in_set_conv_nth) (metis in_set_conv_nth set_rev nth_mem length_rev)
    then show ?thesis using set_membership_snapshot [OF minv] by blast
  qed
  moreover have "{non_empty_or_unknown (ni_failure_domain info) | n info. node_at ?m n = Some info \<and> ni_health info = Healthy} =
      set (map (\<lambda>n. non_empty_or_unknown (ni_failure_domain n)) (filter (\<lambda>n. ni_health n = Healthy) ?nodes))"
    using set_membership_snapshot [OF minv] minv by (auto simp: membership_inv_def image_iff)
  moreover have "3 \<le> card (set (map (\<lambda>n. non_empty_or_unknown (ni_failure_domain n)) (filter (\<lambda>n. ni_health n = Healthy) ?nodes)))"
    using ready by (simp add: api_status_def Let_def SUPPORTED_REPLICATION_FACTOR_def)
  ultimately show ?thesis using g by auto
qed

definition sample_report :: "string \<Rightarrow> heartbeat_report" where
  "sample_report domain = default_report\<lparr>hb_failure_domain := domain\<rparr>"

definition ready_brain :: "unit brain_state" where
  "ready_brain = sample_brain
     \<lparr>bs_config := (bs_config sample_brain)\<lparr>cc_shard_count := 1\<rparr>,
      bs_sm := (bs_sm sample_brain)
        \<lparr>sm_membership := run_ops [Heartbeat ''a'' 1 (sample_report ''x''), Heartbeat ''b'' 1 (sample_report ''y''),
            Heartbeat ''c'' 1 (sample_report ''z'')] (sm_membership (bs_sm sample_brain)),
         sm_placement := assign \<lparr>sa_shard_id = 0, sa_replicas = [''a'', ''b'', ''c''], sa_preferred_leader = Some ''a'',
            sa_preferred_region = None, sa_preferred_cloud_provider = None\<rparr> (new_placement 1)\<rparr>\<rparr>"

theorem status_ready_is_honest_witness:
  "\<exists>a. get (sm_placement (bs_sm ready_brain)) 0 = Some a \<and> 3 \<le> length (sa_replicas a)"
proof -
  have "state_machine_inv (bs_sm ready_brain)"
    by (simp add: ready_brain_def sample_brain_def state_machine_inv_def membership_inv_run membership_inv_new
        placement_inv_assign placement_inv_new del: run_ops_simps)
  moreover have "\<forall>i a. get (sm_placement (bs_sm ready_brain)) i = Some a \<longrightarrow> i < cc_shard_count (bs_config ready_brain)"
    by (auto simp: ready_brain_def sample_brain_def get_assign) (simp add: get_def new_placement_def)
  moreover have "st_ready (api_status local_control_plane ready_brain)" by code_simp
  moreover have "0 < cc_shard_count (bs_config ready_brain)" by (simp add: ready_brain_def)
  ultimately show ?thesis using status_ready_is_honest by blast
qed

text \<open>
  Where a policy lands. The shared state changes only when the member is available, the namespace is not
  blank and the member leads or the request has already made its hop; then exactly the policy of the
  namespace's shard is set and the answer is 200. In particular a follower that receives an already
  forwarded policy stores it in its own map and answers 200, although only the leader's map is ever
  used and policies are not replicated.
\<close>

theorem set_policy_outcome:
  "router cp env headers (Post_Policies u) s =
     (if \<not> cp_is_available cp (bs_cp s) then (unavailable_response, s)
      else if trim (ppu_namespace u) = [] then (ok_json Namespace_Required_Body, s)
      else if cp_is_leader cp (bs_cp s) \<or> FORWARDED_HEADER \<in> set headers
        then (ok_json (Policy_Body (policy_of_update env (bs_config s) u)), snd (router cp env headers (Post_Policies u) s))
      else case cp_leader_addr cp (bs_cp s) of
             Some leader \<Rightarrow> (forwarded env POST (leader_v1 leader ''/policies'') (Json_Policy u), s)
           | None \<Rightarrow> (not_leader, s)) \<and>
   (let p' = sm_placement (bs_sm (snd (router cp env headers (Post_Policies u) s)));
        q = policy_of_update env (bs_config s) u
    in policy p' i =
         (if i = pp_shard_id q \<and> cp_is_available cp (bs_cp s) \<and> trim (ppu_namespace u) \<noteq> [] \<and>
             (cp_is_leader cp (bs_cp s) \<or> FORWARDED_HEADER \<in> set headers)
          then Some q else policy (sm_placement (bs_sm s)) i) \<and>
       get p' = get (sm_placement (bs_sm s)))"
  by (auto simp: api_set_policy_def may_forward_def Let_def policy_set_policy fun_eq_iff split: option.splits)

end
