(* ===== verification/Member.thy ===== *)
theory Member
  imports Scheduler Api Driver_Runs
begin

section \<open>A whole member (\<open>src/main.rs\<close>)\<close>

text \<open>
  Start-up and the two HTTP applications of a member, and the member as a transition system: API
  requests, peer requests, turns of the scheduler and operations of the consensus driver in any order.
  The process environment, the data directory, the codecs and the HTTP client are parameters. Binding
  sockets, telemetry and the layers for time-outs, body size and panics belong to the libraries.
\<close>

subsection \<open>The control plane chosen at start-up\<close>

text \<open>
  The \<open>Arc<dyn ControlPlane>\<close>: the single-member plane, or the driver together with what other threads
  do during each coming proposal.
\<close>

datatype plane = Single | Replicated driver "driver_op list list list"

definition member_plane :: "driver_env \<Rightarrow> plane control_plane_ops" where
  "member_plane env =
     \<lparr>cp_is_available = (\<lambda>c. case c of
          Single \<Rightarrow> cp_is_available local_control_plane ()
        | Replicated d script \<Rightarrow> cp_is_available (raft_control_plane env) (d, script)),
      cp_is_leader = (\<lambda>c. case c of
          Single \<Rightarrow> cp_is_leader local_control_plane ()
        | Replicated d script \<Rightarrow> cp_is_leader (raft_control_plane env) (d, script)),
      cp_leader_addr = (\<lambda>c. case c of
          Single \<Rightarrow> cp_leader_addr local_control_plane ()
        | Replicated d script \<Rightarrow> cp_leader_addr (raft_control_plane env) (d, script)),
      cp_propose = (\<lambda>cmd c sm. case c of
          Single \<Rightarrow> (let (ok, _, sm) = cp_propose local_control_plane cmd () sm in (ok, Single, sm))
        | Replicated d script \<Rightarrow>
            (let (ok, (d, script), sm) = cp_propose (raft_control_plane env) cmd (d, script) sm
             in (ok, Replicated d script, sm)))\<rparr>"

subsection \<open>Start-up\<close>

definition member_port :: "environment \<Rightarrow> nat" where
  "member_port vars = (case Option.bind (vars ''PORT'') (parse_unsigned 16) of Some p \<Rightarrow> p | None \<Rightarrow> 8095)"

definition member_id :: "environment \<Rightarrow> node_id" where
  "member_id vars =
     normalize_member_url
       (case vars ''FIDUCIA_BRAIN_ID'' of Some s \<Rightarrow> s | None \<Rightarrow> ''localhost:'' @ show_nat (member_port vars))"

datatype boot_error =
    Secret_Refused secret_error
  | Store_Refused store_error
  | Driver_Refused driver_error
  | Auth_Refused startup_error

record boot_env =
  bo_vars :: environment
  bo_driver :: driver_env
  bo_io :: disk_io

definition fresh_state :: "environment \<Rightarrow> cluster_config \<Rightarrow> state_machine" where
  "fresh_state vars cfg =
     \<lparr>sm_membership = new_membership (default_membership_config vars),
      sm_placement = new_placement (cc_shard_count cfg), sm_plan = initial_plan vars cfg\<rparr>"

definition open_plane :: "boot_env \<Rightarrow> state_machine \<Rightarrow> disk \<Rightarrow> (boot_error + plane \<times> state_machine) \<times> disk" where
  "open_plane be sm dir =
     (let vars = bo_vars be; peers = csv_env vars ''FIDUCIA_BRAIN_PEERS'' in
      if peers = [] then (Inr (Single, sm), dir)
      else case raft_secret_parse (vars ''FIDUCIA_BRAIN_RAFT_SECRET'') of
        Inl e \<Rightarrow> (Inl (Secret_Refused e), dir)
      | Inr secret \<Rightarrow>
          let nid = member_id vars; peers = resolve_peers peers nid in
          (case store_open (de_codec (bo_driver be)) (bo_io be) dir of
             (Inl e, dir) \<Rightarrow> (Inl (Store_Refused e), dir)
           | (Inr restored, dir) \<Rightarrow>
               (case driver_new (bo_driver be) nid peers default_raft_config (Some dir) (bo_io be) restored secret sm of
                  Inl e \<Rightarrow> (Inl (Driver_Refused e), dir)
                | Inr d \<Rightarrow> (Inr (Replicated d [], dr_sm d), dir))))"

definition boot :: "boot_env \<Rightarrow> disk \<Rightarrow> (boot_error + plane brain_state) \<times> disk" where
  "boot be dir =
     (let cfg = from_env (bo_vars be) in
      case open_plane be (fresh_state (bo_vars be) cfg) dir of
        (Inl e, dir) \<Rightarrow> (Inl e, dir)
      | (Inr (plane, sm), dir) \<Rightarrow>
          (case init_and_log (bo_vars be ''FIDUCIA_INTERNAL_SECRET'') of
             Inl e \<Rightarrow> (Inl (Auth_Refused e), dir)
           | Inr _ \<Rightarrow> (Inr \<lparr>bs_config = cfg, bs_sm = sm, bs_cp = plane\<rparr>, dir)))"

subsection \<open>The two applications\<close>

text \<open>What the applications read of a request's headers.\<close>

record request_head =
  rh_internal_auth :: "string option"
  rh_authorization :: "string option"
  rh_names :: "string list"

datatype probe = Alive | Ready | Not_Ready

fun probe_status :: "probe \<Rightarrow> nat" where
  "probe_status Alive = 200"
| "probe_status Ready = 200"
| "probe_status Not_Ready = 503"

datatype app_answer = Probe probe | Denied | Served response | Peer peer_answer | Pending

datatype app_request = Healthz | Readyz | V1 api_request

datatype peer_app_request = Peer_Healthz | Peer_Readyz | Peer_Raft peer_request | Forward_V1 api_request

definition readyz :: "bool \<Rightarrow> probe" where
  "readyz available = (if available then Ready else Not_Ready)"

definition guarded_v1 ::
  "driver_env \<Rightarrow> api_env \<Rightarrow> request_head \<Rightarrow> api_request \<Rightarrow> plane brain_state \<Rightarrow> app_answer \<times> plane brain_state" where
  "guarded_v1 env aenv head req s =
     (case guard (ae_secret aenv) (rh_internal_auth head)
             (\<lambda>_. router (member_plane env) aenv (rh_names head) req s) of
        Unauthorized \<Rightarrow> (Denied, s)
      | Ran (resp, s) \<Rightarrow> (Served resp, s))"

fun control_app ::
  "driver_env \<Rightarrow> api_env \<Rightarrow> request_head \<Rightarrow> app_request \<Rightarrow> plane brain_state \<Rightarrow> app_answer \<times> plane brain_state" where
  "control_app env aenv head Healthz s = (Probe Alive, s)"
| "control_app env aenv head Readyz s = (Probe (readyz (cp_is_available (member_plane env) (bs_cp s))), s)"
| "control_app env aenv head (V1 req) s = guarded_v1 env aenv head req s"

text \<open>
  The driver works on the member's own state machine: its handles are the ones the API and the scheduler
  use.
\<close>

definition on_driver :: "(driver \<Rightarrow> 'r \<times> driver) \<Rightarrow> driver \<Rightarrow> driver_op list list list \<Rightarrow> plane brain_state \<Rightarrow> 'r \<times> plane brain_state" where
  "on_driver f d script s =
     (let (r, d) = f (d\<lparr>dr_sm := bs_sm s\<rparr>) in (r, s\<lparr>bs_sm := dr_sm d, bs_cp := Replicated d script\<rparr>))"

text \<open>The peer application is only served by a replicated member, whose driver is passed along.\<close>

fun peer_app ::
  "driver_env \<Rightarrow> api_env \<Rightarrow> request_head \<Rightarrow> peer_app_request \<Rightarrow> driver \<Rightarrow> driver_op list list list \<Rightarrow> plane brain_state
     \<Rightarrow> app_answer \<times> plane brain_state" where
  "peer_app env aenv head Peer_Healthz d script s = (Probe Alive, s)"
| "peer_app env aenv head Peer_Readyz d script s = (Probe (readyz (dr_available d)), s)"
| "peer_app env aenv head (Peer_Raft req) d script s =
     (case on_driver (raft_router env (rh_authorization head) req) d script s of
        (Some ans, s) \<Rightarrow> (Peer ans, s)
      | (None, s) \<Rightarrow> (Pending, s))"
| "peer_app env aenv head (Forward_V1 req) d script s = guarded_v1 env aenv head req s"

subsection \<open>The member as a transition system\<close>

inductive member_step :: "driver_env \<Rightarrow> plane brain_state \<Rightarrow> plane brain_state \<Rightarrow> bool" for env where
  serve: "control_app env aenv head req s = (ans, s') \<Longrightarrow> member_step env s s'"
| serve_peer: "bs_cp s = Replicated d script \<Longrightarrow> peer_app env aenv head preq d script s = (ans, s') \<Longrightarrow> member_step env s s'"
| schedule: "run_tick (member_plane env) orc now (bs_cp s) (bs_sm s) = (ps, c, sm) \<Longrightarrow>
    member_step env s (s\<lparr>bs_sm := sm, bs_cp := c\<rparr>)"
| drive: "bs_cp s = Replicated d script \<Longrightarrow>
    on_driver (\<lambda>d. ((), run_driver_op env op d)) d script s = (u, s') \<Longrightarrow> member_step env s s'"
| script: "bs_cp s = Replicated d script \<Longrightarrow> member_step env s (s\<lparr>bs_cp := Replicated d script'\<rparr>)"

inductive_cases member_stepE: "member_step env s s'"

abbreviation member_run :: "driver_env \<Rightarrow> plane brain_state \<Rightarrow> plane brain_state \<Rightarrow> bool" where
  "member_run env \<equiv> (member_step env)\<^sup>*\<^sup>*"

subsection \<open>Every change of the state machine is an event of the log\<close>

lemma member_plane_propose:
  "cp_propose (member_plane env) cmd Single sm = (True, Single, apply_command cmd sm)"
  "cp_propose (member_plane env) cmd (Replicated d script) sm =
     (case cp_propose (raft_control_plane env) cmd (d, script) sm of
        (ok, (d, script), sm) \<Rightarrow> (ok, Replicated d script, sm))"
  by (simp_all add: member_plane_def case_prod_beta)

lemma member_plane_sel [simp]:
  "cp_is_available (member_plane env) Single" "cp_is_leader (member_plane env) Single"
  "cp_is_available (member_plane env) (Replicated d script) = dr_available d"
  "cp_is_leader (member_plane env) (Replicated d script) = driver_is_leader d"
  "cp_leader_addr (member_plane env) (Replicated d script) = driver_leader_addr d"
  by (simp_all add: member_plane_def raft_control_plane_def)

interpretation mcp: control_plane "member_plane env" for env
proof unfold_locales
  fix cmd and c c' :: plane and sm sm' ok
  assume run: "cp_propose (member_plane env) cmd c sm = (ok, c', sm')"
  show "\<exists>evs. sm' = sm_events evs sm"
  proof (cases c)
    case Single
    with run have "sm' = sm_events [Applied cmd] sm" by (simp add: member_plane_propose)
    then show ?thesis ..
  next
    case (Replicated d script)
    then obtain d' script' where "cp_propose (raft_control_plane env) cmd (d, script) sm = (ok, (d', script'), sm')"
      using run by (auto simp: member_plane_propose split: prod.splits)
    then show ?thesis by (rule rcp.propose_events)
  qed
qed

subsection \<open>The invariant of a member\<close>

text \<open>
  \<open>brain_inv\<close> (well-formed maps, possible reports) with the placement map sized by the configuration.
\<close>

definition member_ok :: "plane brain_state \<Rightarrow> bool" where
  "member_ok s \<longleftrightarrow> brain_inv s \<and> pl_shard_count (sm_placement (bs_sm s)) = cc_shard_count (bs_config s)"

lemma member_ok_events:
  assumes "member_ok s"
  shows "member_ok (s\<lparr>bs_sm := sm_events evs (bs_sm s), bs_cp := c\<rparr>)"
  using assms by (simp add: member_ok_def brain_inv_def state_machine_inv_events sane_members_events)

lemma router_shard_count:
  "pl_shard_count (sm_placement (bs_sm (snd (router (member_plane env) aenv names req s)))) =
     pl_shard_count (sm_placement (bs_sm s))"
proof (cases req)
  case (Post_Scale p)
  obtain ok c sm where run: "cp_propose (member_plane env) (SetScalePlan (clamp_plan p)) (bs_cp s) (bs_sm s) = (ok, c, sm)"
    by (metis prod_cases3)
  with mcp.propose_shard_count [OF run] Post_Scale show ?thesis
    by (auto simp: set_scale_def Let_def split: option.splits)
qed (auto simp: api_heartbeat_def remove_node_def api_set_policy_def Let_def case_prod_beta split: option.splits)

lemma guarded_v1_cases:
  assumes "guarded_v1 env aenv head req s = (ans, s')"
  obtains "ans = Denied" "s' = s"
  | resp where "router (member_plane env) aenv (rh_names head) req s = (resp, s')" "ans = Served resp"
  using assms by (auto simp: guarded_v1_def guard_def split: if_splits prod.splits)

lemma guarded_v1_inv:
  assumes "guarded_v1 env aenv head req s = (ans, s')" and "member_ok s"
  shows "member_ok s' \<and> bs_config s' = bs_config s"
  using assms(1)
proof (cases rule: guarded_v1_cases)
  case (2 resp)
  have "brain_inv s" using assms(2) by (simp add: member_ok_def)
  from mcp.router_inv [OF this, of env aenv "rh_names head" req] router_shard_count [of env aenv "rh_names head" req s] assms(2) 2
  show ?thesis by (simp add: member_ok_def)
qed (use assms in simp)

lemma inbound_changes: "changes d (snd (inbound_answer f (step_inbound env n msg d)))"
  using driver_op_changes [of d env "Receives n msg"]
  by (cases "step_inbound env n msg d") (simp_all add: inbound_answer_def run_driver_op_def)

lemma raft_router_changes: "changes d (snd (raft_router env auth req d))"
  by (cases req) (auto simp: raft_router_def driver_request_vote_def driver_append_entries_def
      driver_install_snapshot_def changes_same inbound_changes)

lemma on_driver_events:
  assumes "on_driver f d script s = (r, s')" and "\<And>d. changes d (snd (f d))"
  shows "\<exists>evs c. s' = s\<lparr>bs_sm := sm_events evs (bs_sm s), bs_cp := c\<rparr>"
proof -
  obtain evs where "dr_sm (snd (f (d\<lparr>dr_sm := bs_sm s\<rparr>))) = sm_events evs (bs_sm s)"
    using assms(2) [of "d\<lparr>dr_sm := bs_sm s\<rparr>"] by (auto simp: changes_def)
  with assms(1) show ?thesis by (auto simp: on_driver_def Let_def case_prod_beta)
qed

lemma run_tick_events:
  assumes "run_tick (member_plane env) orc now c sm = (ps, c', sm')"
  obtains m evs where "m \<in> {sm_membership sm, snd (sweep orc now (sm_membership sm))}"
    "sm' = sm_events evs (sm\<lparr>sm_membership := m\<rparr>)"
proof (cases "cp_is_leader (member_plane env) c")
  case True
  with assms have "reconcile (member_plane env) c (sm\<lparr>sm_membership := snd (sweep orc now (sm_membership sm))\<rparr>) = (ps, c', sm')"
    by (simp add: run_tick_def case_prod_beta)
  from mcp.reconcile_events [OF this] that show thesis by blast
next
  case False
  with assms have "sm' = sm_events [] (sm\<lparr>sm_membership := sm_membership sm\<rparr>)" by (simp add: run_tick_def)
  with that show thesis by blast
qed

lemma sane_members_sweep: "sane_members n m \<Longrightarrow> sane_members n (snd (sweep orc now m))"
  by (auto simp: sane_members_def hashmap)

lemma member_ok_tick:
  assumes "run_tick (member_plane env) orc now (bs_cp s) (bs_sm s) = (ps, c, sm)" and "member_ok s"
  shows "member_ok (s\<lparr>bs_sm := sm, bs_cp := c\<rparr>)"
  using assms(1)
proof (rule run_tick_events)
  fix m evs
  assume m: "m \<in> {sm_membership (bs_sm s), snd (sweep orc now (sm_membership (bs_sm s)))}"
    and sm: "sm = sm_events evs ((bs_sm s)\<lparr>sm_membership := m\<rparr>)"
  have "membership_inv (snd (sweep orc now (sm_membership (bs_sm s))))" if "membership_inv (sm_membership (bs_sm s))"
    using membership_inv_op [OF that, of "Sweep orc now"] by simp
  with m assms(2) sane_members_sweep have "member_ok (s\<lparr>bs_sm := (bs_sm s)\<lparr>sm_membership := m\<rparr>\<rparr>)"
    by (auto simp: member_ok_def brain_inv_def state_machine_inv_def)
  from member_ok_events [OF this, where evs = evs and c = c] show ?thesis by (simp add: sm)
qed

lemma member_step_inv:
  assumes "member_step env s s'" and "member_ok s"
  shows "member_ok s' \<and> bs_config s' = bs_config s"
  using assms(1)
proof cases
  case (serve aenv head req ans)
  with assms(2) guarded_v1_inv show ?thesis by (cases req) auto
next
  case (serve_peer d script aenv head preq ans)
  show ?thesis
  proof (cases preq)
    case (Peer_Raft req)
    then obtain r where "on_driver (raft_router env (rh_authorization head) req) d script s = (r, s')"
      using serve_peer by (auto split: prod.splits option.splits)
    from on_driver_events [OF this raft_router_changes] assms(2) member_ok_events show ?thesis by auto
  qed (use serve_peer assms(2) guarded_v1_inv in auto)
next
  case (schedule orc now ps c sm)
  with member_ok_tick assms(2) show ?thesis by simp
next
  case (drive d script op u)
  from on_driver_events [OF drive(2)] driver_op_changes assms(2) member_ok_events show ?thesis by auto
next
  case (script d script script')
  with member_ok_events [OF assms(2), where evs = "[]"] show ?thesis by simp
qed

lemma member_run_inv:
  assumes "member_run env s s'" and "member_ok s"
  shows "member_ok s' \<and> bs_config s' = bs_config s"
  using assms by (induction rule: rtranclp_induct) (use member_step_inv in auto)

subsection \<open>What start-up leaves\<close>

lemma boot_cases:
  assumes "boot be dir = (Inr s, dir')"
  obtains (single) "csv_env (bo_vars be) ''FIDUCIA_BRAIN_PEERS'' = []" "bs_cp s = Single"
      "bs_sm s = fresh_state (bo_vars be) (bs_config s)" "bs_config s = from_env (bo_vars be)"
  | (replicated) secret restored d where "csv_env (bo_vars be) ''FIDUCIA_BRAIN_PEERS'' \<noteq> []"
      "raft_secret_parse (bo_vars be ''FIDUCIA_BRAIN_RAFT_SECRET'') = Inr secret"
      "store_open (de_codec (bo_driver be)) (bo_io be) dir = (Inr restored, dir')"
      "driver_new (bo_driver be) (member_id (bo_vars be))
         (resolve_peers (csv_env (bo_vars be) ''FIDUCIA_BRAIN_PEERS'') (member_id (bo_vars be)))
         default_raft_config (Some dir') (bo_io be) restored secret (fresh_state (bo_vars be) (bs_config s)) = Inr d"
      "bs_cp s = Replicated d []" "bs_sm s = dr_sm d" "bs_config s = from_env (bo_vars be)"
proof (cases "csv_env (bo_vars be) ''FIDUCIA_BRAIN_PEERS'' = []")
  case True
  with assms single show thesis
    by (auto simp: boot_def open_plane_def Let_def split: sum.splits)
next
  case False
  with assms replicated show thesis
    by (auto simp: boot_def open_plane_def Let_def split: sum.splits prod.splits)
qed

lemma driver_new_sm:
  assumes "driver_new env nid peers cfg store io restored secret sm = Inr d"
  shows "\<exists>evs. dr_sm d = sm_events evs sm"
proof -
  have "dr_sm d = sm \<or> (\<exists>data. restore_state_machine env data sm = Some (dr_sm d))"
    using assms by (auto simp: driver_new_def split: sum.splits option.splits)
  then consider "dr_sm d = sm_events [] sm" | as p where "dr_sm d = sm_events [Restored as p] sm"
    using restore_event by fastforce
  then show ?thesis by cases blast+
qed

lemma member_ok_boot:
  assumes "boot be dir = (Inr s, dir')"
  shows "member_ok s"
proof -
  have "sane_members n (new_membership cfg)" "pl_shard_count (new_placement k) = k" for n cfg k
    by (simp_all add: sane_members_def new_membership_def new_placement_def)
  then have fresh: "member_ok (s\<lparr>bs_sm := fresh_state (bo_vars be) (bs_config s)\<rparr>)"
    by (simp add: member_ok_def brain_inv_def state_machine_inv_def fresh_state_def membership_inv_new placement_inv_new)
  from assms show ?thesis
  proof (cases rule: boot_cases)
    case single
    with fresh show ?thesis by (simp add: member_ok_def brain_inv_def)
  next
    case (replicated secret restored d)
    then obtain evs where "bs_sm s = sm_events evs (fresh_state (bo_vars be) (bs_config s))"
      using driver_new_sm by metis
    then show ?thesis using member_ok_events [OF fresh, where evs = evs and c = "bs_cp s"]
      by (simp add: member_ok_def brain_inv_def)
  qed
qed

subsection \<open>A member that has failed closed\<close>

text \<open>What a replicated member would lose: its engine, its files and the messages it hands out.\<close>

definition durable :: "plane brain_state \<Rightarrow> (raft \<times> disk option \<times> addressed list list) option" where
  "durable s = (case bs_cp s of Single \<Rightarrow> None | Replicated d _ \<Rightarrow> Some (dr_engine d, dr_store d, dr_outbox d))"

definition down :: "plane brain_state \<Rightarrow> bool" where
  "down s = (case bs_cp s of Single \<Rightarrow> False | Replicated d _ \<Rightarrow> \<not> dr_available d)"

definition frozen :: "plane brain_state \<Rightarrow> plane brain_state \<Rightarrow> bool" where
  "frozen s s' \<longleftrightarrow> down s' \<and> durable s' = durable s \<and> bs_sm s' = bs_sm s \<and> bs_config s' = bs_config s"

lemma down_unavailable: "down s \<Longrightarrow> \<not> cp_is_available (member_plane env) (bs_cp s)"
  by (cases "bs_cp s") (simp_all add: down_def)

lemma unavailable_driver:
  assumes "\<not> dr_available d"
  shows "snd (raft_router env auth req d) = d"
    and "\<not> dr_available (run_driver_op env op d) \<and> dr_engine (run_driver_op env op d) = dr_engine d \<and>
      dr_store (run_driver_op env op d) = dr_store d \<and> dr_outbox (run_driver_op env op d) = dr_outbox d \<and>
      dr_sm (run_driver_op env op d) = dr_sm d"
proof -
  show "snd (raft_router env auth req d) = d"
    using assms by (cases req) (simp_all add: raft_router_def driver_request_vote_def driver_append_entries_def
      driver_install_snapshot_def step_inbound_def inbound_answer_def)
  show "\<not> dr_available (run_driver_op env op d) \<and> dr_engine (run_driver_op env op d) = dr_engine d \<and>
      dr_store (run_driver_op env op d) = dr_store d \<and> dr_outbox (run_driver_op env op d) = dr_outbox d \<and>
      dr_sm (run_driver_op env op d) = dr_sm d"
    using assms by (cases op) (simp_all add: run_driver_op_def tick_loop_body_def deliver_def step_inbound_def)
qed

lemma guarded_v1_down:
  assumes "down s"
  shows "snd (guarded_v1 env aenv head req s) = s \<and>
    (is_write req \<longrightarrow> fst (guarded_v1 env aenv head req s) \<in> {Denied, Served unavailable_response})"
  using router_unavailable [OF down_unavailable [OF assms], of env aenv "rh_names head" req]
  by (auto simp: guarded_v1_def guard_def split: prod.splits)

lemma frozen_step:
  assumes "member_step env s s'" and "down s"
  shows "frozen s s'"
  using assms(1)
proof cases
  case (serve aenv head req ans)
  then have "s' = s" using guarded_v1_down [OF assms(2), of env aenv head] by (cases req) (auto simp: prod_eq_iff)
  with assms(2) show ?thesis by (simp add: frozen_def)
next
  case (serve_peer d script aenv head preq ans)
  have d: "\<not> dr_available d" using assms(2) serve_peer by (simp add: down_def)
  show ?thesis
  proof (cases preq)
    case (Peer_Raft req)
    with serve_peer unavailable_driver(1) [of "d\<lparr>dr_sm := bs_sm s\<rparr>"] d show ?thesis
      by (auto simp: on_driver_def frozen_def down_def durable_def Let_def case_prod_beta split: option.splits)
  next
    case (Forward_V1 req)
    with serve_peer guarded_v1_down [OF assms(2), of env aenv head req] assms(2) show ?thesis
      by (auto simp: frozen_def prod_eq_iff)
  qed (use serve_peer assms(2) in \<open>auto simp: frozen_def\<close>)
next
  case (schedule orc now ps c sm)
  have "\<not> cp_is_leader (member_plane env) (bs_cp s)"
    using assms(2) by (cases "bs_cp s") (simp_all add: down_def driver_is_leader_def)
  with schedule assms(2) show ?thesis by (auto simp: run_tick_def frozen_def)
next
  case (drive d script op u)
  then show ?thesis
    using assms(2) unavailable_driver(2) [of "d\<lparr>dr_sm := bs_sm s\<rparr>" env op]
    by (auto simp: on_driver_def frozen_def down_def durable_def)
next
  case (script d sc sc')
  with assms(2) show ?thesis by (simp add: frozen_def down_def durable_def)
qed

lemma frozen_run:
  assumes "member_run env s s'" and "down s"
  shows "frozen s s'"
  using assms
proof (induction rule: rtranclp_induct)
  case base
  then show ?case by (simp add: frozen_def)
next
  case (step t u)
  then have "frozen t u" using frozen_step by (simp add: frozen_def)
  with step show ?case by (simp add: frozen_def)
qed

subsection \<open>Samples\<close>

definition sample_vars :: environment where
  "sample_vars =
     [''FIDUCIA_INTERNAL_SECRET'' \<mapsto> ''s'', ''FIDUCIA_BRAIN_RAFT_SECRET'' \<mapsto> ''r'', ''FIDUCIA_BRAIN_ID'' \<mapsto> ''a:1'',
      ''FIDUCIA_BRAIN_PEERS'' \<mapsto> ''b:1, a:1/ ,b:1,c:1'']"

definition sample_boot :: boot_env where
  "sample_boot = \<lparr>bo_vars = sample_vars, bo_driver = sample_env, bo_io = good_io\<rparr>"

definition sample_member :: "plane brain_state" where
  "sample_member = projr (fst (boot sample_boot (\<lambda>_. None)))"

lemma sample_boot_ok:
  "boot sample_boot (\<lambda>_. None) = (Inr sample_member, snd (boot sample_boot (\<lambda>_. None)))"
proof -
  have "case fst (boot sample_boot (\<lambda>_. None)) of Inl _ \<Rightarrow> False | Inr _ \<Rightarrow> True" by code_simp
  then have "fst (boot sample_boot (\<lambda>_. None)) = Inr sample_member" unfolding sample_member_def by (simp split: sum.splits)
  then show ?thesis by (simp add: prod_eq_iff)
qed

definition lone_member :: "plane brain_state" where
  "lone_member =
     \<lparr>bs_config = bs_config sample_brain, bs_sm = sample_sm, bs_cp = Replicated lone_driver []\<rparr>"

definition sample_head :: request_head where
  "sample_head = \<lparr>rh_internal_auth = Some ''s'', rh_authorization = None, rh_names = []\<rparr>"

subsection \<open>Properties\<close>

text \<open>
  C14. The invariant of a whole member: from a successful start, through any interleaving of API requests,
  peer requests, turns of the scheduler, ticks and peer responses of the consensus driver, on both
  kinds of control plane, the registry and the placement map stay well formed, every node's recorded
  shards exist and are hosted where they are led, and the configuration and the number of shards
  never change.
\<close>

theorem member_keeps_its_invariant:
  assumes "boot be dir = (Inr s, dir')" and "member_run (bo_driver be) s s'"
  shows "state_machine_inv (bs_sm s') \<and> sane_members (cc_shard_count (bs_config s')) (sm_membership (bs_sm s')) \<and>
    pl_shard_count (sm_placement (bs_sm s')) = cc_shard_count (bs_config s') \<and>
    bs_config s' = from_env (bo_vars be)"
proof -
  have "bs_config s = from_env (bo_vars be)" using assms(1) by (cases rule: boot_cases)
  with member_run_inv [OF assms(2) member_ok_boot [OF assms(1)]] show ?thesis
    unfolding member_ok_def brain_inv_def by metis
qed

theorem member_keeps_its_invariant_witness:
  "state_machine_inv (bs_sm (snd (control_app sample_env sample_api_env sample_head
     (V1 (Post_Heartbeat ''n'' (Some default_report))) sample_member)))"
proof -
  let ?s = "snd (control_app sample_env sample_api_env sample_head (V1 (Post_Heartbeat ''n'' (Some default_report))) sample_member)"
  have "member_step sample_env sample_member ?s" by (rule member_step.serve) (rule prod.collapse [symmetric])
  then have "member_run (bo_driver sample_boot) sample_member ?s" by (simp add: sample_boot_def r_into_rtranclp)
  from member_keeps_its_invariant [OF sample_boot_ok this] show ?thesis by blast
qed

text \<open>
  Start-up fails closed: a member comes up exactly when the control-plane secret is configured and,
  if peers are configured, the peer secret is not blank, the data directory can be opened and
  validated, and the snapshot in it can be decoded. In every other case nothing is served.
\<close>

theorem boot_fails_closed:
  "(\<exists>s. fst (boot be dir) = Inr s) \<longleftrightarrow>
     configured (bo_vars be ''FIDUCIA_INTERNAL_SECRET'') \<noteq> None \<and>
     (csv_env (bo_vars be) ''FIDUCIA_BRAIN_PEERS'' = [] \<or>
      trim (case bo_vars be ''FIDUCIA_BRAIN_RAFT_SECRET'' of Some v \<Rightarrow> v | None \<Rightarrow> []) \<noteq> [] \<and>
      (\<exists>p. fst (store_open (de_codec (bo_driver be)) (bo_io be) dir) = Inr p \<and>
         (case ps_snapshot p of None \<Rightarrow> True | Some data \<Rightarrow> de_dec_state (bo_driver be) data \<noteq> None)))"
proof -
  have v: "validate_config default_raft_config = Inr ()" by (simp add: validate_config_def default_raft_config_def)
  obtain res dir' where o: "store_open (de_codec (bo_driver be)) (bo_io be) dir = (res, dir')" by fastforce
  show ?thesis
    by (cases res)
      (auto simp: boot_def open_plane_def init_and_log_def raft_secret_parse_def driver_new_def v o
        restore_state_machine_def Let_def split: option.splits)
qed

text \<open>
  C38. A replicated member starts from exactly its durable state in exactly its group: the engine's term,
  vote, commit index, log and snapshot are those of the data directory, it is a follower that is ready to
  run, its peers are the configured members other than itself, each once, and its quorum is a
  majority of the distinct members.
\<close>

theorem boot_resumes_durable_state:
  assumes "boot be dir = (Inr s, dir')" and "bs_cp s = Replicated d script"
    and "fst (store_open (de_codec (bo_driver be)) (bo_io be) dir) = Inr p" and "ps_base_index p \<le> u64_max"
  shows "driver_inv d \<and> dr_available d \<and> rf_role (dr_engine d) = Follower \<and> persisted_snapshot (dr_engine d) = p \<and>
    rf_id (dr_engine d) = member_id (bo_vars be) \<and> distinct (rf_peers (dr_engine d)) \<and>
    set (rf_peers (dr_engine d)) =
      normalize_member_url ` set (csv_env (bo_vars be) ''FIDUCIA_BRAIN_PEERS'') - {member_id (bo_vars be)} \<and>
    card (insert (rf_id (dr_engine d)) (set (rf_peers (dr_engine d)))) < 2 * quorum (dr_engine d)"
  using assms(1)
proof (cases rule: boot_cases)
  case (replicated secret restored d')
  let ?peers = "resolve_peers (csv_env (bo_vars be) ''FIDUCIA_BRAIN_PEERS'') (member_id (bo_vars be))"
  have r: "restored = p" "d' = d" using replicated assms(2,3) by simp_all
  have eng: "dr_engine d = raft_new (member_id (bo_vars be)) ?peers default_raft_config (seed_from (member_id (bo_vars be))) p"
    using replicated(4) r by (auto simp: driver_new_def split: sum.splits option.splits)
  have "persisted_wf (member_id (bo_vars be)) ?peers p" using open_state_is_wf [OF assms(3,4)] by blast
  with driver_inv_new [OF replicated(4)] r have inv: "driver_inv d \<and> dr_available d" by simp
  have "card (set ?peers) = length ?peers" by (rule distinct_card [OF resolve_peers_distinct])
  then have "card (insert (rf_id (dr_engine d)) (set (rf_peers (dr_engine d)))) \<le> length (rf_peers (dr_engine d)) + 1"
    by (simp add: eng card_insert_if)
  then have "card (insert (rf_id (dr_engine d)) (set (rf_peers (dr_engine d)))) < 2 * quorum (dr_engine d)"
    using quorum_majority [of "dr_engine d"] by simp
  moreover have "persisted_snapshot (dr_engine d) = p" by (simp add: eng persisted_snapshot_def)
  ultimately show ?thesis using inv by (simp add: eng resolve_peers_distinct set_resolve_peers)
qed (use assms(2) in simp)

theorem boot_resumes_durable_state_witness:
  "\<exists>d script. bs_cp sample_member = Replicated d script \<and> driver_inv d \<and>
     set (rf_peers (dr_engine d)) = {''http://b:1'', ''http://c:1''}"
proof -
  have "csv_env (bo_vars sample_boot) ''FIDUCIA_BRAIN_PEERS'' \<noteq> []" by code_simp
  then obtain d p where c: "bs_cp sample_member = Replicated d []" and
    p: "fst (store_open (de_codec (bo_driver sample_boot)) (bo_io sample_boot) (\<lambda>_. None)) = Inr p"
    by (auto intro: boot_cases [OF sample_boot_ok])
  have "case fst (store_open (de_codec (bo_driver sample_boot)) (bo_io sample_boot) (\<lambda>_. None)) of
      Inl _ \<Rightarrow> False | Inr p \<Rightarrow> ps_base_index p \<le> u64_max"
    by code_simp
  with p have u: "ps_base_index p \<le> u64_max" by simp
  have "normalize_member_url ` set (csv_env (bo_vars sample_boot) ''FIDUCIA_BRAIN_PEERS'') - {member_id (bo_vars sample_boot)} =
      {''http://b:1'', ''http://c:1''}"
    by code_simp
  with boot_resumes_durable_state [OF sample_boot_ok c p u] c show ?thesis by auto
qed

text \<open>
  C15. A member that has failed closed is frozen: whatever requests, peer messages, scheduler turns and
  ticks follow, it never becomes available again, its engine, files, outbox, registry, placement map
  and scale plan keep their values, the readiness probe answers 503, and no write is acknowledged.
\<close>

theorem failed_member_is_frozen:
  assumes "bs_cp s = Replicated d script" and "\<not> dr_available d" and "member_run env s s'"
  shows "durable s' = durable s \<and> bs_sm s' = bs_sm s \<and> \<not> cp_is_available (member_plane env) (bs_cp s') \<and>
    control_app env aenv head Readyz s' = (Probe Not_Ready, s') \<and> probe_status Not_Ready = 503 \<and>
    (is_write req \<longrightarrow> control_app env aenv head (V1 req) s' \<in> {(Denied, s'), (Served unavailable_response, s')})"
proof -
  have f: "frozen s s'" using frozen_run [OF assms(3)] assms(1,2) by (simp add: down_def)
  then have av: "\<not> cp_is_available (member_plane env) (bs_cp s')" by (simp add: frozen_def down_unavailable)
  with f guarded_v1_down [of s' env aenv head req] show ?thesis
    by (auto simp: frozen_def readyz_def prod_eq_iff)
qed

theorem failed_member_is_frozen_witness:
  "control_app sample_env sample_api_env sample_head Readyz
     (lone_member\<lparr>bs_cp := Replicated (fail_closed lone_driver) []\<rparr>) =
   (Probe Not_Ready, lone_member\<lparr>bs_cp := Replicated (fail_closed lone_driver) []\<rparr>)"
  using failed_member_is_frozen [OF _ _ rtranclp.rtrancl_refl,
    of "lone_member\<lparr>bs_cp := Replicated (fail_closed lone_driver) []\<rparr>" "fail_closed lone_driver" "[]" sample_env
      sample_api_env sample_head]
  by simp



text \<open>
  Both ports guard \<open>/v1\<close> alike: a request runs exactly when it presents the configured secret, on the
  control port and on the forwarding target of the peer port; any other request is refused and changes
  nothing.
\<close>

theorem v1_needs_internal_secret:
  assumes "configured (ae_secret aenv) = Some secret"
  shows "(fst (control_app env aenv head (V1 req) s) = Denied \<longleftrightarrow> rh_internal_auth head \<noteq> Some secret) \<and>
    peer_app env aenv head (Forward_V1 req) d script s = control_app env aenv head (V1 req) s \<and>
    (rh_internal_auth head \<noteq> Some secret \<longrightarrow> snd (control_app env aenv head (V1 req) s) = s)"
  using assms by (auto simp: guarded_v1_def guard_def authorized_iff split: prod.splits)

theorem v1_needs_internal_secret_witness:
  "control_app sample_env sample_api_env (sample_head\<lparr>rh_internal_auth := Some ''x''\<rparr>) (V1 (Delete_Node ''a'')) lone_member =
     (Denied, lone_member)"
proof -
  have "configured (ae_secret sample_api_env) = Some ''s''" by code_simp
  from v1_needs_internal_secret [OF this, of sample_env "sample_head\<lparr>rh_internal_auth := Some ''x''\<rparr>" "Delete_Node ''a''"] show ?thesis
    by (auto simp: prod_eq_iff)
qed

end
