(* ===== verification/Composition.thy ===== *)
theory Composition
  imports Prelude
begin

section \<open>Publication, activation and write fencing (\<open>tools/scheduler-data-plane-composition\<close>)\<close>

text \<open>
  The boundary between the brain and the data plane: a publisher that numbers placements and issues
  write fences, and node replicas that stage, acknowledge and activate a placement and admit writes
  under a fence. Terms and generations are \<open>u64\<close>, shard and node ids \<open>u16\<close>. A \<open>BTreeMap\<close> that is iterated or
  compared is the list of its entries in key order; one that is only looked up is a map. Every
  operation returns its result and the state after it, since \<open>stage\<close> may fail after it has already
  observed a higher term.
\<close>

subsection \<open>Placement snapshots\<close>

datatype model_error =
    InvalidTerm
  | InvalidGeneration
  | NotLeader
  | EmptyPlacement
  | EmptyReplicaSet nat
  | DuplicateReplica nat nat
  | GenerationOverflow
  | UnknownPublishedGeneration nat
  | ConflictingGeneration nat
  | NonSequentialCommit nat nat
  | UncommittedGeneration nat nat
  | StaleTerm nat nat
  | StaleGeneration nat nat
  | NoStagedPlacement
  | AckGenerationMismatch nat nat
  | ShardNotAssigned nat
  | PartialActivation "nat list"
  | NoActivePlacement
  | AuthorityMismatch nat nat

record publication =
  pb_term :: nat
  pb_generation :: nat
  pb_assignments :: "(nat \<times> nat set) list"

fun unique_replicas :: "nat \<Rightarrow> nat set \<Rightarrow> nat list \<Rightarrow> model_error + nat set" where
  "unique_replicas shard unique [] = Inr unique"
| "unique_replicas shard unique (node # replicas) =
     (if node \<in> unique then Inl (DuplicateReplica shard node)
      else unique_replicas shard (insert node unique) replicas)"

fun canonical :: "(nat \<times> nat list) list \<Rightarrow> model_error + (nat \<times> nat set) list" where
  "canonical [] = Inr []"
| "canonical ((shard, replicas) # assignments) =
     (if replicas = [] then Inl (EmptyReplicaSet shard)
      else case unique_replicas shard {} replicas of
        Inl e \<Rightarrow> Inl e
      | Inr unique \<Rightarrow> map_sum id ((#) (shard, unique)) (canonical assignments))"

definition publication_new :: "nat \<Rightarrow> nat \<Rightarrow> (nat \<times> nat list) list \<Rightarrow> model_error + publication" where
  "publication_new t generation assignments =
     (if t = 0 then Inl InvalidTerm
      else if generation = 0 then Inl InvalidGeneration
      else if assignments = [] then Inl EmptyPlacement
      else map_sum id (\<lambda>c. \<lparr>pb_term = t, pb_generation = generation, pb_assignments = c\<rparr>) (canonical assignments))"

definition shards_for :: "nat \<Rightarrow> publication \<Rightarrow> nat set" where
  "shards_for node p = fst ` set (filter (\<lambda>(shard, replicas). node \<in> replicas) (pb_assignments p))"

subsection \<open>The publisher\<close>

datatype brain_role = Brain_Leader | Brain_Follower

record fence =
  fn_term :: nat
  fn_generation :: nat

record publisher =
  pu_role :: brain_role
  pu_term :: nat
  pu_last_published :: nat
  pu_committed :: nat
  pu_published :: "nat \<rightharpoonup> publication"

definition publisher_new :: "brain_role \<Rightarrow> nat \<Rightarrow> nat \<Rightarrow> model_error + publisher" where
  "publisher_new role t committed =
     (if t = 0 then Inl InvalidTerm
      else Inr \<lparr>pu_role = role, pu_term = t, pu_last_published = committed, pu_committed = committed,
                pu_published = Map.empty\<rparr>)"

definition publisher_lead :: "nat \<Rightarrow> publisher \<Rightarrow> (model_error + unit) \<times> publisher" where
  "publisher_lead new_term b =
     (if new_term \<le> pu_term b then (Inl (StaleTerm (pu_term b) new_term), b)
      else (Inr (), b\<lparr>pu_term := new_term, pu_role := Brain_Leader, pu_published := Map.empty,
                       pu_last_published := pu_committed b\<rparr>))"

definition publisher_step_down :: "nat \<Rightarrow> publisher \<Rightarrow> (model_error + unit) \<times> publisher" where
  "publisher_step_down observed b =
     (if observed < pu_term b then (Inl (StaleTerm (pu_term b) observed), b)
      else (Inr (), b\<lparr>pu_term := observed, pu_role := Brain_Follower, pu_published := Map.empty,
                       pu_last_published := pu_committed b\<rparr>))"

definition publish_next :: "(nat \<times> nat list) list \<Rightarrow> publisher \<Rightarrow> (model_error + publication) \<times> publisher" where
  "publish_next assignments b =
     (if pu_role b \<noteq> Brain_Leader then (Inl NotLeader, b)
      else case checked_add64 (pu_last_published b) 1 of
        None \<Rightarrow> (Inl GenerationOverflow, b)
      | Some generation \<Rightarrow>
          (case publication_new (pu_term b) generation assignments of
             Inl e \<Rightarrow> (Inl e, b)
           | Inr p \<Rightarrow>
               (Inr p, b\<lparr>pu_last_published := generation, pu_published := (pu_published b)(generation \<mapsto> p)\<rparr>)))"

definition publisher_commit :: "publication \<Rightarrow> publisher \<Rightarrow> (model_error + unit) \<times> publisher" where
  "publisher_commit p b =
     (if pu_role b \<noteq> Brain_Leader then (Inl NotLeader, b)
      else if pb_term p \<noteq> pu_term b then (Inl (StaleTerm (pu_term b) (pb_term p)), b)
      else if pb_generation p = pu_committed b then (Inr (), b)
      else case checked_add64 (pu_committed b) 1 of
        None \<Rightarrow> (Inl GenerationOverflow, b)
      | Some expected \<Rightarrow>
          if pb_generation p \<noteq> expected then (Inl (NonSequentialCommit expected (pb_generation p)), b)
          else (case pu_published b (pb_generation p) of
                  Some q \<Rightarrow>
                    if q = p then (Inr (), b\<lparr>pu_committed := pb_generation p\<rparr>)
                    else (Inl (ConflictingGeneration (pb_generation p)), b)
                | None \<Rightarrow> (Inl (UnknownPublishedGeneration (pb_generation p)), b)))"

definition issue_fence :: "nat \<Rightarrow> publisher \<Rightarrow> model_error + fence" where
  "issue_fence generation b =
     (if pu_role b \<noteq> Brain_Leader then Inl NotLeader
      else if generation \<noteq> pu_committed b \<or> generation = 0
        then Inl (UncommittedGeneration (pu_committed b) generation)
      else Inr \<lparr>fn_term = pu_term b, fn_generation = generation\<rparr>)"

subsection \<open>The node replica\<close>

record active_placement =
  ap_generation :: nat
  ap_shards :: "nat set"

record staged_placement =
  sg_snapshot :: publication
  sg_assigned :: "nat set"
  sg_acknowledged :: "nat set"

record replica =
  nr_node_id :: nat
  nr_observed_term :: nat
  nr_active :: "active_placement option"
  nr_staged :: "staged_placement option"
  nr_fence :: "fence option"

datatype stage_outcome = Staged | DuplicateStaged | DuplicateActive

datatype ack_outcome = Recorded | Replay

definition replica_new :: "nat \<Rightarrow> replica" where
  "replica_new node_id =
     \<lparr>nr_node_id = node_id, nr_observed_term = 0, nr_active = None, nr_staged = None, nr_fence = None\<rparr>"

definition observe_term :: "nat \<Rightarrow> replica \<Rightarrow> (model_error + unit) \<times> replica" where
  "observe_term t n =
     (if t = 0 then (Inl InvalidTerm, n)
      else if t < nr_observed_term n then (Inl (StaleTerm (nr_observed_term n) t), n)
      else if nr_observed_term n < t then
        (Inr (), n\<lparr>nr_observed_term := t, nr_fence := None,
                   nr_staged := (case nr_staged n of
                       Some st \<Rightarrow> if pb_term (sg_snapshot st) < t then None else Some st
                     | None \<Rightarrow> None)\<rparr>)
      else (Inr (), n))"

text \<open>The two looks of \<open>stage\<close> at what the node already has: an early answer, or none.\<close>

definition stage_active :: "publication \<Rightarrow> replica \<Rightarrow> (model_error + stage_outcome) option" where
  "stage_active p n =
     (case nr_active n of
        None \<Rightarrow> None
      | Some a \<Rightarrow>
          if pb_generation p < ap_generation a then Some (Inl (StaleGeneration (ap_generation a) (pb_generation p)))
          else if pb_generation p = ap_generation a then
            Some (if shards_for (nr_node_id n) p = ap_shards a then Inr DuplicateActive
                  else Inl (ConflictingGeneration (pb_generation p)))
          else None)"

definition stage_staged :: "publication \<Rightarrow> replica \<Rightarrow> (model_error + stage_outcome) option" where
  "stage_staged p n =
     (case nr_staged n of
        None \<Rightarrow> None
      | Some st \<Rightarrow>
          if pb_generation p < pb_generation (sg_snapshot st)
            then Some (Inl (StaleGeneration (pb_generation (sg_snapshot st)) (pb_generation p)))
          else if pb_generation p = pb_generation (sg_snapshot st) then
            Some (if p = sg_snapshot st then Inr DuplicateStaged else Inl (ConflictingGeneration (pb_generation p)))
          else None)"

definition stage :: "publication \<Rightarrow> replica \<Rightarrow> (model_error + stage_outcome) \<times> replica" where
  "stage p n =
     (if pb_term p < nr_observed_term n then (Inl (StaleTerm (nr_observed_term n) (pb_term p)), n)
      else case observe_term (pb_term p) n of
        (Inl e, n) \<Rightarrow> (Inl e, n)
      | (Inr _, n) \<Rightarrow>
          (case stage_active p n of
             Some answer \<Rightarrow> (answer, n)
           | None \<Rightarrow>
               (case stage_staged p n of
                  Some answer \<Rightarrow> (answer, n)
                | None \<Rightarrow>
                    (Inr Staged,
                     n\<lparr>nr_fence := None,
                       nr_staged := Some \<lparr>sg_snapshot = p, sg_assigned = shards_for (nr_node_id n) p,
                         sg_acknowledged = {}\<rparr>\<rparr>))))"

definition acknowledge_shard :: "nat \<Rightarrow> nat \<Rightarrow> replica \<Rightarrow> (model_error + ack_outcome) \<times> replica" where
  "acknowledge_shard generation shard n =
     (case nr_staged n of
        None \<Rightarrow> (Inl NoStagedPlacement, n)
      | Some st \<Rightarrow>
          if generation \<noteq> pb_generation (sg_snapshot st)
            then (Inl (AckGenerationMismatch (pb_generation (sg_snapshot st)) generation), n)
          else if shard \<notin> sg_assigned st then (Inl (ShardNotAssigned shard), n)
          else if shard \<in> sg_acknowledged st then (Inr Replay, n)
          else (Inr Recorded, n\<lparr>nr_staged := Some (st\<lparr>sg_acknowledged := insert shard (sg_acknowledged st)\<rparr>)\<rparr>))"

definition activate :: "nat \<Rightarrow> replica \<Rightarrow> (model_error + unit) \<times> replica" where
  "activate generation n =
     (case nr_staged n of
        None \<Rightarrow> (Inl NoStagedPlacement, n)
      | Some st \<Rightarrow>
          if generation \<noteq> pb_generation (sg_snapshot st)
            then (Inl (AckGenerationMismatch (pb_generation (sg_snapshot st)) generation), n)
          else if pb_term (sg_snapshot st) \<noteq> nr_observed_term n
            then (Inl (StaleTerm (nr_observed_term n) (pb_term (sg_snapshot st))), n)
          else if sg_assigned st - sg_acknowledged st \<noteq> {}
            then (Inl (PartialActivation (sorted_list_of_set (sg_assigned st - sg_acknowledged st))), n)
          else (Inr (), n\<lparr>nr_active := Some \<lparr>ap_generation = generation, ap_shards = sg_assigned st\<rparr>,
                          nr_staged := None, nr_fence := None\<rparr>))"

definition install_write_fence :: "fence \<Rightarrow> replica \<Rightarrow> (model_error + unit) \<times> replica" where
  "install_write_fence f n =
     (if fn_term f \<noteq> nr_observed_term n then (Inl (StaleTerm (nr_observed_term n) (fn_term f)), n)
      else case nr_active n of
        None \<Rightarrow> (Inl NoActivePlacement, n)
      | Some a \<Rightarrow>
          if ap_generation a \<noteq> fn_generation f then (Inl (AuthorityMismatch (ap_generation a) (fn_generation f)), n)
          else (Inr (), n\<lparr>nr_fence := Some f\<rparr>))"

definition accepts_write :: "fence \<Rightarrow> nat \<Rightarrow> replica \<Rightarrow> bool" where
  "accepts_write f shard n \<longleftrightarrow>
     nr_fence n = Some f \<and>
     (case nr_active n of None \<Rightarrow> False | Some a \<Rightarrow> ap_generation a = fn_generation f \<and> shard \<in> ap_shards a)"

definition restart_replica :: "replica \<Rightarrow> replica" where
  "restart_replica n =
     n\<lparr>nr_fence := None, nr_staged := map_option (\<lambda>st. st\<lparr>sg_acknowledged := {}\<rparr>) (nr_staged n)\<rparr>"

subsection \<open>Runs of a replica\<close>

datatype replica_op =
    Observe nat
  | Stage publication
  | Ack nat nat
  | Activate nat
  | Install fence
  | Restart

fun replica_step :: "replica_op \<Rightarrow> replica \<Rightarrow> replica" where
  "replica_step (Observe t) n = snd (observe_term t n)"
| "replica_step (Stage p) n = snd (stage p n)"
| "replica_step (Ack g shard) n = snd (acknowledge_shard g shard n)"
| "replica_step (Activate g) n = snd (activate g n)"
| "replica_step (Install f) n = snd (install_write_fence f n)"
| "replica_step Restart n = restart_replica n"

definition fence_ok :: "replica \<Rightarrow> bool" where
  "fence_ok n \<longleftrightarrow>
     (case nr_fence n of
        None \<Rightarrow> True
      | Some f \<Rightarrow> fn_term f = nr_observed_term n \<and>
          (case nr_active n of None \<Rightarrow> False | Some a \<Rightarrow> ap_generation a = fn_generation f))"

definition staged_ok :: "replica \<Rightarrow> bool" where
  "staged_ok n \<longleftrightarrow>
     (case nr_staged n of
        None \<Rightarrow> True
      | Some st \<Rightarrow>
          pb_term (sg_snapshot st) = nr_observed_term n \<and>
          sg_assigned st = shards_for (nr_node_id n) (sg_snapshot st) \<and> sg_acknowledged st \<subseteq> sg_assigned st \<and>
          (case nr_active n of None \<Rightarrow> True | Some a \<Rightarrow> ap_generation a < pb_generation (sg_snapshot st)))"

definition replica_inv :: "replica \<Rightarrow> bool" where
  "replica_inv n \<longleftrightarrow> fence_ok n \<and> staged_ok n"

lemma replica_inv_new: "replica_inv (replica_new i)"
  by (simp add: replica_inv_def fence_ok_def staged_ok_def replica_new_def)

text \<open>How far a replica is: the term it has observed and the generation it has activated.\<close>

definition advances :: "replica \<Rightarrow> replica \<Rightarrow> bool" where
  "advances n n' \<longleftrightarrow>
     nr_node_id n' = nr_node_id n \<and> nr_observed_term n \<le> nr_observed_term n' \<and>
     (\<forall>a. nr_active n = Some a \<longrightarrow>
        (\<exists>a'. nr_active n' = Some a' \<and> (a' = a \<or> ap_generation a < ap_generation a')))"

lemma advances_refl: "advances n n"
  by (simp add: advances_def)

lemma advances_trans: "advances n m \<Longrightarrow> advances m k \<Longrightarrow> advances n k"
  by (fastforce simp: advances_def)

lemma observe_term_sel [simp]:
  "nr_node_id (snd (observe_term t n)) = nr_node_id n"
  "nr_active (snd (observe_term t n)) = nr_active n"
  "nr_observed_term (snd (observe_term t n)) = max (nr_observed_term n) t"
  by (auto simp: observe_term_def)

lemma observe_term_inv: "replica_inv n \<Longrightarrow> replica_inv (snd (observe_term t n))"
  by (auto simp: observe_term_def replica_inv_def fence_ok_def staged_ok_def split: option.splits)

text \<open>What \<open>stage\<close> leaves: the observed term, and possibly the new placement staged on top of it.\<close>

lemma stage_cases:
  obtains (early) "snd (stage p n) = n"
  | (observed) "snd (stage p n) = snd (observe_term (pb_term p) n)"
  | (fresh) m where "m = snd (observe_term (pb_term p) n)" "nr_observed_term n \<le> pb_term p"
      "stage_active p m = None" "stage_staged p m = None"
      "snd (stage p n) = m\<lparr>nr_fence := None, nr_staged := Some \<lparr>sg_snapshot = p,
         sg_assigned = shards_for (nr_node_id n) p, sg_acknowledged = {}\<rparr>\<rparr>"
proof (cases "pb_term p < nr_observed_term n")
  case True
  then show thesis using early by (simp add: stage_def)
next
  case False
  obtain r m where o: "observe_term (pb_term p) n = (r, m)" by fastforce
  then have m: "m = snd (observe_term (pb_term p) n)" by simp
  show thesis
  proof (cases r)
    case (Inl e)
    with False o observed show thesis by (simp add: stage_def)
  next
    case (Inr u)
    show thesis
    proof (cases "stage_active p m"; cases "stage_staged p m")
      assume none: "stage_active p m = None" "stage_staged p m = None"
      have "nr_node_id m = nr_node_id n" by (simp add: m)
      with False o Inr none have "snd (stage p n) = m\<lparr>nr_fence := None, nr_staged := Some \<lparr>sg_snapshot = p,
          sg_assigned = shards_for (nr_node_id n) p, sg_acknowledged = {}\<rparr>\<rparr>"
        by (simp add: stage_def)
      then show thesis using fresh [OF m _ none] False by simp
    qed (use False o Inr observed in \<open>auto simp: stage_def\<close>)
  qed
qed

lemma stage_active_None:
  "stage_active p n = None \<Longrightarrow> nr_active n = Some a \<Longrightarrow> ap_generation a < pb_generation p"
  by (auto simp: stage_active_def split: if_splits)

lemma stage_inv:
  assumes "replica_inv n"
  shows "replica_inv (snd (stage p n)) \<and> advances n (snd (stage p n))"
proof (cases rule: stage_cases [of p n])
  case (fresh m)
  then have "nr_observed_term m = pb_term p" "nr_node_id m = nr_node_id n" "nr_active m = nr_active n" by simp_all
  moreover have "ap_generation a < pb_generation p" if "nr_active n = Some a" for a
    using fresh(3) that \<open>nr_active m = nr_active n\<close> stage_active_None by metis
  ultimately show ?thesis
    using fresh by (auto simp: replica_inv_def fence_ok_def staged_ok_def advances_def split: option.splits)
qed (use assms observe_term_inv in \<open>auto simp: advances_def\<close>)

lemma replica_step_inv:
  assumes "replica_inv n"
  shows "replica_inv (replica_step op n) \<and> advances n (replica_step op n)"
proof (cases op)
  case (Observe t)
  with assms observe_term_inv show ?thesis by (auto simp: advances_def)
next
  case (Stage p)
  with stage_inv [OF assms] show ?thesis by simp
next
  case (Ack g shard)
  with assms show ?thesis
    by (auto simp: acknowledge_shard_def replica_inv_def fence_ok_def staged_ok_def advances_def split: option.splits)
next
  case (Activate g)
  with assms show ?thesis
    by (auto simp: activate_def replica_inv_def fence_ok_def staged_ok_def advances_def split: option.splits)
next
  case (Install f)
  with assms show ?thesis
    by (auto simp: install_write_fence_def replica_inv_def fence_ok_def staged_ok_def advances_def split: option.splits)
next
  case Restart
  with assms show ?thesis
    by (auto simp: restart_replica_def replica_inv_def fence_ok_def staged_ok_def advances_def split: option.splits)
qed

lemma replica_run_inv:
  assumes "replica_inv n"
  shows "replica_inv (fold replica_step ops n) \<and> advances n (fold replica_step ops n)"
  using assms
proof (induction ops arbitrary: n)
  case (Cons op ops)
  from replica_step_inv [OF Cons.prems, of op] Cons.IH [of "replica_step op n"] show ?case
    using advances_trans by auto
qed (simp add: advances_refl)

lemma accepts_write_inv:
  assumes "replica_inv n" and "accepts_write f shard n"
  shows "fn_term f = nr_observed_term n \<and> (\<exists>a. nr_active n = Some a \<and> ap_generation a = fn_generation f \<and> shard \<in> ap_shards a)"
  using assms by (auto simp: accepts_write_def replica_inv_def fence_ok_def split: option.splits)

subsection \<open>The publisher and the nodes together\<close>

text \<open>
  Nodes are handed committed placements only, in any order and any number of times; a fence that was once
  issued may reach any node at any time. The history of committed placements and the set of issued
  fences are kept beside the state.
\<close>

record composed =
  cs_brain :: publisher
  cs_committed :: "nat \<rightharpoonup> publication"
  cs_issued :: "fence set"
  cs_nodes :: "nat \<Rightarrow> replica"

fun local_op :: "replica_op \<Rightarrow> bool" where
  "local_op (Stage _) = False"
| "local_op (Install _) = False"
| "local_op _ = True"

inductive composed_step :: "composed \<Rightarrow> composed \<Rightarrow> bool" where
  lead: "composed_step c (c\<lparr>cs_brain := snd (publisher_lead t (cs_brain c))\<rparr>)"
| step_down: "composed_step c (c\<lparr>cs_brain := snd (publisher_step_down t (cs_brain c))\<rparr>)"
| publish: "composed_step c (c\<lparr>cs_brain := snd (publish_next assignments (cs_brain c))\<rparr>)"
| commit: "publisher_commit p (cs_brain c) = (Inr (), b) \<Longrightarrow> pu_committed b \<noteq> pu_committed (cs_brain c) \<Longrightarrow>
    composed_step c (c\<lparr>cs_brain := b, cs_committed := (cs_committed c)(pb_generation p \<mapsto> p)\<rparr>)"
| issue: "issue_fence g (cs_brain c) = Inr f \<Longrightarrow> composed_step c (c\<lparr>cs_issued := insert f (cs_issued c)\<rparr>)"
| deliver: "cs_committed c g = Some p \<Longrightarrow>
    composed_step c (c\<lparr>cs_nodes := (cs_nodes c)(i := replica_step (Stage p) (cs_nodes c i))\<rparr>)"
| authorize: "f \<in> cs_issued c \<Longrightarrow>
    composed_step c (c\<lparr>cs_nodes := (cs_nodes c)(i := replica_step (Install f) (cs_nodes c i))\<rparr>)"
| local_step: "local_op op \<Longrightarrow>
    composed_step c (c\<lparr>cs_nodes := (cs_nodes c)(i := replica_step op (cs_nodes c i))\<rparr>)"

definition composed_init :: "publisher \<Rightarrow> composed" where
  "composed_init b = \<lparr>cs_brain = b, cs_committed = Map.empty, cs_issued = {}, cs_nodes = replica_new\<rparr>"

text \<open>A node follows a history: what it has staged and activated are placements of that history.\<close>

definition follows :: "(nat \<rightharpoonup> publication) \<Rightarrow> fence set \<Rightarrow> nat \<Rightarrow> replica \<Rightarrow> bool" where
  "follows h issued i n \<longleftrightarrow>
     replica_inv n \<and> nr_node_id n = i \<and> set_option (nr_fence n) \<subseteq> issued \<and>
     (\<forall>st. nr_staged n = Some st \<longrightarrow> h (pb_generation (sg_snapshot st)) = Some (sg_snapshot st)) \<and>
     (\<forall>a. nr_active n = Some a \<longrightarrow> (\<exists>p. h (ap_generation a) = Some p \<and> ap_shards a = shards_for i p))"

definition composed_inv :: "composed \<Rightarrow> bool" where
  "composed_inv c \<longleftrightarrow>
     (\<forall>g p. cs_committed c g = Some p \<longrightarrow> pb_generation p = g \<and> g \<le> pu_committed (cs_brain c)) \<and>
     (\<forall>i. follows (cs_committed c) (cs_issued c) i (cs_nodes c i))"

lemma follows_mono:
  assumes "follows h issued i n" and "h \<subseteq>\<^sub>m h'" and "issued \<subseteq> issued'"
  shows "follows h' issued' i n"
proof -
  have "h' g = Some p" if "h g = Some p" for g p using assms(2) that by (auto simp: map_le_def dom_def)
  with assms(1,3) show ?thesis unfolding follows_def by blast
qed

lemma observe_term_staged:
  "nr_staged (snd (observe_term t n)) = Some st \<Longrightarrow> nr_staged n = Some st"
  "set_option (nr_fence (snd (observe_term t n))) \<subseteq> set_option (nr_fence n)"
  by (auto simp: observe_term_def split: if_splits option.splits)

lemma follows_stage:
  assumes "follows h issued i n" and "h (pb_generation p) = Some p"
  shows "follows h issued i (snd (stage p n))"
proof (cases rule: stage_cases [of p n])
  case early
  with assms show ?thesis by simp
next
  case observed
  with assms observe_term_staged [of "pb_term p" n] stage_inv [of n p] show ?thesis by (auto simp: follows_def)
next
  case (fresh m)
  then have "nr_active (snd (stage p n)) = nr_active n" "nr_node_id (snd (stage p n)) = nr_node_id n"
    "nr_fence (snd (stage p n)) = None" "map_option sg_snapshot (nr_staged (snd (stage p n))) = Some p"
    by simp_all
  with assms stage_inv [of n p] show ?thesis by (auto simp: follows_def)
qed

lemma follows_local:
  assumes "follows h issued i n" and "local_op op"
  shows "follows h issued i (replica_step op n)"
proof (cases op)
  case (Observe t)
  with assms observe_term_staged [of t n] observe_term_inv [of n t] show ?thesis by (auto simp: follows_def)
next
  case (Ack g shard)
  with assms replica_step_inv [of n op] show ?thesis
    by (auto simp: follows_def acknowledge_shard_def split: option.splits)
next
  case (Activate g)
  have "sg_assigned st = shards_for i (sg_snapshot st)" if "nr_staged n = Some st" for st
    using assms(1) that by (auto simp: follows_def replica_inv_def staged_ok_def)
  with Activate assms replica_step_inv [of n op] show ?thesis
    by (auto simp: follows_def activate_def split: option.splits)
next
  case Restart
  with assms replica_step_inv [of n op] show ?thesis
    by (auto simp: follows_def restart_replica_def)
qed (use assms in simp_all)

lemma follows_install:
  assumes "follows h issued i n" and "f \<in> issued"
  shows "follows h issued i (snd (install_write_fence f n))"
  using assms replica_step_inv [of n "Install f"]
  by (auto simp: follows_def install_write_fence_def split: option.splits)

lemma publisher_committed [simp]:
  "pu_committed (snd (publisher_lead t b)) = pu_committed b"
  "pu_committed (snd (publisher_step_down t b)) = pu_committed b"
  "pu_committed (snd (publish_next asg b)) = pu_committed b"
  by (auto simp: publisher_lead_def publisher_step_down_def publish_next_def split: option.splits sum.splits)

lemma publisher_commit_next:
  assumes "publisher_commit p b = (Inr (), b')" and "pu_committed b' \<noteq> pu_committed b"
  shows "pb_generation p = pu_committed b + 1 \<and> pu_committed b' = pb_generation p \<and> pu_published b (pb_generation p) = Some p"
  using assms by (auto simp: publisher_commit_def checked_add64_def split: if_splits option.splits)

lemma composed_inv_step:
  assumes "composed_step c c'" and "composed_inv c"
  shows "composed_inv c'"
  using assms(1)
proof cases
  case (commit p b)
  note nxt = publisher_commit_next [OF commit(2,3)]
  have "cs_committed c (pb_generation p) = None"
    using assms(2) nxt unfolding composed_inv_def by (metis Suc_eq_plus1 not_less_eq_eq option.exhaust order_refl)
  then have le: "cs_committed c \<subseteq>\<^sub>m (cs_committed c)(pb_generation p \<mapsto> p)"
    by (auto simp: map_le_def)
  with assms(2) commit nxt follows_mono [OF _ le order_refl] show ?thesis
    by (auto simp: composed_inv_def split: if_splits) (metis le_SucI)
next
  case (issue g f)
  with assms(2) follows_mono [OF _ map_le_refl subset_insertI] show ?thesis by (simp add: composed_inv_def)
next
  case (deliver g p i)
  with assms(2) follows_stage show ?thesis by (fastforce simp: composed_inv_def)
next
  case (authorize f i)
  with assms(2) follows_install show ?thesis by (simp add: composed_inv_def)
next
  case (local_step op i)
  with assms(2) follows_local show ?thesis by (simp add: composed_inv_def)
qed (use assms(2) in \<open>simp_all add: composed_inv_def\<close>)

lemma composed_inv_run:
  assumes "composed_step\<^sup>*\<^sup>* (composed_init b) c"
  shows "composed_inv c"
  using assms
proof (induction rule: rtranclp_induct)
  case base
  have "follows Map.empty {} i (replica_new i)" for i
    using replica_inv_new by (simp add: follows_def) (simp add: replica_new_def)
  then show ?case by (simp add: composed_inv_def composed_init_def)
qed (rule composed_inv_step)

subsection \<open>Samples\<close>

definition sample_publication :: "nat \<Rightarrow> nat \<Rightarrow> (nat \<times> nat set) list \<Rightarrow> publication" where
  "sample_publication t g as = \<lparr>pb_term = t, pb_generation = g, pb_assignments = as\<rparr>"

definition sample_fence :: fence where
  "sample_fence = \<lparr>fn_term = 1, fn_generation = 1\<rparr>"

definition sample_brain_at :: "publisher \<Rightarrow> publisher" where
  "sample_brain_at b = snd (publisher_commit (sample_publication 1 1 [(5, {1, 2})]) (snd (publish_next [(5, [1, 2])] b)))"

definition fresh_publisher :: publisher where
  "fresh_publisher =
     \<lparr>pu_role = Brain_Leader, pu_term = 1, pu_last_published = 0, pu_committed = 0, pu_published = Map.empty\<rparr>"

subsection \<open>Properties\<close>

text \<open>
  C36. Write admission end to end: in any run of one logical brain and any number of nodes, with terms,
  publications, commits, restarts, repeated and delayed deliveries and fences in any order, a node that
  is handed committed placements only accepts a write exactly for shards that the committed placement
  of the fence's generation assigns to it, under a fence the brain issued, in the term it last observed.
\<close>

theorem admitted_writes_are_placed:
  assumes "composed_step\<^sup>*\<^sup>* (composed_init b) c" and "accepts_write f shard (cs_nodes c i)"
  shows "f \<in> cs_issued c \<and> fn_term f = nr_observed_term (cs_nodes c i) \<and>
    (\<exists>p replicas. cs_committed c (fn_generation f) = Some p \<and> (shard, replicas) \<in> set (pb_assignments p) \<and> i \<in> replicas)"
proof -
  have fol: "follows (cs_committed c) (cs_issued c) i (cs_nodes c i)"
    using composed_inv_run [OF assms(1)] by (simp add: composed_inv_def)
  then have inv: "replica_inv (cs_nodes c i)" by (simp add: follows_def)
  obtain a where a: "nr_active (cs_nodes c i) = Some a" "ap_generation a = fn_generation f" "shard \<in> ap_shards a"
    and t: "fn_term f = nr_observed_term (cs_nodes c i)"
    using accepts_write_inv [OF inv assms(2)] by blast
  then obtain p where p: "cs_committed c (fn_generation f) = Some p" "shard \<in> shards_for i p"
    using fol by (auto simp: follows_def)
  moreover have "nr_fence (cs_nodes c i) = Some f" using assms(2) by (simp add: accepts_write_def)
  then have "f \<in> cs_issued c" using fol by (auto simp: follows_def)
  ultimately show ?thesis using t by (auto simp: shards_for_def)
qed

theorem admitted_writes_are_placed_witness:
  "\<exists>c. composed_step\<^sup>*\<^sup>* (composed_init fresh_publisher) c \<and> accepts_write sample_fence 5 (cs_nodes c 1) \<and>
     sample_fence \<in> cs_issued c"
proof -
  let ?p = "sample_publication 1 1 [(5, {1, 2})]"
  let ?b = "snd (publish_next [(5, [1, 2])] fresh_publisher)"
  define c1 where "c1 = (composed_init fresh_publisher)\<lparr>cs_brain := ?b\<rparr>"
  define c2 where "c2 = c1\<lparr>cs_brain := sample_brain_at fresh_publisher, cs_committed := (cs_committed c1)(1 \<mapsto> ?p)\<rparr>"
  define c3 where "c3 = c2\<lparr>cs_issued := insert sample_fence (cs_issued c2)\<rparr>"
  define run where "run c op = c\<lparr>cs_nodes := (cs_nodes c)(1 := replica_step op (cs_nodes c 1))\<rparr>" for c :: composed and op
  define c4 where "c4 = run (run (run (run c3 (Stage ?p)) (Ack 1 5)) (Activate 1)) (Install sample_fence)"
  note defs = c1_def c2_def c3_def c4_def run_def
  have s1: "composed_step (composed_init fresh_publisher) c1"
    unfolding c1_def using composed_step.publish [of "composed_init fresh_publisher" "[(5, [1, 2])]"] by (simp add: composed_init_def)
  have cm: "publisher_commit ?p ?b = (Inr (), sample_brain_at fresh_publisher)"
    by (simp add: sample_brain_at_def publisher_commit_def publish_next_def fresh_publisher_def publication_new_def
        sample_publication_def checked_add64_def u64_max_def insert_commute)
  have ne: "pu_committed (sample_brain_at fresh_publisher) \<noteq> pu_committed ?b" by code_simp
  have s2: "composed_step c1 c2"
    unfolding c2_def using composed_step.commit [of ?p c1] cm ne by (simp add: c1_def sample_publication_def)
  have "issue_fence 1 (sample_brain_at fresh_publisher) = Inr sample_fence" by code_simp
  then have s3: "composed_step c2 c3"
    unfolding c3_def by (intro composed_step.issue [of 1]) (simp add: c2_def)
  have s4: "composed_step c3 (run c3 (Stage ?p))"
    unfolding run_def by (rule composed_step.deliver [of _ 1]) (simp add: c3_def c2_def)
  have loc: "composed_step d (run d op)" if "local_op op" for d op
    unfolding run_def using that by (rule composed_step.local_step)
  have fen: "composed_step d (run d (Install sample_fence))" if "sample_fence \<in> cs_issued d" for d
    unfolding run_def using that by (rule composed_step.authorize)
  have s5: "composed_step (run (run (run c3 (Stage ?p)) (Ack 1 5)) (Activate 1)) c4"
    unfolding c4_def by (rule fen) (simp add: c3_def run_def)
  note path = s1 s2 s3 s4 loc [of "Ack 1 5" "run c3 (Stage ?p)"] loc [of "Activate 1" "run (run c3 (Stage ?p)) (Ack 1 5)"] s5
  have reach: "composed_step\<^sup>*\<^sup>* (composed_init fresh_publisher) c4"
    using path by (auto intro: converse_rtranclp_into_rtranclp)
  have "accepts_write sample_fence 5 (replica_step (Install sample_fence) (replica_step (Activate 1)
      (replica_step (Ack 1 5) (replica_step (Stage ?p) (replica_new 1)))))" by code_simp
  then have acc: "accepts_write sample_fence 5 (cs_nodes c4 1)" by (simp add: defs composed_init_def)
  with admitted_writes_are_placed [OF reach acc] reach show ?thesis by blast
qed

text \<open>
  C37. A node never rolls back: through any sequence of operations, delayed and conflicting ones and
  restarts included, the observed term and the active generation never decrease, an active generation
  never changes its shards, and once a term has been observed no fence of an earlier term is ever
  accepted again.
\<close>

theorem replica_never_rolls_back:
  fixes i :: nat and ops ops' :: "replica_op list"
  defines "n \<equiv> fold replica_step ops (replica_new i)"
  defines "n' \<equiv> fold replica_step ops' n"
  shows "nr_observed_term n \<le> nr_observed_term n' \<and>
    (\<forall>a. nr_active n = Some a \<longrightarrow>
       (\<exists>a'. nr_active n' = Some a' \<and> (a' = a \<or> ap_generation a < ap_generation a'))) \<and>
    (fn_term f < nr_observed_term n \<longrightarrow> \<not> accepts_write f shard n')"
proof -
  have inv: "replica_inv n" using replica_run_inv [OF replica_inv_new] by (simp add: n_def)
  from replica_run_inv [OF this, of ops'] have "replica_inv n'" "advances n n'" by (simp_all add: n'_def)
  with accepts_write_inv [of n' f shard] show ?thesis by (auto simp: advances_def)
qed

theorem replica_never_rolls_back_witness:
  "\<not> accepts_write sample_fence 5 (fold replica_step [Restart, Install sample_fence]
     (fold replica_step [Stage (sample_publication 1 1 [(5, {1})]), Ack 1 5, Activate 1, Observe 2] (replica_new 1)))"
proof -
  have "fn_term sample_fence < nr_observed_term
      (fold replica_step [Stage (sample_publication 1 1 [(5, {1})]), Ack 1 5, Activate 1, Observe 2] (replica_new 1))"
    by code_simp
  with replica_never_rolls_back [where ops = "[Stage (sample_publication 1 1 [(5, {1})]), Ack 1 5, Activate 1, Observe 2]"
      and i = 1 and ops' = "[Restart, Install sample_fence]" and f = sample_fence and shard = 5]
  show ?thesis by blast
qed

text \<open>
  Two weaknesses of the protocol as it is coded. A node that stages a placement before it is committed
  can end up serving a shard that the committed placement of the same generation and its fence do not
  give it. And while a newer generation is staged, a fence for the old active generation can be
  installed again, so writes are admitted during the rollout.
\<close>

lemma uncommitted_stage_escapes:
  "let p1 = sample_publication 1 1 [(5, {1})];
       n1 = fold replica_step [Stage p1, Ack 1 5, Activate 1] (replica_new 1);
       b2 = snd (publisher_lead 2 fresh_publisher);
       b3 = snd (publish_next [(5, [2])] b2);
       p2 = sample_publication 2 1 [(5, {2})];
       b4 = snd (publisher_commit p2 b3)
   in publisher_commit p2 b3 = (Inr (), b4) \<and> issue_fence 1 b4 = Inr \<lparr>fn_term = 2, fn_generation = 1\<rparr> \<and>
      5 \<notin> shards_for 1 p2 \<and>
      accepts_write \<lparr>fn_term = 2, fn_generation = 1\<rparr> 5
        (fold replica_step [Stage p2, Install \<lparr>fn_term = 2, fn_generation = 1\<rparr>] n1)"
proof -
  let ?b = "snd (publish_next [(5, [2])] (snd (publisher_lead 2 fresh_publisher)))"
  let ?p = "sample_publication 2 1 [(5, {2})]"
  have "fst (publisher_commit ?p ?b) = Inr ()"
    by (simp add: publisher_commit_def publish_next_def publisher_lead_def fresh_publisher_def publication_new_def
        sample_publication_def checked_add64_def u64_max_def)
  moreover have "issue_fence 1 (snd (publisher_commit ?p ?b)) = Inr \<lparr>fn_term = 2, fn_generation = 1\<rparr>"
    "5 \<notin> shards_for 1 ?p"
    by code_simp+
  moreover have "accepts_write \<lparr>fn_term = 2, fn_generation = 1\<rparr> 5
        (fold replica_step [Stage ?p, Install \<lparr>fn_term = 2, fn_generation = 1\<rparr>]
          (fold replica_step [Stage (sample_publication 1 1 [(5, {1})]), Ack 1 5, Activate 1] (replica_new 1)))"
    by code_simp
  ultimately show ?thesis by (simp add: Let_def prod_eq_iff)
qed

lemma rollout_admits_old_fence:
  assumes "nr_active n = Some a" and "shard \<in> ap_shards a" and "nr_staged n = Some st"
  shows "accepts_write \<lparr>fn_term = nr_observed_term n, fn_generation = ap_generation a\<rparr> shard
    (snd (install_write_fence \<lparr>fn_term = nr_observed_term n, fn_generation = ap_generation a\<rparr> n)) \<and>
    nr_staged (snd (install_write_fence \<lparr>fn_term = nr_observed_term n, fn_generation = ap_generation a\<rparr> n)) = Some st"
  using assms by (simp add: install_write_fence_def accepts_write_def)

end
