(* ===== verification/Replay.thy ===== *)
theory Replay
  imports Scheduler
begin

section \<open>Replay of model traces against the scheduler (\<open>formal/scheduler_replay_common.rs\<close>)\<close>

text \<open>
  A harness drives the production membership, placement and scheduler through the actions of a trace of
  the Quint model \<open>formal/brain_scheduler.qnt\<close> and compares what can be observed after each of them. The
  harness has a control plane of its own, which only a leader may use and which records the nodes that
  were forgotten. Reading a file and parsing JSON are parameters. A \<open>BTreeSet\<close> that is only extended
  and compared is a set; \<open>None\<close> stands for a panic.
\<close>

definition SHARD :: shard_id where
  "SHARD = 0"

definition REQUIRED_ACTIONS :: "string list" where
  "REQUIRED_ACTIONS =
     [''add_d'', ''attempt_forget_a_rejected'', ''become_follower'', ''become_leader'', ''begin_drain_a'',
      ''evacuate_a'', ''heartbeat_a'', ''lose_a_from_soft_membership'', ''mark_a_dead'', ''prepare_cold_start'',
      ''reconcile_cold_adopt'', ''reconcile_degraded_hold'', ''reconcile_follower_hold'',
      ''reconcile_forget_drained_a_after_placement'', ''reconcile_idempotent'', ''reconcile_incomplete_hold'',
      ''reconcile_replace_and_forget_drained_a'', ''reconcile_replace_dead_a'', ''restore_snapshot_bcd'']"

subsection \<open>Names of the finite domain\<close>

definition node_id_of :: "nat \<Rightarrow> node_id option" where
  "node_id_of node =
     (if node = 1 then Some ''a'' else if node = 2 then Some ''b'' else if node = 3 then Some ''c''
      else if node = 4 then Some ''d'' else None)"

definition node_number :: "node_id \<Rightarrow> nat option" where
  "node_number node =
     (if node = ''a'' then Some 1 else if node = ''b'' then Some 2 else if node = ''c'' then Some 3
      else if node = ''d'' then Some 4 else None)"

text \<open>Every call of \<open>report\<close> satisfies its debug assertion that a leader hosts the shard.\<close>

definition report :: "nat \<Rightarrow> bool \<Rightarrow> bool \<Rightarrow> heartbeat_report option" where
  "report node hosts leads =
     map_option (\<lambda>i.
       \<lparr>hb_address = ''10.0.0.'' @ show_nat node @ '':8090'', hb_cloud_provider = ''cloud-'' @ i,
        hb_region = ''region-'' @ i, hb_cluster_id = ''cluster-'' @ i, hb_failure_domain = ''domain-'' @ i,
        hb_hosted_shards = (if hosts then [SHARD] else []), hb_leading_shards = (if leads then [SHARD] else []),
        hb_seq = 0\<rparr>) (node_id_of node)"

definition assignment :: "nat list \<Rightarrow> nat \<Rightarrow> shard_assignment option" where
  "assignment nodes leader =
     Option.bind (those (map node_id_of nodes)) (\<lambda>replicas.
       map_option (\<lambda>l.
         \<lparr>sa_shard_id = SHARD, sa_replicas = replicas, sa_preferred_leader = l,
          sa_preferred_region = None, sa_preferred_cloud_provider = None\<rparr>)
         (if leader \<noteq> 0 then map_option Some (node_id_of leader) else Some None))"

subsection \<open>The control plane of the harness\<close>

record harness_cp =
  hc_leader :: bool
  hc_forgotten :: "nat set"

text \<open>The name of a forgotten node is the one its number stands for (\<open>node_id_number\<close> below).\<close>

definition harness_propose :: "command \<Rightarrow> harness_cp \<Rightarrow> state_machine \<Rightarrow> bool \<times> harness_cp \<times> state_machine" where
  "harness_propose command c sm =
     (if \<not> hc_leader c then (False, c, sm)
      else
        let forget_candidate = (case command of ForgetNode node \<Rightarrow> map_option (\<lambda>k. (k, node)) (node_number node) | _ \<Rightarrow> None);
            sm = apply_command command sm;
            c = (case forget_candidate of
                   Some (node, i) \<Rightarrow>
                     if list_all (\<lambda>known. ni_node_id known \<noteq> i) (membership_snapshot (sm_membership sm))
                     then c\<lparr>hc_forgotten := insert node (hc_forgotten c)\<rparr> else c
                 | None \<Rightarrow> c)
        in (True, c, sm))"

definition harness_control_plane :: "harness_cp control_plane_ops" where
  "harness_control_plane =
     \<lparr>cp_is_available = (\<lambda>_. True), cp_is_leader = hc_leader,
      cp_leader_addr = (\<lambda>c. if hc_leader c then None else Some ''http://brain-leader:9095''),
      cp_propose = harness_propose\<rparr>"

subsection \<open>The harness\<close>

record harness =
  hs_sm :: state_machine
  hs_cp :: harness_cp

text \<open>A heartbeat whose report may panic.\<close>

definition beat :: "node_id \<Rightarrow> nat \<Rightarrow> heartbeat_report option \<Rightarrow> membership \<Rightarrow> membership option" where
  "beat node now r m = map_option (\<lambda>r. snd (heartbeat node now r m)) r"

definition harness_initial :: "harness option" where
  "harness_initial =
     Option.bind (beat ''a'' 0 (report 1 True True) (new_membership \<lparr>suspect_after_ms = 10, dead_after_ms = 20\<rparr>)) (\<lambda>m.
     Option.bind (beat ''b'' 0 (report 2 True False) m) (\<lambda>m.
     Option.bind (beat ''c'' 0 (report 3 True False) m) (\<lambda>m.
     map_option (\<lambda>a.
       \<lparr>hs_sm = \<lparr>sm_membership = m, sm_placement = assign a (new_placement 1),
                 sm_plan = \<lparr>sp_target_nodes = 3, sp_replication_factor = 3\<rparr>\<rparr>,
        hs_cp = \<lparr>hc_leader = True, hc_forgotten = {}\<rparr>\<rparr>) (assignment [1, 2, 3] 1))))"

record projection =
  pj_leader :: bool
  pj_known :: "nat set"
  pj_healthy :: "nat set"
  pj_draining :: "nat set"
  pj_hosted :: "nat set"
  pj_observed_leader :: nat
  pj_placement :: "nat set"
  pj_preferred_leader :: nat
  pj_generation :: nat
  pj_forgotten :: "nat set"

text \<open>The numbers of the nodes of a list that satisfy a condition.\<close>

definition numbers :: "(node_info \<Rightarrow> bool) \<Rightarrow> node_info list \<Rightarrow> nat set" where
  "numbers P nodes = set (List.map_filter (\<lambda>n. node_number (ni_node_id n)) (filter P nodes))"

definition harness_projection :: "harness \<Rightarrow> projection" where
  "harness_projection h =
     (let nodes = membership_snapshot (sm_membership (hs_sm h));
          a = get (sm_placement (hs_sm h)) SHARD in
      \<lparr>pj_leader = hc_leader (hs_cp h),
       pj_known = numbers (\<lambda>_. True) nodes,
       pj_healthy = numbers (\<lambda>n. ni_health n = Healthy) nodes,
       pj_draining = numbers (\<lambda>n. ni_health n = Draining) nodes,
       pj_hosted = numbers (\<lambda>n. SHARD \<in> set (ni_hosted_shards n)) nodes,
       pj_observed_leader =
         (case Option.bind (List.find (\<lambda>n. ni_health n = Healthy \<and> SHARD \<in> set (ni_leading_shards n)) nodes)
                 (\<lambda>n. node_number (ni_node_id n)) of Some k \<Rightarrow> k | None \<Rightarrow> 0),
       pj_placement =
         (case a of Some a \<Rightarrow> set (List.map_filter node_number (sa_replicas a)) | None \<Rightarrow> {}),
       pj_preferred_leader =
         (case Option.bind (Option.bind a sa_preferred_leader) node_number of Some k \<Rightarrow> k | None \<Rightarrow> 0),
       pj_generation = pl_generation (sm_placement (hs_sm h)),
       pj_forgotten = hc_forgotten (hs_cp h)\<rparr>)"

datatype replay_message =
    Text string
  | Newly_Dead "node_id list"
  | Unsupported string
  | Library_Error
  | Missing_Actions "string list"
  | Not_A_Set string
  | Not_An_Integer string

definition ensure :: "bool \<Rightarrow> replay_message \<Rightarrow> replay_message + unit" where
  "ensure condition message = (if condition then Inr () else Inl message)"

definition on_membership :: "(membership \<Rightarrow> membership) \<Rightarrow> harness \<Rightarrow> harness" where
  "on_membership f h = h\<lparr>hs_sm := (hs_sm h)\<lparr>sm_membership := f (sm_membership (hs_sm h))\<rparr>\<rparr>"

definition on_placement :: "(placement \<Rightarrow> placement) \<Rightarrow> harness \<Rightarrow> harness" where
  "on_placement f h = h\<lparr>hs_sm := (hs_sm h)\<lparr>sm_placement := f (sm_placement (hs_sm h))\<rparr>\<rparr>"

definition refresh_at :: nat where
  "refresh_at = 100"

definition repeated_report :: "node_info \<Rightarrow> heartbeat_report" where
  "repeated_report n =
     \<lparr>hb_address = ni_address n, hb_cloud_provider = ni_cloud_provider n, hb_region = ni_region n,
      hb_cluster_id = ni_cluster_id n, hb_failure_domain = ni_failure_domain n,
      hb_hosted_shards = ni_hosted_shards n, hb_leading_shards = ni_leading_shards n, hb_seq = 0\<rparr>"

definition mark_a_dead :: "harness \<Rightarrow> (replay_message + unit) \<times> harness" where
  "mark_a_dead h =
     (let m = sm_membership (hs_sm h);
          m = fold (\<lambda>n m. if ni_node_id n = ''a'' \<or> ni_health n \<noteq> Healthy then m
                          else snd (heartbeat (ni_node_id n) refresh_at (repeated_report n) m))
                (membership_snapshot m) m;
          (newly_dead, m) = sweep null_oracle refresh_at m
      in (ensure (newly_dead = [''a'']) (Newly_Dead newly_dead), on_membership (\<lambda>_. m) h))"

definition prepare_cold_start :: "harness \<Rightarrow> harness option" where
  "prepare_cold_start h =
     (let h = on_placement (restore_from []) h in
      Option.bind (beat ''a'' 1 (report 1 True False) (sm_membership (hs_sm h))) (\<lambda>m.
      Option.bind (beat ''b'' 1 (report 2 True True) m) (\<lambda>m.
      map_option (\<lambda>m. on_membership (\<lambda>_. m) h) (beat ''c'' 1 (report 3 True False) m))))"

definition harness_reconcile :: "harness \<Rightarrow> harness" where
  "harness_reconcile h =
     (let (ps, c, sm) = reconcile harness_control_plane (hs_cp h) (hs_sm h) in \<lparr>hs_sm = sm, hs_cp = c\<rparr>)"

definition RECONCILE_ACTIONS :: "string list" where
  "RECONCILE_ACTIONS =
     [''reconcile_follower_hold'', ''reconcile_incomplete_hold'', ''reconcile_degraded_hold'', ''reconcile_cold_adopt'',
      ''reconcile_replace_dead_a'', ''reconcile_replace_and_forget_drained_a'',
      ''reconcile_forget_drained_a_after_placement'', ''reconcile_idempotent'']"

text \<open>\<open>Harness::apply\<close>: the result and the harness after it, or a panic.\<close>

definition harness_apply :: "string \<Rightarrow> harness \<Rightarrow> ((replay_message + unit) \<times> harness) option" where
  "harness_apply action h =
     (let m = sm_membership (hs_sm h) in
      if action = ''init'' \<or> action = ''idle'' then Some (Inr (), h)
      else if action = ''become_follower'' then Some (Inr (), h\<lparr>hs_cp := (hs_cp h)\<lparr>hc_leader := False\<rparr>\<rparr>)
      else if action = ''become_leader'' then Some (Inr (), h\<lparr>hs_cp := (hs_cp h)\<lparr>hc_leader := True\<rparr>\<rparr>)
      else if action = ''lose_a_from_soft_membership'' then
        (let (was_present, m) = forget ''a'' m
         in Some (ensure was_present (Text ''A was not present for soft-membership loss''), on_membership (\<lambda>_. m) h))
      else if action = ''heartbeat_a'' then
        map_option (\<lambda>m. (Inr (), on_membership (\<lambda>_. m) h)) (beat ''a'' 0 (report 1 True True) m)
      else if action = ''add_d'' then
        map_option (\<lambda>m. (Inr (), on_membership (\<lambda>_. m) h)) (beat ''d'' 0 (report 4 False False) m)
      else if action = ''mark_a_dead'' then Some (mark_a_dead h)
      else if action = ''begin_drain_a'' then
        (let (was_present, m) = drain ''a'' m
         in Some (ensure was_present (Text ''A was not present for drain''), on_membership (\<lambda>_. m) h))
      else if action = ''evacuate_a'' then
        map_option (\<lambda>m. (Inr (), on_membership (\<lambda>_. m) h)) (beat ''a'' 1 (report 1 False False) m)
      else if action = ''prepare_cold_start'' then map_option (\<lambda>h. (Inr (), h)) (prepare_cold_start h)
      else if action = ''restore_snapshot_bcd'' then
        map_option (\<lambda>a. (Inr (), on_placement (restore_from [a]) h)) (assignment [2, 3, 4] 2)
      else if action \<in> set RECONCILE_ACTIONS then Some (Inr (), harness_reconcile h)
      else if action = ''attempt_forget_a_rejected'' then
        (let (ok, c, sm) = harness_propose (ForgetNode ''a'') (hs_cp h) (hs_sm h)
         in Some (ensure ok (Text ''leader did not accept the stale ForgetNode proposal for evaluation''),
                  \<lparr>hs_sm = sm, hs_cp = c\<rparr>))
      else Some (Inl (Unsupported action), h))"

subsection \<open>Expected states in the ITF format\<close>

fun as_u64 :: "json \<Rightarrow> nat option" where
  "as_u64 (JNumber n) = (if 0 \<le> n \<and> n \<le> int u64_max then Some (nat n) else None)"
| "as_u64 _ = None"

definition itf_tag :: "json \<Rightarrow> replay_message + string" where
  "itf_tag value =
     (case as_str (json_index value ''tag'') of Some t \<Rightarrow> Inr t | None \<Rightarrow> Inl (Text ''ITF tagged value has no tag''))"

definition itf_bigint :: "json \<Rightarrow> string \<Rightarrow> replay_message + nat" where
  "itf_bigint value field =
     (case Option.bind (as_str (json_index value ''#bigint'')) (parse_unsigned 64) of
        Some n \<Rightarrow> Inr n
      | None \<Rightarrow> (case as_u64 value of Some n \<Rightarrow> Inr n | None \<Rightarrow> Inl (Not_An_Integer field)))"

fun collect_set :: "(replay_message + nat) list \<Rightarrow> replay_message + nat set" where
  "collect_set [] = Inr {}"
| "collect_set (Inl e # rs) = Inl e"
| "collect_set (Inr n # rs) = (case collect_set rs of Inl e \<Rightarrow> Inl e | Inr ns \<Rightarrow> Inr (insert n ns))"

definition itf_set :: "json \<Rightarrow> string \<Rightarrow> replay_message + nat set" where
  "itf_set value field =
     (case as_array (json_index value ''#set'') of
        None \<Rightarrow> Inl (Not_A_Set field)
      | Some entries \<Rightarrow> collect_set (map (\<lambda>entry. itf_bigint entry field) entries))"

text \<open>The question mark operator.\<close>

definition sum_bind :: "'e + 'a \<Rightarrow> ('a \<Rightarrow> 'e + 'b) \<Rightarrow> 'e + 'b" where
  "sum_bind r f = (case r of Inl e \<Rightarrow> Inl e | Inr x \<Rightarrow> f x)"

definition expected_projection :: "json \<Rightarrow> replay_message + projection" where
  "expected_projection state =
     sum_bind (itf_tag (json_index state ''role'')) (\<lambda>role.
     sum_bind (itf_set (json_index state ''known'') ''known'') (\<lambda>known.
     sum_bind (itf_set (json_index state ''healthy'') ''healthy'') (\<lambda>healthy.
     sum_bind (itf_set (json_index state ''draining'') ''draining'') (\<lambda>draining.
     sum_bind (itf_set (json_index state ''hosted'') ''hosted'') (\<lambda>hosted.
     sum_bind (itf_bigint (json_index state ''observed_leader'') ''observed_leader'') (\<lambda>observed_leader.
     sum_bind (itf_set (json_index state ''placement'') ''placement'') (\<lambda>placement.
     sum_bind (itf_bigint (json_index state ''preferred_leader'') ''preferred_leader'') (\<lambda>preferred_leader.
     sum_bind (itf_bigint (json_index state ''generation'') ''generation'') (\<lambda>generation.
     sum_bind (itf_set (json_index state ''forgotten'') ''forgotten'') (\<lambda>forgotten.
       Inr \<lparr>pj_leader = (role = ''Leader''), pj_known = known, pj_healthy = healthy, pj_draining = draining,
            pj_hosted = hosted, pj_observed_leader = observed_leader, pj_placement = placement,
            pj_preferred_leader = preferred_leader, pj_generation = generation, pj_forgotten = forgotten\<rparr>))))))))))"

subsection \<open>Mismatches\<close>

type_synonym path = "string list"

record replay_mismatch =
  rm_trace :: path
  rm_step :: "nat option"
  rm_action :: "string option"
  rm_message :: replay_message
  rm_expected :: json
  rm_actual :: json

text \<open>\<open>serde_json::to_value\<close> of a projection and of the list of actions.\<close>

definition json_set :: "nat set \<Rightarrow> json" where
  "json_set ns = JArray (map (\<lambda>n. JNumber (int n)) (sorted_list_of_set ns))"

definition projection_value :: "projection \<Rightarrow> json" where
  "projection_value p =
     JObject [(''leader'', JBool (pj_leader p)), (''known'', json_set (pj_known p)), (''healthy'', json_set (pj_healthy p)),
       (''draining'', json_set (pj_draining p)), (''hosted'', json_set (pj_hosted p)),
       (''observed_leader'', JNumber (int (pj_observed_leader p))), (''placement'', json_set (pj_placement p)),
       (''preferred_leader'', JNumber (int (pj_preferred_leader p))), (''generation'', JNumber (int (pj_generation p))),
       (''forgotten'', json_set (pj_forgotten p))]"

definition mismatch :: "path \<Rightarrow> nat option \<Rightarrow> string option \<Rightarrow> replay_message \<Rightarrow> replay_mismatch" where
  "mismatch p step action message =
     \<lparr>rm_trace = p, rm_step = step, rm_action = action, rm_message = message, rm_expected = JNull, rm_actual = JNull\<rparr>"

definition projection_mismatch :: "path \<Rightarrow> nat \<Rightarrow> string \<Rightarrow> projection \<Rightarrow> projection \<Rightarrow> replay_mismatch" where
  "projection_mismatch p index action expected actual =
     \<lparr>rm_trace = p, rm_step = Some index, rm_action = Some action,
      rm_message = Text ''production scheduler observable state diverged from Quint'',
      rm_expected = projection_value expected, rm_actual = projection_value actual\<rparr>"

subsection \<open>Replaying a trace\<close>

record trace_summary =
  ts_states :: nat
  ts_non_idle_transitions :: nat
  ts_actions :: "string set"

text \<open>The loop of \<open>replay_trace\<close> over the states after the first, with their indices.\<close>

fun replay_states :: "path \<Rightarrow> nat \<Rightarrow> json list \<Rightarrow> harness \<Rightarrow> nat \<Rightarrow> string set
    \<Rightarrow> (replay_mismatch + nat \<times> string set) option" where
  "replay_states p index [] h non_idle actions = Some (Inr (non_idle, actions))"
| "replay_states p index (state # states) h non_idle actions =
     (case as_str (json_index state ''mbt::actionTaken'') of
        None \<Rightarrow> Some (Inl (mismatch p (Some index) None (Text ''ITF state has no mbt::actionTaken'')))
      | Some action \<Rightarrow>
          let actions = insert action actions;
              non_idle = (if action \<noteq> ''idle'' then sat_add64 non_idle 1 else non_idle) in
          (case harness_apply action h of
             None \<Rightarrow> None
           | Some (Inl message, h) \<Rightarrow>
               Some (Inl \<lparr>rm_trace = p, rm_step = Some index, rm_action = Some action, rm_message = message,
                          rm_expected = json_index state ''s'', rm_actual = projection_value (harness_projection h)\<rparr>)
           | Some (Inr _, h) \<Rightarrow>
               (case expected_projection (json_index state ''s'') of
                  Inl message \<Rightarrow> Some (Inl (mismatch p (Some index) (Some action) message))
                | Inr expected \<Rightarrow>
                    if harness_projection h \<noteq> expected
                    then Some (Inl (projection_mismatch p index action expected (harness_projection h)))
                    else replay_states p (Suc index) states h non_idle actions)))"

definition replay_document :: "path \<Rightarrow> json \<Rightarrow> (replay_mismatch + trace_summary) option" where
  "replay_document p document =
     (case as_array (json_index document ''states'') of
        None \<Rightarrow> Some (Inl (mismatch p None None (Text ''ITF trace has no states array'')))
      | Some [] \<Rightarrow> Some (Inl (mismatch p None None (Text ''ITF trace contains no states'')))
      | Some (first # rest) \<Rightarrow>
          Option.bind harness_initial (\<lambda>h.
            case expected_projection (json_index first ''s'') of
              Inl message \<Rightarrow> Some (Inl (mismatch p (Some 0) (Some ''init'') message))
            | Inr expected \<Rightarrow>
                if harness_projection h \<noteq> expected
                then Some (Inl (projection_mismatch p 0 ''init'' expected (harness_projection h)))
                else map_option (map_sum id (\<lambda>(non_idle, actions).
                       \<lparr>ts_states = Suc (length rest), ts_non_idle_transitions = non_idle, ts_actions = actions\<rparr>))
                     (replay_states p 1 rest h 0 {''init''})))"

text \<open>\<open>fs::read\<close> and \<open>serde_json::from_slice\<close> are the parameters \<open>read\<close> and \<open>parse\<close>.\<close>

definition replay_trace ::
  "(path \<Rightarrow> 'b option) \<Rightarrow> ('b \<Rightarrow> json option) \<Rightarrow> path \<Rightarrow> (replay_mismatch + trace_summary) option" where
  "replay_trace read parse p =
     (case Option.bind (read p) parse of
        None \<Rightarrow> Some (Inl (mismatch p None None Library_Error))
      | Some document \<Rightarrow> replay_document p document)"

record replay_summary =
  rs_traces_total :: nat
  rs_traces_passed :: nat
  rs_states :: nat
  rs_non_idle_transitions :: nat
  rs_actions :: "string set"
  rs_mismatches :: "replay_mismatch list"

definition replay_success :: "replay_summary \<Rightarrow> bool" where
  "replay_success s \<longleftrightarrow>
     rs_traces_total s > 0 \<and> rs_traces_passed s = rs_traces_total s \<and> rs_mismatches s = []"

fun replay_all :: "(path \<Rightarrow> (replay_mismatch + trace_summary) option) \<Rightarrow> path list \<Rightarrow> replay_summary \<Rightarrow> replay_summary option" where
  "replay_all replay [] s = Some s"
| "replay_all replay (p # paths) s =
     (case replay p of
        None \<Rightarrow> None
      | Some (Inr summary) \<Rightarrow>
          replay_all replay paths
            (s\<lparr>rs_traces_passed := sat_add64 (rs_traces_passed s) 1,
               rs_states := sat_add64 (rs_states s) (ts_states summary),
               rs_non_idle_transitions := sat_add64 (rs_non_idle_transitions s) (ts_non_idle_transitions summary),
               rs_actions := rs_actions s \<union> ts_actions summary\<rparr>)
      | Some (Inl m) \<Rightarrow> replay_all replay paths (s\<lparr>rs_mismatches := rs_mismatches s @ [m]\<rparr>))"

text \<open>A corpus of traces that leaves a required action out fails as a whole.\<close>

definition check_coverage :: "path list \<Rightarrow> replay_summary \<Rightarrow> replay_summary" where
  "check_coverage paths s =
     (let missing = filter (\<lambda>action. action \<notin> rs_actions s) REQUIRED_ACTIONS in
      case paths of
        [] \<Rightarrow> s
      | p # _ \<Rightarrow>
          if missing = [] then s
          else s\<lparr>rs_traces_passed :=
                   (if rs_traces_passed s = rs_traces_total s then sat_sub (rs_traces_passed s) 1 else rs_traces_passed s),
                 rs_mismatches := rs_mismatches s @
                   [\<lparr>rm_trace = p, rm_step = None, rm_action = Some (hd missing), rm_message = Missing_Actions missing,
                     rm_expected = JArray (map JString REQUIRED_ACTIONS),
                     rm_actual = JArray (map JString (sorted_list_of_set (rs_actions s)))\<rparr>]\<rparr>)"

definition replay_paths ::
  "(path \<Rightarrow> (replay_mismatch + trace_summary) option) \<Rightarrow> path list \<Rightarrow> replay_summary option" where
  "replay_paths replay paths =
     map_option (check_coverage paths)
       (replay_all replay paths
         \<lparr>rs_traces_total = min (length paths) u64_max, rs_traces_passed = 0, rs_states = 0, rs_non_idle_transitions = 0,
          rs_actions = {}, rs_mismatches = []\<rparr>)"

subsection \<open>Finding the traces\<close>

text \<open>A directory may refuse to be listed, and so may a single entry of it.\<close>

datatype fs_node = Regular | Unlistable | Directory "fs_entry list"
  and fs_entry = Unreadable | Entry string fs_node

definition ends_with :: "string \<Rightarrow> string \<Rightarrow> bool" where
  "ends_with suffix s \<longleftrightarrow> length suffix \<le> length s \<and> drop (length s - length suffix) s = suffix"

fun collect_itf_traces_into :: "path \<Rightarrow> fs_node \<Rightarrow> path list option"
  and collect_entries :: "path \<Rightarrow> fs_entry list \<Rightarrow> path list option" where
  "collect_itf_traces_into root (Directory entries) = collect_entries root entries"
| "collect_itf_traces_into root Regular = None"
| "collect_itf_traces_into root Unlistable = None"
| "collect_entries root [] = Some []"
| "collect_entries root (Unreadable # entries) = None"
| "collect_entries root (Entry name Regular # entries) =
     map_option (\<lambda>ts. (if ends_with ''.itf.json'' name then [root @ [name]] else []) @ ts) (collect_entries root entries)"
| "collect_entries root (Entry name node # entries) =
     Option.bind (collect_itf_traces_into (root @ [name]) node) (\<lambda>traces.
       map_option (\<lambda>ts. traces @ ts) (collect_entries root entries))"

definition collect_itf_traces :: "path \<Rightarrow> fs_node \<Rightarrow> path list option" where
  "collect_itf_traces root node = map_option sort (collect_itf_traces_into root node)"


subsection \<open>The harness as a control plane\<close>

lemma node_id_number: "node_number n = Some k \<longleftrightarrow> node_id_of k = Some n"
  by (auto simp: node_number_def node_id_of_def split: if_splits)

lemma harness_propose_follower: "\<not> hc_leader c \<Longrightarrow> harness_propose cmd c sm = (False, c, sm)"
  by (simp add: harness_propose_def)

lemma harness_propose_leader:
  "hc_leader c \<Longrightarrow> fst (harness_propose cmd c sm) \<and> snd (snd (harness_propose cmd c sm)) = apply_command cmd sm"
  by (simp add: harness_propose_def Let_def)

lemma harness_control_plane_sel [simp]:
  "cp_is_leader harness_control_plane = hc_leader"
  "cp_propose harness_control_plane = harness_propose"
  by (simp_all add: harness_control_plane_def)

interpretation hcp: control_plane harness_control_plane
proof unfold_locales
  fix cmd and c c' :: harness_cp and sm sm' ok
  assume run: "cp_propose harness_control_plane cmd c sm = (ok, c', sm')"
  show "\<exists>evs. sm' = sm_events evs sm"
  proof (cases "hc_leader c")
    case True
    with run harness_propose_leader [of c cmd sm] have "sm' = sm_events [Applied cmd] sm" by simp
    then show ?thesis ..
  next
    case False
    with run have "sm' = sm_events [] sm" by (simp add: harness_propose_follower)
    then show ?thesis ..
  qed
qed

end
