(* ===== verification/Scheduler_Spec.thy ===== *)
theory Scheduler_Spec
  imports Prelude
begin

section \<open>The abstract scheduler (\<open>formal/brain_scheduler.qnt\<close>)\<close>

text \<open>
  The Quint model of the placement reconciler on four nodes and one shard, which the repository keeps as
  the specification of \<open>src/scheduler.rs\<close>. Every action of the model is a branch of \<open>quint_action\<close>, which is
  \<open>None\<close> where the action's guards fail; \<open>quint_reachable\<close> are the states of the exhaustive \<open>step\<close>
  relation. The invariants of the model are proved for all of them, over a representation of the reachable
  states by a few facets (\<open>quint_of\<close>).
\<close>

datatype quint_role = Leading | Following

datatype quint_event =
    InitEvent | BecameLeader | BecameFollower | SoftMembershipLost | HeartbeatRestored | NodeAdded | NodeDied
  | DrainStarted | DrainEvacuated | ColdStartPrepared | SnapshotRestored | FollowerHeld | IncompleteHeld
  | DegradedHeld | ForgetRejected | ColdAdopted | DeadReplaced | DrainReplacedAndForgotten
  | DrainForgottenAfterPlacement | IdempotentHeld

definition NODES :: "nat set" where "NODES = {1, 2, 3, 4}"
definition ABC :: "nat set" where "ABC = {1, 2, 3}"
definition BCD :: "nat set" where "BCD = {2, 3, 4}"
definition RF :: nat where "RF = 3"
definition NO_NODE :: nat where "NO_NODE = 0"

record quint_state =
  q_role :: quint_role
  q_known :: "nat set"
  q_healthy :: "nat set"
  q_draining :: "nat set"
  q_hosted :: "nat set"
  q_observed_leader :: nat
  q_placement :: "nat set"
  q_preferred_leader :: nat
  q_generation :: nat
  q_forgotten :: "nat set"
  q_last_event :: quint_event
  q_last_generation_delta :: nat
  q_last_placement_write :: bool
  q_last_forget_write :: bool

definition quint_init :: quint_state where
  "quint_init =
     \<lparr>q_role = Leading, q_known = ABC, q_healthy = ABC, q_draining = {}, q_hosted = ABC, q_observed_leader = 1,
      q_placement = ABC, q_preferred_leader = 1, q_generation = 1, q_forgotten = {}, q_last_event = InitEvent,
      q_last_generation_delta = 0, q_last_placement_write = False, q_last_forget_write = False\<rparr>"

text \<open>The accounting of a transition: its event and which writes it made.\<close>

definition account :: "quint_event \<Rightarrow> bool \<Rightarrow> bool \<Rightarrow> quint_state \<Rightarrow> quint_state" where
  "account e placement_write forget_write s =
     s\<lparr>q_last_event := e, q_last_generation_delta := (if placement_write then 1 else 0),
       q_last_placement_write := placement_write, q_last_forget_write := forget_write\<rparr>"

text \<open>The observed leader once A is no longer a healthy reporter.\<close>

definition unobserve_a :: "quint_state \<Rightarrow> nat" where
  "unobserve_a s = (if q_observed_leader s = 1 then NO_NODE else q_observed_leader s)"

definition guarded :: "bool \<Rightarrow> quint_state \<Rightarrow> quint_state option" where
  "guarded g s = (if g then Some s else None)"

definition become_follower_action :: "quint_state \<Rightarrow> quint_state option" where
  "become_follower_action s =
     guarded (q_role s = Leading) (account BecameFollower False False (s\<lparr>q_role := Following\<rparr>))"

definition become_leader_action :: "quint_state \<Rightarrow> quint_state option" where
  "become_leader_action s =
     guarded (q_role s = Following) (account BecameLeader False False (s\<lparr>q_role := Leading\<rparr>))"

definition lose_a_action :: "quint_state \<Rightarrow> quint_state option" where
  "lose_a_action s =
     guarded (1 \<in> q_known s \<and> 1 \<notin> q_forgotten s \<and> q_observed_leader s = 1)
       (account SoftMembershipLost False False
         (s\<lparr>q_known := q_known s - {1}, q_healthy := q_healthy s - {1}, q_draining := q_draining s - {1},
            q_hosted := q_hosted s - {1}, q_observed_leader := NO_NODE\<rparr>))"

definition heartbeat_a_action :: "quint_state \<Rightarrow> quint_state option" where
  "heartbeat_a_action s =
     guarded (1 \<notin> q_forgotten s \<and> 1 \<notin> q_known s)
       (account HeartbeatRestored False False
         (s\<lparr>q_known := q_known s \<union> {1}, q_healthy := q_healthy s \<union> {1}, q_hosted := q_hosted s \<union> {1},
            q_observed_leader := 1\<rparr>))"

definition add_d_action :: "quint_state \<Rightarrow> quint_state option" where
  "add_d_action s =
     guarded (4 \<notin> q_known s)
       (account NodeAdded False False (s\<lparr>q_known := q_known s \<union> {4}, q_healthy := q_healthy s \<union> {4}\<rparr>))"

definition mark_a_dead_action :: "quint_state \<Rightarrow> quint_state option" where
  "mark_a_dead_action s =
     guarded (1 \<in> q_known s \<and> 1 \<in> q_healthy s \<and> 1 \<notin> q_draining s)
       (account NodeDied False False (s\<lparr>q_healthy := q_healthy s - {1}, q_observed_leader := unobserve_a s\<rparr>))"

definition begin_drain_a_action :: "quint_state \<Rightarrow> quint_state option" where
  "begin_drain_a_action s =
     guarded (1 \<in> q_known s \<and> 1 \<in> q_healthy s \<and> 1 \<notin> q_forgotten s)
       (account DrainStarted False False
         (s\<lparr>q_healthy := q_healthy s - {1}, q_draining := q_draining s \<union> {1}, q_observed_leader := unobserve_a s\<rparr>))"

definition evacuate_a_action :: "quint_state \<Rightarrow> quint_state option" where
  "evacuate_a_action s =
     guarded (1 \<in> q_draining s \<and> 1 \<in> q_hosted s)
       (account DrainEvacuated False False (s\<lparr>q_hosted := q_hosted s - {1}, q_observed_leader := unobserve_a s\<rparr>))"

definition prepare_cold_start_action :: "quint_state \<Rightarrow> quint_state option" where
  "prepare_cold_start_action s =
     guarded (q_role s = Leading \<and> q_generation s = 1 \<and> q_known s = ABC \<and> q_healthy s = ABC \<and> q_draining s = {} \<and>
         q_placement s = ABC \<and> q_forgotten s = {})
       (account ColdStartPrepared True False
         (s\<lparr>q_placement := {}, q_preferred_leader := NO_NODE, q_hosted := ABC, q_observed_leader := 2,
            q_generation := q_generation s + 1\<rparr>))"

definition restore_snapshot_bcd_action :: "quint_state \<Rightarrow> quint_state option" where
  "restore_snapshot_bcd_action s =
     guarded (q_role s = Leading \<and> q_generation s = 1 \<and> q_placement s = ABC \<and> q_forgotten s = {})
       (account SnapshotRestored True False
         (s\<lparr>q_placement := BCD, q_preferred_leader := 2, q_generation := q_generation s + 1\<rparr>))"

definition follower_hold_action :: "quint_state \<Rightarrow> quint_state option" where
  "follower_hold_action s = guarded (q_role s = Following) (account FollowerHeld False False s)"

definition incomplete_hold_action :: "quint_state \<Rightarrow> quint_state option" where
  "incomplete_hold_action s =
     guarded (q_role s = Leading \<and> q_placement s \<noteq> {} \<and> \<not> q_placement s \<subseteq> q_known s) (account IncompleteHeld False False s)"

definition degraded_hold_action :: "quint_state \<Rightarrow> quint_state option" where
  "degraded_hold_action s =
     guarded (q_role s = Leading \<and> q_placement s = ABC \<and> q_placement s \<subseteq> q_known s \<and> q_healthy s = {2, 3} \<and>
         1 \<in> q_draining s \<and> 1 \<notin> q_hosted s)
       (account DegradedHeld False False s)"

definition forget_rejected_action :: "quint_state \<Rightarrow> quint_state option" where
  "forget_rejected_action s =
     guarded (q_role s = Leading \<and> 1 \<in> q_known s \<and> 1 \<in> q_draining s \<and> 1 \<notin> q_hosted s \<and> 1 \<in> q_placement s)
       (account ForgetRejected False False s)"

definition cold_adopt_action :: "quint_state \<Rightarrow> quint_state option" where
  "cold_adopt_action s =
     guarded (q_role s = Leading \<and> q_placement s = {} \<and> q_known s = ABC \<and> q_healthy s = ABC \<and> q_hosted s = ABC \<and>
         q_observed_leader s = 2)
       (account ColdAdopted True False
         (s\<lparr>q_placement := ABC, q_preferred_leader := 2, q_generation := q_generation s + 1\<rparr>))"

definition replace_dead_a_action :: "quint_state \<Rightarrow> quint_state option" where
  "replace_dead_a_action s =
     guarded (q_role s = Leading \<and> q_known s = NODES \<and> q_healthy s = BCD \<and> q_draining s = {} \<and> q_placement s = ABC \<and>
         q_observed_leader s = NO_NODE)
       (account DeadReplaced True False
         (s\<lparr>q_placement := BCD, q_preferred_leader := 2, q_generation := q_generation s + 1\<rparr>))"

definition replace_and_forget_action :: "quint_state \<Rightarrow> quint_state option" where
  "replace_and_forget_action s =
     guarded (q_role s = Leading \<and> q_known s = NODES \<and> q_healthy s = BCD \<and> q_draining s = {1} \<and> 1 \<notin> q_hosted s \<and>
         q_placement s = ABC \<and> q_observed_leader s = NO_NODE)
       (account DrainReplacedAndForgotten True True
         (s\<lparr>q_known := BCD, q_draining := {}, q_placement := BCD, q_preferred_leader := 2,
            q_generation := q_generation s + 1, q_forgotten := q_forgotten s \<union> {1}\<rparr>))"

definition forget_after_placement_action :: "quint_state \<Rightarrow> quint_state option" where
  "forget_after_placement_action s =
     guarded (q_role s = Leading \<and> q_known s = NODES \<and> q_healthy s = BCD \<and> q_draining s = {1} \<and> 1 \<notin> q_hosted s \<and>
         q_placement s = BCD \<and> q_preferred_leader s = 2)
       (account DrainForgottenAfterPlacement False True
         (s\<lparr>q_known := BCD, q_draining := {}, q_forgotten := q_forgotten s \<union> {1}\<rparr>))"

definition idempotent_action :: "quint_state \<Rightarrow> quint_state option" where
  "idempotent_action s =
     guarded (q_role s = Leading \<and> q_placement s \<subseteq> q_known s \<and> q_placement s \<subseteq> q_healthy s \<and>
         \<not> (1 \<in> q_draining s \<and> 1 \<notin> q_hosted s \<and> 1 \<notin> q_placement s) \<and>
         (q_placement s = ABC \<and> q_preferred_leader s = 1 \<and> q_observed_leader s = 1 \<or>
          q_placement s = ABC \<and> q_preferred_leader s = 2 \<and> q_observed_leader s = 2 \<or>
          q_placement s = BCD \<and> q_preferred_leader s = 2 \<and> q_observed_leader s = NO_NODE \<or>
          q_placement s = BCD \<and> q_preferred_leader s = 2 \<and> q_observed_leader s = 1))
       (account IdempotentHeld False False s)"

text \<open>The alternatives of \<open>step\<close> by the names that a trace records.\<close>

definition quint_actions :: "(string \<times> (quint_state \<Rightarrow> quint_state option)) list" where
  "quint_actions =
     [(''become_follower'', become_follower_action), (''become_leader'', become_leader_action),
      (''lose_a_from_soft_membership'', lose_a_action), (''heartbeat_a'', heartbeat_a_action), (''add_d'', add_d_action),
      (''mark_a_dead'', mark_a_dead_action), (''begin_drain_a'', begin_drain_a_action), (''evacuate_a'', evacuate_a_action),
      (''prepare_cold_start'', prepare_cold_start_action), (''restore_snapshot_bcd'', restore_snapshot_bcd_action),
      (''reconcile_follower_hold'', follower_hold_action), (''reconcile_incomplete_hold'', incomplete_hold_action),
      (''reconcile_degraded_hold'', degraded_hold_action), (''attempt_forget_a_rejected'', forget_rejected_action),
      (''reconcile_cold_adopt'', cold_adopt_action), (''reconcile_replace_dead_a'', replace_dead_a_action),
      (''reconcile_replace_and_forget_drained_a'', replace_and_forget_action),
      (''reconcile_forget_drained_a_after_placement'', forget_after_placement_action),
      (''reconcile_idempotent'', idempotent_action), (''idle'', Some)]"

definition quint_action :: "string \<Rightarrow> quint_state \<Rightarrow> quint_state option" where
  "quint_action name s = (case map_of quint_actions name of Some act \<Rightarrow> act s | None \<Rightarrow> None)"

lemmas quint_action_defs =
  become_follower_action_def become_leader_action_def lose_a_action_def heartbeat_a_action_def add_d_action_def
  mark_a_dead_action_def begin_drain_a_action_def evacuate_a_action_def prepare_cold_start_action_def
  restore_snapshot_bcd_action_def follower_hold_action_def incomplete_hold_action_def degraded_hold_action_def
  forget_rejected_action_def cold_adopt_action_def replace_dead_a_action_def replace_and_forget_action_def
  forget_after_placement_action_def idempotent_action_def

inductive quint_reachable :: "quint_state \<Rightarrow> bool" where
  Quint_Init: "quint_reachable quint_init"
| Quint_Step: "quint_reachable s \<Longrightarrow> quint_action name s = Some s' \<Longrightarrow> quint_reachable s'"

subsection \<open>The invariants of the model\<close>

definition identifiers_are_bounded :: "quint_state \<Rightarrow> bool" where
  "identifiers_are_bounded s \<longleftrightarrow>
     q_known s \<subseteq> NODES \<and> q_healthy s \<subseteq> NODES \<and> q_draining s \<subseteq> NODES \<and> q_hosted s \<subseteq> NODES \<and>
     q_placement s \<subseteq> NODES \<and> q_forgotten s \<subseteq> NODES \<and> q_healthy s \<subseteq> q_known s \<and> q_draining s \<subseteq> q_known s \<and>
     q_hosted s \<subseteq> q_known s \<and> q_healthy s \<inter> q_draining s = {} \<and> q_forgotten s \<inter> q_known s = {} \<and>
     (q_observed_leader s = NO_NODE \<or> q_observed_leader s \<in> NODES) \<and>
     (q_preferred_leader s = NO_NODE \<or> q_preferred_leader s \<in> NODES)"

definition placement_shape :: "quint_state \<Rightarrow> bool" where
  "placement_shape s \<longleftrightarrow>
     card (q_placement s) \<le> RF \<and> (q_preferred_leader s = NO_NODE \<or> q_preferred_leader s \<in> q_placement s) \<and>
     q_forgotten s \<inter> q_placement s = {}"

definition observed_leader_is_eligible :: "quint_state \<Rightarrow> bool" where
  "observed_leader_is_eligible s \<longleftrightarrow>
     q_observed_leader s = NO_NODE \<or>
     q_observed_leader s \<in> q_known s \<and> q_observed_leader s \<in> q_healthy s \<and> q_observed_leader s \<in> q_hosted s"

definition transition_accounting_is_bounded :: "quint_state \<Rightarrow> bool" where
  "transition_accounting_is_bounded s \<longleftrightarrow>
     (q_last_generation_delta s = 0 \<or> q_last_generation_delta s = 1) \<and> 1 \<le> q_generation s \<and> q_generation s \<le> 4"

definition writes_are_accounted :: "quint_state \<Rightarrow> bool" where
  "writes_are_accounted s \<longleftrightarrow>
     (q_last_event s \<notin> {FollowerHeld, IncompleteHeld, DegradedHeld, ForgetRejected, IdempotentHeld} \<or>
      q_last_generation_delta s = 0 \<and> \<not> q_last_placement_write s \<and> \<not> q_last_forget_write s) \<and>
     (q_last_placement_write s \<longleftrightarrow>
      q_last_event s \<in> {ColdStartPrepared, SnapshotRestored, ColdAdopted, DeadReplaced, DrainReplacedAndForgotten}) \<and>
     q_last_generation_delta s = (if q_last_placement_write s then 1 else 0) \<and>
     (q_last_forget_write s \<longleftrightarrow> q_last_event s \<in> {DrainReplacedAndForgotten, DrainForgottenAfterPlacement}) \<and>
     (\<not> (q_last_placement_write s \<or> q_last_forget_write s) \<or> q_role s = Leading)"

definition hold_shapes :: "quint_state \<Rightarrow> bool" where
  "hold_shapes s \<longleftrightarrow>
     (q_last_event s \<noteq> FollowerHeld \<or> q_role s = Following) \<and>
     (q_last_event s \<noteq> IncompleteHeld \<or> q_placement s \<noteq> {} \<and> \<not> q_placement s \<subseteq> q_known s) \<and>
     (q_last_event s \<noteq> DegradedHeld \<or>
      q_placement s = ABC \<and> q_healthy s = {2, 3} \<and> 1 \<in> q_draining s \<and> 1 \<in> q_known s \<and> 1 \<notin> q_hosted s) \<and>
     (q_last_event s \<noteq> ForgetRejected \<or>
      1 \<in> q_known s \<and> 1 \<in> q_draining s \<and> 1 \<in> q_placement s \<and> 1 \<notin> q_forgotten s)"

definition write_shapes :: "quint_state \<Rightarrow> bool" where
  "write_shapes s \<longleftrightarrow>
     (q_last_event s \<noteq> ColdAdopted \<or> q_placement s = ABC \<and> q_preferred_leader s = 2 \<and> 3 \<le> q_generation s) \<and>
     (q_last_event s \<noteq> DeadReplaced \<or>
      q_known s = NODES \<and> q_healthy s = BCD \<and> q_placement s = BCD \<and> q_preferred_leader s = 2 \<and> 1 \<notin> q_forgotten s) \<and>
     (q_last_event s \<notin> {DrainReplacedAndForgotten, DrainForgottenAfterPlacement} \<or>
      q_known s = BCD \<and> q_healthy s = BCD \<and> q_placement s = BCD \<and> q_preferred_leader s = 2 \<and> 1 \<notin> q_draining s \<and>
      1 \<in> q_forgotten s) \<and>
     (q_last_event s \<noteq> SnapshotRestored \<or>
      q_placement s = BCD \<and> q_preferred_leader s = 2 \<and> q_last_generation_delta s = 1)"

definition scheduler_safety :: "quint_state \<Rightarrow> bool" where
  "scheduler_safety s \<longleftrightarrow>
     identifiers_are_bounded s \<and> placement_shape s \<and> observed_leader_is_eligible s \<and>
     transition_accounting_is_bounded s \<and> writes_are_accounted s \<and> hold_shapes s \<and> write_shapes s"

subsection \<open>The reachable states by their facets\<close>

text \<open>
  What distinguishes the reachable states: the role, what became of node A, whether D has joined, and the
  placement. Only the cold start changes who leads the shard, so B leads exactly after it.
\<close>

datatype a_state = A_Leading | A_Hosting | A_Absent | A_Failed | A_Draining | A_Evacuated | A_Removed
datatype layout = On_ABC | Cold | Adopted | On_BCD

record facets =
  fc_leads :: bool
  fc_a :: a_state
  fc_d :: bool
  fc_layout :: layout

definition a_present :: "facets \<Rightarrow> bool" where
  "a_present f \<longleftrightarrow> fc_a f \<notin> {A_Absent, A_Removed}"

definition a_healthy :: "facets \<Rightarrow> bool" where
  "a_healthy f \<longleftrightarrow> fc_a f \<in> {A_Leading, A_Hosting}"

definition a_drains :: "facets \<Rightarrow> bool" where
  "a_drains f \<longleftrightarrow> fc_a f \<in> {A_Draining, A_Evacuated}"

definition a_hosts :: "facets \<Rightarrow> bool" where
  "a_hosts f \<longleftrightarrow> fc_a f \<in> {A_Leading, A_Hosting, A_Failed, A_Draining}"

definition b_leads :: "facets \<Rightarrow> bool" where
  "b_leads f \<longleftrightarrow> fc_layout f \<in> {Cold, Adopted}"

definition quint_of :: "facets \<Rightarrow> quint_state" where
  "quint_of f =
     \<lparr>q_role = (if fc_leads f then Leading else Following),
      q_known = {2, 3} \<union> (if a_present f then {1} else {}) \<union> (if fc_d f then {4} else {}),
      q_healthy = {2, 3} \<union> (if a_healthy f then {1} else {}) \<union> (if fc_d f then {4} else {}),
      q_draining = (if a_drains f then {1} else {}),
      q_hosted = {2, 3} \<union> (if a_hosts f then {1} else {}),
      q_observed_leader = (if fc_a f = A_Leading then 1 else if b_leads f then 2 else NO_NODE),
      q_placement = (case fc_layout f of On_ABC \<Rightarrow> ABC | Cold \<Rightarrow> {} | Adopted \<Rightarrow> ABC | On_BCD \<Rightarrow> BCD),
      q_preferred_leader = (case fc_layout f of On_ABC \<Rightarrow> 1 | Cold \<Rightarrow> NO_NODE | Adopted \<Rightarrow> 2 | On_BCD \<Rightarrow> 2),
      q_generation = (case fc_layout f of On_ABC \<Rightarrow> 1 | Cold \<Rightarrow> 2 | Adopted \<Rightarrow> 3 | On_BCD \<Rightarrow> 2),
      q_forgotten = (if fc_a f = A_Removed then {1} else {}),
      q_last_event = InitEvent, q_last_generation_delta = 0, q_last_placement_write = False, q_last_forget_write = False\<rparr>"

definition facets_ok :: "facets \<Rightarrow> bool" where
  "facets_ok f \<longleftrightarrow>
     (b_leads f \<longrightarrow> fc_a f \<in> {A_Hosting, A_Failed, A_Draining, A_Evacuated}) \<and>
     (fc_a f = A_Hosting \<longrightarrow> b_leads f) \<and> (fc_a f = A_Removed \<longrightarrow> fc_layout f = On_BCD \<and> fc_d f)"

text \<open>The facets after an action that is enabled.\<close>

definition facet_step :: "string \<Rightarrow> facets \<Rightarrow> facets" where
  "facet_step name f =
     (if name = ''become_follower'' then f\<lparr>fc_leads := False\<rparr>
      else if name = ''become_leader'' then f\<lparr>fc_leads := True\<rparr>
      else if name = ''lose_a_from_soft_membership'' then f\<lparr>fc_a := A_Absent\<rparr>
      else if name = ''heartbeat_a'' then f\<lparr>fc_a := A_Leading\<rparr>
      else if name = ''add_d'' then f\<lparr>fc_d := True\<rparr>
      else if name = ''mark_a_dead'' then f\<lparr>fc_a := A_Failed\<rparr>
      else if name = ''begin_drain_a'' then f\<lparr>fc_a := A_Draining\<rparr>
      else if name = ''evacuate_a'' then f\<lparr>fc_a := A_Evacuated\<rparr>
      else if name = ''prepare_cold_start'' then f\<lparr>fc_a := A_Hosting, fc_layout := Cold\<rparr>
      else if name = ''restore_snapshot_bcd'' then f\<lparr>fc_layout := On_BCD\<rparr>
      else if name = ''reconcile_cold_adopt'' then f\<lparr>fc_layout := Adopted\<rparr>
      else if name = ''reconcile_replace_dead_a'' then f\<lparr>fc_layout := On_BCD\<rparr>
      else if name = ''reconcile_replace_and_forget_drained_a'' then f\<lparr>fc_a := A_Removed, fc_layout := On_BCD\<rparr>
      else if name = ''reconcile_forget_drained_a_after_placement'' then f\<lparr>fc_a := A_Removed\<rparr>
      else f)"

definition all_facets :: "facets list" where
  "all_facets =
     concat (map (\<lambda>l. concat (map (\<lambda>a. concat (map (\<lambda>d. map (\<lambda>y.
         \<lparr>fc_leads = l, fc_a = a, fc_d = d, fc_layout = y\<rparr>) [On_ABC, Cold, Adopted, On_BCD]) [False, True]))
       [A_Leading, A_Hosting, A_Absent, A_Failed, A_Draining, A_Evacuated, A_Removed])) [False, True])"

lemma all_facets: "f \<in> set all_facets"
proof -
  obtain l a d y where f: "f = \<lparr>fc_leads = l, fc_a = a, fc_d = d, fc_layout = y\<rparr>" by (cases f) auto
  show ?thesis unfolding f all_facets_def by (cases l; cases a; cases d; cases y) simp_all
qed

definition steps_ok :: "facets \<Rightarrow> bool" where
  "steps_ok f \<longleftrightarrow>
     list_all (\<lambda>(name, act).
       case act (quint_of f) of
         None \<Rightarrow> True
       | Some q \<Rightarrow>
           facets_ok (facet_step name f) \<and> account InitEvent False False q = quint_of (facet_step name f) \<and>
           (name = ''idle'' \<or> scheduler_safety q)) quint_actions"

lemma list_all_halves: "list_all P (take n xs) \<Longrightarrow> list_all P (drop n xs) \<Longrightarrow> list_all P xs"
  by (metis append_take_drop_id list_all_append)

lemma all_steps_ok: "list_all (\<lambda>f. facets_ok f \<longrightarrow> steps_ok f) all_facets"
proof (rule list_all_halves [of _ 56]; rule list_all_halves [of _ 28])
  show "list_all (\<lambda>f. facets_ok f \<longrightarrow> steps_ok f) (take 28 (take 56 all_facets))" by code_simp
  show "list_all (\<lambda>f. facets_ok f \<longrightarrow> steps_ok f) (drop 28 (take 56 all_facets))" by code_simp
  show "list_all (\<lambda>f. facets_ok f \<longrightarrow> steps_ok f) (take 28 (drop 56 all_facets))" by code_simp
  show "list_all (\<lambda>f. facets_ok f \<longrightarrow> steps_ok f) (drop 28 (drop 56 all_facets))" by code_simp
qed


text \<open>The guards and effects of the actions do not read the accounting of the step before.\<close>

lemma account_forgets: "account e w f (account e' w' f' s) = account e w f s"
  by (simp add: account_def)

lemma action_ignores_accounting:
  "(name, act) \<in> set quint_actions \<Longrightarrow> name \<noteq> ''idle'' \<Longrightarrow> act (account e w f s) = act s"
  unfolding quint_actions_def list.set insert_iff empty_iff prod.inject
  by (elim disjE conjE FalseE; hypsubst; simp add: quint_action_defs account_def unobserve_a_def)

lemma quint_action_member: "quint_action name s = Some s' \<Longrightarrow> \<exists>act. (name, act) \<in> set quint_actions \<and> act s = Some s'"
  by (auto simp: quint_action_def split: option.splits dest: map_of_SomeD)

lemma idle_is_some: "(''idle'', act) \<in> set quint_actions \<Longrightarrow> act = Some"
  by (simp add: quint_actions_def)

text \<open>A state is represented by facets up to its accounting.\<close>

definition represents :: "facets \<Rightarrow> quint_state \<Rightarrow> bool" where
  "represents f q \<longleftrightarrow> facets_ok f \<and> account InitEvent False False q = quint_of f"

definition start_facets :: facets where
  "start_facets = \<lparr>fc_leads = True, fc_a = A_Leading, fc_d = False, fc_layout = On_ABC\<rparr>"

lemma represents_init: "represents start_facets quint_init"
  unfolding represents_def by code_simp

lemma init_is_safe: "scheduler_safety quint_init"
  by code_simp

lemma represented_step:
  assumes "represents f q" and "quint_action name q = Some q'"
  shows "represents (facet_step name f) q' \<and> (scheduler_safety q \<longrightarrow> scheduler_safety q')"
proof -
  obtain act where act: "(name, act) \<in> set quint_actions" "act q = Some q'"
    using quint_action_member [OF assms(2)] by blast
  show ?thesis
  proof (cases "name = ''idle''")
    case True
    then show ?thesis using act assms(1) by (auto dest!: idle_is_some simp: facet_step_def)
  next
    case False
    have "act (quint_of f) = Some q'"
      using action_ignores_accounting [OF act(1) False, of InitEvent False False q] act(2) assms(1)
      by (simp add: represents_def)
    moreover have "steps_ok f"
      using all_steps_ok all_facets [of f] assms(1) by (auto simp: list_all_iff represents_def)
    ultimately show ?thesis
      using act(1) False unfolding steps_ok_def list_all_iff represents_def by fastforce
  qed
qed

lemma reachable_represented: "quint_reachable q \<Longrightarrow> \<exists>f. represents f q"
  by (induction rule: quint_reachable.induct) (use represents_init represented_step in blast)+


lemma quint_init_reaches:
  "quint_reachable (the (quint_action ''begin_drain_a'' quint_init))"
proof -
  have "quint_action ''begin_drain_a'' quint_init = Some (the (quint_action ''begin_drain_a'' quint_init))"
    by code_simp
  then show ?thesis by (rule Quint_Step [OF Quint_Init])
qed


end
