(* ===== verification/Replay_Decisions.thy ===== *)
theory Replay_Decisions
  imports Replay Scheduler_Spec
begin

section \<open>What the scheduler decides in the states of its Quint model\<close>

text \<open>
  The harness states that stand for the model states of given facets (\<open>nodes_of\<close>, \<open>placement_of\<close>), and the
  decision of the production planner in each of them. Only the times of the last heartbeats vary, and they do not
  enter a decision. The one model state in which the decision differs is \<open>overlooks_forget\<close>: a drained, empty node
  that no placement names while some placed node is unknown. The model holds everything there; the scheduler holds
  the shard but still forgets the node.
\<close>

subsection \<open>Harness states that stand for a model state\<close>

definition node_entry :: "nat \<Rightarrow> node_health \<Rightarrow> bool \<Rightarrow> bool \<Rightarrow> nat \<Rightarrow> node_info" where
  "node_entry k health hosts leads t =
     (let i = the (node_id_of k) in
      \<lparr>ni_node_id = i, ni_address = ''10.0.0.'' @ show_nat k @ '':8090'', ni_health = health,
       ni_cloud_provider = ''cloud-'' @ i, ni_region = ''region-'' @ i, ni_cluster_id = ''cluster-'' @ i,
       ni_failure_domain = ''domain-'' @ i, ni_last_seen_ms = t, ni_hosted_shards = (if hosts then [SHARD] else []),
       ni_leading_shards = (if leads then [SHARD] else []), ni_last_seq = 0\<rparr>)"

definition a_health :: "facets \<Rightarrow> node_health" where
  "a_health f = (if a_healthy f then Healthy else if a_drains f then Draining else Dead)"

definition a_reports_leading :: "facets \<Rightarrow> bool" where
  "a_reports_leading f \<longleftrightarrow> a_hosts f \<and> \<not> b_leads f"

definition nodes_of :: "facets \<Rightarrow> nat \<Rightarrow> nat \<Rightarrow> nat \<Rightarrow> nat \<Rightarrow> node_info list" where
  "nodes_of f ta tb tc td =
     (if a_present f then [node_entry 1 (a_health f) (a_hosts f) (a_reports_leading f) ta] else []) @
     [node_entry 2 Healthy True (b_leads f) tb, node_entry 3 Healthy True False tc] @
     (if fc_d f then [node_entry 4 Healthy False False td] else [])"

definition assignment_of :: "layout \<Rightarrow> shard_assignment option" where
  "assignment_of y =
     (case y of On_ABC \<Rightarrow> assignment [1, 2, 3] 1 | Cold \<Rightarrow> None | Adopted \<Rightarrow> assignment [1, 2, 3] 2
      | On_BCD \<Rightarrow> assignment [2, 3, 4] 2)"

definition placement_of :: "layout \<Rightarrow> placement" where
  "placement_of y =
     \<lparr>pl_shard_count = 1, pl_generation = (case y of On_ABC \<Rightarrow> 1 | Cold \<Rightarrow> 2 | Adopted \<Rightarrow> 3 | On_BCD \<Rightarrow> 2),
      pl_assignments = (case assignment_of y of None \<Rightarrow> [] | Some a \<Rightarrow> [(SHARD, a)]), pl_policies = []\<rparr>"

definition harness_plan :: scale_plan where
  "harness_plan = \<lparr>sp_target_nodes = 3, sp_replication_factor = 3\<rparr>"

definition observe_nodes :: "node_info list \<Rightarrow> placement \<Rightarrow> scale_plan \<Rightarrow> tick \<times> loads" where
  "observe_nodes nodes p plan =
     (let rf = max (sp_replication_factor plan) 1;
          target_nodes = max (sp_target_nodes plan) rf;
          all_healthy_ids = map ni_node_id (healthy_nodes nodes);
          assignments = placement_snapshot p;
          l = foldl (\<lambda>l a. foldl bump l (sa_replicas a)) (zero_loads all_healthy_ids) assignments;
          healthy_ids = active_nodes_for_target all_healthy_ids l target_nodes;
          l = l |` set healthy_ids;
          ll = foldl (\<lambda>ll a. case sa_preferred_leader a of Some leader \<Rightarrow> bump ll leader | None \<Rightarrow> ll)
                 (zero_loads healthy_ids) assignments
      in (\<lparr>tk_rf = rf, tk_nodes = nodes, tk_healthy_ids = healthy_ids\<rparr>,
          \<lparr>lo_load = l, lo_leader_load = ll\<rparr>))"

lemma observe_nodes:
  "observe sm = observe_nodes (membership_snapshot (sm_membership sm)) (sm_placement sm) (sm_plan sm)"
  by (simp add: observe_def observe_nodes_def Let_def)

definition overlooks_forget :: "quint_state \<Rightarrow> bool" where
  "overlooks_forget q \<longleftrightarrow>
     q_role q = Leading \<and> 1 \<in> q_draining q \<and> 1 \<notin> q_hosted q \<and> 1 \<notin> q_placement q \<and> q_placement q \<noteq> {} \<and>
     \<not> q_placement q \<subseteq> q_known q"

text \<open>What the scheduler decides for the shard in the harness state of the given facets.\<close>

definition decision :: "facets \<Rightarrow> nat \<Rightarrow> nat \<Rightarrow> nat \<Rightarrow> nat \<Rightarrow> shard_assignment option option" where
  "decision f ta tb tc td =
     (case observe_nodes (nodes_of f ta tb tc td) (placement_of (fc_layout f)) harness_plan of (tk, lo) \<Rightarrow>
        map_option fst (reconcile_shard tk (placement_of (fc_layout f)) SHARD lo))"

definition forgets :: "facets \<Rightarrow> layout \<Rightarrow> bool" where
  "forgets f y \<longleftrightarrow> fc_a f = A_Evacuated \<and> y \<in> {Cold, On_BCD}"

text \<open>The decision is the step of the model: a new layout is proposed, and a drained node without data is forgotten.\<close>

definition follows :: "facets \<Rightarrow> shard_assignment option option \<Rightarrow> facets \<Rightarrow> bool" where
  "follows f d g \<longleftrightarrow>
     (if fc_layout g = fc_layout f then d \<in> {None, Some None}
      else assignment_of (fc_layout g) \<noteq> None \<and> d = Some (assignment_of (fc_layout g)) \<and>
           add64 (pl_generation (placement_of (fc_layout f))) 1 = pl_generation (placement_of (fc_layout g))) \<and>
     b_leads g = b_leads f \<and>
     g = f\<lparr>fc_layout := fc_layout g, fc_a := (if forgets f (fc_layout g) then A_Removed else fc_a f)\<rparr>"

definition decision_follows :: "nat \<Rightarrow> nat \<Rightarrow> nat \<Rightarrow> nat \<Rightarrow> facets \<Rightarrow> bool" where
  "decision_follows ta tb tc td f \<longleftrightarrow>
     list_all (\<lambda>name. quint_action name (quint_of f) = None
         \<or> name = ''reconcile_incomplete_hold'' \<and> overlooks_forget (quint_of f)
         \<or> follows f (decision f ta tb tc td) (facet_step name f)) RECONCILE_ACTIONS"

lemma decisions_follow:
  "list_all (\<lambda>f. facets_ok f \<longrightarrow> decision_follows ta tb tc td f) (filter fc_leads all_facets)"
proof (rule list_all_halves [of _ 28]; rule list_all_halves [of _ 14])
  show "list_all (\<lambda>f. facets_ok f \<longrightarrow> decision_follows ta tb tc td f) (take 14 (take 28 (filter fc_leads all_facets)))"
    by code_simp
  show "list_all (\<lambda>f. facets_ok f \<longrightarrow> decision_follows ta tb tc td f) (drop 14 (take 28 (filter fc_leads all_facets)))"
    by code_simp
  show "list_all (\<lambda>f. facets_ok f \<longrightarrow> decision_follows ta tb tc td f) (take 14 (drop 28 (filter fc_leads all_facets)))"
    by code_simp
  show "list_all (\<lambda>f. facets_ok f \<longrightarrow> decision_follows ta tb tc td f) (drop 14 (drop 28 (filter fc_leads all_facets)))"
    by code_simp
qed

end
