(* ===== verification/Replay_Simulation.thy ===== *)
theory Replay_Simulation
  imports Replay_Decisions
begin

section \<open>The scheduler refines its Quint model\<close>

text \<open>
  A simulation between the Quint model and the replay harness, that is the production membership, placement and
  scheduler. \<open>stands_for\<close> relates a harness to the facets of a model state; every action of the model is
  answered by the harness (\<open>action_simulated\<close>), and a trace that the model can produce replays without a mismatch.
\<close>

subsection \<open>Memberships by their lookups\<close>

definition harness_config :: membership_config where
  "harness_config = \<lparr>suspect_after_ms = 10, dead_after_ms = 20\<rparr>"

definition holds_entries :: "(node_id \<Rightarrow> node_info option) \<Rightarrow> membership \<Rightarrow> bool" where
  "holds_entries F m \<longleftrightarrow> membership_inv m \<and> mb_config m = harness_config \<and> map_of (mb_nodes m) = F"

definition entries :: "facets \<Rightarrow> nat \<Rightarrow> nat \<Rightarrow> nat \<Rightarrow> nat \<Rightarrow> node_id \<Rightarrow> node_info option" where
  "entries f ta tb tc td = map_of (map (\<lambda>i. (ni_node_id i, i)) (nodes_of f ta tb tc td))"

lemma node_id_of_simps [simp]:
  "node_id_of 1 = Some ''a''" "node_id_of (Suc 0) = Some ''a''" "node_id_of 2 = Some ''b''"
  "node_id_of 3 = Some ''c''" "node_id_of 4 = Some ''d''"
  by (simp_all add: node_id_of_def)

lemma node_entry_sel [simp]:
  "ni_node_id (node_entry k h x y t) = the (node_id_of k)"
  "ni_health (node_entry k h x y t) = h"
  "ni_last_seen_ms (node_entry k h x y t) = t"
  "ni_hosted_shards (node_entry k h x y t) = (if x then [SHARD] else [])"
  "ni_leading_shards (node_entry k h x y t) = (if y then [SHARD] else [])"
  "ni_last_seq (node_entry k h x y t) = 0"
  "(node_entry k h x y t)\<lparr>ni_health := h'\<rparr> = node_entry k h' x y t"
  by (simp_all add: node_entry_def Let_def)

lemma entries_eq:
  "entries f ta tb tc td =
     (\<lambda>n. if n = ''a'' then if a_present f then Some (node_entry 1 (a_health f) (a_hosts f) (a_reports_leading f) ta) else None
          else if n = ''b'' then Some (node_entry 2 Healthy True (b_leads f) tb)
          else if n = ''c'' then Some (node_entry 3 Healthy True False tc)
          else if n = ''d'' then if fc_d f then Some (node_entry 4 Healthy False False td) else None
          else None)"
  by (rule ext) (simp add: entries_def nodes_of_def)

lemma nodes_of_ids: "sorted (map ni_node_id (nodes_of f ta tb tc td))" "distinct (map ni_node_id (nodes_of f ta tb tc td))"
  by (simp_all add: nodes_of_def)

lemma snapshot_of_entries:
  assumes "holds_entries (entries f ta tb tc td) m"
  shows "membership_snapshot m = nodes_of f ta tb tc td"
proof (rule map_sorted_distinct_set_unique [of ni_node_id])
  have inv: "membership_inv m" and look: "map_of (mb_nodes m) = entries f ta tb tc td"
    using assms by (simp_all add: holds_entries_def)
  have "e \<in> set (nodes_of f ta tb tc td) \<longleftrightarrow> entries f ta tb tc td (ni_node_id e) = Some e" for e
    unfolding entries_def using nodes_of_ids(2) [of f ta tb tc td]
    by (subst map_of_eq_Some_iff) (auto simp: comp_def)
  then show sets: "set (membership_snapshot m) = set (nodes_of f ta tb tc td)"
    using set_membership_snapshot [OF inv] look by auto
  show "inj_on ni_node_id (set (membership_snapshot m) \<union> set (nodes_of f ta tb tc td))"
    using nodes_of_ids(2) [of f ta tb tc td] unfolding sets distinct_map by simp
  show "sorted (map ni_node_id (membership_snapshot m))" "distinct (map ni_node_id (membership_snapshot m))"
    using membership_snapshot_ids [OF inv] by blast+
qed (rule nodes_of_ids)+

lemma refresh_node_entry:
  assumes "node_id_of k = Some i" and "report k hosts leads = Some r"
  shows "refresh_entry i now r (node_entry k h x y t) = node_entry k (if h = Draining then Draining else Healthy) hosts leads now"
    and "refresh_entry i now r (new_node_info i now r) = node_entry k Healthy hosts leads now"
    and "hb_seq r = 0"
proof -
  have k: "k = 1 \<and> i = ''a'' \<or> k = 2 \<and> i = ''b'' \<or> k = 3 \<and> i = ''c'' \<or> k = 4 \<and> i = ''d''"
    using assms(1) by (auto simp: node_id_of_def split: if_splits)
  have r: "r = the (report k hosts leads)" using assms(2) by simp
  show "refresh_entry i now r (node_entry k h x y t) = node_entry k (if h = Draining then Draining else Healthy) hosts leads now"
    using k unfolding r by (cases h; elim disjE conjE; hypsubst; code_simp)
  show "refresh_entry i now r (new_node_info i now r) = node_entry k Healthy hosts leads now"
    using k unfolding r by (elim disjE conjE; hypsubst; code_simp)
  show "hb_seq r = 0" using assms by (auto simp: report_def)
qed

lemma heartbeat_entries:
  assumes "holds_entries F m" and "node_id_of k = Some i" and "report k hosts leads = Some r"
    and "F i = None \<and> h = Healthy \<or> F i = Some (node_entry k h0 x y t) \<and> h = (if h0 = Draining then Draining else Healthy)"
  shows "holds_entries (F(i \<mapsto> node_entry k h hosts leads now)) (snd (heartbeat i now r m))"
proof -
  have "membership_inv (snd (heartbeat i now r m))"
    using assms(1) membership_inv_op [of m "Heartbeat i now r"] by (simp add: holds_entries_def)
  then show ?thesis
    using assms(1,4) refresh_node_entry [OF assms(2,3)]
    by (auto simp: holds_entries_def fun_eq_iff heartbeat_node)
qed

lemma drain_entries:
  assumes "holds_entries F m" and "F i = Some e"
  shows "fst (drain i m)" and "holds_entries (F(i \<mapsto> e\<lparr>ni_health := Draining\<rparr>)) (snd (drain i m))"
  using assms membership_inv_op [of m "Drain i"] by (auto simp: holds_entries_def fun_eq_iff drain_def hashmap)

lemma forget_entries:
  assumes "holds_entries F m"
  shows "fst (forget i m) \<longleftrightarrow> F i \<noteq> None" and "holds_entries (F(i := None)) (snd (forget i m))"
  using assms membership_inv_op [of m "Forget i"] by (auto simp: holds_entries_def fun_eq_iff forget_def hashmap)


subsection \<open>The relation\<close>

definition cp_of :: "facets \<Rightarrow> harness_cp" where
  "cp_of f = \<lparr>hc_leader = fc_leads f, hc_forgotten = (if fc_a f = A_Removed then {1} else {})\<rparr>"

definition members_of :: "facets \<Rightarrow> membership \<Rightarrow> bool" where
  "members_of f m \<longleftrightarrow> (\<exists>ta tb tc td. ta \<le> 1 \<and> holds_entries (entries f ta tb tc td) m)"

definition stands_for :: "facets \<Rightarrow> harness \<Rightarrow> bool" where
  "stands_for f h \<longleftrightarrow>
     hs_cp h = cp_of f \<and> sm_placement (hs_sm h) = placement_of (fc_layout f) \<and> sm_plan (hs_sm h) = harness_plan \<and>
     members_of f (sm_membership (hs_sm h))"

lemma members_ofI: "ta \<le> 1 \<Longrightarrow> holds_entries (entries f ta tb tc td) m \<Longrightarrow> members_of f m"
  by (auto simp: members_of_def)

lemma stands_forE:
  assumes "stands_for f h"
  obtains ta tb tc td where "ta \<le> 1" and "holds_entries (entries f ta tb tc td) (sm_membership (hs_sm h))"
  using assms by (auto simp: stands_for_def members_of_def)

text \<open>A step of the membership alone.\<close>

lemma stands_for_members:
  assumes "stands_for f h" and "members_of g m"
    and "fc_leads g = fc_leads f" and "fc_layout g = fc_layout f" and "fc_a g = A_Removed \<longleftrightarrow> fc_a f = A_Removed"
  shows "stands_for g (on_membership (\<lambda>_. m) h)"
  using assms by (simp add: stands_for_def on_membership_def cp_of_def)

definition project_nodes :: "node_info list \<Rightarrow> placement \<Rightarrow> harness_cp \<Rightarrow> projection" where
  "project_nodes nodes p c =
     (let a = get p SHARD in
      \<lparr>pj_leader = hc_leader c, pj_known = numbers (\<lambda>_. True) nodes,
       pj_healthy = numbers (\<lambda>n. ni_health n = Healthy) nodes,
       pj_draining = numbers (\<lambda>n. ni_health n = Draining) nodes,
       pj_hosted = numbers (\<lambda>n. SHARD \<in> set (ni_hosted_shards n)) nodes,
       pj_observed_leader =
         (case Option.bind (List.find (\<lambda>n. ni_health n = Healthy \<and> SHARD \<in> set (ni_leading_shards n)) nodes)
                 (\<lambda>n. node_number (ni_node_id n)) of Some k \<Rightarrow> k | None \<Rightarrow> 0),
       pj_placement = (case a of Some a \<Rightarrow> set (List.map_filter node_number (sa_replicas a)) | None \<Rightarrow> {}),
       pj_preferred_leader =
         (case Option.bind (Option.bind a sa_preferred_leader) node_number of Some k \<Rightarrow> k | None \<Rightarrow> 0),
       pj_generation = pl_generation p, pj_forgotten = hc_forgotten c\<rparr>)"

lemma harness_projection_nodes:
  "harness_projection h =
     project_nodes (membership_snapshot (sm_membership (hs_sm h))) (sm_placement (hs_sm h)) (hs_cp h)"
  by (simp add: harness_projection_def project_nodes_def Let_def)

text \<open>What a model state shows of itself.\<close>

definition quint_projection :: "quint_state \<Rightarrow> projection" where
  "quint_projection q =
     \<lparr>pj_leader = (q_role q = Leading), pj_known = q_known q, pj_healthy = q_healthy q, pj_draining = q_draining q,
      pj_hosted = q_hosted q, pj_observed_leader = q_observed_leader q, pj_placement = q_placement q,
      pj_preferred_leader = q_preferred_leader q, pj_generation = q_generation q, pj_forgotten = q_forgotten q\<rparr>"

lemma projections_agree:
  "list_all (\<lambda>f. facets_ok f \<longrightarrow>
     project_nodes (nodes_of f ta tb tc td) (placement_of (fc_layout f)) (cp_of f) = quint_projection (quint_of f)) all_facets"
  by code_simp

lemma projection_stands_for:
  assumes "facets_ok f" and "stands_for f h"
  shows "harness_projection h = quint_projection (quint_of f)"
proof -
  from assms(2) obtain ta tb tc td where e: "holds_entries (entries f ta tb tc td) (sm_membership (hs_sm h))"
    by (rule stands_forE)
  have "project_nodes (nodes_of f ta tb tc td) (placement_of (fc_layout f)) (cp_of f) = quint_projection (quint_of f)"
    using projections_agree [of ta tb tc td] all_facets [of f] assms(1) by (simp add: list_all_iff)
  then show ?thesis
    using assms(2) snapshot_of_entries [OF e] by (simp add: harness_projection_nodes stands_for_def)
qed

subsection \<open>Failure of node A\<close>

lemma entries_lookup [simp]:
  "entries f ta tb tc td ''a'' =
     (if a_present f then Some (node_entry 1 (a_health f) (a_hosts f) (a_reports_leading f) ta) else None)"
  "entries f ta tb tc td ''b'' = Some (node_entry 2 Healthy True (b_leads f) tb)"
  "entries f ta tb tc td ''c'' = Some (node_entry 3 Healthy True False tc)"
  "entries f ta tb tc td ''d'' = (if fc_d f then Some (node_entry 4 Healthy False False td) else None)"
  by (simp_all add: entries_eq)

lemma entries_update_a:
  assumes "a_present g" and "fc_d g = fc_d f" and "b_leads g = b_leads f"
  shows "(entries f ta tb tc td)(''a'' \<mapsto> node_entry 1 (a_health g) (a_hosts g) (a_reports_leading g) t) = entries g t tb tc td"
  using assms by (auto simp: entries_eq fun_eq_iff)

lemma entries_remove_a:
  assumes "\<not> a_present g" and "fc_d g = fc_d f" and "b_leads g = b_leads f"
  shows "(entries f ta tb tc td)(''a'' := None) = entries g ta tb tc td"
  using assms by (auto simp: entries_eq fun_eq_iff)

lemma entries_cong:
  "fc_a g = fc_a f \<Longrightarrow> fc_d g = fc_d f \<Longrightarrow> b_leads g = b_leads f \<Longrightarrow> entries g = entries f"
  by (simp add: fun_eq_iff entries_eq a_present_def a_health_def a_healthy_def a_drains_def a_hosts_def
      a_reports_leading_def)

lemma entries_update_rest:
  "(entries f ta tb tc td)(''b'' \<mapsto> node_entry 2 Healthy True (b_leads f) t) = entries f ta t tc td"
  "(entries f ta tb tc td)(''c'' \<mapsto> node_entry 3 Healthy True False t) = entries f ta tb t td"
  "(entries f ta tb tc td)(''d'' \<mapsto> node_entry 4 Healthy False False t) = entries (f\<lparr>fc_d := True\<rparr>) ta tb tc t"
  by (auto simp: entries_eq fun_eq_iff a_present_def a_health_def a_healthy_def a_drains_def a_hosts_def
      a_reports_leading_def b_leads_def)

lemma repeated_report_entry:
  "node_id_of k = Some i \<Longrightarrow> report k hosts leads = Some (repeated_report (node_entry k h hosts leads t))"
  by (simp add: repeated_report_def report_def node_entry_def Let_def)

lemma repeat_entries:
  assumes "holds_entries F m" and "node_id_of k = Some i" and "F i = Some (node_entry k Healthy x y t)"
  shows "holds_entries (F(i \<mapsto> node_entry k Healthy x y now))
    (snd (heartbeat i now (repeated_report (node_entry k Healthy x y t)) m))"
  using heartbeat_entries [OF assms(1,2) repeated_report_entry [OF assms(2)], of Healthy Healthy x y t] assms(3) by simp

definition refresh_others :: "node_info list \<Rightarrow> membership \<Rightarrow> membership" where
  "refresh_others nodes m =
     fold (\<lambda>n m. if ni_node_id n = ''a'' \<or> ni_health n \<noteq> Healthy then m
                 else snd (heartbeat (ni_node_id n) refresh_at (repeated_report n) m)) nodes m"

lemma refresh_others_entries:
  assumes "holds_entries (entries f ta tb tc td) m"
  shows "holds_entries (entries f ta refresh_at refresh_at refresh_at) (refresh_others (nodes_of f ta tb tc td) m)"
proof -
  let ?mb = "snd (heartbeat ''b'' refresh_at (repeated_report (node_entry 2 Healthy True (b_leads f) tb)) m)"
  let ?mc = "snd (heartbeat ''c'' refresh_at (repeated_report (node_entry 3 Healthy True False tc)) ?mb)"
  let ?md = "snd (heartbeat ''d'' refresh_at (repeated_report (node_entry 4 Healthy False False td)) ?mc)"
  have "holds_entries (entries f ta refresh_at tc td) ?mb"
    using repeat_entries [OF assms, of 2 "''b''" True "b_leads f" tb refresh_at] by (simp add: entries_update_rest)
  from repeat_entries [OF this, of 3 "''c''" True False tc refresh_at] have c: "holds_entries (entries f ta refresh_at refresh_at td) ?mc"
    by (simp add: entries_update_rest)
  show ?thesis
  proof (cases "fc_d f")
    case True
    then have "f\<lparr>fc_d := True\<rparr> = f" by simp
    with repeat_entries [OF c, of 4 "''d''" False False td refresh_at] True show ?thesis
      by (simp add: refresh_others_def nodes_of_def entries_update_rest)
  next
    case False
    moreover have "entries f ta refresh_at refresh_at td = entries f ta refresh_at refresh_at refresh_at"
      using False by (simp add: entries_eq fun_eq_iff)
    ultimately show ?thesis using c by (simp add: refresh_others_def nodes_of_def)
  qed
qed

lemma swept_entries:
  "swept_health harness_config null_oracle refresh_at (node_entry k Healthy x y refresh_at) = Healthy"
  "t \<le> 1 \<Longrightarrow> swept_health harness_config null_oracle refresh_at (node_entry k Healthy x y t) = Dead"
  by (simp_all add: swept_health_def null_oracle_def by_timeout_def harness_config_def refresh_at_def sat_sub_def Let_def)

lemma filter_single:
  assumes "distinct (map f xs)" and "x \<in> set xs" and "\<And>y. y \<in> set xs \<Longrightarrow> P y \<longleftrightarrow> y = x"
  shows "filter P xs = [x]"
proof -
  have "filter P xs = filter (\<lambda>y. y = x) xs" using assms(3) by (rule filter_cong [OF refl])
  also have "\<dots> = [x]" using assms(1,2) by (induction xs) (auto simp: filter_empty_conv)
  finally show ?thesis .
qed

lemma sweep_entries:
  assumes "holds_entries (entries f ta refresh_at refresh_at refresh_at) m" and "a_healthy f" and "ta \<le> 1"
  shows "fst (sweep null_oracle refresh_at m) = [''a'']"
    and "holds_entries (entries (f\<lparr>fc_a := A_Failed\<rparr>) ta refresh_at refresh_at refresh_at) (snd (sweep null_oracle refresh_at m))"
proof -
  have inv: "membership_inv m" and cfg: "mb_config m = harness_config"
    and look: "map_of (mb_nodes m) = entries f ta refresh_at refresh_at refresh_at"
    using assms(1) by (simp_all add: holds_entries_def)
  have a: "a_present f" "a_health f = Healthy" using assms(2) by (auto simp: a_present_def a_healthy_def a_health_def)
  let ?A = "node_entry 1 Healthy (a_hosts f) (a_reports_leading f) ta"
  let ?P = "\<lambda>e. swept_health harness_config null_oracle refresh_at e = Dead \<and> ni_health e \<noteq> Dead"
  have vals: "e \<in> set (map snd (mb_nodes m)) \<longleftrightarrow> (\<exists>n. entries f ta refresh_at refresh_at refresh_at n = Some e)" for e
    using inv hm_values_iff [of "mb_nodes m" e] look by (simp add: membership_inv_def)
  have "filter ?P (map snd (mb_nodes m)) = [?A]"
  proof (rule filter_single [OF membership_ids(2) [OF inv]])
    show "?A \<in> set (map snd (mb_nodes m))" unfolding vals using a by (intro exI [of _ "''a''"]) simp
    fix e assume "e \<in> set (map snd (mb_nodes m))"
    then show "?P e \<longleftrightarrow> e = ?A"
      unfolding vals entries_eq using a assms(3) swept_entries by (auto split: if_splits)
  qed
  then show "fst (sweep null_oracle refresh_at m) = [''a'']" by (simp add: sweep_def Let_def cfg)
  have "membership_inv (snd (sweep null_oracle refresh_at m))"
    using membership_inv_op [OF inv, of "Sweep null_oracle refresh_at"] by simp
  moreover have "map_of (mb_nodes (snd (sweep null_oracle refresh_at m))) =
      entries (f\<lparr>fc_a := A_Failed\<rparr>) ta refresh_at refresh_at refresh_at"
    using a assms(2,3) swept_entries
    by (auto simp: fun_eq_iff sweep_node look cfg entries_eq a_present_def a_health_def a_healthy_def a_drains_def
        a_hosts_def a_reports_leading_def b_leads_def)
  ultimately show "holds_entries (entries (f\<lparr>fc_a := A_Failed\<rparr>) ta refresh_at refresh_at refresh_at)
      (snd (sweep null_oracle refresh_at m))"
    using cfg by (simp add: holds_entries_def)
qed

lemma mark_a_dead_simulated:
  assumes "stands_for f h" and "a_healthy f"
  shows "fst (mark_a_dead h) = Inr ()" and "stands_for (f\<lparr>fc_a := A_Failed\<rparr>) (snd (mark_a_dead h))"
proof -
  from assms(1) obtain ta tb tc td where t: "ta \<le> 1"
    and e: "holds_entries (entries f ta tb tc td) (sm_membership (hs_sm h))" by (rule stands_forE)
  let ?m = "refresh_others (nodes_of f ta tb tc td) (sm_membership (hs_sm h))"
  have run: "mark_a_dead h = (ensure (fst (sweep null_oracle refresh_at ?m) = [''a'']) (Newly_Dead (fst (sweep null_oracle refresh_at ?m))),
      on_membership (\<lambda>_. snd (sweep null_oracle refresh_at ?m)) h)"
    unfolding mark_a_dead_def Let_def snapshot_of_entries [OF e] refresh_others_def by (simp add: case_prod_beta)
  note sw = sweep_entries [OF refresh_others_entries [OF e] assms(2) t]
  show "fst (mark_a_dead h) = Inr ()" by (simp add: run sw(1) ensure_def)
  show "stands_for (f\<lparr>fc_a := A_Failed\<rparr>) (snd (mark_a_dead h))"
    unfolding run snd_conv
    by (rule stands_for_members [OF assms(1) members_ofI [OF t sw(2)]]) (use assms(2) in \<open>auto simp: a_healthy_def\<close>)
qed


subsection \<open>Reconciliation\<close>

lemma get_placement_of: "get (placement_of y) SHARD = assignment_of y"
  by (simp add: get_def placement_of_def split: option.splits)

lemma assigned_placement_of:
  "assigned_nodes (placement_of y) = (case y of Cold \<Rightarrow> {} | On_BCD \<Rightarrow> {''b'', ''c'', ''d''} | _ \<Rightarrow> {''a'', ''b'', ''c''})"
  by (cases y) (simp_all add: assigned_nodes_def placement_snapshot_def placement_of_def assignment_of_def assignment_def)

lemma assign_placement_of:
  assumes "assignment_of y' = Some a" and "add64 (pl_generation (placement_of y)) 1 = pl_generation (placement_of y')"
  shows "assign a (placement_of y) = placement_of y'"
proof -
  have "sa_shard_id a = SHARD"
    using assms(1) by (cases y') (auto simp: assignment_of_def assignment_def)
  with assms show ?thesis
    by (auto simp: assign_def placement_of_def split: option.splits)
qed

lemma harness_propose_assign:
  "hc_leader c \<Longrightarrow> harness_propose (AssignShard a) c sm = (True, c, sm\<lparr>sm_placement := assign a (sm_placement sm)\<rparr>)"
  by (simp add: harness_propose_def Let_def)

lemma harness_propose_forget_a:
  assumes "hc_leader c" and "membership_inv (sm_membership sm)"
  shows "harness_propose (ForgetNode ''a'') c sm =
    (if ''a'' \<in> assigned_nodes (sm_placement sm)
     then (True, if node_at (sm_membership sm) ''a'' = None then c\<lparr>hc_forgotten := insert 1 (hc_forgotten c)\<rparr> else c, sm)
     else (True, c\<lparr>hc_forgotten := insert 1 (hc_forgotten c)\<rparr>, sm\<lparr>sm_membership := snd (forget ''a'' (sm_membership sm))\<rparr>))"
proof -
  have gone: "list_all (\<lambda>known. ni_node_id known \<noteq> ''a'') (membership_snapshot m) \<longleftrightarrow> node_at m ''a'' = None"
    if "membership_inv m" for m
  proof -
    have "''a'' \<in> ni_node_id ` set (membership_snapshot m) \<longleftrightarrow> ''a'' \<in> dom (map_of (mb_nodes m))"
      using membership_snapshot_ids(3) [OF that] by simp
    then show ?thesis unfolding list_all_iff domIff by force
  qed
  show ?thesis
    using assms gone [OF assms(2)] gone [OF membership_inv_forget [OF assms(2), of "''a''"]]
    by (auto simp: harness_propose_def Let_def node_number_def still_assigned_iff forget_node)
qed

lemma reconcile_shards_one:
  "reconcile_shards cp tk [s] lo c sm =
     (case map_option fst (reconcile_shard tk (sm_placement sm) s lo) of
        Some (Some a) \<Rightarrow> (let (ok, c', sm') = cp_propose cp (AssignShard a) c sm in ([(sm, AssignShard a)], c', sm'))
      | _ \<Rightarrow> ([], c, sm))"
  by (auto split: option.splits)

lemma reconcile_in_turn:
  assumes "cp_is_leader cp c" and "observe sm = (tk, lo)"
    and "snd (reconcile_shards cp tk [0..<pl_shard_count (sm_placement sm)] lo c sm) = (c1, sm1)"
  shows "snd (reconcile cp c sm) = snd (forget_drained cp (assigned_nodes (sm_placement sm1)) (tk_nodes tk) c1 sm1)"
  using assms by (auto simp: reconcile_def Let_def split: prod.splits)

lemma forget_drained_none:
  "\<forall>n \<in> set nodes. ni_health n \<noteq> Draining \<Longrightarrow> forget_drained cp assigned nodes c sm = ([], c, sm)"
  by (induction nodes) auto

lemma forget_drained_entries:
  "forget_drained cp assigned (nodes_of f ta tb tc td) c sm =
     (if fc_a f = A_Evacuated \<and> ''a'' \<notin> assigned
      then let (ok, c', sm') = cp_propose cp (ForgetNode ''a'') c sm in ([(sm, ForgetNode ''a'')], c', sm')
      else ([], c, sm))"
proof -
  let ?rest = "[node_entry 2 Healthy True (b_leads f) tb, node_entry 3 Healthy True False tc] @
     (if fc_d f then [node_entry 4 Healthy False False td] else [])"
  have rest: "forget_drained cp assigned ?rest c' sm' = ([], c', sm')" for c' sm'
    by (rule forget_drained_none) simp
  show ?thesis
    unfolding nodes_of_def
    by (cases "fc_a f")
      (simp_all add: rest [simplified] a_present_def a_health_def a_healthy_def a_drains_def a_hosts_def Let_def
        split: prod.splits)
qed

lemma reconcile_leading:
  assumes f: "facets_ok f" "fc_leads f" and h: "stands_for f h"
    and g: "\<And>ta tb tc td. follows f (decision f ta tb tc td) g"
  shows "stands_for g (harness_reconcile h)"
proof -
  from h obtain ta tb tc td where t: "ta \<le> 1"
    and e: "holds_entries (entries f ta tb tc td) (sm_membership (hs_sm h))" by (rule stands_forE)
  obtain m where sm: "hs_sm h = \<lparr>sm_membership = m, sm_placement = placement_of (fc_layout f), sm_plan = harness_plan\<rparr>"
    using h by (cases "hs_sm h") (auto simp: stands_for_def)
  let ?c = "cp_of f" and ?sm1 = "(hs_sm h)\<lparr>sm_placement := placement_of (fc_layout g)\<rparr>"
  have lead: "hc_leader ?c" using f by (simp add: cp_of_def)
  have inv: "membership_inv m" using e by (simp add: sm holds_entries_def)
  obtain tk lo where ob: "observe (hs_sm h) = (tk, lo)" by fastforce
  have obn: "observe_nodes (nodes_of f ta tb tc td) (placement_of (fc_layout f)) harness_plan = (tk, lo)"
    using ob snapshot_of_entries [OF e] by (simp add: observe_nodes sm)
  have nodes: "tk_nodes tk = nodes_of f ta tb tc td"
    using tk_nodes_observe [of "hs_sm h"] ob snapshot_of_entries [OF e] by simp
  have d: "map_option fst (reconcile_shard tk (placement_of (fc_layout f)) SHARD lo) = decision f ta tb tc td"
    by (simp add: decision_def obn)
  have first: "snd (reconcile_shards harness_control_plane tk [0] lo ?c (hs_sm h)) = (?c, ?sm1)"
    using g [of ta tb tc td] d assign_placement_of [of "fc_layout g" _ "fc_layout f"]
    by (auto simp: reconcile_shards_one SHARD_def [symmetric] sm follows_def harness_propose_assign lead split: if_splits)
  have run: "snd (reconcile harness_control_plane ?c (hs_sm h)) =
      (if forgets f (fc_layout g)
       then (?c\<lparr>hc_forgotten := {1}\<rparr>, ?sm1\<lparr>sm_membership := snd (forget ''a'' m)\<rparr>) else (?c, ?sm1))"
  proof -
    have "snd (reconcile harness_control_plane ?c (hs_sm h)) =
        snd (forget_drained harness_control_plane (assigned_nodes (sm_placement ?sm1)) (tk_nodes tk) ?c ?sm1)"
      by (rule reconcile_in_turn) (use first ob lead in \<open>simp_all add: sm placement_of_def\<close>)
    then show ?thesis
      using lead inv
      by (cases "fc_layout g") (simp_all add: nodes forget_drained_entries harness_propose_forget_a assigned_placement_of
          forgets_def sm cp_of_def)
  qed
  have g_eq: "g = f\<lparr>fc_layout := fc_layout g, fc_a := (if forgets f (fc_layout g) then A_Removed else fc_a f)\<rparr>"
    and bl: "b_leads g = b_leads f"
    using g [of ta tb tc td] unfolding follows_def by blast+
  have fa: "fc_a g = (if forgets f (fc_layout g) then A_Removed else fc_a f)" and fd: "fc_d g = fc_d f"
    using arg_cong [OF g_eq, of fc_a] arg_cong [OF g_eq, of fc_d] by simp_all
  have mem: "members_of g (if forgets f (fc_layout g) then snd (forget ''a'' m) else m)"
  proof (cases "forgets f (fc_layout g)")
    case True
    then have "entries g ta tb tc td = (entries f ta tb tc td)(''a'' := None)"
      using fa fd bl by (intro entries_remove_a [symmetric]) (simp_all add: a_present_def)
    with forget_entries(2) [OF e, of "''a''"] True members_ofI [OF t, of g tb tc td] show ?thesis by (simp add: sm)
  next
    case False
    then have "entries g = entries f" by (intro entries_cong) (use fa fd bl in simp_all)
    with e False members_ofI [OF t, of g tb tc td] show ?thesis by (simp add: sm)
  qed
  have "harness_reconcile h =
      (if forgets f (fc_layout g)
       then \<lparr>hs_sm = ?sm1\<lparr>sm_membership := snd (forget ''a'' m)\<rparr>, hs_cp = ?c\<lparr>hc_forgotten := {1}\<rparr>\<rparr>
       else \<lparr>hs_sm = ?sm1, hs_cp = ?c\<rparr>)"
    using h run by (simp add: harness_reconcile_def stands_for_def case_prod_beta)
  moreover have "cp_of g = (if forgets f (fc_layout g) then ?c\<lparr>hc_forgotten := {1}\<rparr> else ?c)"
    by (subst g_eq) (simp add: cp_of_def)
  ultimately show ?thesis using mem by (simp add: stands_for_def sm split: if_splits)
qed


subsection \<open>The other actions\<close>

text \<open>What the facets are where the actions of the model are enabled.\<close>

definition enabled_shapes :: "facets \<Rightarrow> bool" where
  "enabled_shapes f \<longleftrightarrow>
     (lose_a_action (quint_of f) = None \<or> fc_a f = A_Leading) \<and>
     (heartbeat_a_action (quint_of f) = None \<or> fc_a f = A_Absent) \<and>
     (add_d_action (quint_of f) = None \<or> \<not> fc_d f) \<and>
     (mark_a_dead_action (quint_of f) = None \<or> a_healthy f) \<and>
     (begin_drain_a_action (quint_of f) = None \<or> a_healthy f) \<and>
     (evacuate_a_action (quint_of f) = None \<or> fc_a f = A_Draining) \<and>
     (prepare_cold_start_action (quint_of f) = None \<or> fc_a f = A_Leading \<and> fc_layout f = On_ABC) \<and>
     (restore_snapshot_bcd_action (quint_of f) = None \<or> fc_layout f = On_ABC) \<and>
     (forget_rejected_action (quint_of f) = None \<or>
        fc_leads f \<and> fc_a f = A_Evacuated \<and> fc_layout f \<in> {On_ABC, Adopted})"

lemma all_enabled_shapes: "list_all (\<lambda>f. facets_ok f \<longrightarrow> enabled_shapes f) all_facets"
  by code_simp

lemma enabled_shapes:
  assumes "facets_ok f"
  shows "lose_a_action (quint_of f) \<noteq> None \<Longrightarrow> fc_a f = A_Leading"
    and "heartbeat_a_action (quint_of f) \<noteq> None \<Longrightarrow> fc_a f = A_Absent"
    and "add_d_action (quint_of f) \<noteq> None \<Longrightarrow> \<not> fc_d f"
    and "mark_a_dead_action (quint_of f) \<noteq> None \<Longrightarrow> a_healthy f"
    and "begin_drain_a_action (quint_of f) \<noteq> None \<Longrightarrow> a_healthy f"
    and "evacuate_a_action (quint_of f) \<noteq> None \<Longrightarrow> fc_a f = A_Draining"
    and "prepare_cold_start_action (quint_of f) \<noteq> None \<Longrightarrow> fc_a f = A_Leading \<and> fc_layout f = On_ABC"
    and "restore_snapshot_bcd_action (quint_of f) \<noteq> None \<Longrightarrow> fc_layout f = On_ABC"
    and "forget_rejected_action (quint_of f) \<noteq> None \<Longrightarrow>
      fc_leads f \<and> fc_a f = A_Evacuated \<and> fc_layout f \<in> {On_ABC, Adopted}"
proof -
  have "enabled_shapes f" using all_enabled_shapes all_facets [of f] assms by (simp add: list_all_iff)
  then show "lose_a_action (quint_of f) \<noteq> None \<Longrightarrow> fc_a f = A_Leading"
    "heartbeat_a_action (quint_of f) \<noteq> None \<Longrightarrow> fc_a f = A_Absent"
    "add_d_action (quint_of f) \<noteq> None \<Longrightarrow> \<not> fc_d f"
    "mark_a_dead_action (quint_of f) \<noteq> None \<Longrightarrow> a_healthy f"
    "begin_drain_a_action (quint_of f) \<noteq> None \<Longrightarrow> a_healthy f"
    "evacuate_a_action (quint_of f) \<noteq> None \<Longrightarrow> fc_a f = A_Draining"
    "prepare_cold_start_action (quint_of f) \<noteq> None \<Longrightarrow> fc_a f = A_Leading \<and> fc_layout f = On_ABC"
    "restore_snapshot_bcd_action (quint_of f) \<noteq> None \<Longrightarrow> fc_layout f = On_ABC"
    "forget_rejected_action (quint_of f) \<noteq> None \<Longrightarrow>
      fc_leads f \<and> fc_a f = A_Evacuated \<and> fc_layout f \<in> {On_ABC, Adopted}"
    unfolding enabled_shapes_def by - argo+
qed

lemma quint_action_simps:
  "quint_action ''become_follower'' q = become_follower_action q"
  "quint_action ''become_leader'' q = become_leader_action q"
  "quint_action ''lose_a_from_soft_membership'' q = lose_a_action q"
  "quint_action ''heartbeat_a'' q = heartbeat_a_action q"
  "quint_action ''add_d'' q = add_d_action q"
  "quint_action ''mark_a_dead'' q = mark_a_dead_action q"
  "quint_action ''begin_drain_a'' q = begin_drain_a_action q"
  "quint_action ''evacuate_a'' q = evacuate_a_action q"
  "quint_action ''prepare_cold_start'' q = prepare_cold_start_action q"
  "quint_action ''restore_snapshot_bcd'' q = restore_snapshot_bcd_action q"
  "quint_action ''attempt_forget_a_rejected'' q = forget_rejected_action q"
  "quint_action ''reconcile_follower_hold'' q = follower_hold_action q"
  "quint_action ''reconcile_incomplete_hold'' q = incomplete_hold_action q"
  "quint_action ''reconcile_degraded_hold'' q = degraded_hold_action q"
  "quint_action ''reconcile_cold_adopt'' q = cold_adopt_action q"
  "quint_action ''reconcile_replace_dead_a'' q = replace_dead_a_action q"
  "quint_action ''reconcile_replace_and_forget_drained_a'' q = replace_and_forget_action q"
  "quint_action ''reconcile_forget_drained_a_after_placement'' q = forget_after_placement_action q"
  "quint_action ''reconcile_idempotent'' q = idempotent_action q"
  "quint_action ''idle'' q = Some q"
  by (simp_all add: quint_action_def quint_actions_def)

lemma reconcile_needs_leader:
  assumes "name \<in> set RECONCILE_ACTIONS" and "quint_action name q \<noteq> None" and "q_role q = Following"
  shows "name = ''reconcile_follower_hold''"
  using assms unfolding RECONCILE_ACTIONS_def list.set insert_iff empty_iff
  by (elim disjE FalseE; hypsubst; simp add: quint_action_simps quint_action_defs guarded_def)

lemma stands_for_placement:
  assumes "stands_for f h" and "p = placement_of (fc_layout g)" and "b_leads g = b_leads f"
    and "fc_leads g = fc_leads f" and "fc_a g = fc_a f" and "fc_d g = fc_d f"
  shows "stands_for g (on_placement (\<lambda>_. p) h)"
proof -
  have "entries g = entries f" by (rule entries_cong) (use assms in simp_all)
  with assms show ?thesis by (simp add: stands_for_def on_placement_def cp_of_def members_of_def)
qed

lemma restore_layouts:
  "restore_from [] (placement_of On_ABC) = placement_of Cold"
  "map_option (\<lambda>a. restore_from [a] (placement_of On_ABC)) (assignment [2, 3, 4] 2) = Some (placement_of On_BCD)"
  by code_simp+


lemma beat_entries:
  assumes "holds_entries F m" and "node_id_of k = Some i"
    and "F i = None \<and> h = Healthy \<or> F i = Some (node_entry k h0 x y t) \<and> h = (if h0 = Draining then Draining else Healthy)"
  obtains m' where "beat i now (report k hosts leads) m = Some m'"
    and "holds_entries (F(i \<mapsto> node_entry k h hosts leads now)) m'"
proof -
  obtain r where r: "report k hosts leads = Some r" using assms(2) by (simp add: report_def)
  from that [OF _ heartbeat_entries [OF assms(1,2) r assms(3), of now]] r show thesis by (simp add: beat_def)
qed

text \<open>The answer of the harness to an action of the model.\<close>

definition answers :: "string \<Rightarrow> facets \<Rightarrow> harness \<Rightarrow> bool" where
  "answers name f h \<longleftrightarrow> (\<exists>h'. harness_apply name h = Some (Inr (), h') \<and> stands_for (facet_step name f) h')"

lemmas facet_attributes = a_present_def a_health_def a_healthy_def a_drains_def a_hosts_def a_reports_leading_def b_leads_def

lemma answers_lose:
  assumes "stands_for f h" and "fc_a f = A_Leading"
  shows "answers ''lose_a_from_soft_membership'' f h"
proof -
  from assms(1) obtain ta tb tc td where t: "ta \<le> 1"
    and e: "holds_entries (entries f ta tb tc td) (sm_membership (hs_sm h))" by (rule stands_forE)
  let ?g = "f\<lparr>fc_a := A_Absent\<rparr>" and ?m = "snd (forget ''a'' (sm_membership (hs_sm h)))"
  have "holds_entries (entries ?g ta tb tc td) ?m"
    using forget_entries(2) [OF e, of "''a''"] entries_remove_a [of ?g f ta tb tc td] by (simp add: facet_attributes)
  then have "stands_for ?g (on_membership (\<lambda>_. ?m) h)"
    by (intro stands_for_members [OF assms(1)] members_ofI [OF t]) (use assms(2) in simp_all)
  moreover have "fst (forget ''a'' (sm_membership (hs_sm h)))"
    using forget_entries(1) [OF e, of "''a''"] assms(2) by (simp add: facet_attributes)
  ultimately show ?thesis
    by (simp add: answers_def harness_apply_def facet_step_def ensure_def case_prod_beta Let_def)
qed

lemma answers_begin_drain:
  assumes "stands_for f h" and "a_healthy f"
  shows "answers ''begin_drain_a'' f h"
proof -
  from assms(1) obtain ta tb tc td where t: "ta \<le> 1"
    and e: "holds_entries (entries f ta tb tc td) (sm_membership (hs_sm h))" by (rule stands_forE)
  let ?g = "f\<lparr>fc_a := A_Draining\<rparr>" and ?m = "snd (drain ''a'' (sm_membership (hs_sm h)))"
  have a: "entries f ta tb tc td ''a'' = Some (node_entry 1 Healthy True (a_reports_leading f) ta)"
    using assms(2) by (auto simp: facet_attributes)
  have "holds_entries (entries ?g ta tb tc td) ?m"
    using drain_entries(2) [OF e a] entries_update_a [of ?g f ta tb tc td ta] assms(2) by (auto simp: facet_attributes)
  then have "stands_for ?g (on_membership (\<lambda>_. ?m) h)"
    by (intro stands_for_members [OF assms(1)] members_ofI [OF t]) (use assms(2) in \<open>auto simp: a_healthy_def\<close>)
  with drain_entries(1) [OF e a] show ?thesis
    by (simp add: answers_def harness_apply_def facet_step_def ensure_def case_prod_beta Let_def)
qed

lemma answers_heartbeat:
  assumes "stands_for f h" and "facets_ok f" and "fc_a f = A_Absent"
  shows "answers ''heartbeat_a'' f h"
proof -
  from assms(1) obtain ta tb tc td where t: "ta \<le> 1"
    and e: "holds_entries (entries f ta tb tc td) (sm_membership (hs_sm h))" by (rule stands_forE)
  let ?g = "f\<lparr>fc_a := A_Leading\<rparr>"
  obtain m where m: "beat ''a'' 0 (report 1 True True) (sm_membership (hs_sm h)) = Some m"
    "holds_entries ((entries f ta tb tc td)(''a'' \<mapsto> node_entry 1 Healthy True True 0)) m"
    by (rule beat_entries [OF e, of 1 "''a''" Healthy]) (use assms(3) in \<open>auto simp: a_present_def\<close>)
  have "holds_entries (entries ?g 0 tb tc td) m"
    using m(2) entries_update_a [of ?g f ta tb tc td 0] assms(2,3) by (auto simp: facet_attributes facets_ok_def)
  then have "stands_for ?g (on_membership (\<lambda>_. m) h)"
    by (intro stands_for_members [OF assms(1)] members_ofI [OF le0]) (use assms(3) in simp_all)
  with m(1) show ?thesis by (simp add: answers_def harness_apply_def facet_step_def Let_def)
qed

lemma answers_add_d:
  assumes "stands_for f h" and "\<not> fc_d f"
  shows "answers ''add_d'' f h"
proof -
  from assms(1) obtain ta tb tc td where t: "ta \<le> 1"
    and e: "holds_entries (entries f ta tb tc td) (sm_membership (hs_sm h))" by (rule stands_forE)
  let ?g = "f\<lparr>fc_d := True\<rparr>"
  obtain m where m: "beat ''d'' 0 (report 4 False False) (sm_membership (hs_sm h)) = Some m"
    "holds_entries ((entries f ta tb tc td)(''d'' \<mapsto> node_entry 4 Healthy False False 0)) m"
    by (rule beat_entries [OF e, of 4 "''d''" Healthy]) (use assms(2) in auto)
  then have "stands_for ?g (on_membership (\<lambda>_. m) h)"
    by (intro stands_for_members [OF assms(1)] members_ofI [OF t]) (simp_all add: entries_update_rest)
  with m(1) show ?thesis by (simp add: answers_def harness_apply_def facet_step_def Let_def)
qed

lemma answers_evacuate:
  assumes "stands_for f h" and "fc_a f = A_Draining"
  shows "answers ''evacuate_a'' f h"
proof -
  from assms(1) obtain ta tb tc td where t: "ta \<le> 1"
    and e: "holds_entries (entries f ta tb tc td) (sm_membership (hs_sm h))" by (rule stands_forE)
  let ?g = "f\<lparr>fc_a := A_Evacuated\<rparr>"
  obtain m where m: "beat ''a'' 1 (report 1 False False) (sm_membership (hs_sm h)) = Some m"
    "holds_entries ((entries f ta tb tc td)(''a'' \<mapsto> node_entry 1 Draining False False 1)) m"
    by (rule beat_entries [OF e, of 1 "''a''" Draining Draining]) (use assms(2) in \<open>auto simp: facet_attributes\<close>)
  have "holds_entries (entries ?g 1 tb tc td) m"
    using m(2) entries_update_a [of ?g f ta tb tc td 1] by (simp add: facet_attributes)
  then have "stands_for ?g (on_membership (\<lambda>_. m) h)"
    by (intro stands_for_members [OF assms(1)] members_ofI [OF order_refl]) (use assms(2) in simp_all)
  with m(1) show ?thesis by (simp add: answers_def harness_apply_def facet_step_def Let_def)
qed


lemma answers_cold_start:
  assumes "stands_for f h" and "fc_a f = A_Leading" and "fc_layout f = On_ABC"
  shows "answers ''prepare_cold_start'' f h"
proof -
  from assms(1) obtain ta tb tc td where
    e: "holds_entries (entries f ta tb tc td) (sm_membership (hs_sm (on_placement (restore_from []) h)))"
    by (rule stands_forE) (simp add: on_placement_def)
  let ?g = "f\<lparr>fc_a := A_Hosting, fc_layout := Cold\<rparr>"
  obtain m where m: "beat ''a'' 1 (report 1 True False) (sm_membership (hs_sm (on_placement (restore_from []) h))) = Some m"
    "holds_entries ((entries f ta tb tc td)(''a'' \<mapsto> node_entry 1 Healthy True False 1)) m"
    by (rule beat_entries [OF e, of 1 "''a''" Healthy Healthy]) (use assms(2) in \<open>auto simp: facet_attributes\<close>)
  obtain m' where m': "beat ''b'' 1 (report 2 True True) m = Some m'"
    "holds_entries ((entries f ta tb tc td)(''a'' \<mapsto> node_entry 1 Healthy True False 1,
       ''b'' \<mapsto> node_entry 2 Healthy True True 1)) m'"
    by (rule beat_entries [OF m(2), of 2 "''b''" Healthy Healthy]) auto
  obtain m'' where m'': "beat ''c'' 1 (report 3 True False) m' = Some m''"
    "holds_entries ((entries f ta tb tc td)(''a'' \<mapsto> node_entry 1 Healthy True False 1,
       ''b'' \<mapsto> node_entry 2 Healthy True True 1, ''c'' \<mapsto> node_entry 3 Healthy True False 1)) m''"
    by (rule beat_entries [OF m'(2), of 3 "''c''" Healthy Healthy]) auto
  have "entries ?g 1 1 1 td = (entries f ta tb tc td)(''a'' \<mapsto> node_entry 1 Healthy True False 1,
       ''b'' \<mapsto> node_entry 2 Healthy True True 1, ''c'' \<mapsto> node_entry 3 Healthy True False 1)"
    by (auto simp: fun_eq_iff entries_eq facet_attributes)
  with m''(2) have "members_of ?g m''" by (intro members_ofI [of 1 _ 1 1 td]) simp_all
  then have "stands_for ?g (on_membership (\<lambda>_. m'') (on_placement (restore_from []) h))"
    using assms restore_layouts(1)
    by (simp add: stands_for_def on_membership_def on_placement_def cp_of_def)
  with m(1) m'(1) m''(1) show ?thesis
    by (simp add: answers_def harness_apply_def facet_step_def prepare_cold_start_def Let_def)
qed

lemma answers_restore:
  assumes "stands_for f h" and "fc_layout f = On_ABC"
  shows "answers ''restore_snapshot_bcd'' f h"
proof -
  obtain a where a: "assignment [2, 3, 4] 2 = Some a" and p: "restore_from [a] (placement_of On_ABC) = placement_of On_BCD"
    using restore_layouts(2) by auto
  have "stands_for (f\<lparr>fc_layout := On_BCD\<rparr>) (on_placement (\<lambda>_. placement_of On_BCD) h)"
    by (rule stands_for_placement [OF assms(1)]) (use assms(2) in \<open>simp_all add: b_leads_def\<close>)
  moreover have "on_placement (restore_from [a]) h = on_placement (\<lambda>_. placement_of On_BCD) h"
    using assms p by (simp add: on_placement_def stands_for_def)
  ultimately show ?thesis using a by (simp add: answers_def harness_apply_def facet_step_def)
qed

lemma answers_forget_rejected:
  assumes "stands_for f h" and "fc_leads f" and "fc_a f = A_Evacuated" and "fc_layout f \<in> {On_ABC, Adopted}"
  shows "answers ''attempt_forget_a_rejected'' f h"
proof -
  from assms(1) obtain ta tb tc td where t: "ta \<le> 1"
    and e: "holds_entries (entries f ta tb tc td) (sm_membership (hs_sm h))" by (rule stands_forE)
  have "membership_inv (sm_membership (hs_sm h))" "node_at (sm_membership (hs_sm h)) ''a'' \<noteq> None"
    using e assms(3) by (auto simp: holds_entries_def facet_attributes)
  moreover have "hc_leader (hs_cp h)" "sm_placement (hs_sm h) = placement_of (fc_layout f)"
    using assms(1,2) by (simp_all add: stands_for_def cp_of_def)
  ultimately have "harness_propose (ForgetNode ''a'') (hs_cp h) (hs_sm h) = (True, hs_cp h, hs_sm h)"
    using assms(4) by (auto simp: harness_propose_forget_a assigned_placement_of)
  with assms(1) show ?thesis
    by (simp add: answers_def harness_apply_def facet_step_def ensure_def RECONCILE_ACTIONS_def stands_for_def Let_def)
qed

lemma answers_reconcile:
  assumes "stands_for f h" and "facets_ok f" and "name \<in> set RECONCILE_ACTIONS"
    and "quint_action name (quint_of f) \<noteq> None"
    and "name \<noteq> ''reconcile_incomplete_hold'' \<or> \<not> overlooks_forget (quint_of f)"
  shows "answers name f h"
proof -
  have "stands_for (facet_step name f) (harness_reconcile h)"
  proof (cases "fc_leads f")
    case True
    have "follows f (decision f ta tb tc td) (facet_step name f)" for ta tb tc td
    proof -
      have "decision_follows ta tb tc td f"
        using decisions_follow [of ta tb tc td] all_facets [of f] True assms(2) by (simp add: list_all_iff)
      from bspec [OF this [unfolded decision_follows_def list_all_iff] assms(3)] assms(4,5) show ?thesis by argo
    qed
    from reconcile_leading [OF assms(2) True assms(1) this] show ?thesis .
  next
    case False
    then have "name = ''reconcile_follower_hold''"
      using reconcile_needs_leader [OF assms(3,4)] by (simp add: quint_of_def)
    moreover have "harness_reconcile h = h"
      using False assms(1) by (simp add: harness_reconcile_def reconcile_def stands_for_def cp_of_def)
    ultimately show ?thesis using assms(1) by (simp add: facet_step_def)
  qed
  moreover have "harness_apply name h = Some (Inr (), harness_reconcile h)"
    using assms(3) unfolding RECONCILE_ACTIONS_def list.set insert_iff empty_iff
    by (elim disjE FalseE; hypsubst; simp add: harness_apply_def RECONCILE_ACTIONS_def)
  ultimately show ?thesis by (simp add: answers_def)
qed

lemma quint_action_names:
  "fst ` set quint_actions =
     set RECONCILE_ACTIONS \<union> {''become_follower'', ''become_leader'', ''idle''} \<union>
     {''lose_a_from_soft_membership'', ''heartbeat_a'', ''add_d'', ''mark_a_dead'', ''begin_drain_a'', ''evacuate_a'',
      ''prepare_cold_start'', ''restore_snapshot_bcd'', ''attempt_forget_a_rejected''}"
  by code_simp

text \<open>Every action of the model, from every state, except the one the model and the scheduler disagree on.\<close>

lemma action_simulated:
  assumes "stands_for f h" and "facets_ok f" and "quint_action name (quint_of f) \<noteq> None"
    and "name \<noteq> ''reconcile_incomplete_hold'' \<or> \<not> overlooks_forget (quint_of f)"
  shows "answers name f h"
proof -
  note shapes = enabled_shapes [OF assms(2)]
  have "name \<in> fst ` set quint_actions"
    using assms(3) by (auto simp: quint_action_def split: option.splits dest!: map_of_SomeD intro: rev_image_eqI)
  then consider "name \<in> set RECONCILE_ACTIONS"
    | "name \<in> {''become_follower'', ''become_leader'', ''idle''}"
    | "name = ''lose_a_from_soft_membership''" | "name = ''heartbeat_a''" | "name = ''add_d''" | "name = ''mark_a_dead''"
    | "name = ''begin_drain_a''" | "name = ''evacuate_a''" | "name = ''prepare_cold_start''"
    | "name = ''restore_snapshot_bcd''" | "name = ''attempt_forget_a_rejected''"
    unfolding quint_action_names by (elim UnE insertE emptyE) simp_all
  then show ?thesis
  proof cases
    case 1
    from answers_reconcile [OF assms(1,2) 1 assms(3,4)] show ?thesis .
  next
    case 2
    have "members_of (f\<lparr>fc_leads := b\<rparr>) m = members_of f m" for b m
      using entries_cong [of "f\<lparr>fc_leads := b\<rparr>" f] by (simp add: members_of_def b_leads_def)
    with 2 assms(1) show ?thesis
      by (elim insertE emptyE; simp add: answers_def harness_apply_def facet_step_def stands_for_def cp_of_def)
  next
    case 6
    then have "a_healthy f" using assms(3) shapes(4) by (simp_all add: quint_action_simps)
    from 6 mark_a_dead_simulated [OF assms(1) this] show ?thesis
      by (cases "mark_a_dead h") (simp add: answers_def harness_apply_def facet_step_def)
  next
    case 3
    then have "fc_a f = A_Leading" using assms(3) shapes(1) by (simp_all add: quint_action_simps)
    from answers_lose [OF assms(1) this] 3 show ?thesis by simp
  next
    case 4
    then have "fc_a f = A_Absent" using assms(3) shapes(2) by (simp_all add: quint_action_simps)
    from answers_heartbeat [OF assms(1,2) this] 4 show ?thesis by simp
  next
    case 5
    then have "\<not> fc_d f" using assms(3) shapes(3) by (simp_all add: quint_action_simps)
    from answers_add_d [OF assms(1) this] 5 show ?thesis by simp
  next
    case 7
    then have "a_healthy f" using assms(3) shapes(5) by (simp_all add: quint_action_simps)
    from answers_begin_drain [OF assms(1) this] 7 show ?thesis by simp
  next
    case 8
    then have "fc_a f = A_Draining" using assms(3) shapes(6) by (simp_all add: quint_action_simps)
    from answers_evacuate [OF assms(1) this] 8 show ?thesis by simp
  next
    case 9
    then have "fc_a f = A_Leading" "fc_layout f = On_ABC" using assms(3) shapes(7) by (simp_all add: quint_action_simps)
    from answers_cold_start [OF assms(1) this] 9 show ?thesis by simp
  next
    case 10
    then have "fc_layout f = On_ABC" using assms(3) shapes(8) by (simp_all add: quint_action_simps)
    from answers_restore [OF assms(1) this] 10 show ?thesis by simp
  next
    case 11
    then have "fc_leads f" "fc_a f = A_Evacuated" "fc_layout f \<in> {On_ABC, Adopted}" using assms(3) shapes(9) by (simp_all add: quint_action_simps)
    from answers_forget_rejected [OF assms(1) this] 11 show ?thesis by simp
  qed
qed

end
