(* ===== verification/Replay_Refinement.thy ===== *)
theory Replay_Refinement
  imports Replay_Simulation
begin

section \<open>Traces of the Quint model replay on the scheduler\<close>

text \<open>
  A run of the model (\<open>quint_run\<close>), its rendering in the ITF format (\<open>itf_document\<close>), and the outcome of
  \<open>replay_document\<close> on it: every run passes, unless it holds a shard in the state that the scheduler treats
  differently (\<open>replayable\<close>).
\<close>

subsection \<open>Runs and their rendering\<close>

fun quint_run :: "quint_state \<Rightarrow> (string \<times> quint_state) list \<Rightarrow> bool" where
  "quint_run q [] \<longleftrightarrow> True"
| "quint_run q ((name, q') # steps) \<longleftrightarrow> quint_action name q = Some q' \<and> quint_run q' steps"

fun replayable :: "quint_state \<Rightarrow> (string \<times> quint_state) list \<Rightarrow> bool" where
  "replayable q [] \<longleftrightarrow> True"
| "replayable q ((name, q') # steps) \<longleftrightarrow>
     \<not> (name = ''reconcile_incomplete_hold'' \<and> overlooks_forget q) \<and> replayable q' steps"

definition itf_number :: "nat \<Rightarrow> json" where
  "itf_number n = JObject [(''#bigint'', JString (show_nat n))]"

definition itf_numbers :: "nat set \<Rightarrow> json" where
  "itf_numbers ns = JObject [(''#set'', JArray (map itf_number (sorted_list_of_set ns)))]"

definition itf_state :: "quint_state \<Rightarrow> json" where
  "itf_state q =
     JObject
       [(''role'', JObject [(''tag'', JString (case q_role q of Leading \<Rightarrow> ''Leader'' | Following \<Rightarrow> ''Follower''))]),
        (''known'', itf_numbers (q_known q)), (''healthy'', itf_numbers (q_healthy q)),
        (''draining'', itf_numbers (q_draining q)), (''hosted'', itf_numbers (q_hosted q)),
        (''observed_leader'', itf_number (q_observed_leader q)), (''placement'', itf_numbers (q_placement q)),
        (''preferred_leader'', itf_number (q_preferred_leader q)), (''generation'', itf_number (q_generation q)),
        (''forgotten'', itf_numbers (q_forgotten q))]"

definition itf_step :: "string \<times> quint_state \<Rightarrow> json" where
  "itf_step st = JObject [(''mbt::actionTaken'', JString (fst st)), (''s'', itf_state (snd st))]"

definition itf_document :: "(string \<times> quint_state) list \<Rightarrow> json" where
  "itf_document steps = JObject [(''states'', JArray (map itf_step ((''init'', quint_init) # steps)))]"

subsection \<open>Reading a rendered state\<close>

lemma itf_bigint_number: "n < 2 ^ 64 \<Longrightarrow> itf_bigint (itf_number n) field = Inr n"
  using parse_show_nat [of n 64] by (simp add: itf_bigint_def itf_number_def)

lemma collect_set_all: "collect_set (map Inr ns) = Inr (set ns)"
  by (induction ns) auto

lemma itf_set_numbers:
  assumes "ns \<subseteq> NODES"
  shows "itf_set (itf_numbers ns) field = Inr ns"
proof -
  have fin: "finite ns" using assms by (rule finite_subset) (simp add: NODES_def)
  have small: "n < 2 ^ 64" if "n \<in> ns" for n using assms that by (auto simp: NODES_def)
  have "map (\<lambda>e. itf_bigint e field) (map itf_number (sorted_list_of_set ns)) = map Inr (sorted_list_of_set ns)"
    using small fin by (simp add: itf_bigint_number)
  then show ?thesis
    using fin by (simp add: itf_set_def itf_numbers_def collect_set_all del: map_map)
qed

lemma leader_small: "k = NO_NODE \<or> k \<in> NODES \<Longrightarrow> k < 2 ^ 64"
  by (auto simp: NO_NODE_def NODES_def)

lemma expected_projection_itf:
  assumes "identifiers_are_bounded q" and "q_generation q < 2 ^ 64"
  shows "expected_projection (itf_state q) = Inr (quint_projection q)"
proof -
  have "itf_set (itf_numbers (q_known q)) fi = Inr (q_known q)" "itf_set (itf_numbers (q_healthy q)) fi = Inr (q_healthy q)"
    "itf_set (itf_numbers (q_draining q)) fi = Inr (q_draining q)" "itf_set (itf_numbers (q_hosted q)) fi = Inr (q_hosted q)"
    "itf_set (itf_numbers (q_placement q)) fi = Inr (q_placement q)"
    "itf_set (itf_numbers (q_forgotten q)) fi = Inr (q_forgotten q)"
    "itf_bigint (itf_number (q_observed_leader q)) fi = Inr (q_observed_leader q)"
    "itf_bigint (itf_number (q_preferred_leader q)) fi = Inr (q_preferred_leader q)" for fi
    using assms(1) unfolding identifiers_are_bounded_def
    by (auto intro!: itf_set_numbers itf_bigint_number leader_small)
  with itf_bigint_number [OF assms(2)] show ?thesis
    by (cases "q_role q")
      (simp_all add: expected_projection_def itf_state_def itf_tag_def sum_bind_def quint_projection_def)
qed

lemma expected_projection_safe:
  "scheduler_safety q \<Longrightarrow> expected_projection (itf_state q) = Inr (quint_projection q)"
  by (rule expected_projection_itf) (simp_all add: scheduler_safety_def transition_accounting_is_bounded_def)

subsection \<open>The first state\<close>

lemma harness_starts: "\<exists>h. harness_initial = Some h \<and> stands_for start_facets h"
proof -
  have e: "holds_entries Map.empty (new_membership harness_config)"
    by (simp add: holds_entries_def membership_inv_new) (simp add: new_membership_def)
  obtain m where m: "beat ''a'' 0 (report 1 True True) (new_membership harness_config) = Some m"
    "holds_entries [''a'' \<mapsto> node_entry 1 Healthy True True 0] m"
    by (rule beat_entries [OF e, of 1 "''a''" Healthy]) auto
  obtain m' where m': "beat ''b'' 0 (report 2 True False) m = Some m'"
    "holds_entries [''a'' \<mapsto> node_entry 1 Healthy True True 0, ''b'' \<mapsto> node_entry 2 Healthy True False 0] m'"
    by (rule beat_entries [OF m(2), of 2 "''b''" Healthy]) auto
  obtain m'' where m'': "beat ''c'' 0 (report 3 True False) m' = Some m''"
    "holds_entries [''a'' \<mapsto> node_entry 1 Healthy True True 0, ''b'' \<mapsto> node_entry 2 Healthy True False 0,
       ''c'' \<mapsto> node_entry 3 Healthy True False 0] m''"
    by (rule beat_entries [OF m'(2), of 3 "''c''" Healthy]) auto
  have "entries start_facets 0 0 0 0 = [''a'' \<mapsto> node_entry 1 Healthy True True 0,
      ''b'' \<mapsto> node_entry 2 Healthy True False 0, ''c'' \<mapsto> node_entry 3 Healthy True False 0]"
    by (auto simp: fun_eq_iff entries_eq facet_attributes start_facets_def)
  with m''(2) have "members_of start_facets m''" by (intro members_ofI [of 0 _ 0 0 0]) simp_all
  moreover have "map_option (\<lambda>a. assign a (new_placement 1)) (assignment [1, 2, 3] 1) = Some (placement_of On_ABC)"
    by code_simp
  ultimately show ?thesis
    using m(1) m'(1) m''(1)
    by (auto simp: harness_initial_def harness_config_def stands_for_def cp_of_def start_facets_def harness_plan_def)
qed

subsection \<open>Whole traces\<close>

lemma represented_enabled:
  assumes "represents f q" and "quint_action name q = Some q'"
  shows "quint_action name (quint_of f) \<noteq> None"
proof (cases "name = ''idle''")
  case True
  then show ?thesis by (simp add: quint_action_simps)
next
  case False
  obtain act where act: "map_of quint_actions name = Some act" "act q = Some q'"
    using assms(2) by (auto simp: quint_action_def split: option.splits)
  have "act (quint_of f) = act q"
    using action_ignores_accounting [OF map_of_SomeD [OF act(1)] False, of InitEvent False False q] assms(1)
    by (simp add: represents_def)
  then show ?thesis using act by (simp add: quint_action_def)
qed

lemma represented_reads:
  assumes "represents f q"
  shows "overlooks_forget (quint_of f) = overlooks_forget q" and "quint_projection (quint_of f) = quint_projection q"
proof -
  have eq: "quint_of f = account InitEvent False False q" using assms by (simp add: represents_def)
  show "overlooks_forget (quint_of f) = overlooks_forget q" "quint_projection (quint_of f) = quint_projection q"
    by (simp_all add: eq overlooks_forget_def quint_projection_def account_def)
qed

lemma replay_states_run:
  assumes "quint_run q steps" and "replayable q steps" and "represents f q" and "scheduler_safety q" and "stands_for f h"
    and "n \<le> u64_max"
  shows "replay_states p i (map itf_step steps) h n acts =
    Some (Inr (min (n + length (filter (\<lambda>st. fst st \<noteq> ''idle'') steps)) u64_max, acts \<union> fst ` set steps))"
  using assms
proof (induction steps arbitrary: q f h n i acts)
  case Nil
  then show ?case by simp
next
  case (Cons st steps)
  obtain name q' where st: "st = (name, q')" by fastforce
  have act: "quint_action name q = Some q'" and run: "quint_run q' steps" and rep: "replayable q' steps"
    using Cons.prems(1,2) by (simp_all add: st)
  note next_state = represented_step [OF Cons.prems(3) act]
  obtain h' where h': "harness_apply name h = Some (Inr (), h')" "stands_for (facet_step name f) h'"
    using action_simulated [OF Cons.prems(5) _ represented_enabled [OF Cons.prems(3) act]] Cons.prems(2,3)
      represented_reads(1) [OF Cons.prems(3)] by (auto simp: answers_def st represents_def)
  have safe: "scheduler_safety q'" using next_state Cons.prems(4) by blast
  have proj: "harness_projection h' = quint_projection q'"
    using projection_stands_for [OF _ h'(2)] next_state represented_reads(2) [of "facet_step name f" q']
    by (simp add: represents_def)
  let ?n = "if name \<noteq> ''idle'' then sat_add64 n 1 else n"
  have "?n \<le> u64_max" using Cons.prems(6) by (simp add: sat_add64_def)
  note rest = Cons.IH [OF run rep conjunct1 [OF next_state] safe h'(2) this, of "Suc i" "insert name acts"]
  show ?case
    using rest h'(1) proj expected_projection_safe [OF safe] Cons.prems(6)
    by (simp add: st itf_step_def Let_def sat_add64_def) (simp add: min_def)
qed


lemma replay_document_run:
  assumes "quint_run quint_init steps" and "replayable quint_init steps"
  shows "replay_document p (itf_document steps) =
    Some (Inr \<lparr>ts_states = Suc (length steps),
               ts_non_idle_transitions = min (length (filter (\<lambda>st. fst st \<noteq> ''idle'') steps)) u64_max,
               ts_actions = insert ''init'' (fst ` set steps)\<rparr>)"
proof -
  obtain h where h: "harness_initial = Some h" "stands_for start_facets h" using harness_starts by blast
  have proj: "harness_projection h = quint_projection quint_init"
    using projection_stands_for [OF _ h(2)] represents_init represented_reads(2) [OF represents_init]
    by (simp add: represents_def)
  have "replay_states p 1 (map itf_step steps) h 0 {''init''} =
      Some (Inr (min (0 + length (filter (\<lambda>st. fst st \<noteq> ''idle'') steps)) u64_max, {''init''} \<union> fst ` set steps))"
    by (rule replay_states_run [OF assms represents_init init_is_safe h(2)]) simp
  then show ?thesis
    using proj expected_projection_safe [OF init_is_safe]
    by (simp add: h(1) replay_document_def itf_document_def itf_step_def [of "(''init'', quint_init)"])
qed

subsection \<open>A corpus of traces\<close>

definition trace_actions :: "(path \<Rightarrow> (replay_mismatch + trace_summary) option) \<Rightarrow> path \<Rightarrow> string set" where
  "trace_actions replay p = (case replay p of Some (Inr t) \<Rightarrow> ts_actions t | _ \<Rightarrow> {})"

definition trace_passes :: "(path \<Rightarrow> (replay_mismatch + trace_summary) option) \<Rightarrow> path \<Rightarrow> bool" where
  "trace_passes replay p \<longleftrightarrow> (case replay p of Some (Inr t) \<Rightarrow> True | _ \<Rightarrow> False)"

text \<open>What going over a corpus adds to the summary.\<close>

definition extends :: "(path \<Rightarrow> (replay_mismatch + trace_summary) option) \<Rightarrow> path list \<Rightarrow> replay_summary \<Rightarrow> replay_summary \<Rightarrow> bool" where
  "extends replay paths s s' \<longleftrightarrow>
     rs_traces_total s' = rs_traces_total s \<and>
     (rs_mismatches s' = [] \<longleftrightarrow> rs_mismatches s = [] \<and> list_all (trace_passes replay) paths) \<and>
     (list_all (trace_passes replay) paths \<longrightarrow> rs_traces_passed s' = min (rs_traces_passed s + length paths) u64_max) \<and>
     rs_actions s' = rs_actions s \<union> (\<Union>p \<in> set paths. trace_actions replay p)"

lemma replay_all_outcome:
  assumes "\<forall>p \<in> set paths. replay p \<noteq> None" and "rs_traces_passed s \<le> u64_max"
  shows "\<exists>s'. replay_all replay paths s = Some s' \<and> extends replay paths s s'"
  using assms
proof (induction paths arbitrary: s)
  case Nil
  then show ?case by (simp add: extends_def)
next
  case (Cons p paths)
  then obtain r where r: "replay p = Some r" by auto
  show ?case
  proof (cases r)
    case (Inl m)
    then have "\<not> trace_passes replay p" "trace_actions replay p = {}"
      using r by (simp_all add: trace_passes_def trace_actions_def)
    with Cons.IH [of "s\<lparr>rs_mismatches := rs_mismatches s @ [m]\<rparr>"] Cons.prems r Inl show ?thesis
      by (auto simp: extends_def)
  next
    case (Inr t)
    let ?s = "s\<lparr>rs_traces_passed := sat_add64 (rs_traces_passed s) 1,
               rs_states := sat_add64 (rs_states s) (ts_states t),
               rs_non_idle_transitions := sat_add64 (rs_non_idle_transitions s) (ts_non_idle_transitions t),
               rs_actions := rs_actions s \<union> ts_actions t\<rparr>"
    have run: "replay_all replay (p # paths) s = replay_all replay paths ?s" using r Inr by simp
    obtain s' where s': "replay_all replay paths ?s = Some s'" "extends replay paths ?s s'"
      using Cons.IH [of ?s] Cons.prems by (auto simp: sat_add64_bound)
    have "trace_passes replay p" "trace_actions replay p = ts_actions t"
      using r Inr by (simp_all add: trace_passes_def trace_actions_def)
    moreover have "min (sat_add64 a 1 + k) u64_max = min (a + Suc k) u64_max" for a k
      by (auto simp: sat_add64_def min_def)
    ultimately have "extends replay (p # paths) s s'"
      using s'(2) by (simp add: extends_def Un_assoc)
    then show ?thesis using run s'(1) by simp
  qed
qed

lemma check_coverage_success:
  "replay_success (check_coverage paths s) \<longleftrightarrow>
     replay_success s \<and> (paths = [] \<or> set REQUIRED_ACTIONS \<subseteq> rs_actions s)"
proof -
  have "filter (\<lambda>action. action \<notin> rs_actions s) REQUIRED_ACTIONS = [] \<longleftrightarrow> set REQUIRED_ACTIONS \<subseteq> rs_actions s"
    by (auto simp: filter_empty_conv)
  then show ?thesis by (cases paths) (auto simp: check_coverage_def replay_success_def Let_def)
qed


subsection \<open>Sample runs\<close>

text \<open>The run that takes the named actions in turn.\<close>

fun quint_trace :: "quint_state \<Rightarrow> string list \<Rightarrow> (string \<times> quint_state) list" where
  "quint_trace q [] = []"
| "quint_trace q (name # names) = (let q' = the (quint_action name q) in (name, q') # quint_trace q' names)"

definition cold_run :: "(string \<times> quint_state) list" where
  "cold_run = quint_trace quint_init
     [''become_follower'', ''reconcile_follower_hold'', ''become_leader'', ''lose_a_from_soft_membership'',
      ''reconcile_incomplete_hold'', ''heartbeat_a'', ''reconcile_idempotent'', ''prepare_cold_start'',
      ''reconcile_cold_adopt'', ''idle'']"

definition failure_run :: "(string \<times> quint_state) list" where
  "failure_run = quint_trace quint_init [''add_d'', ''mark_a_dead'', ''reconcile_replace_dead_a'']"

definition drain_run :: "(string \<times> quint_state) list" where
  "drain_run = quint_trace quint_init
     [''begin_drain_a'', ''evacuate_a'', ''reconcile_degraded_hold'', ''attempt_forget_a_rejected'', ''add_d'',
      ''reconcile_replace_and_forget_drained_a'']"

definition restore_run :: "(string \<times> quint_state) list" where
  "restore_run = quint_trace quint_init
     [''restore_snapshot_bcd'', ''add_d'', ''begin_drain_a'', ''evacuate_a'', ''reconcile_forget_drained_a_after_placement'']"

definition overlooking_run :: "(string \<times> quint_state) list" where
  "overlooking_run = quint_trace quint_init
     [''restore_snapshot_bcd'', ''begin_drain_a'', ''evacuate_a'', ''reconcile_incomplete_hold'']"

lemma sample_runs:
  "quint_run quint_init cold_run \<and> replayable quint_init cold_run"
  "quint_run quint_init failure_run \<and> replayable quint_init failure_run"
  "quint_run quint_init drain_run \<and> replayable quint_init drain_run"
  "quint_run quint_init restore_run \<and> replayable quint_init restore_run"
  "quint_run quint_init overlooking_run \<and> \<not> replayable quint_init overlooking_run"
  by code_simp+

definition corpus :: "path \<Rightarrow> (string \<times> quint_state) list" where
  "corpus p = (if p = [''cold''] then cold_run else if p = [''failure''] then failure_run
     else if p = [''drain''] then drain_run else restore_run)"

definition replay_corpus :: "path \<Rightarrow> (replay_mismatch + trace_summary) option" where
  "replay_corpus p = replay_document p (itf_document (corpus p))"

lemma corpus_replays:
  "\<exists>t. replay_corpus p = Some (Inr t) \<and> ts_actions t = insert ''init'' (fst ` set (corpus p))"
proof -
  have "quint_run quint_init (corpus p)" "replayable quint_init (corpus p)"
    using sample_runs by (simp_all add: corpus_def)
  from replay_document_run [OF this, of p] show ?thesis by (simp add: replay_corpus_def)
qed

lemma corpus_actions:
  "trace_passes replay_corpus p" "trace_actions replay_corpus p = insert ''init'' (fst ` set (corpus p))"
proof -
  obtain t where "replay_corpus p = Some (Inr t)" "ts_actions t = insert ''init'' (fst ` set (corpus p))"
    using corpus_replays by blast
  then show "trace_passes replay_corpus p" "trace_actions replay_corpus p = insert ''init'' (fst ` set (corpus p))"
    by (simp_all add: trace_passes_def trace_actions_def)
qed

lemma corpus_covers:
  "set REQUIRED_ACTIONS \<subseteq>
     fst ` set cold_run \<union> fst ` set failure_run \<union> fst ` set drain_run \<union> fst ` set restore_run"
  by code_simp

subsection \<open>Properties\<close>

text \<open>
  C10. The scheduler follows its Quint model: the replay of a trace that records a run of the model, of any length,
  passes and reports every state and action of it. The production membership, placement and reconciliation
  answer each action with the observable state that the model prescribes, unless the run holds a shard with an
  unknown replica while a drained, empty and unassigned node waits to be forgotten.
\<close>

theorem model_traces_replay:
  assumes "Option.bind (read p) parse = Some (itf_document steps)"
    and "quint_run quint_init steps" and "replayable quint_init steps"
  shows "replay_trace read parse p =
    Some (Inr \<lparr>ts_states = Suc (length steps),
               ts_non_idle_transitions = min (length (filter (\<lambda>st. fst st \<noteq> ''idle'') steps)) u64_max,
               ts_actions = insert ''init'' (fst ` set steps)\<rparr>)"
  using replay_document_run [OF assms(2,3)] assms(1) by (simp add: replay_trace_def)

theorem model_traces_replay_witness:
  "replay_trace (\<lambda>_. Some (itf_document drain_run)) Some [''drain''] =
     Some (Inr \<lparr>ts_states = 7, ts_non_idle_transitions = 6,
       ts_actions = {''init'', ''begin_drain_a'', ''evacuate_a'', ''reconcile_degraded_hold'',
         ''attempt_forget_a_rejected'', ''add_d'', ''reconcile_replace_and_forget_drained_a''}\<rparr>)"
proof -
  have vals: "Suc (length drain_run) = 7" "length (filter (\<lambda>st. fst st \<noteq> ''idle'') drain_run) = 6"
    "insert ''init'' (fst ` set drain_run) = {''init'', ''begin_drain_a'', ''evacuate_a'', ''reconcile_degraded_hold'',
       ''attempt_forget_a_rejected'', ''add_d'', ''reconcile_replace_and_forget_drained_a''}"
    by code_simp+
  have "min 6 u64_max = 6" by (simp add: u64_max_def)
  with model_traces_replay [of "\<lambda>_. Some (itf_document drain_run)" "[''drain'']" Some drain_run] sample_runs(3) show ?thesis
    unfolding vals by simp
qed



text \<open>
  The verdict on a corpus: when no replay panics, \<open>replay_paths\<close> returns a summary, and it is a success exactly
  when the corpus is not empty, every trace passes and together they take every required action.
\<close>

theorem replay_verdict:
  assumes "\<forall>p \<in> set paths. replay p \<noteq> None" and "length paths \<le> u64_max"
  shows "map_option replay_success (replay_paths replay paths) =
    Some (paths \<noteq> [] \<and> list_all (trace_passes replay) paths \<and>
      set REQUIRED_ACTIONS \<subseteq> (\<Union>p \<in> set paths. trace_actions replay p))"
proof -
  let ?s = "\<lparr>rs_traces_total = min (length paths) u64_max, rs_traces_passed = 0, rs_states = 0, rs_non_idle_transitions = 0,
     rs_actions = {}, rs_mismatches = []\<rparr>"
  obtain s' where run: "replay_all replay paths ?s = Some s'" and ex: "extends replay paths ?s s'"
    using replay_all_outcome [OF assms(1), of ?s] by auto
  have "replay_success s' \<longleftrightarrow> paths \<noteq> [] \<and> list_all (trace_passes replay) paths"
    using ex assms(2) by (auto simp: replay_success_def extends_def)
  with ex show ?thesis by (auto simp: replay_paths_def run check_coverage_success extends_def)
qed

theorem replay_verdict_witness:
  "map_option replay_success (replay_paths replay_corpus [[''cold''], [''failure''], [''drain''], [''restore'']]) = Some True"
proof -
  let ?paths = "[[''cold''], [''failure''], [''drain''], [''restore'']]"
  have "replay_corpus p \<noteq> None" for p using corpus_replays [of p] by auto
  moreover have "length ?paths \<le> u64_max" by (simp add: u64_max_def)
  moreover have "set REQUIRED_ACTIONS \<subseteq> (\<Union>p \<in> set ?paths. trace_actions replay_corpus p)"
    using corpus_covers by (auto simp: corpus_actions(2) corpus_def)
  ultimately show ?thesis
    by (subst replay_verdict) (simp_all add: corpus_actions(1))
qed

text \<open>
  The round trip through the ITF format: reading back the rendering of a model state gives its observable part,
  for every state whose nodes are among the four and whose generation fits 64 bits.
\<close>

theorem itf_state_roundtrip:
  assumes "identifiers_are_bounded q" and "q_generation q < 2 ^ 64"
  shows "expected_projection (itf_state q) = Inr (quint_projection q)"
  by (rule expected_projection_itf [OF assms])

theorem itf_state_roundtrip_witness:
  "expected_projection (itf_state quint_init) =
     Inr \<lparr>pj_leader = True, pj_known = {1, 2, 3}, pj_healthy = {1, 2, 3}, pj_draining = {}, pj_hosted = {1, 2, 3},
          pj_observed_leader = 1, pj_placement = {1, 2, 3}, pj_preferred_leader = 1, pj_generation = 1, pj_forgotten = {}\<rparr>"
proof -
  have "identifiers_are_bounded quint_init" using init_is_safe by (simp add: scheduler_safety_def)
  from itf_state_roundtrip [OF this] show ?thesis by (simp add: quint_init_def quint_projection_def ABC_def)
qed

end
