(* ===== verification/Replay_Adapter.thy ===== *)
theory Replay_Adapter
  imports Replay_Refinement
begin

section \<open>The replay adapter (\<open>src/bin/fiducia-brain-scheduler-replay.rs\<close>)\<close>

text \<open>
  The program around the replay: with paths on its command line it checks them and reports to a person, without
  any it answers one request of the adapter protocol on its standard input. Standard input, the parser of
  requests, the test for a regular file and the replay of one trace are parameters; a write to standard output
  does not fail. \<open>None\<close> stands for a panic of the harness.
\<close>

definition ADAPTER_PROTOCOL :: string where
  "ADAPTER_PROTOCOL = ''fmctl.adapter.v1''"

record replay_request =
  rr_protocol :: string
  rr_project :: string
  rr_model :: string
  rr_adapter :: string
  rr_specification :: path
  rr_traces :: "path list"

record implementation =
  im_language :: string
  im_name :: string
  im_version :: string

record replay_response =
  rp_protocol :: string
  rp_success :: bool
  rp_traces_total :: nat
  rp_traces_passed :: nat
  rp_mismatches :: "replay_mismatch list"
  rp_implementation :: implementation

datatype adapter_error =
    Bad_Input
  | Bad_Protocol string
  | Bad_Adapter
  | Bad_Project string
  | Bad_Model string
  | No_Specification path
  | No_Traces
  | Not_A_File path
  | Refinement_Failed nat nat "replay_mismatch list"

datatype adapter_output = Response replay_response | Conformed nat nat nat nat

definition require :: "bool \<Rightarrow> adapter_error \<Rightarrow> adapter_error + unit" where
  "require condition e = (if condition then Inr () else Inl e)"

fun require_files :: "(path \<Rightarrow> bool) \<Rightarrow> path list \<Rightarrow> adapter_error + unit" where
  "require_files is_file [] = Inr ()"
| "require_files is_file (p # paths) = sum_bind (require (is_file p) (Not_A_File p)) (\<lambda>_. require_files is_file paths)"

definition check_request :: "(path \<Rightarrow> bool) \<Rightarrow> replay_request \<Rightarrow> adapter_error + unit" where
  "check_request is_file r =
     sum_bind (require (rr_protocol r = ADAPTER_PROTOCOL) (Bad_Protocol (rr_protocol r))) (\<lambda>_.
     sum_bind (require (rr_adapter r = ''rust'') Bad_Adapter) (\<lambda>_.
     sum_bind (require (rr_project r = ''fiducia-brain.rs'') (Bad_Project (rr_project r))) (\<lambda>_.
     sum_bind (require (rr_model r = ''brain-scheduler'') (Bad_Model (rr_model r))) (\<lambda>_.
     sum_bind (require (is_file (rr_specification r)) (No_Specification (rr_specification r))) (\<lambda>_.
     sum_bind (require (rr_traces r \<noteq> []) No_Traces) (\<lambda>_. require_files is_file (rr_traces r)))))))"

definition response_of :: "string \<Rightarrow> replay_summary \<Rightarrow> replay_response" where
  "response_of version s =
     \<lparr>rp_protocol = ADAPTER_PROTOCOL, rp_success = replay_success s, rp_traces_total = rs_traces_total s,
      rp_traces_passed = rs_traces_passed s, rp_mismatches = rs_mismatches s,
      rp_implementation = \<lparr>im_language = ''rust'', im_name = ''fiducia-brain Scheduler'', im_version = version\<rparr>\<rparr>"

definition run_protocol ::
  "string \<Rightarrow> (path \<Rightarrow> bool) \<Rightarrow> (path \<Rightarrow> (replay_mismatch + trace_summary) option) \<Rightarrow> replay_request option
    \<Rightarrow> (adapter_error + adapter_output) option" where
  "run_protocol version is_file replay request =
     (case request of
        None \<Rightarrow> Some (Inl Bad_Input)
      | Some r \<Rightarrow>
          (case check_request is_file r of
             Inl e \<Rightarrow> Some (Inl e)
           | Inr _ \<Rightarrow> map_option (\<lambda>s. Inr (Response (response_of version s))) (replay_paths replay (rr_traces r))))"

definition run_human ::
  "(path \<Rightarrow> bool) \<Rightarrow> (path \<Rightarrow> (replay_mismatch + trace_summary) option) \<Rightarrow> path list
    \<Rightarrow> (adapter_error + adapter_output) option" where
  "run_human is_file replay paths =
     (case require_files is_file paths of
        Inl e \<Rightarrow> Some (Inl e)
      | Inr _ \<Rightarrow>
          map_option (\<lambda>s.
            if \<not> replay_success s
            then Inl (Refinement_Failed (sat_sub (rs_traces_total s) (rs_traces_passed s)) (rs_traces_total s) (rs_mismatches s))
            else Inr (Conformed (rs_states s) (rs_non_idle_transitions s) (rs_traces_total s) (length REQUIRED_ACTIONS)))
            (replay_paths replay paths))"

text \<open>\<open>stdin\<close> is the text read, if reading succeeds, and \<open>parse\<close> the parser of requests.\<close>

definition replay_main ::
  "string \<Rightarrow> (path \<Rightarrow> bool) \<Rightarrow> (path \<Rightarrow> (replay_mismatch + trace_summary) option) \<Rightarrow> (string \<Rightarrow> replay_request option)
    \<Rightarrow> string option \<Rightarrow> path list \<Rightarrow> (adapter_error + adapter_output) option" where
  "replay_main version is_file replay parse stdin args =
     (if args = [] then run_protocol version is_file replay (Option.bind stdin parse)
      else run_human is_file replay (sort args))"

subsection \<open>Lemmas\<close>

lemma sum_bind_Inr: "sum_bind r f = Inr y \<longleftrightarrow> (\<exists>x. r = Inr x \<and> f x = Inr y)"
  by (cases r) (simp_all add: sum_bind_def)

lemma require_Inr: "require c e = Inr u \<longleftrightarrow> c"
  by (simp add: require_def)

lemma require_files_Inr: "require_files is_file paths = Inr u \<longleftrightarrow> list_all is_file paths"
  by (induction paths) (auto simp: sum_bind_Inr require_Inr)

lemma check_request_Inr:
  "check_request is_file r = Inr u \<longleftrightarrow>
     rr_protocol r = ADAPTER_PROTOCOL \<and> rr_adapter r = ''rust'' \<and> rr_project r = ''fiducia-brain.rs'' \<and>
     rr_model r = ''brain-scheduler'' \<and> is_file (rr_specification r) \<and> rr_traces r \<noteq> [] \<and>
     list_all is_file (rr_traces r)"
  by (auto simp: check_request_def sum_bind_Inr require_Inr require_files_Inr)


text \<open>Whether a corpus conforms, whether the adapter says so, and which corpus it was asked about.\<close>

definition corpus_conforms :: "(path \<Rightarrow> (replay_mismatch + trace_summary) option) \<Rightarrow> path list \<Rightarrow> bool" where
  "corpus_conforms replay paths \<longleftrightarrow>
     paths \<noteq> [] \<and> list_all (trace_passes replay) paths \<and>
     set REQUIRED_ACTIONS \<subseteq> (\<Union>p \<in> set paths. trace_actions replay p)"

definition reports_success :: "adapter_error + adapter_output \<Rightarrow> bool" where
  "reports_success result \<longleftrightarrow>
     (case result of Inl e \<Rightarrow> False | Inr (Response r) \<Rightarrow> rp_success r | Inr (Conformed _ _ _ _) \<Rightarrow> True)"

definition traces_asked ::
  "(path \<Rightarrow> bool) \<Rightarrow> (string \<Rightarrow> replay_request option) \<Rightarrow> string option \<Rightarrow> path list \<Rightarrow> path list option" where
  "traces_asked is_file parse stdin args =
     (if args = []
      then Option.bind (Option.bind stdin parse) (\<lambda>r.
             if check_request is_file r = Inr () then Some (rr_traces r) else None)
      else if list_all is_file args then Some (sort args) else None)"

lemma run_human_verdict:
  assumes "\<forall>p \<in> set paths. replay p \<noteq> None" and "length paths \<le> u64_max"
  shows "map_option reports_success (run_human is_file replay paths) =
    Some (list_all is_file paths \<and> corpus_conforms replay paths)"
proof (cases "list_all is_file paths")
  case True
  then have "require_files is_file paths = Inr ()" by (simp add: require_files_Inr)
  with True replay_verdict [OF assms] show ?thesis
    by (auto simp: run_human_def reports_success_def corpus_conforms_def option.map_comp comp_def)
next
  case False
  then obtain e where "require_files is_file paths = Inl e"
    using require_files_Inr [of is_file paths] by (cases "require_files is_file paths") auto
  with False show ?thesis by (simp add: run_human_def reports_success_def)
qed

lemma run_protocol_verdict:
  assumes "\<forall>p \<in> set (rr_traces r). replay p \<noteq> None" and "length (rr_traces r) \<le> u64_max"
  shows "map_option reports_success (run_protocol version is_file replay (Some r)) =
    Some (check_request is_file r = Inr () \<and> corpus_conforms replay (rr_traces r))"
proof (cases "check_request is_file r")
  case (Inl e)
  then show ?thesis by (simp add: run_protocol_def reports_success_def)
next
  case (Inr u)
  with replay_verdict [OF assms] show ?thesis
    by (auto simp: run_protocol_def reports_success_def corpus_conforms_def response_of_def option.map_comp comp_def)
qed

subsection \<open>Properties\<close>


definition sample_request :: replay_request where
  "sample_request =
     \<lparr>rr_protocol = ADAPTER_PROTOCOL, rr_project = ''fiducia-brain.rs'', rr_model = ''brain-scheduler'', rr_adapter = ''rust'',
      rr_specification = [''brain_scheduler.qnt''], rr_traces = [[''cold''], [''failure''], [''drain''], [''restore'']]\<rparr>"

lemma sample_request_ok: "check_request (\<lambda>_. True) sample_request = Inr ()"
  by (simp add: check_request_Inr sample_request_def list_all_iff)

lemma corpus_conforms_sample: "corpus_conforms replay_corpus (rr_traces sample_request)"
  using corpus_covers unfolding corpus_conforms_def sample_request_def
  by (auto simp: corpus_actions corpus_def)


end
