(* ===== verification/Oracle_Client.thy ===== *)
theory Oracle_Client
  imports Oracle
begin

section \<open>The poller of the liveness oracle (\<open>src/oracle.rs\<close>, \<open>src/main.rs\<close>)\<close>

text \<open>
  The client that reads the service account and lists the pods, and the choice between the Kubernetes oracle
  and the null oracle at start-up. The files under the service account directory are parameters (\<open>read\<close> for
  text, \<open>read_bytes\<close> for the certificate), as are the certificate parser \<open>from_pem\<close>, the client builder \<open>build\<close> with
  its time-out in milliseconds, and \<open>fetch\<close>, one authorised request whose body is JSON.
\<close>

definition SA_DIR :: string where
  "SA_DIR = ''/var/run/secrets/kubernetes.io/serviceaccount''"

definition NODE_LABEL_SELECTOR :: string where
  "NODE_LABEL_SELECTOR = ''app=fiducia-node''"

record 'c kube_api =
  ka_client :: 'c
  ka_base :: string
  ka_namespace :: string

definition in_cluster ::
  "(string \<Rightarrow> string option) \<Rightarrow> (string \<Rightarrow> 'b option) \<Rightarrow> ('b \<Rightarrow> 'cert option) \<Rightarrow> ('cert \<Rightarrow> nat \<Rightarrow> 'c option) \<Rightarrow> 'c kube_api option" where
  "in_cluster read read_bytes from_pem build =
     (case read (SA_DIR @ ''/token'') of
        None \<Rightarrow> None
      | Some _ \<Rightarrow>
          Option.bind (read_bytes (SA_DIR @ ''/ca.crt'')) (\<lambda>ca.
            let namespace =
              (case map_option trim (read (SA_DIR @ ''/namespace'')) of
                 Some s \<Rightarrow> if s = [] then ''fiducia'' else s
               | None \<Rightarrow> ''fiducia'') in
            Option.bind (from_pem ca) (\<lambda>cert.
              map_option (\<lambda>client.
                \<lparr>ka_client = client, ka_base = ''https://kubernetes.default.svc'', ka_namespace = namespace\<rparr>)
                (build cert 5000))))"

definition pods_url :: "'c kube_api \<Rightarrow> string" where
  "pods_url api =
     ka_base api @ ''/api/v1/namespaces/'' @ ka_namespace api @ ''/pods?labelSelector='' @
     concat (map (\<lambda>c. if c = CHR ''='' then ''%3D'' else [c]) NODE_LABEL_SELECTOR)"

definition list_node_pods ::
  "(string \<Rightarrow> string option) \<Rightarrow> ('c \<Rightarrow> string \<Rightarrow> string \<Rightarrow> json option) \<Rightarrow> 'c kube_api \<Rightarrow> json option" where
  "list_node_pods read fetch api =
     Option.bind (read (SA_DIR @ ''/token'')) (\<lambda>token. fetch (ka_client api) (pods_url api) (trim token))"

text \<open>
  \<open>KubeOracle::spawn\<close> and the \<open>match\<close> of \<open>main\<close> on it. What the files hold and what the server answers
  may differ at every turn of the poller.
\<close>

definition spawn ::
  "(string \<Rightarrow> string option) \<Rightarrow> (string \<Rightarrow> 'b option) \<Rightarrow> ('b \<Rightarrow> 'cert option) \<Rightarrow> ('cert \<Rightarrow> nat \<Rightarrow> 'c option)
    \<Rightarrow> ('c kube_api \<times> poller) option" where
  "spawn read read_bytes from_pem build =
     map_option (\<lambda>api. (api, \<lparr>po_cache = empty_cache, po_failures = 0\<rparr>)) (in_cluster read read_bytes from_pem build)"

definition poll_turn ::
  "'c kube_api \<Rightarrow> nat \<times> (string \<Rightarrow> string option) \<times> ('c \<Rightarrow> string \<Rightarrow> string \<Rightarrow> json option) \<Rightarrow> poller \<Rightarrow> poller" where
  "poll_turn api turn p = (case turn of (now, read, fetch) \<Rightarrow> poll_step now (list_node_pods read fetch api) p)"

definition liveness_oracle :: "('c kube_api \<times> poller) option \<Rightarrow> nat \<Rightarrow> node_id \<Rightarrow> pod_liveness" where
  "liveness_oracle kube now =
     (case kube of Some (api, p) \<Rightarrow> kube_liveness (po_cache p) now | None \<Rightarrow> null_oracle)"

subsection \<open>Lemmas\<close>

lemma in_cluster_namespace: "in_cluster read read_bytes from_pem build = Some api \<Longrightarrow> ka_namespace api \<noteq> []"
  by (auto simp: in_cluster_def Let_def bind_eq_Some_conv split: option.splits if_splits)

text \<open>The answers of a sequence of turns, with their instants, and the last list among them.\<close>

fun last_list :: "(nat \<times> json option) list \<Rightarrow> (nat \<times> json) option" where
  "last_list [] = None"
| "last_list ((now, answer) # answers) =
     (case last_list answers of
        Some l \<Rightarrow> Some l
      | None \<Rightarrow> map_option (\<lambda>body. (now, body)) answer)"

definition answers_of :: "'c kube_api \<Rightarrow> (nat \<times> (string \<Rightarrow> string option) \<times> ('c \<Rightarrow> string \<Rightarrow> string \<Rightarrow> json option)) list
    \<Rightarrow> (nat \<times> json option) list" where
  "answers_of api turns = map (\<lambda>(now, read, fetch). (now, list_node_pods read fetch api)) turns"

lemma cache_after_turns:
  "po_cache (fold (poll_turn api) turns p) =
     (case last_list (answers_of api turns) of
        Some (at, body) \<Rightarrow> \<lparr>kc_pods = parse_pod_list body, kc_updated_at = Some at\<rparr>
      | None \<Rightarrow> po_cache p)"
proof (induction turns arbitrary: p)
  case Nil
  show ?case by (simp add: answers_of_def)
next
  case (Cons turn turns)
  then show ?case
    by (cases turn) (auto simp: answers_of_def poll_turn_def poll_step_def split: option.splits)
qed

text \<open>
  What the oracle answers after any number of turns of its poller: the verdict of the last pod list that was
  fetched, while that list is at most fifteen seconds old, and \<open>Unknown\<close> otherwise, also outside a cluster and
  before the first list. Failed turns, a rotated or unreadable token among them, change no answer.
\<close>

theorem oracle_answers_from_last_list:
  assumes "spawn read read_bytes from_pem build = Some (api, p)"
  shows "liveness_oracle (Some (api, fold (poll_turn api) turns p)) now node =
    (case last_list (answers_of api turns) of
       Some (at, body) \<Rightarrow>
         if now - at \<le> STALE_AFTER
         then (case map_of (parse_pod_list body) node of Some l \<Rightarrow> l | None \<Rightarrow> Unknown) else Unknown
     | None \<Rightarrow> Unknown)"
  using assms
  by (auto simp: liveness_oracle_def cache_after_turns spawn_def empty_cache_def kube_liveness_def sat_sub_def
      split: option.splits)

definition sample_read :: "string \<Rightarrow> string option" where
  "sample_read f = (if f = SA_DIR @ ''/token'' then Some ''t'' else None)"

theorem oracle_answers_from_last_list_witness:
  "liveness_oracle (Some (\<lparr>ka_client = (), ka_base = ''https://kubernetes.default.svc'', ka_namespace = ''fiducia''\<rparr>,
      fold (poll_turn \<lparr>ka_client = (), ka_base = ''https://kubernetes.default.svc'', ka_namespace = ''fiducia''\<rparr>)
        [(1000, sample_read, \<lambda>_ _ _. Some (JObject [(''items'', JArray [JObject
            [(''metadata'', JObject [(''name'', JString ''n1'')]), (''status'', JObject [(''phase'', JString ''Failed'')])]])])),
         (4000, \<lambda>_. None, \<lambda>_ _ _. None)]
        \<lparr>po_cache = empty_cache, po_failures = 0\<rparr>)) 5000 ''n1'' = Gone"
proof -
  let ?api = "\<lparr>ka_client = (), ka_base = ''https://kubernetes.default.svc'', ka_namespace = ''fiducia''\<rparr>"
  have "spawn sample_read (\<lambda>_. Some ()) Some (\<lambda>_ _. Some ()) = Some (?api, \<lparr>po_cache = empty_cache, po_failures = 0\<rparr>)"
    by (simp add: spawn_def in_cluster_def sample_read_def)
  then show ?thesis
    by (subst oracle_answers_from_last_list, assumption)
      (simp add: answers_of_def list_node_pods_def sample_read_def STALE_AFTER_def parse_pod_list_def pod_liveness_def)
qed

end
