(* ===== verification/External_Locks.thy ===== *)
theory External_Locks
  imports Main
begin

section \<open>Lock keys of external orchestration (\<open>src/external_locks.rs\<close>)\<close>

text \<open>
  The keys that fence external side effects. The crate \<open>fiducia-lib-core\<close> that builds them is a parameter, the
  record \<open>lock_crate\<close>; a key is compared by its text. \<open>documented_keys\<close> is what the unit test of the file
  records of the crate.
\<close>

type_synonym lock_key = string

record lock_crate =
  lc_brain_plan_apply :: "string \<Rightarrow> lock_key"
  lc_migration :: "string \<Rightarrow> lock_key"
  lc_singleton_job :: "string \<Rightarrow> lock_key"

definition plan_apply :: "lock_crate \<Rightarrow> string \<Rightarrow> lock_key" where
  "plan_apply crate plan_id = lc_brain_plan_apply crate plan_id"

definition migration :: "lock_crate \<Rightarrow> lock_key" where
  "migration crate = lc_migration crate ''brain''"

definition maintenance :: "lock_crate \<Rightarrow> string \<Rightarrow> lock_key" where
  "maintenance crate job = lc_singleton_job crate job"

definition documented_keys :: "lock_crate \<Rightarrow> bool" where
  "documented_keys crate \<longleftrightarrow>
     (\<forall>plan_id. lc_brain_plan_apply crate plan_id = ''fiducia-cloud/brain/plan-apply:'' @ plan_id) \<and>
     (\<forall>service. lc_migration crate service = ''fiducia-cloud/migrations/'' @ service)"

text \<open>Two plans never share a key, and no plan shares the key of the migration.\<close>

lemma plan_keys_are_separate:
  assumes "documented_keys crate"
  shows "plan_apply crate p = plan_apply crate q \<longleftrightarrow> p = q" and "plan_apply crate p \<noteq> migration crate"
  using assms by (simp_all add: documented_keys_def plan_apply_def migration_def)

end
